(* ===== verification/Prelude.thy ===== *)
theory Prelude
  imports Complex_Main "HOL-Library.AList" "HOL-Library.Sublist"
begin

text \<open>
  Shared vocabulary of the development: the JavaScript values the TypeScript sources
  compute with (numbers, strings, JSON), the insertion-ordered \<open>Map\<close> and \<open>Set\<close>, the
  errors the HTTP handlers raise and the transaction discipline
  (\<open>BEGIN\<close>/\<open>COMMIT\<close>/\<open>ROLLBACK\<close>) they run under, and the interface \<open>invariant_system\<close>
  through which every stateful component states that its operations keep its invariant.

  Conventions. A string is the list of its UTF-8 bytes (\<^typ>\<open>string\<close>), so
  \<open>TextEncoder.encode(s).byteLength\<close> is \<^const>\<open>length\<close>, and the UTF-16 length that
  \<open>s.length\<close> reads is \<open>utf16_length\<close>. A number is a rational or one of the three
  non-finite values. \<open>undefined\<close> is \<^const>\<open>None\<close>.
\<close>

named_theorems js_simps "unfolding of the small JavaScript helpers"

section \<open>Numbers\<close>

datatype jsnum = Num rat | NaN | PosInf | NegInf

fun num_is_finite :: "jsnum \<Rightarrow> bool" where
  "num_is_finite (Num r) = True"
| "num_is_finite _ = False"

text \<open>\<open>Number.isInteger\<close>\<close>

fun num_is_integer :: "jsnum \<Rightarrow> bool" where
  "num_is_integer (Num r) = (of_int \<lfloor>r\<rfloor> = r)"
| "num_is_integer _ = False"

text \<open>\<open>Number.isSafeInteger\<close>: an integer of magnitude at most \<open>2^53 - 1\<close>\<close>

definition num_is_safe_integer :: "jsnum \<Rightarrow> bool" where
  "num_is_safe_integer n \<longleftrightarrow> num_is_integer n \<and>
     (case n of Num r \<Rightarrow> \<bar>r\<bar> \<le> 9007199254740991 | _ \<Rightarrow> False)"

text \<open>\<open>a < b\<close> on numbers: every comparison with \<open>NaN\<close> is false\<close>

fun num_less :: "jsnum \<Rightarrow> jsnum \<Rightarrow> bool" where
  "num_less (Num a) (Num b) = (a < b)"
| "num_less (Num a) PosInf = True"
| "num_less NegInf (Num b) = True"
| "num_less NegInf PosInf = True"
| "num_less _ _ = False"

definition num_le :: "jsnum \<Rightarrow> jsnum \<Rightarrow> bool" where
  "num_le a b \<longleftrightarrow> a \<noteq> NaN \<and> b \<noteq> NaN \<and> (a = b \<or> num_less a b)"

text \<open>\<open>Math.trunc\<close>\<close>

fun num_trunc :: "jsnum \<Rightarrow> jsnum" where
  "num_trunc (Num r) = Num (of_int (if r < 0 then \<lceil>r\<rceil> else \<lfloor>r\<rfloor>))"
| "num_trunc n = n"

lemma num_is_safe_integer_Num [js_simps]:
  "num_is_safe_integer (Num r) \<longleftrightarrow> of_int \<lfloor>r\<rfloor> = r \<and> \<bar>r\<bar> \<le> 9007199254740991"
  by (simp add: num_is_safe_integer_def)

lemma num_is_safe_integerD: "num_is_safe_integer n \<Longrightarrow> \<exists>i. n = Num (of_int i)"
  by (cases n) (auto simp: num_is_safe_integer_def dest: sym)

lemma num_is_integerD: "num_is_integer n \<Longrightarrow> \<exists>i. n = Num (of_int i)"
  by (cases n) (auto dest: sym)

lemma num_le_Num [simp]: "num_le (Num a) (Num b) \<longleftrightarrow> a \<le> b"
  by (auto simp: num_le_def)

section \<open>JSON values\<close>

datatype jsval =
    JNull
  | JBool bool
  | JNum jsnum
  | JStr string
  | JArr "jsval list"
  | JObj "(string \<times> jsval) list"

type_synonym jsobj = "(string \<times> jsval) list"

text \<open>Boolean coercion of a value (\<open>if (v)\<close>, \<open>!v\<close>), with \<open>undefined\<close> as \<^const>\<open>None\<close>\<close>

fun truthy :: "jsval \<Rightarrow> bool" where
  "truthy JNull = False"
| "truthy (JBool b) = b"
| "truthy (JNum n) = (n \<noteq> Num 0 \<and> n \<noteq> NaN)"
| "truthy (JStr s) = (s \<noteq> [])"
| "truthy (JArr _) = True"
| "truthy (JObj _) = True"

definition opt_truthy :: "jsval option \<Rightarrow> bool" where
  "opt_truthy v \<longleftrightarrow> (case v of None \<Rightarrow> False | Some w \<Rightarrow> truthy w)"

lemma opt_truthy_simps [simp]:
  "\<not> opt_truthy None" "opt_truthy (Some w) = truthy w"
  by (auto simp: opt_truthy_def)

text \<open>Property access \<open>v.k\<close> (own data properties of an object only)\<close>

fun js_get :: "jsval \<Rightarrow> string \<Rightarrow> jsval option" where
  "js_get (JObj fs) k = map_of fs k"
| "js_get _ _ = None"

fun js_keys :: "jsval \<Rightarrow> string list" where
  "js_keys (JObj fs) = map fst fs"
| "js_keys _ = []"

section \<open>Strings\<close>

text \<open>The white space that \<open>String.prototype.trim\<close> removes, as UTF-8 byte sequences.\<close>

definition js_ws :: "string list" where
  "js_ws = [[CHR 0x09], [CHR 0x0A], [CHR 0x0B], [CHR 0x0C], [CHR 0x0D], [CHR 0x20],
     [CHR 0xC2, CHR 0xA0], [CHR 0xE1, CHR 0x9A, CHR 0x80]] @
     map (\<lambda>c. [CHR 0xE2, CHR 0x80, c])
       [CHR 0x80, CHR 0x81, CHR 0x82, CHR 0x83, CHR 0x84, CHR 0x85, CHR 0x86, CHR 0x87,
        CHR 0x88, CHR 0x89, CHR 0x8A, CHR 0xA8, CHR 0xA9, CHR 0xAF] @
     [[CHR 0xE2, CHR 0x81, CHR 0x9F], [CHR 0xE3, CHR 0x80, CHR 0x80],
      [CHR 0xEF, CHR 0xBB, CHR 0xBF]]"

text \<open>\<open>strip_left ws s\<close> removes leading occurrences of the (non-empty) sequences \<open>ws\<close>.\<close>

function strip_left :: "string list \<Rightarrow> string \<Rightarrow> string" where
  "strip_left ws s =
     (case find (\<lambda>w. w \<noteq> [] \<and> prefix w s) ws of
        None \<Rightarrow> s
      | Some w \<Rightarrow> strip_left ws (drop (length w) s))"
  by pat_completeness auto
termination
  by (relation "measure (\<lambda>(ws, s). length s)")
     (auto simp: find_Some_iff prefix_def)

declare strip_left.simps [simp del]

definition trim :: "string \<Rightarrow> string" where
  "trim s = rev (strip_left (map rev js_ws) (rev (strip_left js_ws s)))"

text \<open>\<open>s.length\<close>: UTF-16 code units of a well-formed UTF-8 byte sequence\<close>

definition utf16_length :: "string \<Rightarrow> nat" where
  "utf16_length s =
     length (filter (\<lambda>c. \<not> (128 \<le> (of_char c :: nat) \<and> of_char c < (192 :: nat))) s) +
     length (filter (\<lambda>c. (240 :: nat) \<le> of_char c) s)"

lemma strip_left_Nil [simp]: "strip_left ws [] = []"
  by (subst strip_left.simps) (auto simp: find_Some_iff split: option.splits)

lemma trim_Nil [simp]: "trim [] = []"
  by (simp add: trim_def)

lemma trim_nonempty: "trim s \<noteq> [] \<Longrightarrow> s \<noteq> []"
  by auto

text \<open>\<open>Array.join\<close>\<close>

fun join :: "string \<Rightarrow> string list \<Rightarrow> string" where
  "join sep [] = []"
| "join sep [x] = x"
| "join sep (x # y # zs) = x @ sep @ join sep (y # zs)"

text \<open>Decimal representation of a natural number (\<open>String(n)\<close> for an index)\<close>

fun nat_str :: "nat \<Rightarrow> string" where
  "nat_str n = (if n < 10 then [char_of (48 + n)] else nat_str (n div 10) @ [char_of (48 + n mod 10)])"

declare nat_str.simps [simp del]

definition str_nat :: "string \<Rightarrow> nat" where
  "str_nat s = foldl (\<lambda>n c. 10 * n + (of_char c - 48)) 0 s"

lemma str_nat_nat_str [simp]: "str_nat (nat_str n) = n"
proof (induction n rule: nat_str.induct)
  case (1 n)
  then show ?case
    by (subst nat_str.simps) (auto simp: str_nat_def)
qed

lemma nat_str_inject [simp]: "nat_str m = nat_str n \<longleftrightarrow> m = n"
  by (metis str_nat_nat_str)

lemma length_nat_str: "n < 10 ^ Suc k \<Longrightarrow> length (nat_str n) \<le> Suc k"
proof (induction k arbitrary: n)
  case 0
  then show ?case by (simp add: nat_str.simps)
next
  case (Suc k)
  then have "n div 10 < 10 ^ Suc k" by (simp add: less_mult_imp_div_less mult.commute)
  from Suc.IH [OF this] show ?case by (subst nat_str.simps) simp
qed

section \<open>Insertion-ordered sets and maps\<close>

text \<open>\<open>[...new Set(xs)]\<close>: the first occurrence of each element, in order\<close>

definition js_uniq :: "'a list \<Rightarrow> 'a list" where
  "js_uniq xs = foldl (\<lambda>acc x. if x \<in> set acc then acc else acc @ [x]) [] xs"

lemma set_foldl_uniq:
  "set (foldl (\<lambda>acc x. if x \<in> set acc then acc else acc @ [x]) acc xs) = set acc \<union> set xs"
  by (induction xs arbitrary: acc) auto

lemma set_js_uniq [simp]: "set (js_uniq xs) = set xs"
  by (simp add: js_uniq_def set_foldl_uniq)

lemma distinct_foldl_uniq:
  "distinct acc \<Longrightarrow> distinct (foldl (\<lambda>acc x. if x \<in> set acc then acc else acc @ [x]) acc xs)"
  by (induction xs arbitrary: acc) auto

lemma distinct_js_uniq [simp]: "distinct (js_uniq xs)"
  by (simp add: js_uniq_def distinct_foldl_uniq)

lemma js_uniq_eq_Nil [simp]: "js_uniq xs = [] \<longleftrightarrow> xs = []"
proof -
  have "js_uniq xs = [] \<longleftrightarrow> set (js_uniq xs) = {}" by (simp del: set_js_uniq)
  also have "\<dots> \<longleftrightarrow> xs = []" by (simp del: set_empty) simp
  finally show ?thesis .
qed

lemma foldl_uniq_id:
  "distinct (acc @ xs) \<Longrightarrow>
     foldl (\<lambda>acc x. if x \<in> set acc then acc else acc @ [x]) acc xs = acc @ xs"
  by (induction xs arbitrary: acc) auto

lemma js_uniq_distinct: "distinct xs \<Longrightarrow> js_uniq xs = xs"
  by (simp add: js_uniq_def foldl_uniq_id)

text \<open>
  A \<open>Map\<close> is an association list: \<^const>\<open>map_of\<close> is \<open>get\<close>, \<^const>\<open>AList.update\<close> is
  \<open>set\<close> (it keeps the position of an existing key and appends a new one).
\<close>

definition map_has :: "('k \<times> 'v) list \<Rightarrow> 'k \<Rightarrow> bool" where
  "map_has m k \<longleftrightarrow> map_of m k \<noteq> None"

definition map_get_or :: "('k \<times> 'v) list \<Rightarrow> 'v \<Rightarrow> 'k \<Rightarrow> 'v" where
  "map_get_or m d k = (case map_of m k of None \<Rightarrow> d | Some v \<Rightarrow> v)"

lemma map_has_iff: "map_has m k \<longleftrightarrow> k \<in> fst ` set m"
  by (force simp: map_has_def map_of_eq_None_iff)

lemma fst_set_update: "fst ` set (AList.update k v m) = insert k (fst ` set m)"
  using dom_update [of k v m] by simp

text \<open>\<open>for (const [index, x] of xs.entries())\<close> collecting a list of results per element\<close>

definition each_indexed :: "(nat \<Rightarrow> 'a \<Rightarrow> 'b list) \<Rightarrow> 'a list \<Rightarrow> 'b list" where
  "each_indexed f xs = concat (map (\<lambda>(i, x). f i x) (enumerate 0 xs))"

lemma concat_enumerate_Nil:
  "(\<And>i x. f i x = [] \<longleftrightarrow> P x) \<Longrightarrow> concat (map (\<lambda>(i, x). f i x) (enumerate k xs)) = [] \<longleftrightarrow> (\<forall>x \<in> set xs. P x)"
  by (induction xs arbitrary: k) auto

lemma each_indexed_Nil: "(\<And>i x. f i x = [] \<longleftrightarrow> P x) \<Longrightarrow> each_indexed f xs = [] \<longleftrightarrow> (\<forall>x \<in> set xs. P x)"
  unfolding each_indexed_def by (rule concat_enumerate_Nil)

lemma set_concat_enumerate:
  "set (concat (map (\<lambda>(i, x). f i x) (enumerate k xs))) = (\<Union>i < length xs. set (f (k + i) (xs ! i)))"
proof (induction xs arbitrary: k)
  case (Cons x xs)
  then show ?case by (force simp: lessThan_Suc_eq_insert_0)
qed simp

lemma set_each_indexed: "set (each_indexed f xs) = (\<Union>i < length xs. set (f i (xs ! i)))"
  using set_concat_enumerate [of f 0 xs] by (simp only: each_indexed_def add_0)

section \<open>Errors and transactions\<close>

text \<open>
  The exceptions of the HTTP layer, by status. The argument is the ASCII code the source
  gives, or a tag naming the branch where the source has a Korean sentence.
\<close>

datatype http_error =
    BadRequest string
  | Unauthorized string
  | Forbidden string
  | NotFound string
  | Conflict string
  | Gone string
  | TooManyRequests string
  | Unavailable string
  | PayloadTooLarge string
  | Internal string

text \<open>
  A handler that runs between \<open>BEGIN\<close> and \<open>COMMIT\<close>, with \<open>ROLLBACK\<close> and a rethrow in its
  \<open>catch\<close>, returns either an error or a value with the new database state. What other
  requests see afterwards is \<open>after s r\<close>: the old state if it failed.
\<close>

type_synonym ('s, 'a) outcome = "http_error + ('a \<times> 's)"

definition after :: "'s \<Rightarrow> ('s, 'a) outcome \<Rightarrow> 's" where
  "after s r = (case r of Inl _ \<Rightarrow> s | Inr (_, s') \<Rightarrow> s')"

lemma after_simps [simp]: "after s (Inl e) = s" "after s (Inr (a, s')) = s'"
  by (auto simp: after_def)

lemma after_cases: "(\<And>a s'. r = Inr (a, s') \<Longrightarrow> P s') \<Longrightarrow> P s \<Longrightarrow> P (after s r)"
  by (auto simp: after_def split: sum.splits)

text \<open>
  A handler that commits some of its work before it fails returns the new state with its reply.
\<close>

type_synonym ('s, 'a) reply = "(http_error + 'a) \<times> 's"

definition commit :: "'s \<Rightarrow> ('s, 'a) outcome \<Rightarrow> ('s, 'a) reply" where
  "commit s r = (case r of Inl e \<Rightarrow> (Inl e, s) | Inr (a, s') \<Rightarrow> (Inr a, s'))"

lemma commit_simps [simp]: "commit s (Inl e) = (Inl e, s)" "commit s (Inr (a, s')) = (Inr a, s')"
  by (auto simp: commit_def)

lemma snd_commit: "snd (commit s r) = after s r"
  by (simp add: commit_def after_def split: sum.split prod.split)

section \<open>Tables\<close>

text \<open>A table is the list of its rows; \<open>update_where\<close> is \<open>UPDATE ... SET ... WHERE\<close>.\<close>

definition update_where :: "('r \<Rightarrow> bool) \<Rightarrow> ('r \<Rightarrow> 'r) \<Rightarrow> 'r list \<Rightarrow> 'r list" where
  "update_where p f rows = map (\<lambda>r. if p r then f r else r) rows"

lemma update_where_Nil [simp]: "update_where p f [] = []"
  by (simp add: update_where_def)

lemma length_update_where [simp]: "length (update_where p f rows) = length rows"
  by (simp add: update_where_def)

lemma set_update_where: "set (update_where p f rows) = {r \<in> set rows. \<not> p r} \<union> f ` {r \<in> set rows. p r}"
  by (auto simp: update_where_def)

lemma in_update_whereE:
  assumes "r \<in> set (update_where p f rows)"
  obtains r0 where "r0 \<in> set rows" "r = (if p r0 then f r0 else r0)"
  using assms by (auto simp: update_where_def)

lemma update_whereI: "r \<in> set rows \<Longrightarrow> (if p r then f r else r) \<in> set (update_where p f rows)"
  by (auto simp: update_where_def)

lemma map_update_where: "(\<And>r. p r \<Longrightarrow> g (f r) = g r) \<Longrightarrow> map g (update_where p f rows) = map g rows"
  by (auto simp: update_where_def)

lemma find_SomeD: "find P xs = Some x \<Longrightarrow> P x \<and> x \<in> set xs"
  by (auto simp: find_Some_iff)

section \<open>Request bodies\<close>

text \<open>\<open>z.string().min(lo).max(hi)\<close> on a property\<close>

definition z_string :: "nat \<Rightarrow> nat \<Rightarrow> jsval option \<Rightarrow> string option" where
  "z_string lo hi v =
     (case v of Some (JStr s) \<Rightarrow> (if lo \<le> utf16_length s \<and> utf16_length s \<le> hi then Some s else None) | _ \<Rightarrow> None)"

text \<open>An optional property: absent is fine, present must parse\<close>

definition z_optional :: "(jsval option \<Rightarrow> 'a option) \<Rightarrow> jsval option \<Rightarrow> 'a option option" where
  "z_optional p v = (case v of None \<Rightarrow> Some None | Some w \<Rightarrow> map_option Some (p (Some w)))"

fun is_object :: "jsval \<Rightarrow> bool" where
  "is_object (JObj _) = True"
| "is_object _ = False"

section \<open>Components that keep an invariant\<close>

text \<open>
  The contract of a stateful component: \<open>step op s\<close> is the committed state after one
  request \<open>op\<close>, and every request keeps \<open>inv\<close>. Clients use the facts about whole request
  sequences and about reachable states.
\<close>

locale invariant_system =
  fixes step :: "'op \<Rightarrow> 's \<Rightarrow> 's"
    and inv :: "'s \<Rightarrow> bool"
  assumes step_inv: "inv s \<Longrightarrow> inv (step op s)"
begin

lemma run_inv: "inv s \<Longrightarrow> inv (fold step ops s)"
  by (induction ops arbitrary: s) (auto intro: step_inv)

lemma run_prefix_inv: "inv s \<Longrightarrow> inv (fold step (take n ops) s)"
  by (rule run_inv)

end

text \<open>
  A component in which some requests are only ever granted once: \<open>used s\<close> is the set of
  resources consumed so far, no request gives one back, and a request may consume a
  resource (\<open>takes op s = Some r\<close>) only while it is unused and then records it.
\<close>

locale one_shot_system =
  fixes step :: "'op \<Rightarrow> 's \<Rightarrow> 's"
    and takes :: "'op \<Rightarrow> 's \<Rightarrow> 'r option"
    and used :: "'s \<Rightarrow> 'r set"
  assumes takes_fresh: "takes op s = Some r \<Longrightarrow> r \<notin> used s"
    and takes_records: "takes op s = Some r \<Longrightarrow> r \<in> used (step op s)"
    and used_mono: "r \<in> used s \<Longrightarrow> r \<in> used (step op s)"
begin

lemma used_run: "r \<in> used s \<Longrightarrow> r \<in> used (fold step ops s)"
  by (induction ops arbitrary: s) (auto intro: used_mono)

lemma never_twice:
  assumes "takes op s = Some r"
  shows "takes op' (fold step ops (step op s)) \<noteq> Some r"
  using assms takes_records used_run takes_fresh by blast

end


section \<open>Components that spend a budget\<close>

text \<open>
  \<open>spent\<close> sums the cost of a sequence of requests; \<open>run_ok\<close> says that each request is admissible in the state it
  meets (for instance that its clock does not go back).
\<close>

fun spent :: "('op \<Rightarrow> 's \<Rightarrow> 's) \<Rightarrow> ('op \<Rightarrow> 's \<Rightarrow> rat) \<Rightarrow> 'op list \<Rightarrow> 's \<Rightarrow> rat" where
  "spent step cost [] s = 0"
| "spent step cost (r # rs) s = cost r s + spent step cost rs (step r s)"

fun run_ok :: "('op \<Rightarrow> 's \<Rightarrow> 's) \<Rightarrow> ('op \<Rightarrow> 's \<Rightarrow> bool) \<Rightarrow> 'op list \<Rightarrow> 's \<Rightarrow> bool" where
  "run_ok step ok [] s = True"
| "run_ok step ok (r # rs) s = (ok r s \<and> run_ok step ok rs (step r s))"

locale budget_system =
  fixes step :: "'op \<Rightarrow> 's \<Rightarrow> 's"
    and cost :: "'op \<Rightarrow> 's \<Rightarrow> rat"
    and budget :: "'s \<Rightarrow> rat"
    and ok :: "'op \<Rightarrow> 's \<Rightarrow> bool"
    and inv :: "'s \<Rightarrow> bool"
  assumes pay: "inv s \<Longrightarrow> ok r s \<Longrightarrow> cost r s + budget (step r s) \<le> budget s"
    and keep: "inv s \<Longrightarrow> ok r s \<Longrightarrow> inv (step r s)"
    and nonneg: "inv s \<Longrightarrow> 0 \<le> budget s"
begin

lemma spent_budget: "inv s \<Longrightarrow> run_ok step ok rs s \<Longrightarrow> spent step cost rs s + budget (fold step rs s) \<le> budget s"
proof (induction rs arbitrary: s)
  case (Cons r rs)
  then have "spent step cost rs (step r s) + budget (fold step rs (step r s)) \<le> budget (step r s)"
    using keep by simp
  then show ?case using pay [of s r] Cons.prems by simp
qed simp

lemma inv_run: "inv s \<Longrightarrow> run_ok step ok rs s \<Longrightarrow> inv (fold step rs s)"
  by (induction rs arbitrary: s) (auto intro: keep)

lemma spent_bounded: "inv s \<Longrightarrow> run_ok step ok rs s \<Longrightarrow> spent step cost rs s \<le> budget s"
  using spent_budget [of s rs] nonneg [OF inv_run, of s rs] by simp

end

end
