(* ===== verification/Segment_DSL.thy ===== *)
theory Segment_DSL
  imports Prelude
begin

text \<open>
  The segment compiler \<open>packages/segment-dsl/src/index.ts\<close>: a segment definition (groups of
  conditions combined with AND/OR) is translated to a ClickHouse \<open>SELECT\<close> with positional
  placeholders, and \<open>toClickHouse\<close> turns the placeholders into named parameters just before
  the query runs. The definitions thread the argument array \<open>Params.args\<close> explicitly and
  raise \<open>CompileError\<close> as a value. A condition is the JSON object the API stores
  (\<open>z.record(z.unknown())\<close>), so every field may be absent or of any type.

  The reference semantics is a list of fragments, constant SQL text or bound values, and
  the refinement theorem says that the emitted string and the argument array are exactly
  the two readings of that list. \<open>ns\<close> is ECMAScript's \<open>Number::toString\<close>.
\<close>

section \<open>Data\<close>

datatype category = Marketing | Transactional

record segment_group =
  g_operator :: string
  g_conditions :: "jsobj list"

record segment_dsl =
  dsl_version :: jsnum
  dsl_operator :: string
  dsl_groups :: "segment_group list"

type_synonym compiled = "string \<times> jsval list"

datatype compile_error =
    UnsupportedVersion | BadRootOperator | BadGroupOperator | EmptyGroup
  | UnknownConditionType | MissingKey | AttributeOp | ChannelOp | PlatformValue
  | DeviceColumn | DeviceOp | DeviceUnsupported
  | MissingEvent | MissingWindow | EventOp
  | UnsupportedValue | NotArray | ArrayElement | NotInteger
  | PlaceholderMismatch nat nat

definition STD_ATTR_KEYS :: "string list" where
  "STD_ATTR_KEYS = [''external_id'', ''first_name'', ''last_name'', ''email'', ''phone'',
     ''language'', ''country'', ''timezone'', ''created_at'', ''last_seen_at'',
     ''dob'', ''gender'', ''home_city'']"

definition CMP_OPS :: "(string \<times> string) list" where
  "CMP_OPS = [(''eq'', ''=''), (''neq'', ''!=''), (''gt'', ''>''), (''gte'', ''>=''),
     (''lt'', ''<''), (''lte'', ''<='')]"

definition DEVICE_COLS :: "string list" where
  "DEVICE_COLS = [''app_version'', ''os_version'']"

definition PLATFORM_VALUES :: "string list" where
  "PLATFORM_VALUES = [''ios'', ''android'']"

section \<open>Value coercions\<close>

fun scalar :: "jsval option \<Rightarrow> compile_error + (jsval \<times> bool)" where
  "scalar (Some (JStr s)) = Inr (JStr s, False)"
| "scalar (Some (JNum n)) = Inr (JNum n, True)"
| "scalar (Some (JBool b)) = Inr (JStr (if b then ''true'' else ''false''), False)"
| "scalar _ = Inl UnsupportedValue"

fun array_elems :: "(jsnum \<Rightarrow> string) \<Rightarrow> jsval list \<Rightarrow> compile_error + jsval list" where
  "array_elems ns [] = Inr []"
| "array_elems ns (v # vs) =
     (case (case v of JStr s \<Rightarrow> Some (JStr s)
                    | JNum n \<Rightarrow> Some (JStr (ns n))
                    | JBool b \<Rightarrow> Some (JStr (if b then ''true'' else ''false''))
                    | _ \<Rightarrow> None) of
        None \<Rightarrow> Inl ArrayElement
      | Some w \<Rightarrow> (case array_elems ns vs of Inl e \<Rightarrow> Inl e | Inr ws \<Rightarrow> Inr (w # ws)))"

fun arrayValues :: "(jsnum \<Rightarrow> string) \<Rightarrow> jsval option \<Rightarrow> compile_error + jsval list" where
  "arrayValues ns (Some (JArr vs)) = array_elems ns vs"
| "arrayValues ns _ = Inl NotArray"

fun intValue :: "jsval option \<Rightarrow> compile_error + jsval" where
  "intValue (Some (JNum n)) = Inr (JNum (num_trunc n))"
| "intValue _ = Inl NotInteger"

section \<open>Emitting SQL with positional arguments\<close>

text \<open>\<open>Params.add\<close>\<close>

definition add :: "jsval list \<Rightarrow> jsval \<Rightarrow> string \<times> jsval list" where
  "add p v = (''?'', p @ [v])"

text \<open>\<open>vals.map((v) => p.add(v))\<close>\<close>

fun add_each :: "jsval list \<Rightarrow> jsval list \<Rightarrow> string list \<times> jsval list" where
  "add_each p [] = ([], p)"
| "add_each p (v # vs) =
     (let (h, p1) = add p v; (hs, p2) = add_each p1 vs in (h # hs, p2))"

abbreviation field :: "jsobj \<Rightarrow> string \<Rightarrow> jsval option" where
  "field c k \<equiv> map_of c k"

definition op_is :: "jsobj \<Rightarrow> string \<Rightarrow> bool" where
  "op_is c s \<longleftrightarrow> field c ''op'' = Some (JStr s)"

text \<open>The \<open>case\<close> labels that are comparison operators, and \<open>CMP_OPS[c.op]\<close>\<close>

definition is_cmp :: "jsobj \<Rightarrow> bool" where
  "is_cmp c \<longleftrightarrow> list_ex (\<lambda>(o1, _). op_is c o1) CMP_OPS"

definition cmp_text :: "jsobj \<Rightarrow> string" where
  "cmp_text c = (case find (\<lambda>(o1, _). op_is c o1) CMP_OPS of Some (_, s) \<Rightarrow> s | None \<Rightarrow> [])"

text \<open>\<open>v != null\<close>: neither \<open>undefined\<close> nor \<open>null\<close>\<close>

definition non_null :: "jsval option \<Rightarrow> bool" where
  "non_null v \<longleftrightarrow> v \<noteq> None \<and> v \<noteq> Some JNull"

abbreviation squote :: string where
  "squote \<equiv> [CHR 0x27]"

definition is_std :: "jsval \<Rightarrow> bool" where
  "is_std key \<longleftrightarrow> (case key of JStr k \<Rightarrow> k \<in> set STD_ATTR_KEYS | _ \<Rightarrow> False)"

definition promoted :: "jsval \<Rightarrow> bool" where
  "promoted key \<longleftrightarrow> (case key of JStr k \<Rightarrow> k \<in> {''dob'', ''gender'', ''home_city''} | _ \<Rightarrow> False)"

definition attr_col :: "jsval \<Rightarrow> string" where
  "attr_col key = (if is_std key then ''std_attrs'' else ''custom_attrs'')"

definition jsonExtract :: "jsval \<Rightarrow> string \<Rightarrow> jsval list \<Rightarrow> string \<times> jsval list" where
  "jsonExtract key fn p =
     (if promoted key then
        let (h1, p1) = add p key; (h2, p2) = add p1 key; (h3, p3) = add p2 key
        in (''if(JSONHas(std_attrs, '' @ h1 @ ''), '' @ fn @ ''(std_attrs, '' @ h2 @ ''), '' @
            fn @ ''(custom_attrs, '' @ h3 @ ''))'', p3)
      else
        let (h, p1) = add p key
        in (fn @ ''('' @ attr_col key @ '', '' @ h @ '')'', p1))"

type_synonym emission = "compile_error + (string \<times> jsval list)"

definition compileAttribute :: "(jsnum \<Rightarrow> string) \<Rightarrow> jsobj \<Rightarrow> jsval list \<Rightarrow> emission" where
  "compileAttribute ns c p =
     (case field c ''key'' of
        None \<Rightarrow> Inl MissingKey
      | Some key \<Rightarrow>
          if \<not> truthy key then Inl MissingKey
          else
            let extract = jsonExtract key ''JSONExtractString'';
                extractRaw = jsonExtract key ''JSONExtractRaw''
            in
            if op_is c ''exists'' then
              let (x, p1) = extractRaw p in Inr (x @ '' != '' @ squote @ squote, p1)
            else if op_is c ''not_exists'' then
              let (x, p1) = extractRaw p in Inr (x @ '' = '' @ squote @ squote, p1)
            else if is_cmp c then
              (case scalar (field c ''value'') of
                 Inl e \<Rightarrow> Inl e
               | Inr (v, isNum) \<Rightarrow>
                   let op = cmp_text c
                   in if isNum then
                        let (x, p1) = extract p; (h, p2) = add p1 v
                        in Inr (''toFloat64OrNull('' @ x @ '') '' @ op @ '' '' @ h, p2)
                      else
                        let (x, p1) = extract p; (h, p2) = add p1 v
                        in Inr (x @ '' '' @ op @ '' '' @ h, p2))
            else if op_is c ''in'' then
              (case arrayValues ns (field c ''value'') of
                 Inl e \<Rightarrow> Inl e
               | Inr vals \<Rightarrow>
                   if vals = [] then Inr (''0'', p)
                   else let (x, p1) = extract p; (hs, p2) = add_each p1 vals
                        in Inr (x @ '' IN ('' @ join '', '' hs @ '')'', p2))
            else if op_is c ''contains'' then
              (case scalar (field c ''value'') of
                 Inl e \<Rightarrow> Inl e
               | Inr (v, _) \<Rightarrow>
                   let (x, p1) = extractRaw p; (h, p2) = add p1 v
                   in Inr (''has(JSONExtract('' @ x @ '', '' @ squote @ ''Array(String)'' @ squote @ ''), '' @ h @ '')'', p2))
            else if op_is c ''in_last_days'' \<or> op_is c ''not_in_last_days'' then
              (case intValue (field c ''value'') of
                 Inl e \<Rightarrow> Inl e
               | Inr days \<Rightarrow>
                   let cmp = (if op_is c ''not_in_last_days'' then ''<'' else ''>='');
                       (x, p1) = extract p; (h, p2) = add p1 days
                   in Inr (''parseDateTimeBestEffortOrNull('' @ x @ '') '' @ cmp @
                           '' now() - INTERVAL '' @ h @ '' DAY'', p2))
            else if op_is c ''before'' \<or> op_is c ''after'' then
              (case scalar (field c ''value'') of
                 Inl e \<Rightarrow> Inl e
               | Inr (v, _) \<Rightarrow>
                   let cmp = (if op_is c ''after'' then ''>'' else ''<'');
                       (x, p1) = extract p; (h, p2) = add p1 v
                   in Inr (''parseDateTimeBestEffortOrNull('' @ x @ '') '' @ cmp @
                           '' parseDateTimeBestEffortOrNull('' @ h @ '')'', p2))
            else Inl AttributeOp)"

fun check_platforms :: "jsval list \<Rightarrow> jsval list \<Rightarrow> compile_error + (string list \<times> jsval list)" where
  "check_platforms p [] = Inr ([], p)"
| "check_platforms p (v # vs) =
     (if (case v of JStr s \<Rightarrow> s \<in> set PLATFORM_VALUES | _ \<Rightarrow> False) then
        let (h, p1) = add p v
        in (case check_platforms p1 vs of Inl e \<Rightarrow> Inl e | Inr (hs, p2) \<Rightarrow> Inr (h # hs, p2))
      else Inl PlatformValue)"

definition compileChannel :: "(jsnum \<Rightarrow> string) \<Rightarrow> jsobj \<Rightarrow> category \<Rightarrow> jsval list \<Rightarrow> emission" where
  "compileChannel ns c category p =
     (if op_is c ''push_reachable'' then
        Inr (if category = Transactional
             then ''(os_permission_granted = 1 AND token_active = 1)''
             else ''(push_opt_in = 1 AND os_permission_granted = 1 AND token_active = 1)'', p)
      else if op_is c ''token_platform_in'' then
        (case arrayValues ns (field c ''value'') of
           Inl e \<Rightarrow> Inl e
         | Inr vals \<Rightarrow>
             if vals = [] then Inr (''0'', p)
             else (case check_platforms p vals of
                     Inl e \<Rightarrow> Inl e
                   | Inr (hs, p1) \<Rightarrow>
                       Inr (''arrayExists(x -> x IN ('' @ join '', '' hs @ ''), platforms)'', p1)))
      else Inl ChannelOp)"

text \<open>The operator test \<open>c.op in CMP_OPS\<close> only chooses between two errors.\<close>

definition compileDevice :: "jsobj \<Rightarrow> jsval list \<Rightarrow> emission" where
  "compileDevice c p =
     (if \<not> (case field c ''key'' of Some (JStr k) \<Rightarrow> k \<in> set DEVICE_COLS | _ \<Rightarrow> False) then Inl DeviceColumn
      else if \<not> is_cmp c then Inl DeviceOp
      else Inl DeviceUnsupported)"

definition event_base ::
  "jsobj \<Rightarrow> jsval \<Rightarrow> string \<Rightarrow> string \<Rightarrow> bool \<Rightarrow> jsval list \<Rightarrow> string \<times> jsval list" where
  "event_base c ev tenantId appId applyWindow p =
     (let (h1, p1) = add p (JStr tenantId);
          (h2, p2) = add p1 (JStr appId);
          mergeMap = ''(SELECT from_user_id, argMax(to_user_id, merged_at) AS to_user_id FROM user_merges WHERE tenant_id = toUUID('' @
            h1 @ '') AND app_id = toUUID('' @ h2 @ '') GROUP BY from_user_id)'';
          (h3, p3) = add p2 (JStr tenantId);
          (h4, p4) = add p3 (JStr appId);
          (h5, p5) = add p4 ev;
          qu = ''SELECT if(m.to_user_id = toUUID('' @ squote @ ''00000000-0000-0000-0000-000000000000'' @ squote @
            ''), e.user_id, m.to_user_id) AS user_id FROM events e LEFT JOIN '' @ mergeMap @
            '' m ON e.user_id = m.from_user_id WHERE e.tenant_id = toUUID('' @ h3 @
            '') AND e.app_id = toUUID('' @ h4 @ '') AND e.event_name = '' @ h5
      in if applyWindow \<and> non_null (field c ''window_days'')
         then let (h6, p6) = add p5 (the (field c ''window_days''))
              in (qu @ '' AND e.server_ts >= now() - INTERVAL '' @ h6 @ '' DAY'', p6)
         else (qu, p5))"

definition compileEvent :: "jsobj \<Rightarrow> string \<Rightarrow> string \<Rightarrow> jsval list \<Rightarrow> emission" where
  "compileEvent c tenantId appId p =
     (case field c ''event'' of
        None \<Rightarrow> Inl MissingEvent
      | Some ev \<Rightarrow>
          if \<not> truthy ev then Inl MissingEvent
          else if op_is c ''performed'' then
            let (b, p1) = event_base c ev tenantId appId True p
            in Inr (''user_id IN ('' @ b @ '' GROUP BY user_id)'', p1)
          else if op_is c ''not_performed'' then
            let (b, p1) = event_base c ev tenantId appId True p
            in Inr (''user_id NOT IN ('' @ b @ '' GROUP BY user_id)'', p1)
          else if op_is c ''count_gte'' \<or> op_is c ''count_lte'' then
            (case intValue (field c ''value'') of
               Inl e \<Rightarrow> Inl e
             | Inr n \<Rightarrow>
                 let cmp = (if op_is c ''count_lte'' then ''<='' else ''>='');
                     (b, p1) = event_base c ev tenantId appId True p;
                     (h, p2) = add p1 n
                 in Inr (''user_id IN ('' @ b @ '' GROUP BY user_id HAVING uniqExact(insert_id) '' @ cmp @
                         '' '' @ h @ '')'', p2))
          else if op_is c ''first_performed'' \<or> op_is c ''last_performed'' then
            (if \<not> non_null (field c ''window_days'') then Inl MissingWindow
             else
               let agg = (if op_is c ''last_performed'' then ''max'' else ''min'');
                   (b, p1) = event_base c ev tenantId appId False p;
                   (h, p2) = add p1 (the (field c ''window_days''))
               in Inr (''user_id IN ('' @ b @ '' GROUP BY user_id HAVING '' @ agg @
                       ''(e.server_ts) >= now() - INTERVAL '' @ h @ '' DAY)'', p2))
          else Inl EventOp)"

definition type_is :: "jsobj \<Rightarrow> string \<Rightarrow> bool" where
  "type_is c s \<longleftrightarrow> field c ''type'' = Some (JStr s)"

definition compileCondition ::
  "(jsnum \<Rightarrow> string) \<Rightarrow> string \<Rightarrow> string \<Rightarrow> category \<Rightarrow> jsobj \<Rightarrow> jsval list \<Rightarrow> emission" where
  "compileCondition ns tenantId appId category c p =
     (if type_is c ''attribute'' then compileAttribute ns c p
      else if type_is c ''channel'' then compileChannel ns c category p
      else if type_is c ''device'' then compileDevice c p
      else if type_is c ''event'' then compileEvent c tenantId appId p
      else Inl UnknownConditionType)"

text \<open>\<open>xs.map((x) => compileX(x, ..., p))\<close>: left to right, the first error escapes\<close>

fun emit_list :: "('c \<Rightarrow> jsval list \<Rightarrow> emission) \<Rightarrow> 'c list \<Rightarrow> jsval list \<Rightarrow>
    compile_error + (string list \<times> jsval list)" where
  "emit_list emit [] p = Inr ([], p)"
| "emit_list emit (c # cs) p =
     (case emit c p of
        Inl e \<Rightarrow> Inl e
      | Inr (s, p1) \<Rightarrow>
          (case emit_list emit cs p1 of
             Inl e \<Rightarrow> Inl e
           | Inr (ss, p2) \<Rightarrow> Inr (s # ss, p2)))"

definition compileGroup ::
  "(jsnum \<Rightarrow> string) \<Rightarrow> string \<Rightarrow> string \<Rightarrow> category \<Rightarrow> segment_group \<Rightarrow> jsval list \<Rightarrow> emission" where
  "compileGroup ns tenantId appId category g p =
     (if g_operator g \<noteq> ''AND'' \<and> g_operator g \<noteq> ''OR'' then Inl BadGroupOperator
      else if g_conditions g = [] then Inl EmptyGroup
      else (case emit_list (compileCondition ns tenantId appId category) (g_conditions g) p of
              Inl e \<Rightarrow> Inl e
            | Inr (parts, p1) \<Rightarrow>
                Inr (''('' @ join ('' '' @ g_operator g @ '' '') parts @ '')'', p1)))"

definition compile ::
  "(jsnum \<Rightarrow> string) \<Rightarrow> segment_dsl \<Rightarrow> string \<Rightarrow> string \<Rightarrow> category \<Rightarrow> compile_error + compiled" where
  "compile ns dsl tenantId appId category =
     (if dsl_version dsl \<noteq> Num 1 then Inl UnsupportedVersion
      else if dsl_operator dsl \<noteq> ''AND'' \<and> dsl_operator dsl \<noteq> ''OR'' then Inl BadRootOperator
      else
        let (h1, p1) = add [] (JStr tenantId);
            (h2, p2) = add p1 (JStr appId);
            where0 = [''tenant_id = toUUID('' @ h1 @ '')'', ''app_id = toUUID('' @ h2 @ '')'',
                      ''status = '' @ squote @ ''active'' @ squote];
            finish = (\<lambda>w p. (''SELECT user_id FROM profiles_mirror FINAL WHERE '' @ join '' AND '' w, p))
        in if dsl_groups dsl = [] then Inr (finish where0 p2)
           else (case emit_list (compileGroup ns tenantId appId category) (dsl_groups dsl) p2 of
                   Inl e \<Rightarrow> Inl e
                 | Inr (gs, p3) \<Rightarrow>
                     Inr (finish (where0 @ [''('' @ join ('' '' @ dsl_operator dsl @ '' '') gs @ '')'']) p3)))"

section \<open>Named parameters\<close>

text \<open>
  \<open>toClickHouse\<close>: every \<open>?\<close> becomes \<open>{pN:Type}\<close>. An argument beyond the array is
  \<open>undefined\<close>; a leftover argument is an error.
\<close>

definition param_type :: "jsval option \<Rightarrow> string" where
  "param_type v = (case v of Some (JNum n) \<Rightarrow> (if num_is_integer n then ''Int64'' else ''Float64'') | _ \<Rightarrow> ''String'')"

definition param_name :: "nat \<Rightarrow> string" where
  "param_name i = ''p'' @ nat_str i"

fun replace_holes :: "jsval list \<Rightarrow> string \<Rightarrow> nat \<Rightarrow> (string \<times> jsval option) list \<Rightarrow>
    string \<times> nat \<times> (string \<times> jsval option) list" where
  "replace_holes args [] i ps = ([], i, ps)"
| "replace_holes args (ch # s) i ps =
     (if ch = CHR ''?'' then
        let value = (if i < length args then Some (args ! i) else None);
            name = param_name i;
            (out, i', ps') = replace_holes args s (i + 1) (AList.update name value ps)
        in (CHR ''{'' # name @ '':'' @ param_type value @ ''}'' @ out, i', ps')
      else let (out, i', ps') = replace_holes args s i ps in (ch # out, i', ps'))"

definition toClickHouse :: "compiled \<Rightarrow> compile_error + (string \<times> (string \<times> jsval option) list)" where
  "toClickHouse compiled =
     (let (sql, args) = compiled;
          (out, i, ps) = replace_holes args sql 0 []
      in if i \<noteq> length args then Inl (PlaceholderMismatch i (length args))
         else Inr (out, ps))"


section \<open>Reference semantics: fragments\<close>

datatype frag = Lit string | Hole jsval

fun frag_text :: "frag \<Rightarrow> string" where
  "frag_text (Lit s) = s"
| "frag_text (Hole v) = ''?''"

fun frag_args :: "frag \<Rightarrow> jsval list" where
  "frag_args (Lit s) = []"
| "frag_args (Hole v) = [v]"

fun frag_lits :: "frag \<Rightarrow> string list" where
  "frag_lits (Lit s) = [s]"
| "frag_lits (Hole v) = []"

definition render :: "frag list \<Rightarrow> string" where
  "render fs = concat (map frag_text fs)"

definition holes :: "frag list \<Rightarrow> jsval list" where
  "holes fs = concat (map frag_args fs)"

definition lits :: "frag list \<Rightarrow> string set" where
  "lits fs = set (concat (map frag_lits fs))"

lemma frag_simps [simp]:
  "render [] = []" "render (f # fs) = frag_text f @ render fs"
  "render (fs @ gs) = render fs @ render gs"
  "holes [] = []" "holes (f # fs) = frag_args f @ holes fs"
  "holes (fs @ gs) = holes fs @ holes gs"
  "lits [] = {}" "lits (f # fs) = set (frag_lits f) \<union> lits fs"
  "lits (fs @ gs) = lits fs \<union> lits gs"
  by (auto simp: render_def holes_def lits_def)

fun join_frags :: "frag list \<Rightarrow> frag list list \<Rightarrow> frag list" where
  "join_frags sep [] = []"
| "join_frags sep [x] = x"
| "join_frags sep (x # y # zs) = x @ sep @ join_frags sep (y # zs)"

lemma render_join_frags: "render (join_frags sep xs) = join (render sep) (map render xs)"
  by (induction sep xs rule: join_frags.induct) auto

lemma holes_join_frags: "holes sep = [] \<Longrightarrow> holes (join_frags sep xs) = concat (map holes xs)"
  by (induction sep xs rule: join_frags.induct) auto

lemma lits_join_frags: "lits (join_frags sep xs) \<subseteq> lits sep \<union> \<Union> (lits ` set xs)"
  by (induction sep xs rule: join_frags.induct) auto

definition extract_frags :: "jsval \<Rightarrow> string \<Rightarrow> frag list" where
  "extract_frags key fn =
     (if promoted key then
        [Lit ''if(JSONHas(std_attrs, '', Hole key, Lit ''), '', Lit fn, Lit ''(std_attrs, '', Hole key,
         Lit ''), '', Lit fn, Lit ''(custom_attrs, '', Hole key, Lit ''))'']
      else [Lit fn, Lit ''('', Lit (attr_col key), Lit '', '', Hole key, Lit '')''])"

definition hole_list :: "jsval list \<Rightarrow> frag list" where
  "hole_list vs = join_frags [Lit '', ''] (map (\<lambda>v. [Hole v]) vs)"

definition attribute_frags :: "(jsnum \<Rightarrow> string) \<Rightarrow> jsobj \<Rightarrow> compile_error + frag list" where
  "attribute_frags ns c =
     (case field c ''key'' of
        None \<Rightarrow> Inl MissingKey
      | Some key \<Rightarrow>
          if \<not> truthy key then Inl MissingKey
          else
            let extract = extract_frags key ''JSONExtractString'';
                raw = extract_frags key ''JSONExtractRaw''
            in
            if op_is c ''exists'' then Inr (raw @ [Lit '' != '', Lit squote, Lit squote])
            else if op_is c ''not_exists'' then Inr (raw @ [Lit '' = '', Lit squote, Lit squote])
            else if is_cmp c then
              (case scalar (field c ''value'') of
                 Inl e \<Rightarrow> Inl e
               | Inr (v, isNum) \<Rightarrow>
                   Inr ((if isNum then [Lit ''toFloat64OrNull(''] @ extract @ [Lit '') ''] else extract @ [Lit '' '']) @
                        [Lit (cmp_text c), Lit '' '', Hole v]))
            else if op_is c ''in'' then
              (case arrayValues ns (field c ''value'') of
                 Inl e \<Rightarrow> Inl e
               | Inr vals \<Rightarrow>
                   if vals = [] then Inr [Lit ''0'']
                   else Inr (extract @ [Lit '' IN (''] @ hole_list vals @ [Lit '')'']))
            else if op_is c ''contains'' then
              (case scalar (field c ''value'') of
                 Inl e \<Rightarrow> Inl e
               | Inr (v, _) \<Rightarrow>
                   Inr ([Lit ''has(JSONExtract(''] @ raw @
                        [Lit '', '', Lit squote, Lit ''Array(String)'', Lit squote, Lit ''), '', Hole v, Lit '')'']))
            else if op_is c ''in_last_days'' \<or> op_is c ''not_in_last_days'' then
              (case intValue (field c ''value'') of
                 Inl e \<Rightarrow> Inl e
               | Inr days \<Rightarrow>
                   Inr ([Lit ''parseDateTimeBestEffortOrNull(''] @ extract @
                        [Lit '') '', Lit (if op_is c ''not_in_last_days'' then ''<'' else ''>=''),
                         Lit '' now() - INTERVAL '', Hole days, Lit '' DAY'']))
            else if op_is c ''before'' \<or> op_is c ''after'' then
              (case scalar (field c ''value'') of
                 Inl e \<Rightarrow> Inl e
               | Inr (v, _) \<Rightarrow>
                   Inr ([Lit ''parseDateTimeBestEffortOrNull(''] @ extract @
                        [Lit '') '', Lit (if op_is c ''after'' then ''>'' else ''<''),
                         Lit '' parseDateTimeBestEffortOrNull('', Hole v, Lit '')'']))
            else Inl AttributeOp)"

definition channel_frags :: "(jsnum \<Rightarrow> string) \<Rightarrow> jsobj \<Rightarrow> category \<Rightarrow> compile_error + frag list" where
  "channel_frags ns c category =
     (if op_is c ''push_reachable'' then
        Inr [Lit (if category = Transactional
                  then ''(os_permission_granted = 1 AND token_active = 1)''
                  else ''(push_opt_in = 1 AND os_permission_granted = 1 AND token_active = 1)'')]
      else if op_is c ''token_platform_in'' then
        (case arrayValues ns (field c ''value'') of
           Inl e \<Rightarrow> Inl e
         | Inr vals \<Rightarrow>
             if vals = [] then Inr [Lit ''0'']
             else if list_all (\<lambda>v. case v of JStr s \<Rightarrow> s \<in> set PLATFORM_VALUES | _ \<Rightarrow> False) vals
             then Inr ([Lit ''arrayExists(x -> x IN (''] @ hole_list vals @ [Lit ''), platforms)''])
             else Inl PlatformValue)
      else Inl ChannelOp)"

definition event_frags :: "jsobj \<Rightarrow> jsval \<Rightarrow> string \<Rightarrow> string \<Rightarrow> bool \<Rightarrow> frag list" where
  "event_frags c ev tenantId appId applyWindow =
     [Lit ''SELECT if(m.to_user_id = toUUID('', Lit squote, Lit ''00000000-0000-0000-0000-000000000000'', Lit squote,
      Lit ''), e.user_id, m.to_user_id) AS user_id FROM events e LEFT JOIN '',
      Lit ''(SELECT from_user_id, argMax(to_user_id, merged_at) AS to_user_id FROM user_merges WHERE tenant_id = toUUID('',
      Hole (JStr tenantId), Lit '') AND app_id = toUUID('', Hole (JStr appId), Lit '') GROUP BY from_user_id)'',
      Lit '' m ON e.user_id = m.from_user_id WHERE e.tenant_id = toUUID('', Hole (JStr tenantId),
      Lit '') AND e.app_id = toUUID('', Hole (JStr appId), Lit '') AND e.event_name = '', Hole ev] @
     (if applyWindow \<and> non_null (field c ''window_days'')
      then [Lit '' AND e.server_ts >= now() - INTERVAL '', Hole (the (field c ''window_days'')), Lit '' DAY'']
      else [])"

definition event_cond_frags :: "jsobj \<Rightarrow> string \<Rightarrow> string \<Rightarrow> compile_error + frag list" where
  "event_cond_frags c tenantId appId =
     (case field c ''event'' of
        None \<Rightarrow> Inl MissingEvent
      | Some ev \<Rightarrow>
          if \<not> truthy ev then Inl MissingEvent
          else if op_is c ''performed'' then
            Inr ([Lit ''user_id IN (''] @ event_frags c ev tenantId appId True @ [Lit '' GROUP BY user_id)''])
          else if op_is c ''not_performed'' then
            Inr ([Lit ''user_id NOT IN (''] @ event_frags c ev tenantId appId True @ [Lit '' GROUP BY user_id)''])
          else if op_is c ''count_gte'' \<or> op_is c ''count_lte'' then
            (case intValue (field c ''value'') of
               Inl e \<Rightarrow> Inl e
             | Inr n \<Rightarrow>
                 Inr ([Lit ''user_id IN (''] @ event_frags c ev tenantId appId True @
                      [Lit '' GROUP BY user_id HAVING uniqExact(insert_id) '',
                       Lit (if op_is c ''count_lte'' then ''<='' else ''>=''), Lit '' '', Hole n, Lit '')'']))
          else if op_is c ''first_performed'' \<or> op_is c ''last_performed'' then
            (if \<not> non_null (field c ''window_days'') then Inl MissingWindow
             else Inr ([Lit ''user_id IN (''] @ event_frags c ev tenantId appId False @
                       [Lit '' GROUP BY user_id HAVING '',
                        Lit (if op_is c ''last_performed'' then ''max'' else ''min''),
                        Lit ''(e.server_ts) >= now() - INTERVAL '', Hole (the (field c ''window_days'')), Lit '' DAY)'']))
          else Inl EventOp)"

definition cond_frags ::
  "(jsnum \<Rightarrow> string) \<Rightarrow> string \<Rightarrow> string \<Rightarrow> category \<Rightarrow> jsobj \<Rightarrow> compile_error + frag list" where
  "cond_frags ns tenantId appId category c =
     (if type_is c ''attribute'' then attribute_frags ns c
      else if type_is c ''channel'' then channel_frags ns c category
      else if type_is c ''device'' then (case compileDevice c [] of Inl e \<Rightarrow> Inl e | Inr _ \<Rightarrow> Inr [])
      else if type_is c ''event'' then event_cond_frags c tenantId appId
      else Inl UnknownConditionType)"

fun collect :: "('c \<Rightarrow> compile_error + frag list) \<Rightarrow> 'c list \<Rightarrow> compile_error + frag list list" where
  "collect spec [] = Inr []"
| "collect spec (c # cs) =
     (case spec c of
        Inl e \<Rightarrow> Inl e
      | Inr fs \<Rightarrow> (case collect spec cs of Inl e \<Rightarrow> Inl e | Inr fss \<Rightarrow> Inr (fs # fss)))"

definition group_frags ::
  "(jsnum \<Rightarrow> string) \<Rightarrow> string \<Rightarrow> string \<Rightarrow> category \<Rightarrow> segment_group \<Rightarrow> compile_error + frag list" where
  "group_frags ns tenantId appId category g =
     (if g_operator g \<noteq> ''AND'' \<and> g_operator g \<noteq> ''OR'' then Inl BadGroupOperator
      else if g_conditions g = [] then Inl EmptyGroup
      else (case collect (cond_frags ns tenantId appId category) (g_conditions g) of
              Inl e \<Rightarrow> Inl e
            | Inr fss \<Rightarrow>
                Inr ([Lit ''(''] @ join_frags [Lit '' '', Lit (g_operator g), Lit '' ''] fss @ [Lit '')''])))"

text \<open>Every query starts with the tenant, the app and the status, before any user condition.\<close>

definition root_frags :: "string \<Rightarrow> string \<Rightarrow> frag list" where
  "root_frags tenantId appId =
     [Lit ''SELECT user_id FROM profiles_mirror FINAL WHERE '',
      Lit ''tenant_id = toUUID('', Hole (JStr tenantId), Lit '')'', Lit '' AND '',
      Lit ''app_id = toUUID('', Hole (JStr appId), Lit '')'', Lit '' AND '',
      Lit ''status = '', Lit squote, Lit ''active'', Lit squote]"

definition query_frags ::
  "(jsnum \<Rightarrow> string) \<Rightarrow> segment_dsl \<Rightarrow> string \<Rightarrow> string \<Rightarrow> category \<Rightarrow> compile_error + frag list" where
  "query_frags ns dsl tenantId appId category =
     (if dsl_version dsl \<noteq> Num 1 then Inl UnsupportedVersion
      else if dsl_operator dsl \<noteq> ''AND'' \<and> dsl_operator dsl \<noteq> ''OR'' then Inl BadRootOperator
      else if dsl_groups dsl = [] then Inr (root_frags tenantId appId)
      else (case collect (group_frags ns tenantId appId category) (dsl_groups dsl) of
              Inl e \<Rightarrow> Inl e
            | Inr fss \<Rightarrow>
                Inr (root_frags tenantId appId @ [Lit '' AND '', Lit ''(''] @
                     join_frags [Lit '' '', Lit (dsl_operator dsl), Lit '' ''] fss @ [Lit '')''])))"

section \<open>The interface between an emitter and its fragments\<close>

definition emits :: "jsval list \<Rightarrow> compile_error + frag list \<Rightarrow> emission" where
  "emits p r = (case r of Inl e \<Rightarrow> Inl e | Inr fs \<Rightarrow> Inr (render fs, p @ holes fs))"

lemma emits_simps [simp]:
  "emits p (Inl e) = Inl e" "emits p (Inr fs) = Inr (render fs, p @ holes fs)"
  by (auto simp: emits_def)

text \<open>
  An emitter appends to the argument array exactly the holes of its fragments and returns
  their text. Mapping it over a list keeps that contract.
\<close>

locale fragment_emitter =
  fixes emit :: "'c \<Rightarrow> jsval list \<Rightarrow> emission"
    and spec :: "'c \<Rightarrow> compile_error + frag list"
  assumes emit_spec: "emit c p = emits p (spec c)"
begin

lemma emit_list_spec:
  "emit_list emit cs p =
     (case collect spec cs of
        Inl e \<Rightarrow> Inl e
      | Inr fss \<Rightarrow> Inr (map render fss, p @ concat (map holes fss)))"
  by (induction cs arbitrary: p) (auto simp: emit_spec split: sum.splits)

lemma emit_list_joined:
  "(case emit_list emit cs p of Inl e \<Rightarrow> Inl e | Inr (ss, p1) \<Rightarrow> Inr (join sep ss, p1)) =
   emits p (case collect spec cs of Inl e \<Rightarrow> Inl e | Inr fss \<Rightarrow> Inr (join_frags [Lit sep] fss))"
  by (auto simp: emit_list_spec render_join_frags holes_join_frags split: sum.splits)

end

lemma add_each_eq: "add_each p vs = (map (\<lambda>_. ''?'') vs, p @ vs)"
  by (induction vs arbitrary: p) (auto simp: add_def)

lemma check_platforms_eq:
  "check_platforms p vs =
     (if list_all (\<lambda>v. case v of JStr s \<Rightarrow> s \<in> set PLATFORM_VALUES | _ \<Rightarrow> False) vs
      then Inr (map (\<lambda>_. ''?'') vs, p @ vs) else Inl PlatformValue)"
  by (induction vs arbitrary: p) (auto simp: add_def)

lemma render_hole_list: "render (hole_list vs) = join '', '' (map (\<lambda>_. ''?'') vs)"
  by (simp add: hole_list_def render_join_frags comp_def)

lemma holes_hole_list [simp]: "holes (hole_list vs) = vs"
proof -
  have "concat (map (holes \<circ> (\<lambda>v. [Hole v])) vs) = vs" by (induction vs) auto
  then show ?thesis by (simp add: hole_list_def holes_join_frags)
qed

lemma jsonExtract_eq:
  "jsonExtract key fn p = (render (extract_frags key fn), p @ holes (extract_frags key fn))"
  by (simp add: jsonExtract_def extract_frags_def add_def Let_def)

lemmas emitter_simps = add_def add_each_eq check_platforms_eq jsonExtract_eq render_hole_list

lemma compileAttribute_emits: "compileAttribute ns c p = emits p (attribute_frags ns c)"
  unfolding compileAttribute_def attribute_frags_def
  by (auto simp: emitter_simps Let_def split: option.splits sum.splits)

lemma compileChannel_emits: "compileChannel ns c cat p = emits p (channel_frags ns c cat)"
  unfolding compileChannel_def channel_frags_def
  by (auto simp: emitter_simps split: sum.splits)

lemma event_base_eq:
  "event_base c ev t a w p = (render (event_frags c ev t a w), p @ holes (event_frags c ev t a w))"
  by (simp add: event_base_def event_frags_def add_def Let_def)

lemma compileEvent_emits: "compileEvent c t a p = emits p (event_cond_frags c t a)"
  unfolding compileEvent_def event_cond_frags_def
  by (auto simp: event_base_eq add_def Let_def split: option.splits sum.splits)

lemma compileDevice_rejects: "compileDevice c p = Inl (projl (compileDevice c []))"
  by (auto simp: compileDevice_def)

lemma compileCondition_emits: "compileCondition ns t a cat c p = emits p (cond_frags ns t a cat c)"
  by (auto simp: compileCondition_def cond_frags_def compileAttribute_emits compileChannel_emits
      compileEvent_emits compileDevice_def)

interpretation cond: fragment_emitter "compileCondition ns t a cat" "cond_frags ns t a cat"
  for ns t a cat
  by unfold_locales (rule compileCondition_emits)

lemma compileGroup_emits: "compileGroup ns t a cat g p = emits p (group_frags ns t a cat g)"
  by (auto simp: compileGroup_def group_frags_def cond.emit_list_spec render_join_frags
      holes_join_frags split: sum.splits)

interpretation grp: fragment_emitter "compileGroup ns t a cat" "group_frags ns t a cat"
  for ns t a cat
  by unfold_locales (rule compileGroup_emits)

lemma compile_emits: "compile ns dsl t a cat = emits [] (query_frags ns dsl t a cat)"
  by (auto simp: compile_def query_frags_def root_frags_def grp.emit_list_spec render_join_frags
      holes_join_frags add_def Let_def split: sum.splits)

end
