(* ===== verification/Segment_Safety.thy ===== *)
theory Segment_Safety
  imports Segment_DSL
begin

text \<open>
  What the segment compiler guarantees: the emitted text uses a fixed vocabulary, its brackets
  match, its placeholders and arguments agree through \<open>toClickHouse\<close>, and the definitions that
  compile are characterised exactly.
\<close>

section \<open>What the emitted SQL can contain\<close>

text \<open>The constant words from which every query is assembled\<close>

definition sql_vocabulary :: "string list" where
  "sql_vocabulary =
     [''if(JSONHas(std_attrs, '', ''), '', ''JSONExtractString'', ''JSONExtractRaw'',
      ''(std_attrs, '', ''(custom_attrs, '', ''))'', ''('', '')'', ''std_attrs'', ''custom_attrs'', '', '',
      '' != '', '' = '', squote, ''toFloat64OrNull('', '') '', '' '',
      ''='', ''!='', ''>'', ''>='', ''<'', ''<='', '' IN ('', ''0'',
      ''has(JSONExtract('', ''Array(String)'', ''parseDateTimeBestEffortOrNull('',
      '' now() - INTERVAL '', '' DAY'', '' parseDateTimeBestEffortOrNull('',
      ''(os_permission_granted = 1 AND token_active = 1)'',
      ''(push_opt_in = 1 AND os_permission_granted = 1 AND token_active = 1)'',
      ''arrayExists(x -> x IN ('', ''), platforms)'',
      ''SELECT if(m.to_user_id = toUUID('', ''00000000-0000-0000-0000-000000000000'',
      ''), e.user_id, m.to_user_id) AS user_id FROM events e LEFT JOIN '',
      ''(SELECT from_user_id, argMax(to_user_id, merged_at) AS to_user_id FROM user_merges WHERE tenant_id = toUUID('',
      '') AND app_id = toUUID('', '') GROUP BY from_user_id)'',
      '' m ON e.user_id = m.from_user_id WHERE e.tenant_id = toUUID('',
      '') AND e.app_id = toUUID('', '') AND e.event_name = '',
      '' AND e.server_ts >= now() - INTERVAL '', ''user_id IN ('', ''user_id NOT IN ('',
      '' GROUP BY user_id)'', '' GROUP BY user_id HAVING uniqExact(insert_id) '',
      '' GROUP BY user_id HAVING '', ''max'', ''min'', ''(e.server_ts) >= now() - INTERVAL '', '' DAY)'',
      ''AND'', ''OR'', ''SELECT user_id FROM profiles_mirror FINAL WHERE '',
      ''tenant_id = toUUID('', ''app_id = toUUID('', '' AND '', ''status = '', ''active'']"

lemma vocab_mem [simp]:
  "''if(JSONHas(std_attrs, '' \<in> set sql_vocabulary"
  "''), '' \<in> set sql_vocabulary"
  "''JSONExtractString'' \<in> set sql_vocabulary"
  "''JSONExtractRaw'' \<in> set sql_vocabulary"
  "''(std_attrs, '' \<in> set sql_vocabulary"
  "''(custom_attrs, '' \<in> set sql_vocabulary"
  "''))'' \<in> set sql_vocabulary"
  "''('' \<in> set sql_vocabulary"
  "'')'' \<in> set sql_vocabulary"
  "''std_attrs'' \<in> set sql_vocabulary"
  "''custom_attrs'' \<in> set sql_vocabulary"
  "'', '' \<in> set sql_vocabulary"
  "'' != '' \<in> set sql_vocabulary"
  "'' = '' \<in> set sql_vocabulary"
  "squote \<in> set sql_vocabulary"
  "''toFloat64OrNull('' \<in> set sql_vocabulary"
  "'') '' \<in> set sql_vocabulary"
  "'' '' \<in> set sql_vocabulary"
  "''='' \<in> set sql_vocabulary"
  "''!='' \<in> set sql_vocabulary"
  "''>'' \<in> set sql_vocabulary"
  "''>='' \<in> set sql_vocabulary"
  "''<'' \<in> set sql_vocabulary"
  "''<='' \<in> set sql_vocabulary"
  "'' IN ('' \<in> set sql_vocabulary"
  "''0'' \<in> set sql_vocabulary"
  "''has(JSONExtract('' \<in> set sql_vocabulary"
  "''Array(String)'' \<in> set sql_vocabulary"
  "''parseDateTimeBestEffortOrNull('' \<in> set sql_vocabulary"
  "'' now() - INTERVAL '' \<in> set sql_vocabulary"
  "'' DAY'' \<in> set sql_vocabulary"
  "'' parseDateTimeBestEffortOrNull('' \<in> set sql_vocabulary"
  "''(os_permission_granted = 1 AND token_active = 1)'' \<in> set sql_vocabulary"
  "''(push_opt_in = 1 AND os_permission_granted = 1 AND token_active = 1)'' \<in> set sql_vocabulary"
  "''arrayExists(x -> x IN ('' \<in> set sql_vocabulary"
  "''), platforms)'' \<in> set sql_vocabulary"
  "''SELECT if(m.to_user_id = toUUID('' \<in> set sql_vocabulary"
  "''00000000-0000-0000-0000-000000000000'' \<in> set sql_vocabulary"
  "''), e.user_id, m.to_user_id) AS user_id FROM events e LEFT JOIN '' \<in> set sql_vocabulary"
  "''(SELECT from_user_id, argMax(to_user_id, merged_at) AS to_user_id FROM user_merges WHERE tenant_id = toUUID('' \<in> set sql_vocabulary"
  "'') AND app_id = toUUID('' \<in> set sql_vocabulary"
  "'') GROUP BY from_user_id)'' \<in> set sql_vocabulary"
  "'' m ON e.user_id = m.from_user_id WHERE e.tenant_id = toUUID('' \<in> set sql_vocabulary"
  "'') AND e.app_id = toUUID('' \<in> set sql_vocabulary"
  "'') AND e.event_name = '' \<in> set sql_vocabulary"
  "'' AND e.server_ts >= now() - INTERVAL '' \<in> set sql_vocabulary"
  "''user_id IN ('' \<in> set sql_vocabulary"
  "''user_id NOT IN ('' \<in> set sql_vocabulary"
  "'' GROUP BY user_id)'' \<in> set sql_vocabulary"
  "'' GROUP BY user_id HAVING uniqExact(insert_id) '' \<in> set sql_vocabulary"
  "'' GROUP BY user_id HAVING '' \<in> set sql_vocabulary"
  "''max'' \<in> set sql_vocabulary"
  "''min'' \<in> set sql_vocabulary"
  "''(e.server_ts) >= now() - INTERVAL '' \<in> set sql_vocabulary"
  "'' DAY)'' \<in> set sql_vocabulary"
  "''AND'' \<in> set sql_vocabulary"
  "''OR'' \<in> set sql_vocabulary"
  "''SELECT user_id FROM profiles_mirror FINAL WHERE '' \<in> set sql_vocabulary"
  "''tenant_id = toUUID('' \<in> set sql_vocabulary"
  "''app_id = toUUID('' \<in> set sql_vocabulary"
  "'' AND '' \<in> set sql_vocabulary"
  "''status = '' \<in> set sql_vocabulary"
  "''active'' \<in> set sql_vocabulary"
  by (simp_all add: sql_vocabulary_def)

abbreviation vocab :: "string set" where
  "vocab \<equiv> set sql_vocabulary"

fun within_vocab :: "compile_error + frag list \<Rightarrow> bool" where
  "within_vocab (Inl e) = True"
| "within_vocab (Inr fs) = (lits fs \<subseteq> vocab)"

lemma cmp_text_vocab: "is_cmp c \<Longrightarrow> cmp_text c \<in> vocab"
  by (auto simp: is_cmp_def cmp_text_def CMP_OPS_def)

lemma lits_extract [simp]:
  "lits (extract_frags key ''JSONExtractString'') \<subseteq> vocab"
  "lits (extract_frags key ''JSONExtractRaw'') \<subseteq> vocab"
  by (simp_all add: extract_frags_def attr_col_def)

lemma lits_join_vocab [simp]:
  assumes "lits sep \<subseteq> vocab" and "\<forall>fs \<in> set fss. lits fs \<subseteq> vocab"
  shows "lits (join_frags sep fss) \<subseteq> vocab"
  using lits_join_frags [of sep fss] assms by blast

lemma lits_hole_list [simp]: "lits (hole_list vs) \<subseteq> vocab"
  unfolding hole_list_def by (rule lits_join_vocab) auto

lemma lits_event [simp]: "lits (event_frags c ev t a w) \<subseteq> vocab"
  by (simp add: event_frags_def)

lemma within_attribute: "within_vocab (attribute_frags ns c)"
  unfolding attribute_frags_def Let_def
  by (simp add: cmp_text_vocab split: option.split sum.split prod.split)

lemma within_channel: "within_vocab (channel_frags ns c cat)"
  by (simp add: channel_frags_def split: sum.split)

lemma within_event: "within_vocab (event_cond_frags c t a)"
  by (simp add: event_cond_frags_def split: option.split sum.split)

lemma within_cond: "within_vocab (cond_frags ns t a cat c)"
  by (simp add: cond_frags_def within_attribute within_channel within_event compileDevice_def)

lemma collect_all:
  "collect spec cs = Inr fss \<Longrightarrow> (\<And>c fs. spec c = Inr fs \<Longrightarrow> P fs) \<Longrightarrow> fs \<in> set fss \<Longrightarrow> P fs"
  by (induction cs arbitrary: fss) (auto split: sum.splits)

text \<open>A specification that only uses the vocabulary can be collected and joined by an operator.\<close>

locale vocab_spec =
  fixes spec :: "'c \<Rightarrow> compile_error + frag list"
  assumes within: "within_vocab (spec c)"
begin

lemma collected: "collect spec cs = Inr fss \<Longrightarrow> fs \<in> set fss \<Longrightarrow> lits fs \<subseteq> vocab"
  by (rule collect_all [where P = "\<lambda>fs. lits fs \<subseteq> vocab"]) (auto, metis within within_vocab.simps(2) subsetD)

lemma joined: "o1 = ''AND'' \<or> o1 = ''OR'' \<Longrightarrow> collect spec cs = Inr fss \<Longrightarrow>
    lits (join_frags [Lit '' '', Lit o1, Lit '' ''] fss) \<subseteq> vocab"
  by (rule lits_join_vocab) (auto dest: collected)

end

interpretation cond_words: vocab_spec "cond_frags ns t a cat" for ns t a cat
  by unfold_locales (rule within_cond)

lemma within_group: "within_vocab (group_frags ns t a cat g)"
  by (simp add: group_frags_def cond_words.joined split: sum.split)

interpretation group_words: vocab_spec "group_frags ns t a cat" for ns t a cat
  by unfold_locales (rule within_group)

lemma within_query: "within_vocab (query_frags ns dsl t a cat)"
  by (simp add: query_frags_def root_frags_def group_words.joined split: sum.split)

lemma vocab_no_placeholder: "w \<in> vocab \<Longrightarrow> CHR ''?'' \<notin> set w"
  by (auto simp: sql_vocabulary_def)

lemma count_placeholders:
  "lits fs \<subseteq> vocab \<Longrightarrow> count_list (render fs) CHR ''?'' = length (holes fs)"
proof (induction fs)
  case (Cons f fs)
  then show ?case
    by (cases f) (auto simp: vocab_no_placeholder count_list_0_iff)
qed simp


section \<open>Bracket structure\<close>

text \<open>\<open>nest d s\<close>: the bracket depth after reading \<open>s\<close> at depth \<open>d\<close>; \<^const>\<open>None\<close> if \<open>s\<close> closes more
  brackets than are open.\<close>

fun nest :: "nat \<Rightarrow> string \<Rightarrow> nat option" where
  "nest d [] = Some d"
| "nest d (ch # s) =
     (if ch = CHR ''('' then nest (Suc d) s
      else if ch = CHR '')'' then (case d of 0 \<Rightarrow> None | Suc d' \<Rightarrow> nest d' s)
      else nest d s)"

definition balanced :: "string \<Rightarrow> bool" where
  "balanced s \<longleftrightarrow> (\<forall>d. nest d s = Some d)"

lemma nest_append: "nest d (s @ t) = Option.bind (nest d s) (\<lambda>d'. nest d' t)"
  by (induction d s rule: nest.induct) (auto split: nat.splits)

lemma balancedD [simp]: "balanced s \<Longrightarrow> nest d s = Some d"
  by (simp add: balanced_def)

lemma balanced_append: "balanced s \<Longrightarrow> balanced t \<Longrightarrow> balanced (s @ t)"
  by (simp add: balanced_def nest_append)

lemma balanced_join: "balanced sep \<Longrightarrow> \<forall>x \<in> set xs. balanced x \<Longrightarrow> balanced (join sep xs)"
proof (induction sep xs rule: join.induct)
  case (1 sep)
  then show ?case by (simp add: balanced_def)
qed (auto intro!: balanced_append)

fun balanced_result :: "compile_error + frag list \<Rightarrow> bool" where
  "balanced_result (Inl e) = True"
| "balanced_result (Inr fs) = balanced (render fs)"

lemma nest_op_texts [simp]:
  "nest d (attr_col key) = Some d" "is_cmp c \<Longrightarrow> nest d (cmp_text c) = Some d"
  by (auto simp: attr_col_def is_cmp_def cmp_text_def CMP_OPS_def)

lemma balanced_extract [simp]:
  "balanced (render (extract_frags key ''JSONExtractString''))"
  "balanced (render (extract_frags key ''JSONExtractRaw''))"
  by (simp_all add: extract_frags_def balanced_def nest_append)

lemma balanced_hole_list [simp]: "balanced (render (hole_list vs))"
  unfolding render_hole_list by (rule balanced_join) (auto simp: balanced_def)

lemma balanced_event [simp]: "balanced (render (event_frags c ev t a w))"
  by (simp add: event_frags_def balanced_def nest_append)

lemma balanced_attribute: "balanced_result (attribute_frags ns c)"
  unfolding attribute_frags_def Let_def
  by (simp add: balanced_def [of "_ @ _"] balanced_def [of "_ # _"] nest_append split: option.split sum.split prod.split)

lemma balanced_channel: "balanced_result (channel_frags ns c cat)"
  by (simp add: channel_frags_def balanced_def [of "_ @ _"] balanced_def [of "_ # _"] nest_append split: sum.split)

lemma balanced_event_cond: "balanced_result (event_cond_frags c t a)"
  by (simp add: event_cond_frags_def balanced_def [of "_ @ _"] balanced_def [of "_ # _"] nest_append split: option.split sum.split)

lemma balanced_cond: "balanced_result (cond_frags ns t a cat c)"
  by (simp add: cond_frags_def balanced_attribute balanced_channel balanced_event_cond compileDevice_def)


lemma balanced_collect:
  assumes "\<And>c. balanced_result (spec c)" and "collect spec cs = Inr fss"
    and "o1 = ''AND'' \<or> o1 = ''OR''"
  shows "balanced (join ('' '' @ o1 @ '' '') (map render fss))"
proof (rule balanced_join)
  show "balanced ('' '' @ o1 @ '' '')"
    using assms(3) by (auto simp: balanced_def)
  have "balanced (render fs)" if "fs \<in> set fss" for fs
    using assms(2) _ that by (rule collect_all) (metis assms(1) balanced_result.simps(2))
  then show "\<forall>x \<in> set (map render fss). balanced x" by simp
qed

lemma balanced_group: "balanced_result (group_frags ns t a cat g)"
  using balanced_collect [of "cond_frags ns t a cat" "g_conditions g" _ "g_operator g", OF balanced_cond]
  by (auto simp: group_frags_def render_join_frags balanced_def [of "_ # _"] nest_append split: sum.split)

section \<open>Named parameters\<close>

lemma param_name_inject [simp]: "param_name i = param_name j \<longleftrightarrow> i = j"
  by (simp add: param_name_def)

lemma replace_holes_index:
  "replace_holes args s i ps = (out, i', ps') \<Longrightarrow> i' = i + count_list s CHR ''?''"
proof (induction s arbitrary: i ps out i' ps')
  case (Cons ch s)
  then show ?case
    by (auto simp: Let_def split: if_splits prod.splits dest!: Cons.IH)
qed simp

lemma find_upt_param:
  "i < i' \<Longrightarrow> List.find (\<lambda>k. n = param_name k) [i..<i'] =
     (if n = param_name i then Some i else List.find (\<lambda>k. n = param_name k) [Suc i..<i'])"
  by (simp add: upt_conv_Cons)

lemma find_param_later: "List.find ((=) i) [Suc i..<i'] = None"
  by (auto simp: find_None_iff)

lemma replace_holes_params:
  "replace_holes args s i ps = (out, i', ps') \<Longrightarrow>
   map_of ps' n =
     (case List.find (\<lambda>k. n = param_name k) [i..<i'] of
        None \<Rightarrow> map_of ps n
      | Some k \<Rightarrow> Some (if k < length args then Some (args ! k) else None))"
proof (induction s arbitrary: i ps out i' ps')
  case Nil
  then show ?case by simp
next
  case (Cons ch s)
  show ?case
  proof (cases "ch = CHR ''?''")
    case True
    obtain out1 where r: "replace_holes args s (i + 1)
        (AList.update (param_name i) (if i < length args then Some (args ! i) else None) ps) = (out1, i', ps')"
      using Cons.prems True by (auto simp: Let_def split: prod.splits)
    have "i < i'" using replace_holes_index [OF r] by simp
    then show ?thesis
      using Cons.IH [OF r] by (auto simp: find_upt_param update_conv find_param_later split: option.split)
  next
    case False
    then show ?thesis
      using Cons.prems by (auto dest!: Cons.IH split: prod.splits)
  qed
qed

lemma digit_not_placeholder: "d < 10 \<Longrightarrow> char_of (48 + d :: nat) \<noteq> CHR ''?''"
proof
  assume d: "d < 10" and "char_of (48 + d :: nat) = CHR ''?''"
  then have "of_char (char_of (48 + d :: nat) :: char) = (of_char CHR ''?'' :: nat)" by simp
  with d show False by simp
qed

lemma nat_str_no_placeholder: "CHR ''?'' \<notin> set (nat_str n)"
proof (induction n rule: nat_str.induct)
  case (1 n)
  have "CHR ''?'' \<noteq> char_of (48 + n mod 10)" using digit_not_placeholder [of "n mod 10"] by simp
  moreover have "n < 10 \<Longrightarrow> CHR ''?'' \<noteq> char_of (48 + n)" using digit_not_placeholder [of n] by metis
  ultimately show ?case
    using "1" by (subst nat_str.simps) auto
qed

lemma replace_holes_no_placeholder:
  "replace_holes args s i ps = (out, i', ps') \<Longrightarrow> CHR ''?'' \<notin> set out"
  by (induction s arbitrary: i ps out i' ps')
     (auto simp: Let_def param_name_def param_type_def nat_str_no_placeholder
       split: if_splits prod.splits option.splits jsval.splits)

lemma find_param_in: "k < n \<Longrightarrow> List.find ((=) k) [0..<n] = Some k"
  unfolding find_Some_iff by (rule exI [of _ k]) simp

lemma toClickHouse_ok:
  assumes "count_list sql CHR ''?'' = length args"
  shows "\<exists>out ps. toClickHouse (sql, args) = Inr (out, ps) \<and> CHR ''?'' \<notin> set out \<and>
    (\<forall>k < length args. map_of ps (param_name k) = Some (Some (args ! k))) \<and>
    (\<forall>n. map_of ps n \<noteq> None \<longrightarrow> (\<exists>k < length args. n = param_name k))"
proof -
  obtain out i ps where r: "replace_holes args sql 0 [] = (out, i, ps)"
    by (metis prod_cases3)
  have i: "i = length args" using replace_holes_index [OF r] assms by simp
  have "map_of ps (param_name k) = Some (Some (args ! k))" if "k < length args" for k
    using replace_holes_params [OF r, of "param_name k"] i that by (simp add: find_param_in)
  moreover have "\<exists>k < length args. n = param_name k" if "map_of ps n \<noteq> None" for n
    using replace_holes_params [OF r, of n] i that by (auto simp: find_Some_iff split: option.splits)
  ultimately show ?thesis
    using r i replace_holes_no_placeholder [OF r] by (auto simp: toClickHouse_def)
qed

section \<open>Which definitions compile\<close>

definition scalar_ok :: "jsval option \<Rightarrow> bool" where
  "scalar_ok v \<longleftrightarrow> (case v of Some (JStr _) \<Rightarrow> True | Some (JNum _) \<Rightarrow> True | Some (JBool _) \<Rightarrow> True | _ \<Rightarrow> False)"

definition array_ok :: "(jsval \<Rightarrow> bool) \<Rightarrow> jsval option \<Rightarrow> bool" where
  "array_ok P v \<longleftrightarrow> (case v of Some (JArr vs) \<Rightarrow> list_all P vs | _ \<Rightarrow> False)"

definition number_ok :: "jsval option \<Rightarrow> bool" where
  "number_ok v \<longleftrightarrow> (case v of Some (JNum _) \<Rightarrow> True | _ \<Rightarrow> False)"

definition attribute_ok :: "jsobj \<Rightarrow> bool" where
  "attribute_ok c \<longleftrightarrow> opt_truthy (field c ''key'') \<and>
     (op_is c ''exists'' \<or> op_is c ''not_exists'' \<or>
      ((is_cmp c \<or> op_is c ''contains'' \<or> op_is c ''before'' \<or> op_is c ''after'') \<and> scalar_ok (field c ''value'')) \<or>
      (op_is c ''in'' \<and> array_ok (\<lambda>v. scalar_ok (Some v)) (field c ''value'')) \<or>
      ((op_is c ''in_last_days'' \<or> op_is c ''not_in_last_days'') \<and> number_ok (field c ''value'')))"

definition platform_ok :: "(jsnum \<Rightarrow> string) \<Rightarrow> jsval \<Rightarrow> bool" where
  "platform_ok ns v \<longleftrightarrow> (case v of JStr s \<Rightarrow> s \<in> set PLATFORM_VALUES | JNum n \<Rightarrow> ns n \<in> set PLATFORM_VALUES | _ \<Rightarrow> False)"

definition channel_ok :: "(jsnum \<Rightarrow> string) \<Rightarrow> jsobj \<Rightarrow> bool" where
  "channel_ok ns c \<longleftrightarrow> op_is c ''push_reachable'' \<or>
     (op_is c ''token_platform_in'' \<and> array_ok (platform_ok ns) (field c ''value''))"

definition event_ok :: "jsobj \<Rightarrow> bool" where
  "event_ok c \<longleftrightarrow> opt_truthy (field c ''event'') \<and>
     (op_is c ''performed'' \<or> op_is c ''not_performed'' \<or>
      ((op_is c ''count_gte'' \<or> op_is c ''count_lte'') \<and> number_ok (field c ''value'')) \<or>
      ((op_is c ''first_performed'' \<or> op_is c ''last_performed'') \<and> non_null (field c ''window_days'')))"

definition cond_ok :: "(jsnum \<Rightarrow> string) \<Rightarrow> jsobj \<Rightarrow> bool" where
  "cond_ok ns c \<longleftrightarrow> (type_is c ''attribute'' \<and> attribute_ok c) \<or> (type_is c ''channel'' \<and> channel_ok ns c) \<or>
     (type_is c ''event'' \<and> event_ok c)"

definition dsl_ok :: "(jsnum \<Rightarrow> string) \<Rightarrow> segment_dsl \<Rightarrow> bool" where
  "dsl_ok ns dsl \<longleftrightarrow> dsl_version dsl = Num 1 \<and> dsl_operator dsl \<in> {''AND'', ''OR''} \<and>
     list_all (\<lambda>g. g_operator g \<in> {''AND'', ''OR''} \<and> g_conditions g \<noteq> [] \<and>
       list_all (cond_ok ns) (g_conditions g)) (dsl_groups dsl)"

lemma scalar_ok_simps [simp]:
  "scalar_ok (Some (JStr s))" "scalar_ok (Some (JNum n))" "scalar_ok (Some (JBool b))"
  "\<not> scalar_ok (Some JNull)" "\<not> scalar_ok (Some (JArr vs))" "\<not> scalar_ok (Some (JObj fs))" "\<not> scalar_ok None"
  by (auto simp: scalar_ok_def)

lemma scalar_isl: "isl (scalar v) \<longleftrightarrow> \<not> scalar_ok v"
  by (cases v rule: scalar.cases) auto

lemma intValue_isl: "isl (intValue v) \<longleftrightarrow> \<not> number_ok v"
  by (cases v rule: intValue.cases) (auto simp: number_ok_def)

lemma array_elems_isl: "isl (array_elems ns vs) \<longleftrightarrow> \<not> list_all (\<lambda>v. scalar_ok (Some v)) vs"
proof (induction vs)
  case (Cons v vs)
  then show ?case by (cases v) (auto split: sum.splits)
qed simp

lemma arrayValues_isl: "isl (arrayValues ns v) \<longleftrightarrow> \<not> array_ok (\<lambda>v. scalar_ok (Some v)) v"
  by (cases "(ns, v)" rule: arrayValues.cases) (auto simp: array_ok_def array_elems_isl)

lemma platform_ok_simps [simp]:
  "platform_ok ns (JStr s) \<longleftrightarrow> s \<in> set PLATFORM_VALUES" "platform_ok ns (JNum n) \<longleftrightarrow> ns n \<in> set PLATFORM_VALUES"
  "\<not> platform_ok ns (JBool b)" "\<not> platform_ok ns JNull" "\<not> platform_ok ns (JArr vs)" "\<not> platform_ok ns (JObj fs)"
  by (auto simp: platform_ok_def)

lemma bool_text_no_platform [simp]: "''true'' \<notin> set PLATFORM_VALUES" "''false'' \<notin> set PLATFORM_VALUES"
  by (auto simp: PLATFORM_VALUES_def)

abbreviation known_platform :: "jsval \<Rightarrow> bool" where
  "known_platform v \<equiv> (case v of JStr s \<Rightarrow> s \<in> set PLATFORM_VALUES | _ \<Rightarrow> False)"

lemma platforms_ok:
  "(\<exists>vals. array_elems ns vs = Inr vals \<and> list_all known_platform vals) \<longleftrightarrow> list_all (platform_ok ns) vs"
proof (induction vs)
  case (Cons v vs)
  then show ?case
    by (cases v) (auto split: sum.splits)
qed simp

lemma token_platforms_ok:
  "array_ok (platform_ok ns) v \<longleftrightarrow> (\<exists>vals. arrayValues ns v = Inr vals \<and> list_all known_platform vals)"
  by (cases "(ns, v)" rule: arrayValues.cases) (auto simp: array_ok_def platforms_ok)

lemma isl_case_sum: "isl (case r of Inl e \<Rightarrow> Inl e | Inr x \<Rightarrow> Inr (f x)) \<longleftrightarrow> isl r"
  by (auto split: sum.splits)

lemma op_is_unique: "op_is c s \<Longrightarrow> op_is c t \<longleftrightarrow> s = t"
  by (auto simp: op_is_def)

lemma is_cmp_op: "op_is c s \<Longrightarrow> is_cmp c \<longleftrightarrow> s \<in> {''eq'', ''neq'', ''gt'', ''gte'', ''lt'', ''lte''}"
  by (auto simp: is_cmp_def CMP_OPS_def op_is_def)

lemma is_cmpE: "is_cmp c \<Longrightarrow> \<exists>s. op_is c s \<and> s \<in> {''eq'', ''neq'', ''gt'', ''gte'', ''lt'', ''lte''}"
  by (auto simp: is_cmp_def CMP_OPS_def)

lemma isl_case_pair: "isl (case r of Inl e \<Rightarrow> Inl e | Inr (v, b) \<Rightarrow> Inr (f v b)) \<longleftrightarrow> isl r"
  by (auto split: sum.splits)

lemma isl_case_if:
  "isl (case r of Inl e \<Rightarrow> Inl e | Inr x \<Rightarrow> if P x then Inr (f x) else Inr (g x)) \<longleftrightarrow> isl r"
  by (auto split: sum.splits)

lemmas isl_simps = isl_case_sum isl_case_pair isl_case_if scalar_isl arrayValues_isl intValue_isl

lemma cmp_excludes:
  "is_cmp c \<Longrightarrow> \<not> op_is c ''exists'' \<and> \<not> op_is c ''not_exists'' \<and> \<not> op_is c ''in'' \<and> \<not> op_is c ''contains'' \<and>
     \<not> op_is c ''in_last_days'' \<and> \<not> op_is c ''not_in_last_days'' \<and> \<not> op_is c ''before'' \<and> \<not> op_is c ''after''"
  by (auto simp: is_cmp_def CMP_OPS_def op_is_def)

lemma attribute_isl: "isl (attribute_frags ns c) \<longleftrightarrow> \<not> attribute_ok c"
proof (cases "field c ''key''")
  case None
  then show ?thesis by (simp add: attribute_frags_def attribute_ok_def)
next
  case (Some key)
  consider "is_cmp c" | "op_is c ''exists''" | "op_is c ''not_exists''" | "\<not> is_cmp c" "op_is c ''in''"
    | "\<not> is_cmp c" "op_is c ''contains''" | "\<not> is_cmp c" "op_is c ''in_last_days''"
    | "\<not> is_cmp c" "op_is c ''not_in_last_days''" | "\<not> is_cmp c" "op_is c ''before''" | "\<not> is_cmp c" "op_is c ''after''"
    | "\<not> is_cmp c" "\<not> op_is c ''exists''" "\<not> op_is c ''not_exists''" "\<not> op_is c ''in''" "\<not> op_is c ''contains''"
       "\<not> op_is c ''in_last_days''" "\<not> op_is c ''not_in_last_days''" "\<not> op_is c ''before''" "\<not> op_is c ''after''"
    by blast
  then show ?thesis
    unfolding attribute_frags_def attribute_ok_def Let_def Some option.case
    by cases (simp_all add: cmp_excludes op_is_unique isl_simps)
qed

lemma channel_isl: "isl (channel_frags ns c cat) \<longleftrightarrow> \<not> channel_ok ns c"
  unfolding channel_frags_def channel_ok_def
  by (auto simp: op_is_def token_platforms_ok split: sum.splits)

lemma event_isl: "isl (event_cond_frags c t a) \<longleftrightarrow> \<not> event_ok c"
  unfolding event_cond_frags_def event_ok_def
  by (auto simp: op_is_def intValue_isl [symmetric] split: option.splits sum.splits)

lemma cond_isl: "isl (cond_frags ns t a cat c) \<longleftrightarrow> \<not> cond_ok ns c"
  by (auto simp: cond_frags_def cond_ok_def attribute_isl channel_isl event_isl type_is_def compileDevice_def)

lemma collect_isl: "isl (collect spec cs) \<longleftrightarrow> (\<exists>c \<in> set cs. isl (spec c))"
  by (induction cs) (auto split: sum.splits)

lemma group_isl:
  "isl (group_frags ns t a cat g) \<longleftrightarrow>
   \<not> (g_operator g \<in> {''AND'', ''OR''} \<and> g_conditions g \<noteq> [] \<and> list_all (cond_ok ns) (g_conditions g))"
  by (auto simp: group_frags_def isl_case_sum collect_isl cond_isl list_all_iff)

lemma query_isl: "isl (query_frags ns dsl t a cat) \<longleftrightarrow> \<not> dsl_ok ns dsl"
  by (auto simp: query_frags_def dsl_ok_def isl_case_sum collect_isl group_isl list_all_iff)

lemma emits_isl: "isl (emits p r) \<longleftrightarrow> isl r"
  by (auto simp: emits_def split: sum.splits)

lemma frag_words:
  "lits fs \<subseteq> vocab \<Longrightarrow> set (map frag_text fs) \<subseteq> insert ''?'' vocab \<and>
     length (filter (\<lambda>w. w = ''?'') (map frag_text fs)) = length (holes fs)"
proof (induction fs)
  case (Cons f fs)
  then show ?case by (cases f) (auto dest: vocab_no_placeholder)
qed simp

lemma compile_InrE:
  assumes "compile ns dsl t a cat = Inr (sql, args)"
  obtains fs where "query_frags ns dsl t a cat = Inr fs" "sql = render fs" "args = holes fs" "lits fs \<subseteq> vocab"
  using assms within_query [of ns dsl t a cat] by (auto simp: compile_emits emits_def split: sum.splits)

text \<open>The clauses that every compiled query starts with\<close>

definition scope_prefix :: string where
  "scope_prefix = ''SELECT user_id FROM profiles_mirror FINAL WHERE tenant_id = toUUID(?) AND app_id = toUUID(?) AND status = '' @
     squote @ ''active'' @ squote"

lemma render_root: "render (root_frags t a) = scope_prefix" "holes (root_frags t a) = [JStr t, JStr a]"
  by (simp_all add: root_frags_def scope_prefix_def)

section \<open>Properties\<close>

text \<open>
  C4: the compiled query is a refinement of the fragment reading of the definition: its text is the rendering of the
  fragments and its argument array is exactly the bound values, in the order of the placeholders; and the two
  sides fail with the same error.
\<close>

theorem compile_refines:
  "compile ns dsl t a cat =
     (case query_frags ns dsl t a cat of Inl e \<Rightarrow> Inl e | Inr fs \<Rightarrow> Inr (render fs, holes fs))"
  by (simp add: compile_emits emits_def split: sum.split)

text \<open>
  C1: no injection. Whatever the stored conditions contain, the SQL text is a concatenation of words of the
  fixed vocabulary and placeholders, so a value of the definition only ever reaches the database as a bound argument.
\<close>

theorem compile_no_injection:
  assumes "compile ns dsl t a cat = Inr (sql, args)"
  shows "\<exists>ws. sql = concat ws \<and> set ws \<subseteq> insert ''?'' (set sql_vocabulary) \<and> length (filter (\<lambda>w. w = ''?'') ws) = length args"
proof -
  obtain fs where sql: "sql = render fs" and args: "args = holes fs" and l: "lits fs \<subseteq> vocab"
    using assms by (rule compile_InrE)
  show ?thesis
    using frag_words [OF l] unfolding sql args render_def by blast
qed

text \<open>
  C2: every compiled query is confined to the tenant and the app of the caller. Its text is the fixed scope clauses
  followed, if there are groups at all, by one conjunct in brackets whose inside never closes that bracket, and the
  first two arguments are the caller's tenant and app.
\<close>

theorem compile_tenant_scoped:
  assumes "compile ns dsl t a cat = Inr (sql, args)"
  shows "take 2 args = [JStr t, JStr a] \<and>
    (if dsl_groups dsl = [] then sql = scope_prefix
     else \<exists>body. sql = scope_prefix @ '' AND ('' @ body @ '')'' \<and> balanced body)"
proof -
  obtain fs where fs: "query_frags ns dsl t a cat = Inr fs" "sql = render fs" "args = holes fs"
    using assms by (rule compile_InrE)
  show ?thesis
  proof (cases "dsl_groups dsl = []")
    case True
    then show ?thesis using fs by (auto simp: query_frags_def render_root split: if_splits)
  next
    case False
    then obtain fss where c: "collect (group_frags ns t a cat) (dsl_groups dsl) = Inr fss"
      and o: "dsl_operator dsl = ''AND'' \<or> dsl_operator dsl = ''OR''"
      and f: "fs = root_frags t a @ [Lit '' AND '', Lit ''(''] @
                     join_frags [Lit '' '', Lit (dsl_operator dsl), Lit '' ''] fss @ [Lit '')'']"
      using fs(1) by (auto simp: query_frags_def split: if_splits sum.splits)
    have "balanced (join ('' '' @ dsl_operator dsl @ '' '') (map render fss))"
      using balanced_collect [of "group_frags ns t a cat" "dsl_groups dsl", OF balanced_group c o] .
    then show ?thesis using False fs(2,3) f by (auto simp: render_root render_join_frags)
  qed
qed

text \<open>
  the placeholders of a compiled query and its arguments always match, also after the query was embedded in other
  text without placeholders (the API wraps it in a count and in a sample query): \<open>toClickHouse\<close> succeeds, leaves
  no placeholder behind and binds the parameter \<open>pK\<close> to the \<open>K\<close>th argument.
\<close>

theorem compiled_params_bound:
  assumes "compile ns dsl t a cat = Inr (sql, args)" and "CHR ''?'' \<notin> set pre" and "CHR ''?'' \<notin> set post"
  shows "\<exists>out ps. toClickHouse (pre @ sql @ post, args) = Inr (out, ps) \<and> CHR ''?'' \<notin> set out \<and>
    (\<forall>k < length args. map_of ps (param_name k) = Some (Some (args ! k))) \<and>
    (\<forall>n. map_of ps n \<noteq> None \<longrightarrow> (\<exists>k < length args. n = param_name k))"
proof (rule toClickHouse_ok)
  obtain fs where "sql = render fs" "args = holes fs" "lits fs \<subseteq> vocab"
    using assms(1) by (rule compile_InrE)
  then show "count_list (pre @ sql @ post) CHR ''?'' = length args"
    using assms(2,3) by (simp add: count_placeholders count_list_0_iff)
qed

text \<open>
  C3: exactly which stored definitions compile. A definition is accepted if and only if it has version 1, known operators,
  no empty group and only conditions whose operator and value fit their type; in particular a device
  condition is never accepted.
\<close>

theorem compile_succeeds_iff:
  "(\<exists>r. compile ns dsl t a cat = Inr r) \<longleftrightarrow> dsl_ok ns dsl"
proof -
  have "(\<exists>r. compile ns dsl t a cat = Inr r) \<longleftrightarrow> \<not> isl (compile ns dsl t a cat)"
    by (cases "compile ns dsl t a cat") auto
  then show ?thesis by (simp add: compile_emits emits_isl query_isl)
qed

section \<open>Concrete instances\<close>

definition sample_dsl :: segment_dsl where
  "sample_dsl = \<lparr> dsl_version = Num 1, dsl_operator = ''AND'', dsl_groups =
     [\<lparr> g_operator = ''OR'', g_conditions =
         [[(''type'', JStr ''attribute''), (''key'', JStr ''country''), (''op'', JStr ''in''),
           (''value'', JArr [JStr ''KR'', JStr ''x) OR 1=1 --''])],
          [(''type'', JStr ''event''), (''event'', JStr ''purchase''), (''op'', JStr ''count_gte''),
           (''value'', JNum (Num 3)), (''window_days'', JNum (Num 30))]] \<rparr>] \<rparr>"

lemma sample_dsl_ok: "dsl_ok ns sample_dsl"
  by (simp add: dsl_ok_def sample_dsl_def cond_ok_def type_is_def attribute_ok_def event_ok_def op_is_def
      array_ok_def number_ok_def)

lemma sample_compiles: "\<exists>sql args. compile (\<lambda>_. []) sample_dsl ''t1'' ''a1'' Marketing = Inr (sql, args)"
  using query_isl [of "\<lambda>_. []" sample_dsl "''t1''" "''a1''" Marketing] sample_dsl_ok [of "\<lambda>_. []"]
  by (auto simp: compile_emits emits_def split: sum.splits)

definition sample_sql :: string where
  "sample_sql = fst (projr (compile (\<lambda>_. []) sample_dsl ''t1'' ''a1'' Marketing))"

definition sample_args :: "jsval list" where
  "sample_args = snd (projr (compile (\<lambda>_. []) sample_dsl ''t1'' ''a1'' Marketing))"

lemma sample_result: "compile (\<lambda>_. []) sample_dsl ''t1'' ''a1'' Marketing = Inr (sample_sql, sample_args)"
  using sample_compiles by (auto simp: sample_sql_def sample_args_def)

lemma compile_no_injection_witness:
  "\<exists>ws. sample_sql = concat ws \<and> set ws \<subseteq> insert ''?'' (set sql_vocabulary) \<and>
     length (filter (\<lambda>w. w = ''?'') ws) = length sample_args"
  by (rule compile_no_injection [OF sample_result])

lemma compile_tenant_scoped_witness:
  "take 2 sample_args = [JStr ''t1'', JStr ''a1''] \<and>
   (\<exists>body. sample_sql = scope_prefix @ '' AND ('' @ body @ '')'' \<and> balanced body)"
  using compile_tenant_scoped [OF sample_result] by (simp add: sample_dsl_def)

lemma compiled_params_bound_witness:
  "\<exists>out ps. toClickHouse (''SELECT count() FROM ('' @ sample_sql @ '')'', sample_args) = Inr (out, ps) \<and>
     (\<forall>k < length sample_args. map_of ps (param_name k) = Some (Some (sample_args ! k)))"
  using compiled_params_bound [OF sample_result, of "''SELECT count() FROM (''" "'')''"] by auto

end
