(* ===== verification/Graph_Core.thy ===== *)
theory Graph_Core
  imports Prelude
begin

text \<open>
  The graph algorithms that the journey packages run on node identifiers: the adjacency map built from
  the edges, Kahn's topological sort over an indegree map (\<open>validateGraph\<close>,
  \<open>graphReadIssue\<close> and \<open>pathDurationRange\<close> each have a copy of it) and the depth-first search with an explicit
  stack (\<open>validateGraph\<close>, \<open>reachableNodes\<close>). The lemmas say that the sort visits all nodes if and
  only if the graph is acyclic, that its output is a topological order, and that the search returns exactly the
  nodes reachable from its start.
\<close>

type_synonym adjacency = "(string \<times> string list) list"

section \<open>Adjacency\<close>

text \<open>\<open>adjacency.set(s, [...(adjacency.get(s) ?? []), t])\<close>\<close>

definition add_target :: "adjacency \<Rightarrow> string \<Rightarrow> string \<Rightarrow> adjacency" where
  "add_target m s t = AList.update s (map_get_or m [] s @ [t]) m"

fun build_adjacency :: "(string \<times> string option) list \<Rightarrow> adjacency \<Rightarrow> adjacency" where
  "build_adjacency [] m = m"
| "build_adjacency ((s, t) # es) m =
     build_adjacency es (case t of None \<Rightarrow> m | Some u \<Rightarrow> add_target m s u)"

abbreviation succs :: "adjacency \<Rightarrow> string \<Rightarrow> string list" where
  "succs m s \<equiv> map_get_or m [] s"

definition arcs :: "adjacency \<Rightarrow> (string \<times> string) set" where
  "arcs m = {(s, t). t \<in> set (succs m s)}"

lemma succs_add_target [simp]:
  "succs (add_target m s t) u = (if u = s then succs m s @ [t] else succs m u)"
  by (simp add: add_target_def map_get_or_def update_conv split: option.split)

lemma succs_build:
  "succs (build_adjacency es m) u =
     succs m u @ map (\<lambda>e. the (snd e)) (filter (\<lambda>e. fst e = u \<and> snd e \<noteq> None) es)"
  by (induction es m rule: build_adjacency.induct) (auto split: option.splits)

lemma arcs_build: "arcs (build_adjacency es []) = {(s, t). (s, Some t) \<in> set es}"
  unfolding arcs_def succs_build by (force simp: map_get_or_def)

lemma keys_build:
  "fst ` set (build_adjacency es m) = fst ` set m \<union> {s. \<exists>t. (s, Some t) \<in> set es}"
  by (induction es m rule: build_adjacency.induct)
     (auto simp: add_target_def fst_set_update split: option.splits)

lemma distinct_build: "distinct (map fst m) \<Longrightarrow> distinct (map fst (build_adjacency es m))"
  by (induction es m rule: build_adjacency.induct)
     (auto simp: add_target_def distinct_update split: option.splits)

section \<open>Depth-first search with an explicit stack\<close>

definition universe :: "adjacency \<Rightarrow> string list \<Rightarrow> string set" where
  "universe m st = set st \<union> \<Union> (set ` snd ` set m)"

lemma succs_universe: "set (succs m x) \<subseteq> \<Union> (set ` snd ` set m)"
proof (cases "map_of m x")
  case (Some ts)
  then have "(x, ts) \<in> set m" by (rule map_of_SomeD)
  then show ?thesis using Some by (force simp: map_get_or_def)
qed (simp add: map_get_or_def)

lemma universe_finite [simp]: "finite (universe m st)"
  by (simp add: universe_def)

lemma universe_step: "universe m (rev (succs m x) @ st) \<subseteq> universe m (x # st)"
  using succs_universe [of m x] by (auto simp: universe_def)

text \<open>The head of the list is the end of the array: \<open>pop\<close> takes it, \<open>push(...ts)\<close> puts \<open>rev ts\<close> on it.\<close>

function dfs :: "adjacency \<Rightarrow> string list \<Rightarrow> string list \<Rightarrow> string list" where
  "dfs m found [] = found"
| "dfs m found (x # st) =
     (if x \<in> set found then dfs m found st
      else dfs m (found @ [x]) (rev (succs m x) @ st))"
  by pat_completeness auto

termination
proof (relation "(\<lambda>(m, found, st). card (universe m st - set found)) <*mlex*> measure (\<lambda>(m, found, st). length st)")
  show "wf ((\<lambda>(m, found, st). card (universe m st - set found)) <*mlex*> measure (\<lambda>(m, found, st). length st))"
    by (simp add: wf_mlex)
next
  fix m :: adjacency and found :: "string list" and x and st :: "string list"
  have "card (universe m st - set found) \<le> card (universe m (x # st) - set found)"
    by (intro card_mono) (auto simp: universe_def)
  then show "((m, found, st), m, found, x # st)
    \<in> (\<lambda>(m, found, st). card (universe m st - set found)) <*mlex*> measure (\<lambda>(m, found, st). length st)"
    by (auto intro: mlex_leq)
next
  fix m :: adjacency and found :: "string list" and x and st :: "string list"
  assume "x \<notin> set found"
  then have "universe m (rev (succs m x) @ st) - set (found @ [x]) \<subset> universe m (x # st) - set found"
    using universe_step [of m x st] by (auto simp: universe_def)
  then have "card (universe m (rev (succs m x) @ st) - set (found @ [x])) < card (universe m (x # st) - set found)"
    by (intro psubset_card_mono) auto
  then show "((m, found @ [x], rev (succs m x) @ st), m, found, x # st)
    \<in> (\<lambda>(m, found, st). card (universe m st - set found)) <*mlex*> measure (\<lambda>(m, found, st). length st)"
    by (auto intro: mlex_less)
qed

lemma dfs_grows: "set found \<union> set st \<subseteq> set (dfs m found st)"
  by (induction m found st rule: dfs.induct) auto

lemma dfs_closed:
  "\<forall>x \<in> set found. set (succs m x) \<subseteq> set found \<union> set st \<Longrightarrow>
   \<forall>x \<in> set (dfs m found st). set (succs m x) \<subseteq> set (dfs m found st)"
proof (induction m found st rule: dfs.induct)
  case (2 m found x st)
  then show ?case by (cases "x \<in> set found") (simp, blast, simp, blast)
qed simp

lemma dfs_sound: "y \<in> set (dfs m found st) \<Longrightarrow> y \<in> set found \<or> (\<exists>x \<in> set st. (x, y) \<in> (arcs m)\<^sup>*)"
proof (induction m found st rule: dfs.induct)
  case (2 m found x st)
  show ?case
  proof (cases "x \<in> set found")
    case False
    with 2 have "y \<in> set (found @ [x]) \<or> (\<exists>z \<in> set (rev (succs m x) @ st). (z, y) \<in> (arcs m)\<^sup>*)" by simp
    moreover have "(x, y) \<in> (arcs m)\<^sup>*" if "z \<in> set (succs m x)" "(z, y) \<in> (arcs m)\<^sup>*" for z
      using that by (auto simp: arcs_def intro: converse_rtrancl_into_rtrancl)
    ultimately show ?thesis by auto
  qed (use 2 in auto)
qed simp

lemma rtrancl_closed: "(x, y) \<in> r\<^sup>* \<Longrightarrow> x \<in> A \<Longrightarrow> (\<And>u v. u \<in> A \<Longrightarrow> (u, v) \<in> r \<Longrightarrow> v \<in> A) \<Longrightarrow> y \<in> A"
  by (induction rule: rtrancl_induct) auto

lemma set_dfs: "set (dfs m [] st) = {y. \<exists>x \<in> set st. (x, y) \<in> (arcs m)\<^sup>*}"
proof
  show "set (dfs m [] st) \<subseteq> {y. \<exists>x \<in> set st. (x, y) \<in> (arcs m)\<^sup>*}"
    using dfs_sound by fastforce
  have "y \<in> set (dfs m [] st)" if "x \<in> set st" "(x, y) \<in> (arcs m)\<^sup>*" for x y
    using that(2)
  proof (rule rtrancl_closed)
    show "x \<in> set (dfs m [] st)" using that(1) dfs_grows by fastforce
    show "v \<in> set (dfs m [] st)" if "u \<in> set (dfs m [] st)" "(u, v) \<in> arcs m" for u v
      using dfs_closed [of "[]" m st] that by (auto simp: arcs_def)
  qed
  then show "{y. \<exists>x \<in> set st. (x, y) \<in> (arcs m)\<^sup>*} \<subseteq> set (dfs m [] st)" by blast
qed

lemma dfs_distinct: "distinct found \<Longrightarrow> distinct (dfs m found st)"
  by (induction m found st rule: dfs.induct) auto

section \<open>Kahn's algorithm\<close>

type_synonym degrees = "(string \<times> int) list"

fun count_targets :: "string list \<Rightarrow> degrees \<Rightarrow> degrees" where
  "count_targets [] ind = ind"
| "count_targets (t # ts) ind =
     count_targets ts (case map_of ind t of None \<Rightarrow> ind | Some d \<Rightarrow> AList.update t (d + 1) ind)"

definition indegrees :: "string list \<Rightarrow> adjacency \<Rightarrow> degrees" where
  "indegrees ids m = fold count_targets (map snd m) (map (\<lambda>i. (i, 0)) ids)"

text \<open>The body of the loop over the queue: the new indegrees and the targets whose degree became 0\<close>

fun relax :: "string list \<Rightarrow> degrees \<Rightarrow> degrees \<times> string list" where
  "relax [] ind = (ind, [])"
| "relax (t # ts) ind =
     (case map_of ind t of
        None \<Rightarrow> relax ts ind
      | Some d \<Rightarrow>
          let (ind', new) = relax ts (AList.update t (d - 1) ind)
          in (ind', if d - 1 = 0 then t # new else new))"

definition positive :: "degrees \<Rightarrow> string set" where
  "positive ind = {t. \<exists>d. map_of ind t = Some d \<and> 0 < d}"

lemma relax_degrees:
  "map_of (fst (relax ts ind)) t = map_option (\<lambda>d. d - int (count_list ts t)) (map_of ind t)"
proof (induction ts ind rule: relax.induct)
  case (1 ind)
  then show ?case by (cases "map_of ind t") auto
next
  case (2 u ts ind)
  then show ?case
    by (cases "map_of ind u"; cases "map_of ind t") (auto simp: update_conv split: prod.splits)
qed

lemma relax_Cons:
  "relax (u # ts) ind =
     (case map_of ind u of
        None \<Rightarrow> relax ts ind
      | Some d \<Rightarrow> (fst (relax ts (AList.update u (d - 1) ind)),
                   (if d = 1 then [u] else []) @ snd (relax ts (AList.update u (d - 1) ind))))"
  by (auto split: option.split prod.split)

lemma relax_new:
  "t \<in> set (snd (relax ts ind)) \<longleftrightarrow> (\<exists>d. map_of ind t = Some d \<and> 0 < d \<and> d \<le> int (count_list ts t))"
proof (induction ts arbitrary: ind t)
  case (Cons u ts)
  show ?case
  proof (cases "map_of ind u")
    case (Some d)
    then show ?thesis
      by (cases "t = u") (auto simp: relax_Cons Cons update_conv simp del: relax.simps)
  qed (auto simp: relax_Cons Cons simp del: relax.simps)
qed auto

lemma relax_distinct: "distinct (snd (relax ts ind))"
proof (induction ts arbitrary: ind)
  case (Cons u ts)
  then show ?case
    by (cases "map_of ind u") (auto simp: relax_Cons relax_new update_conv simp del: relax.simps)
qed simp

lemma finite_positive [simp]: "finite (positive ind)"
proof (rule finite_subset)
  show "positive ind \<subseteq> dom (map_of ind)" by (auto simp: positive_def)
qed (rule finite_dom_map_of)

lemma relax_positive:
  "positive (fst (relax ts ind)) \<union> set (snd (relax ts ind)) \<subseteq> positive ind"
  "positive (fst (relax ts ind)) \<inter> set (snd (relax ts ind)) = {}"
  by (auto simp: positive_def relax_degrees relax_new)

lemma relax_measure: "card (positive (fst (relax ts ind))) + length (snd (relax ts ind)) \<le> card (positive ind)"
proof -
  have "card (positive (fst (relax ts ind))) + card (set (snd (relax ts ind))) =
    card (positive (fst (relax ts ind)) \<union> set (snd (relax ts ind)))"
    using relax_positive(2) by (intro card_Un_disjoint [symmetric]) auto
  also have "\<dots> \<le> card (positive ind)"
    using relax_positive(1) by (intro card_mono) auto
  finally show ?thesis by (simp add: distinct_card relax_distinct)
qed

text \<open>\<open>for (let i = 0; i < queue.length; i++)\<close>: \<open>vis\<close> is \<open>queue[0..i)\<close>, the third argument the rest of the queue\<close>

function kahn :: "adjacency \<Rightarrow> degrees \<Rightarrow> string list \<Rightarrow> string list \<Rightarrow> string list" where
  "kahn m ind [] vis = vis"
| "kahn m ind (x # xs) vis =
     kahn m (fst (relax (succs m x) ind)) (xs @ snd (relax (succs m x) ind)) (vis @ [x])"
  by pat_completeness auto
termination
  by (relation "measure (\<lambda>(m, ind, pend, vis). card (positive ind) + length pend)")
     (use relax_measure in \<open>auto simp: less_Suc_eq_le add.commute\<close>)

definition topological :: "string list \<Rightarrow> adjacency \<Rightarrow> string list" where
  "topological ids m =
     (let ind = indegrees ids m
      in kahn m ind (filter (\<lambda>i. map_of ind i = Some 0) ids) [])"


section \<open>Correctness of the sort\<close>

text \<open>\<open>arrows m s t\<close>: how many edges the map has from \<open>s\<close> to \<open>t\<close>\<close>

abbreviation arrows :: "adjacency \<Rightarrow> string \<Rightarrow> string \<Rightarrow> int" where
  "arrows m s t \<equiv> int (count_list (succs m s) t)"

definition sources :: "adjacency \<Rightarrow> string set" where
  "sources m = fst ` set m"

lemma count_targets_degrees:
  "map_of (count_targets ts ind) t = map_option (\<lambda>d. d + int (count_list ts t)) (map_of ind t)"
proof (induction ts arbitrary: ind)
  case Nil
  then show ?case by (cases "map_of ind t") auto
next
  case (Cons u ts)
  then show ?case
    by (cases "map_of ind u"; cases "map_of ind t") (auto simp: update_conv)
qed

lemma fold_count_targets:
  "map_of (fold count_targets tss ind) t = map_option (\<lambda>d. d + int (sum_list (map (\<lambda>ts. count_list ts t) tss))) (map_of ind t)"
proof (induction tss arbitrary: ind)
  case Nil
  then show ?case by (cases "map_of ind t") auto
next
  case (Cons ts tss)
  then show ?case by (cases "map_of ind t") (auto simp: count_targets_degrees)
qed

lemma sum_list_arrows:
  "distinct (map fst m) \<Longrightarrow> int (sum_list (map (\<lambda>ts. count_list ts t) (map snd m))) = (\<Sum>s \<in> sources m. arrows m s t)"
proof (induction m)
  case (Cons e m)
  obtain s ts where e: "e = (s, ts)" by (cases e)
  have "(\<Sum>u \<in> sources m. arrows ((s, ts) # m) u t) = (\<Sum>u \<in> sources m. arrows m u t)"
    using Cons.prems e by (intro sum.cong) (auto simp: sources_def map_get_or_def)
  moreover have "s \<notin> sources m" "finite (sources m)" using Cons.prems e by (auto simp: sources_def)
  ultimately show ?case
    using Cons e by (simp add: sources_def map_get_or_def)
qed (simp add: sources_def)

lemma indegrees_eq:
  "distinct (map fst m) \<Longrightarrow>
   map_of (indegrees ids m) t = (if t \<in> set ids then Some (\<Sum>s \<in> sources m. arrows m s t) else None)"
proof -
  assume "distinct (map fst m)"
  moreover have "map_of (map (\<lambda>i. (i, 0 :: int)) ids) t = (if t \<in> set ids then Some 0 else None)"
    by (induction ids) auto
  ultimately show ?thesis
    by (simp add: indegrees_def fold_count_targets sum_list_arrows del: map_map)
qed

definition ordered :: "adjacency \<Rightarrow> string list \<Rightarrow> bool" where
  "ordered m xs \<longleftrightarrow> (\<forall>ys x zs s. xs = ys @ x # zs \<longrightarrow> (s, x) \<in> arcs m \<longrightarrow> s \<in> set ys)"

definition kahn_inv :: "adjacency \<Rightarrow> string set \<Rightarrow> degrees \<Rightarrow> string list \<Rightarrow> string list \<Rightarrow> bool" where
  "kahn_inv m V ind pend vis \<longleftrightarrow>
     distinct (vis @ pend) \<and> set (vis @ pend) \<subseteq> V \<and> ordered m vis \<and>
     (\<forall>t. map_of ind t = (if t \<in> V then Some (\<Sum>s \<in> sources m - set vis. arrows m s t) else None)) \<and>
     (\<forall>t \<in> V. t \<in> set (vis @ pend) \<longleftrightarrow> map_of ind t = Some 0)"

lemma finite_sources [simp]: "finite (sources m)"
  by (simp add: sources_def)

lemma not_source: "s \<notin> sources m \<Longrightarrow> succs m s = []"
  by (auto simp: sources_def map_get_or_def map_of_eq_None_iff [THEN iffD2])

lemma remaining_zero:
  "(\<Sum>s \<in> sources m - D. arrows m s t) = 0 \<longleftrightarrow> (\<forall>s. (s, t) \<in> arcs m \<longrightarrow> s \<in> D)"
proof -
  have "(\<Sum>s \<in> sources m - D. arrows m s t) = 0 \<longleftrightarrow> (\<forall>s \<in> sources m - D. arrows m s t = 0)"
    by (rule sum_nonneg_eq_0_iff) auto
  also have "\<dots> \<longleftrightarrow> (\<forall>s. (s, t) \<in> arcs m \<longrightarrow> s \<in> D)"
    using not_source by (fastforce simp: arcs_def count_list_0_iff)
  finally show ?thesis .
qed

lemma ordered_snoc: "ordered m xs \<Longrightarrow> (\<And>s. (s, x) \<in> arcs m \<Longrightarrow> s \<in> set xs) \<Longrightarrow> ordered m (xs @ [x])"
  unfolding ordered_def by (auto simp: append_eq_append_conv2 append_eq_Cons_conv Cons_eq_append_conv)

lemma remaining_step:
  assumes "x \<notin> D"
  shows "(\<Sum>s \<in> sources m - insert x D. arrows m s t) = (\<Sum>s \<in> sources m - D. arrows m s t) - arrows m x t"
proof (cases "x \<in> sources m")
  case True
  have "sources m - insert x D = (sources m - D) - {x}" by blast
  then show ?thesis using True assms by (simp add: sum_diff1)
next
  case False
  then have "sources m - insert x D = sources m - D" by blast
  then show ?thesis using not_source [OF False] by simp
qed

lemma kahn_inv_step:
  assumes "kahn_inv m V ind (x # xs) vis"
  shows "kahn_inv m V (fst (relax (succs m x) ind)) (xs @ snd (relax (succs m x) ind)) (vis @ [x])"
proof -
  let ?r = "\<lambda>D t. \<Sum>s \<in> sources m - D. arrows m s t"
  let ?new = "snd (relax (succs m x) ind)"
  from assms have d: "distinct (vis @ x # xs)" and sub: "set (vis @ x # xs) \<subseteq> V" and o: "ordered m vis"
    and ind: "\<And>t. map_of ind t = (if t \<in> V then Some (?r (set vis) t) else None)"
    and q: "\<And>t. t \<in> V \<Longrightarrow> t \<in> set (vis @ x # xs) \<longleftrightarrow> map_of ind t = Some 0"
    unfolding kahn_inv_def by auto
  have x: "x \<in> V" "x \<notin> set vis" using d sub by auto
  have preds: "s \<in> set vis" if "(s, x) \<in> arcs m" for s
    using q [OF x(1)] ind [of x] x(1) remaining_zero [where m = m and D = "set vis" and t = x] that by auto
  have deg: "map_of (fst (relax (succs m x) ind)) t =
      (if t \<in> V then Some (?r (set (vis @ [x])) t) else None)" for t
    using remaining_step [OF x(2), where m = m and t = t] by (simp add: relax_degrees ind)
  have new: "t \<in> set ?new \<longleftrightarrow> t \<in> V \<and> 0 < ?r (set vis) t \<and> ?r (set (vis @ [x])) t \<le> 0" for t
    using remaining_step [OF x(2), where m = m and t = t] by (auto simp: relax_new ind)
  have nonneg: "0 \<le> ?r (set (vis @ [x])) t" for t by (intro sum_nonneg) auto
  have old: "t \<in> set (vis @ x # xs) \<longleftrightarrow> ?r (set vis) t = 0" if "t \<in> V" for t
    using q [OF that] ind [of t] that by simp
  have mono: "?r (set (vis @ [x])) t \<le> ?r (set vis) t" for t
    using remaining_step [OF x(2), where m = m and t = t] by simp
  have "t \<in> set ((vis @ [x]) @ xs @ ?new) \<longleftrightarrow> ?r (set (vis @ [x])) t = 0" if "t \<in> V" for t
    using old [OF that] new [of t] nonneg [of t] mono [of t] that by auto
  moreover have "distinct ((vis @ [x]) @ xs @ ?new)"
  proof -
    have "set (vis @ x # xs) \<inter> set ?new = {}" using old new by fastforce
    then show ?thesis using d relax_distinct [of "succs m x" ind] by auto
  qed
  moreover have "set ((vis @ [x]) @ xs @ ?new) \<subseteq> V" using sub new by auto
  moreover have "ordered m (vis @ [x])" using o preds by (rule ordered_snoc)
  ultimately show ?thesis using deg unfolding kahn_inv_def by simp
qed

lemma kahn_inv_run: "kahn_inv m V ind pend vis \<Longrightarrow> \<exists>ind'. kahn_inv m V ind' [] (kahn m ind pend vis)"
proof (induction m ind pend vis rule: kahn.induct)
  case (2 m ind x xs vis)
  then show ?case using kahn_inv_step [OF "2.prems"] by simp
qed auto

lemma topological_inv:
  assumes "distinct ids" "distinct (map fst m)"
  shows "\<exists>ind. kahn_inv m (set ids) ind [] (topological ids m)"
proof -
  have "kahn_inv m (set ids) (indegrees ids m) (filter (\<lambda>i. map_of (indegrees ids m) i = Some 0) ids) []"
    using assms by (simp add: kahn_inv_def ordered_def indegrees_eq)
  from kahn_inv_run [OF this] show ?thesis by (simp add: topological_def Let_def)
qed

lemma ordered_acyclic:
  assumes "ordered m xs" "distinct xs"
  shows "acyclic {(s, t). (s, t) \<in> arcs m \<and> s \<in> set xs \<and> t \<in> set xs}"
  using assms
proof (induction xs rule: rev_induct)
  case Nil
  then show ?case by (simp add: acyclic_def)
next
  case (snoc x xs)
  let ?r = "\<lambda>xs. {(s, t). (s, t) \<in> arcs m \<and> s \<in> set xs \<and> t \<in> set xs}"
  have pre: "s \<in> set ys" if "xs @ [x] = ys @ y # zs" "(s, y) \<in> arcs m" for s y ys zs
    using snoc.prems(1) that unfolding ordered_def by blast
  have out: "(x, t) \<notin> ?r (xs @ [x])" for t
  proof
    assume "(x, t) \<in> ?r (xs @ [x])"
    then have "t \<in> set (xs @ [x])" and a: "(x, t) \<in> arcs m" by auto
    then obtain ys zs where s: "xs @ [x] = ys @ t # zs" by (meson split_list)
    then have "x \<in> set ys" using pre [OF s a] by blast
    then show False using snoc.prems(2) s
      by (cases zs rule: rev_cases) (auto simp: append_eq_append_conv2)
  qed
  have "ordered m xs" using snoc.prems(1) unfolding ordered_def by (metis append.assoc append_Cons)
  then have ac: "acyclic (?r xs)" using snoc by simp
  have "(a, b) \<in> (?r (xs @ [x]))\<^sup>+ \<Longrightarrow> (a, b) \<in> (?r xs)\<^sup>+ \<or> b = x" for a b
  proof (induction rule: trancl_induct)
    case (base y)
    then show ?case using out by auto
  next
    case (step y z)
    then have "y \<noteq> x" using out by blast
    with step have "(a, y) \<in> (?r xs)\<^sup>+" and "(y, z) \<in> ?r xs \<or> z = x" by auto
    then show ?case by (meson trancl.trancl_into_trancl)
  qed
  moreover have "(x, b) \<notin> (?r (xs @ [x]))\<^sup>+" for b
    using out by (meson tranclD)
  ultimately have "(a, a) \<notin> (?r (xs @ [x]))\<^sup>+" for a
    using ac unfolding acyclic_def by blast
  then show ?case unfolding acyclic_def by blast
qed

text \<open>The sort returns as many nodes as there are exactly when the graph has no cycle.\<close>

lemma topological_complete_iff:
  assumes "distinct ids" "distinct (map fst m)" "\<And>s t. (s, t) \<in> arcs m \<Longrightarrow> s \<in> set ids \<and> t \<in> set ids"
  shows "length (topological ids m) = length ids \<longleftrightarrow> acyclic (arcs m)"
proof -
  let ?o = "topological ids m"
  obtain ind where inv: "kahn_inv m (set ids) ind [] ?o" using topological_inv assms by blast
  then have d: "distinct ?o" and sub: "set ?o \<subseteq> set ids" and o: "ordered m ?o"
    and zero: "\<And>t. t \<in> set ids \<Longrightarrow> t \<in> set ?o \<longleftrightarrow> (\<Sum>s \<in> sources m - set ?o. arrows m s t) = 0"
    unfolding kahn_inv_def by auto
  have full: "length ?o = length ids \<longleftrightarrow> set ?o = set ids"
  proof
    assume "length ?o = length ids"
    then have "card (set ?o) = card (set ids)" using d assms(1) by (simp add: distinct_card)
    then show "set ?o = set ids" using sub by (intro card_subset_eq) auto
  next
    assume "set ?o = set ids"
    then show "length ?o = length ids" using d assms(1) distinct_card by metis
  qed
  have "acyclic (arcs m)" if "set ?o = set ids"
  proof -
    have "arcs m = {(s, t). (s, t) \<in> arcs m \<and> s \<in> set ?o \<and> t \<in> set ?o}" using assms(3) that by auto
    then show ?thesis using ordered_acyclic [OF o d] by simp
  qed
  moreover have "set ?o = set ids" if ac: "acyclic (arcs m)"
  proof (rule ccontr)
    assume "set ?o \<noteq> set ids"
    with sub obtain u where u: "u \<in> set ids - set ?o" by blast
    have "arcs m \<subseteq> set ids \<times> set ids" using assms(3) by auto
    then have "finite (arcs m)" by (rule finite_subset) simp
    then have "wf (arcs m)" using ac by (rule finite_acyclic_wf)
    then obtain t where t: "t \<in> set ids - set ?o" "\<And>s. (s, t) \<in> arcs m \<Longrightarrow> s \<notin> set ids - set ?o"
      using u by (meson wfE_min)
    then have "\<forall>s. (s, t) \<in> arcs m \<longrightarrow> s \<in> set ?o" using assms(3) by blast
    then have "t \<in> set ?o" using zero [of t] remaining_zero [where m = m and D = "set ?o" and t = t] t(1) by auto
    with t(1) show False by simp
  qed
  ultimately show ?thesis using full by blast
qed

lemma topological_ordered:
  assumes "distinct ids" "distinct (map fst m)"
  shows "ordered m (topological ids m)" "distinct (topological ids m)" "set (topological ids m) \<subseteq> set ids"
  using topological_inv [OF assms] unfolding kahn_inv_def by auto

end
