(* ===== verification/Journey_Model.thy ===== *)
theory Journey_Model
  imports Segment_Safety Graph_Core
begin

text \<open>
  The data model of \<open>packages/journey-model/src/index.ts\<close> and the functions on it: output ports, the channel
  of a message node, the adapter from linear (v1) definitions to graphs (v2), the definition a campaign
  stands for, and the published A/B allocations of \<open>published.ts\<close>.

  A required string that is missing in stored data behaves like the empty string in every check of
  the sources (\<open>?.trim()\<close>), so required strings are \<^typ>\<open>string\<close>. A branch condition is kept as the
  raw JSON value, since the validator checks its shape itself. \<open>Unsupported\<close> is a node of a type the
  package does not know.
\<close>

section \<open>Data\<close>

record push_content =
  push_title :: string
  push_body :: string
  push_image_url :: "string option"
  push_deep_link :: "string option"

record email_content =
  email_subject :: string
  email_html :: string
  email_provider :: "string option"

record alimtalk_fallback =
  fb_type :: string
  fb_text :: string
  fb_title :: "string option"

record alimtalk_content =
  at_sender_id :: string
  at_template_code :: string
  at_variables :: "(string \<times> string) list"
  at_fallback :: "alimtalk_fallback option"

record ab_variant =
  av_id :: string
  av_label :: string
  av_weight :: jsnum

datatype node_body =
    Message "push_content option" "email_content option" "alimtalk_content option"
  | Delay jsnum
  | Branch jsval
  | EventWait string jsnum
  | ABSplit "ab_variant list"
  | Unsupported string

record journey_node =
  n_id :: "string option"
  n_body :: node_body

record journey_edge =
  e_id :: string
  e_source :: string
  e_port :: string
  e_target :: "string option"

record entry_rule =
  entry_type :: string
  entry_segment :: "string option"
  entry_trigger :: "string option"

datatype reentry = Never | Always | AfterDays jsnum | BadReentry

record journey_definition =
  schema_version :: "jsnum option"
  entry :: "entry_rule option"
  nodes :: "journey_node list"
  start_node_id :: "string option"
  edges :: "journey_edge list option"
  conversion_event :: "string option"
  category_of :: string
  reentry_of :: reentry

definition EMAIL_PROVIDERS :: "string list" where
  "EMAIL_PROVIDERS = [''email_smtp'', ''email_nhn'', ''email_resend'']"

datatype channel = Push | Email | Alimtalk

text \<open>A channel object is truthy when present, so the array holds the channels that are set.\<close>

definition messageChannel ::
  "push_content option \<Rightarrow> email_content option \<Rightarrow> alimtalk_content option \<Rightarrow> channel option" where
  "messageChannel p e a =
     (let present = (if p \<noteq> None then [Push] else []) @ (if e \<noteq> None then [Email] else []) @
                (if a \<noteq> None then [Alimtalk] else [])
      in if length present = 1 then Some (hd present) else None)"

datatype port_label = LTrue | LFalse | LMatched | LTimeout | LNext | LVariant string jsnum

fun outputPorts :: "node_body \<Rightarrow> (string \<times> port_label) list" where
  "outputPorts (Branch _) = [(''true'', LTrue), (''false'', LFalse)]"
| "outputPorts (EventWait _ _) = [(''matched'', LMatched), (''timeout'', LTimeout)]"
| "outputPorts (ABSplit vs) = map (\<lambda>v. (av_id v, LVariant (av_label v) (av_weight v))) vs"
| "outputPorts _ = [(''next'', LNext)]"

abbreviation port_ids :: "journey_node \<Rightarrow> string list" where
  "port_ids n \<equiv> map fst (outputPorts (n_body n))"

section \<open>Validation issues\<close>

datatype level = LevelError | LevelWarning

datatype branch_error =
    NeedGroups | TooManyGroups | UnknownDslField | GroupEmpty | TooManyConditions | UnknownGroupField
  | EventFilterUnsupported | EventNameRequired | EventOpUnsupported | EventWindowRange
  | UnknownAttributeField | AttributeKeyRequired | AttributeOpUnsupported | AttributeValueRequired
  | ScalarValueRequired | NumericValueRequired | ContainsString | InListScalars | DateRequired | DaysRange
  | ConditionUnsupported

datatype issue_message =
    MVersion | MEntryMissing | MEntrySegment | MEntryEvent | MEntryUnsupported | MNoNodes | MTooManyNodes
  | MGraphOnly | MEmptyEmail | MEmailProvider | MSenderRequired | MTemplateRequired | MFallbackText
  | MEmptyPush | MOneChannel | MDelay | MBranch branch_error | MWaitEvent | MWaitTimeout | MConversionFirst
  | MVariantCount | MVariantIds | MVariantLabels | MVariantWeights | MUnknownNode | MNoMessage | MTrailingDelay
  | MCategory | MReentry | MReentryMax
  | MNodeId | MDuplicateNode | MStart | MEdgesMissing | MEdgeId | MEdgeSource | MEdgePort | MEdgeTarget
  | MPortTwice | MPortOpen port_label | MCycle | MUnreachable | MPublishedAB | MGraphDisabled

record issue =
  i_level :: level
  i_message :: issue_message
  i_node_index :: "nat option"
  i_node_id :: "string option"
  i_edge_id :: "string option"
  i_field :: "string option"

definition hasErrors :: "issue list \<Rightarrow> bool" where
  "hasErrors issues = list_ex (\<lambda>i. i_level i = LevelError) issues"

section \<open>Adapters\<close>

definition legacy_id :: "nat \<Rightarrow> string" where
  "legacy_id i = ''legacy-'' @ nat_str i"

definition legacy_edge_id :: "nat \<Rightarrow> string" where
  "legacy_edge_id i = ''legacy-edge-'' @ nat_str i"

definition with_ids :: "journey_node list \<Rightarrow> journey_node list" where
  "with_ids ns = map (\<lambda>(i, n). n\<lparr>n_id := Some (case n_id n of None \<Rightarrow> legacy_id i | Some s \<Rightarrow> s)\<rparr>) (enumerate 0 ns)"

definition toGraphDefinition :: "journey_definition \<Rightarrow> string + journey_definition" where
  "toGraphDefinition def =
     (if schema_version def = Some (Num 2) then Inr def
      else if schema_version def \<noteq> None \<and> schema_version def \<noteq> Some (Num 1) then Inl ''unsupported version''
      else
        let ns = with_ids (nodes def);
            id_at = (\<lambda>i. if i < length ns then n_id (ns ! i) else None)
        in Inr (def\<lparr>schema_version := Some (Num 2), nodes := ns, start_node_id := id_at 0,
                    edges := Some (map (\<lambda>i. \<lparr>e_id = legacy_edge_id i, e_source = the (id_at i), e_port = ''next'',
                                              e_target = id_at (i + 1)\<rparr>) [0..<length ns])\<rparr>))"

definition campaignToJourney :: "string \<Rightarrow> push_content option \<Rightarrow> string \<Rightarrow> journey_definition" where
  "campaignToJourney segment_id push category =
     \<lparr>schema_version = None,
      entry = Some \<lparr>entry_type = ''blast'', entry_segment = Some segment_id, entry_trigger = None\<rparr>,
      nodes = [\<lparr>n_id = None, n_body = Message push None None\<rparr>], start_node_id = None, edges = None,
      conversion_event = None, category_of = category, reentry_of = Never\<rparr>"

section \<open>Published A/B allocations\<close>

type_synonym published_ab = "(string \<times> ab_variant list) list"

fun collect_nodes :: "journey_node list \<Rightarrow> published_ab \<Rightarrow> published_ab" where
  "collect_nodes [] pub = pub"
| "collect_nodes (n # ns) pub =
     collect_nodes ns
       (case (n_body n, n_id n) of
          (ABSplit vs, Some i) \<Rightarrow> if i \<noteq> [] \<and> \<not> map_has pub i then pub @ [(i, vs)] else pub
        | _ \<Rightarrow> pub)"

definition collectPublishedABNodes :: "journey_definition list \<Rightarrow> published_ab" where
  "collectPublishedABNodes defs = fold (\<lambda>d. collect_nodes (nodes d)) defs []"

text \<open>\<open>JSON.stringify(variants.map(v => [v.id, v.weight]))\<close>: a non-finite weight is written as \<open>null\<close>\<close>

definition json_number :: "jsnum \<Rightarrow> jsnum option" where
  "json_number n = (if num_is_finite n then Some n else None)"

definition allocation :: "ab_variant list \<Rightarrow> (string \<times> jsnum option) list" where
  "allocation vs = map (\<lambda>v. (av_id v, json_number (av_weight v))) vs"

definition published_issue :: "published_ab \<Rightarrow> nat \<Rightarrow> journey_node \<Rightarrow> issue list" where
  "published_issue pub index n =
     (case (n_body n, n_id n) of
        (ABSplit vs, Some i) \<Rightarrow>
          (case map_of pub i of
             None \<Rightarrow> []
           | Some old \<Rightarrow>
               if i \<noteq> [] \<and> allocation vs \<noteq> allocation old
               then [\<lparr>i_level = LevelError, i_message = MPublishedAB, i_node_index = Some index, i_node_id = Some i,
                      i_edge_id = None, i_field = Some ''variants''\<rparr>] else [])
      | _ \<Rightarrow> [])"

definition validatePublishedABNodes :: "journey_definition \<Rightarrow> published_ab \<Rightarrow> issue list" where
  "validatePublishedABNodes def pub = each_indexed (published_issue pub) (nodes def)"

text \<open>The allocations of the A/B nodes of a definition, by node id\<close>

definition ab_nodes :: "journey_definition \<Rightarrow> (string \<times> ab_variant list) set" where
  "ab_nodes def = {(i, vs). i \<noteq> [] \<and> (\<exists>n \<in> set (nodes def). n_id n = Some i \<and> n_body n = ABSplit vs)}"

lemma collect_nodes_keeps: "map_of pub i = Some vs \<Longrightarrow> map_of (collect_nodes ns pub) i = Some vs"
  by (induction ns pub rule: collect_nodes.induct)
     (auto simp: map_add_def split: node_body.split option.split)

lemma collect_nodes_covers:
  "n \<in> set ns \<Longrightarrow> n_id n = Some i \<Longrightarrow> n_body n = ABSplit vs \<Longrightarrow> i \<noteq> [] \<Longrightarrow> map_has (collect_nodes ns pub) i"
proof (induction ns arbitrary: pub)
  case (Cons m ns)
  show ?case
  proof (cases "n = m")
    case True
    then obtain vs' where "map_of (if \<not> map_has pub i then pub @ [(i, vs)] else pub) i = Some vs'"
      by (cases "map_of pub i") (auto simp: map_has_def map_add_def)
    from collect_nodes_keeps [OF this, of ns] show ?thesis
      using True Cons.prems by (auto simp: map_has_def split: if_splits)
  qed (use Cons in auto)
qed simp

lemma collect_fold_keeps:
  "map_of pub i = Some vs \<Longrightarrow> map_of (fold (\<lambda>d. collect_nodes (nodes d)) defs pub) i = Some vs"
  by (induction defs arbitrary: pub) (auto simp: collect_nodes_keeps)

lemma collect_covers:
  "d \<in> set defs \<Longrightarrow> (i, vs) \<in> ab_nodes d \<Longrightarrow> map_has (fold (\<lambda>d. collect_nodes (nodes d)) defs pub) i"
proof (induction defs arbitrary: pub)
  case (Cons e defs)
  show ?case
  proof (cases "d = e")
    case True
    then obtain vs' where "map_of (collect_nodes (nodes e) pub) i = Some vs'"
      using Cons.prems collect_nodes_covers [of _ "nodes e" i vs pub]
      by (auto simp: ab_nodes_def map_has_def)
    then show ?thesis by (simp add: map_has_def collect_fold_keeps)
  qed (use Cons in auto)
qed simp

lemma published_issue_Nil:
  "published_issue pub index n = [] \<longleftrightarrow>
   (\<forall>i vs old. n_id n = Some i \<longrightarrow> n_body n = ABSplit vs \<longrightarrow> map_of pub i = Some old \<longrightarrow> i \<noteq> [] \<longrightarrow>
      allocation vs = allocation old)"
  by (auto simp: published_issue_def split: node_body.split option.split)

lemma published_issues_empty:
  "validatePublishedABNodes def pub = [] \<longleftrightarrow>
   (\<forall>i vs old. (i, vs) \<in> ab_nodes def \<longrightarrow> map_of pub i = Some old \<longrightarrow> allocation vs = allocation old)"
  unfolding validatePublishedABNodes_def each_indexed_Nil [OF published_issue_Nil] ab_nodes_def by blast

end
