(* ===== verification/Journey_Validation.thy ===== *)
theory Journey_Validation
  imports Journey_Model
begin

text \<open>
  \<open>packages/journey-model/src/validation.ts\<close>: the checks a journey definition passes before it is activated.
  \<open>validateBranchCondition\<close> inspects the raw JSON of a branch condition, \<open>validateJourney\<close> the
  definition and \<open>validateGraph\<close> the topology of a v2 graph, with the algorithms of \<open>Graph_Core\<close>. The lemmas
  characterise the definitions without errors, and show what the engine may rely on for them.
\<close>

section \<open>Scalars, durations and dates\<close>

definition ATTRIBUTE_OPS :: "string list" where
  "ATTRIBUTE_OPS = [''eq'', ''neq'', ''gt'', ''gte'', ''lt'', ''lte'', ''in'', ''exists'', ''not_exists'', ''contains'',
     ''before'', ''after'', ''in_last_days'', ''not_in_last_days'']"

definition MAX_DURATION_SECONDS :: rat where
  "MAX_DURATION_SECONDS = 9223372036"

definition validDuration :: "jsnum \<Rightarrow> bool" where
  "validDuration n \<longleftrightarrow> num_is_safe_integer n \<and> num_less (Num 0) n \<and> num_le n (Num MAX_DURATION_SECONDS)"

definition nonempty :: "jsval option \<Rightarrow> bool" where
  "nonempty v \<longleftrightarrow> (case v of Some (JStr s) \<Rightarrow> trim s \<noteq> [] | _ \<Rightarrow> False)"

definition scalar_value :: "jsval option \<Rightarrow> bool" where
  "scalar_value v \<longleftrightarrow> (case v of Some (JStr _) \<Rightarrow> True | Some (JBool _) \<Rightarrow> True | Some (JNum n) \<Rightarrow> num_is_finite n | _ \<Rightarrow> False)"

definition is_digit :: "char \<Rightarrow> bool" where
  "is_digit c \<longleftrightarrow> 48 \<le> (of_char c :: nat) \<and> (of_char c :: nat) \<le> 57"

definition two_digits :: "nat \<Rightarrow> string \<Rightarrow> bool" where
  "two_digits hi s \<longleftrightarrow> length s = 2 \<and> list_all is_digit s \<and> str_nat s \<le> hi"

definition zone_ok :: "string \<Rightarrow> bool" where
  "zone_ok z \<longleftrightarrow> z = ''Z'' \<or>
     (length z = 6 \<and> (z ! 0 = CHR ''+'' \<or> z ! 0 = CHR ''-'') \<and> two_digits 23 (take 2 (drop 1 z)) \<and> z ! 3 = CHR '':'' \<and>
      two_digits 59 (drop 4 z))"

definition fraction_zone_ok :: "string \<Rightarrow> bool" where
  "fraction_zone_ok r \<longleftrightarrow>
     (case r of
        CHR ''.'' # t \<Rightarrow> (let ds = takeWhile is_digit t in 1 \<le> length ds \<and> length ds \<le> 9 \<and> zone_ok (drop (length ds) t))
      | _ \<Rightarrow> zone_ok r)"

definition time_ok :: "string \<Rightarrow> bool" where
  "time_ok t \<longleftrightarrow> 9 \<le> length t \<and> t ! 0 = CHR ''T'' \<and> two_digits 23 (take 2 (drop 1 t)) \<and> t ! 3 = CHR '':'' \<and>
     two_digits 59 (take 2 (drop 4 t)) \<and> t ! 6 = CHR '':'' \<and> two_digits 59 (take 2 (drop 7 t)) \<and>
     fraction_zone_ok (drop 9 t)"

definition days_in_month :: "nat \<Rightarrow> nat \<Rightarrow> nat" where
  "days_in_month y m =
     (if m = 2 then (if (4 dvd y \<and> \<not> 100 dvd y) \<or> 400 dvd y then 29 else 28)
      else if m \<in> {4, 6, 9, 11} then 30 else 31)"

text \<open>
  The regular expression, and the calendar check that \<open>Date.parse\<close> and the comparison with
  \<open>toISOString\<close> make together
\<close>

definition validDate :: "jsval option \<Rightarrow> bool" where
  "validDate v \<longleftrightarrow>
     (case v of
        Some (JStr s) \<Rightarrow>
          10 \<le> length s \<and> list_all is_digit (take 4 s) \<and> s ! 4 = CHR ''-'' \<and> list_all is_digit (take 2 (drop 5 s)) \<and>
          s ! 7 = CHR ''-'' \<and> list_all is_digit (take 2 (drop 8 s)) \<and>
          (drop 10 s = [] \<or> time_ok (drop 10 s)) \<and>
          (let y = str_nat (take 4 s); m = str_nat (take 2 (drop 5 s)); d = str_nat (take 2 (drop 8 s))
           in 1 \<le> m \<and> m \<le> 12 \<and> 1 \<le> d \<and> d \<le> days_in_month y m)
      | _ \<Rightarrow> False)"

section \<open>Branch conditions\<close>

definition op_in :: "jsval option \<Rightarrow> string list \<Rightarrow> bool" where
  "op_in v ops \<longleftrightarrow> (case v of Some (JStr s) \<Rightarrow> s \<in> set ops | _ \<Rightarrow> False)"

definition extra_keys :: "jsval \<Rightarrow> string list \<Rightarrow> bool" where
  "extra_keys v allowed \<longleftrightarrow> list_ex (\<lambda>k. k \<notin> set allowed) (js_keys v)"

definition flag :: "bool \<Rightarrow> 'a \<Rightarrow> 'a list" where
  "flag b x = (if b then [x] else [])"

definition days_in_range :: "jsval option \<Rightarrow> rat \<Rightarrow> bool" where
  "days_in_range v hi \<longleftrightarrow>
     (case v of Some (JNum n) \<Rightarrow> num_is_integer n \<and> \<not> num_less n (Num 1) \<and> \<not> num_less (Num hi) n | _ \<Rightarrow> False)"

definition event_condition_errors :: "jsval \<Rightarrow> branch_error list" where
  "event_condition_errors c =
     flag (extra_keys c [''type'', ''event'', ''op'', ''window_days'']) EventFilterUnsupported @
     flag (\<not> nonempty (js_get c ''event'')) EventNameRequired @
     flag (\<not> op_in (js_get c ''op'') [''performed'', ''not_performed'']) EventOpUnsupported @
     (let days = (case js_get c ''window_days'' of None \<Rightarrow> Some (JNum (Num 30)) | Some JNull \<Rightarrow> Some (JNum (Num 30)) | Some v \<Rightarrow> Some v)
      in flag (\<not> days_in_range days 180) EventWindowRange)"

definition finite_number :: "jsval option \<Rightarrow> bool" where
  "finite_number v \<longleftrightarrow> (case v of Some (JNum n) \<Rightarrow> num_is_finite n | _ \<Rightarrow> False)"

definition attribute_condition_errors :: "jsval \<Rightarrow> branch_error list" where
  "attribute_condition_errors c =
     (let op = js_get c ''op''; value = js_get c ''value''
      in flag (extra_keys c [''type'', ''key'', ''op'', ''value'']) UnknownAttributeField @
         flag (\<not> nonempty (js_get c ''key'')) AttributeKeyRequired @
         flag (\<not> op_in op ATTRIBUTE_OPS) AttributeOpUnsupported @
         flag (\<not> op_in op [''exists'', ''not_exists''] \<and> value = None) AttributeValueRequired @
         flag (op_in op [''eq'', ''neq''] \<and> \<not> scalar_value value) ScalarValueRequired @
         flag (op_in op [''gt'', ''gte'', ''lt'', ''lte''] \<and> \<not> finite_number value) NumericValueRequired @
         flag (op_in op [''contains''] \<and> (case value of Some (JStr _) \<Rightarrow> False | _ \<Rightarrow> True)) ContainsString @
         flag (op_in op [''in''] \<and>
           (case value of Some (JArr vs) \<Rightarrow> vs = [] \<or> \<not> list_all (\<lambda>v. scalar_value (Some v)) vs | _ \<Rightarrow> True)) InListScalars @
         flag (op_in op [''before'', ''after''] \<and> \<not> validDate value) DateRequired @
         flag (op_in op [''in_last_days'', ''not_in_last_days''] \<and> \<not> days_in_range value 106751) DaysRange)"

definition condition_errors :: "jsval \<Rightarrow> branch_error list" where
  "condition_errors c =
     (if js_get c ''type'' = Some (JStr ''event'') then event_condition_errors c
      else if js_get c ''type'' = Some (JStr ''attribute'') then attribute_condition_errors c
      else [ConditionUnsupported])"

definition group_errors :: "jsval \<Rightarrow> branch_error list" where
  "group_errors g =
     (case js_get g ''conditions'' of
        Some (JArr cs) \<Rightarrow>
          if \<not> op_in (js_get g ''operator'') [''AND'', ''OR''] \<or> cs = [] then [GroupEmpty]
          else flag (50 < length cs) TooManyConditions @
               flag (extra_keys g [''operator'', ''conditions'']) UnknownGroupField @
               concat (map condition_errors cs)
      | _ \<Rightarrow> [GroupEmpty])"

definition validateBranchCondition :: "jsval \<Rightarrow> branch_error list" where
  "validateBranchCondition dsl =
     (case js_get dsl ''groups'' of
        Some (JArr gs) \<Rightarrow>
          if js_get dsl ''version'' \<noteq> Some (JNum (Num 1)) \<or> \<not> op_in (js_get dsl ''operator'') [''AND'', ''OR''] \<or> gs = []
          then [NeedGroups]
          else js_uniq (flag (20 < length gs) TooManyGroups @
                        flag (extra_keys dsl [''version'', ''operator'', ''groups'']) UnknownDslField @
                        concat (map group_errors gs))
      | _ \<Rightarrow> [NeedGroups])"

section \<open>Graphs\<close>

definition node_issue :: "issue_message \<Rightarrow> nat option \<Rightarrow> string option \<Rightarrow> string option \<Rightarrow> issue" where
  "node_issue m index nid fld =
     \<lparr>i_level = LevelError, i_message = m, i_node_index = index, i_node_id = nid, i_edge_id = None, i_field = fld\<rparr>"

definition edge_issue :: "issue_message \<Rightarrow> journey_edge \<Rightarrow> issue" where
  "edge_issue m e =
     \<lparr>i_level = LevelError, i_message = m, i_node_index = None, i_node_id = Some (e_source e), i_edge_id = Some (e_id e), i_field = None\<rparr>"

type_synonym node_map = "(string \<times> journey_node) list"

definition id_ok :: "string option \<Rightarrow> bool" where
  "id_ok i \<longleftrightarrow> (case i of None \<Rightarrow> False | Some s \<Rightarrow> trim s \<noteq> [] \<and> length s \<le> 128)"

text \<open>The first loop: the map of the nodes with a valid, new id\<close>

fun index_nodes :: "nat \<Rightarrow> journey_node list \<Rightarrow> node_map \<Rightarrow> issue list \<times> node_map" where
  "index_nodes k [] m = ([], m)"
| "index_nodes k (n # ns) m =
     (if \<not> id_ok (n_id n) then
        let (iss, m') = index_nodes (k + 1) ns m in (node_issue MNodeId (Some k) None (Some ''id'') # iss, m')
      else if map_has m (the (n_id n)) then
        let (iss, m') = index_nodes (k + 1) ns m in (node_issue MDuplicateNode None (n_id n) (Some ''id'') # iss, m')
      else index_nodes (k + 1) ns (m @ [(the (n_id n), n)]))"

record edge_state =
  es_ids :: "string list"
  es_outputs :: "(string \<times> string) list"
  es_adjacency :: adjacency

text \<open>The body of the loop over the edges; a port key \<open>JSON.stringify([source, port])\<close> is the pair\<close>

definition check_edge :: "node_map \<Rightarrow> journey_edge \<Rightarrow> edge_state \<Rightarrow> issue list \<times> edge_state" where
  "check_edge m e st =
     (flag (trim (e_id e) = [] \<or> e_id e \<in> set (es_ids st)) (edge_issue MEdgeId e) @
      (case map_of m (e_source e) of
         None \<Rightarrow> [edge_issue MEdgeSource e]
       | Some n \<Rightarrow> flag (e_port e \<notin> set (port_ids n)) (edge_issue MEdgePort e)) @
      flag (case e_target e of None \<Rightarrow> False | Some t \<Rightarrow> \<not> map_has m t) (edge_issue MEdgeTarget e) @
      flag ((e_source e, e_port e) \<in> set (es_outputs st)) (edge_issue MPortTwice e),
      \<lparr>es_ids = es_ids st @ [e_id e], es_outputs = es_outputs st @ [(e_source e, e_port e)],
       es_adjacency = (case e_target e of None \<Rightarrow> es_adjacency st | Some t \<Rightarrow> add_target (es_adjacency st) (e_source e) t)\<rparr>)"

fun check_edges :: "node_map \<Rightarrow> journey_edge list \<Rightarrow> edge_state \<Rightarrow> issue list \<times> edge_state" where
  "check_edges m [] st = ([], st)"
| "check_edges m (e # es) st =
     (let (is1, st1) = check_edge m e st; (is2, st2) = check_edges m es st1 in (is1 @ is2, st2))"

definition open_ports :: "node_map \<Rightarrow> (string \<times> string) list \<Rightarrow> issue list" where
  "open_ports m outputs =
     concat (map (\<lambda>(i, n). concat (map (\<lambda>(p, lbl).
       flag ((i, p) \<notin> set outputs) (node_issue (MPortOpen lbl) None (Some i) (Some ''edges''))) (outputPorts (n_body n)))) m)"

definition start_known :: "journey_definition \<Rightarrow> node_map \<Rightarrow> bool" where
  "start_known def m \<longleftrightarrow> (case start_node_id def of None \<Rightarrow> False | Some s \<Rightarrow> s \<noteq> [] \<and> map_has m s)"

definition start_stack :: "journey_definition \<Rightarrow> string list" where
  "start_stack def = (case start_node_id def of None \<Rightarrow> [] | Some s \<Rightarrow> if s = [] then [] else [s])"

definition validateGraph :: "journey_definition \<Rightarrow> issue list" where
  "validateGraph def =
     (let (is1, m) = index_nodes 0 (nodes def) [];
          is2 = flag (\<not> start_known def m) (node_issue MStart None None (Some ''start_node_id''))
      in case edges def of
           None \<Rightarrow> is1 @ is2 @ [node_issue MEdgesMissing None None (Some ''edges'')]
         | Some es \<Rightarrow>
             (let (is3, st) = check_edges m es \<lparr>es_ids = [], es_outputs = [], es_adjacency = []\<rparr>;
                  is4 = open_ports m (es_outputs st);
                  queue = topological (map fst m) (es_adjacency st);
                  is5 = flag (length queue \<noteq> length m) (node_issue MCycle None None (Some ''edges''));
                  reached = dfs (es_adjacency st) [] (start_stack def);
                  is6 = concat (map (\<lambda>(i, n). flag (i \<notin> set reached) (node_issue MUnreachable None (Some i) None)) m)
              in is1 @ is2 @ is3 @ is4 @ is5 @ is6))"

section \<open>Journeys\<close>

definition num_add :: "jsnum \<Rightarrow> jsnum \<Rightarrow> jsnum" where
  "num_add a b =
     (case (a, b) of
        (Num x, Num y) \<Rightarrow> Num (x + y) | (NaN, _) \<Rightarrow> NaN | (_, NaN) \<Rightarrow> NaN
      | (PosInf, NegInf) \<Rightarrow> NaN | (NegInf, PosInf) \<Rightarrow> NaN | (Num _, i) \<Rightarrow> i | (i, _) \<Rightarrow> i)"

definition weight_bad :: "ab_variant \<Rightarrow> bool" where
  "weight_bad v \<longleftrightarrow> \<not> num_is_integer (av_weight v) \<or> num_less (av_weight v) (Num 1) \<or> num_less (Num 100) (av_weight v)"

definition variant_errors :: "ab_variant list \<Rightarrow> issue_message list" where
  "variant_errors vs =
     flag (length vs < 2 \<or> 4 < length vs) MVariantCount @
     flag (list_ex (\<lambda>v. trim (av_id v) = []) vs \<or> length (js_uniq (map av_id vs)) \<noteq> length vs) MVariantIds @
     flag (list_ex (\<lambda>v. trim (av_label v) = []) vs) MVariantLabels @
     flag (list_ex weight_bad vs \<or> foldl (\<lambda>s v. num_add s (av_weight v)) (Num 0) vs \<noteq> Num 100) MVariantWeights"

text \<open>The errors of one message node, in the order of the \<open>switch\<close> over its channel, with the field they name\<close>

definition message_errors ::
  "push_content option \<Rightarrow> email_content option \<Rightarrow> alimtalk_content option \<Rightarrow> (issue_message \<times> string option) list" where
  "message_errors p e a =
     (case messageChannel p e a of
        Some Email \<Rightarrow>
          flag (trim (email_subject (the e)) = [] \<or> trim (email_html (the e)) = []) (MEmptyEmail, Some ''email'') @
          flag (case email_provider (the e) of None \<Rightarrow> False | Some x \<Rightarrow> x \<notin> set EMAIL_PROVIDERS) (MEmailProvider, Some ''email'')
      | Some Alimtalk \<Rightarrow>
          flag (trim (at_sender_id (the a)) = []) (MSenderRequired, Some ''alimtalk'') @
          flag (trim (at_template_code (the a)) = []) (MTemplateRequired, Some ''alimtalk'') @
          flag (case at_fallback (the a) of None \<Rightarrow> False | Some f \<Rightarrow> trim (fb_text f) = []) (MFallbackText, Some ''alimtalk'')
      | Some Push \<Rightarrow> flag (trim (push_title (the p)) = [] \<or> trim (push_body (the p)) = []) (MEmptyPush, Some ''push'')
      | None \<Rightarrow> [(MOneChannel, None)])"

definition v1_node :: "node_body \<Rightarrow> bool" where
  "v1_node b \<longleftrightarrow> (case b of Message _ _ _ \<Rightarrow> True | Delay _ \<Rightarrow> True | _ \<Rightarrow> False)"

definition body_errors :: "node_body \<Rightarrow> (issue_message \<times> string option) list" where
  "body_errors b =
     (case b of
        Message p e a \<Rightarrow> message_errors p e a
      | Delay d \<Rightarrow> flag (\<not> validDuration d) (MDelay, Some ''duration_seconds'')
      | Branch c \<Rightarrow> map (\<lambda>m. (MBranch m, Some ''condition'')) (validateBranchCondition c)
      | EventWait ev d \<Rightarrow>
          flag (trim ev = []) (MWaitEvent, Some ''event_name'') @
          flag (\<not> validDuration d) (MWaitTimeout, Some ''timeout_seconds'')
      | ABSplit vs \<Rightarrow> map (\<lambda>m. (m, Some ''variants'')) (variant_errors vs)
      | Unsupported _ \<Rightarrow> [(MUnknownNode, None)])"

definition node_issues :: "bool \<Rightarrow> string option \<Rightarrow> nat \<Rightarrow> journey_node \<Rightarrow> issue list" where
  "node_issues graph conversion index n =
     map (\<lambda>(m, fld). node_issue m (Some index) (n_id n) fld)
       (flag (\<not> graph \<and> \<not> v1_node (n_body n)) (MGraphOnly, None) @ body_errors (n_body n)) @
     (case n_body n of
        EventWait ev d \<Rightarrow> flag (ev \<noteq> [] \<and> conversion = Some ev)
          ((node_issue MConversionFirst (Some index) (n_id n) (Some ''event_name''))\<lparr>i_level := LevelWarning\<rparr>)
      | _ \<Rightarrow> [])"

definition is_message :: "journey_node \<Rightarrow> bool" where
  "is_message n \<longleftrightarrow> (case n_body n of Message _ _ _ \<Rightarrow> True | _ \<Rightarrow> False)"

definition is_delay :: "journey_node \<Rightarrow> bool" where
  "is_delay n \<longleftrightarrow> (case n_body n of Delay _ \<Rightarrow> True | _ \<Rightarrow> False)"

definition entry_issues :: "entry_rule option \<Rightarrow> issue list" where
  "entry_issues en =
     (case en of
        None \<Rightarrow> [node_issue MEntryMissing None None None]
      | Some r \<Rightarrow>
          if entry_type r = [] then [node_issue MEntryMissing None None None]
          else if entry_type r = ''blast'' \<and> (entry_segment r = None \<or> entry_segment r = Some []) then [node_issue MEntrySegment None None None]
          else if entry_type r = ''trigger'' \<and> (case entry_trigger r of None \<Rightarrow> True | Some t \<Rightarrow> trim t = []) then [node_issue MEntryEvent None None None]
          else if entry_type r \<notin> {''blast'', ''trigger''} then [node_issue MEntryUnsupported None None None]
          else [])"

definition reentry_bad :: "reentry \<Rightarrow> bool" where
  "reentry_bad r \<longleftrightarrow>
     (case r of Never \<Rightarrow> False | Always \<Rightarrow> False | AfterDays d \<Rightarrow> \<not> (num_is_integer d \<and> num_less (Num 0) d) | BadReentry \<Rightarrow> True)"

definition validateJourney :: "journey_definition \<Rightarrow> issue list" where
  "validateJourney def =
     (let graph = (schema_version def = Some (Num 2))
      in flag (schema_version def \<noteq> None \<and> schema_version def \<noteq> Some (Num 1) \<and> schema_version def \<noteq> Some (Num 2))
           (node_issue MVersion None None (Some ''schema_version'')) @
         entry_issues (entry def) @
         flag (nodes def = []) (node_issue MNoNodes None None None) @
         flag (65535 < length (nodes def)) (node_issue MTooManyNodes None None None) @
         each_indexed (node_issues graph (conversion_event def)) (nodes def) @
         flag (nodes def \<noteq> [] \<and> \<not> list_ex is_message (nodes def)) (node_issue MNoMessage None None None) @
         (if graph then validateGraph def
          else flag (nodes def \<noteq> [] \<and> is_delay (last (nodes def)))
            ((node_issue MTrailingDelay (Some (length (nodes def) - 1)) None None)\<lparr>i_level := LevelWarning\<rparr>)) @
         flag (category_of def \<notin> {''marketing'', ''transactional''}) (node_issue MCategory None None None) @
         flag (reentry_bad (reentry_of def)) (node_issue MReentry None None (Some ''settings.reentry'')) @
         flag (graph \<and> (case reentry_of def of AfterDays d \<Rightarrow> num_less (Num 106751) d | _ \<Rightarrow> False))
           (node_issue MReentryMax None None (Some ''settings.reentry.after_days'')))"


section \<open>Definitions with a valid topology\<close>

abbreviation node_ids :: "journey_definition \<Rightarrow> string list" where
  "node_ids def \<equiv> map (\<lambda>n. the (n_id n)) (nodes def)"

definition flow :: "journey_edge list \<Rightarrow> (string \<times> string) set" where
  "flow es = {(e_source e, t) | e t. e \<in> set es \<and> e_target e = Some t}"

definition edge_ok :: "journey_node list \<Rightarrow> journey_edge \<Rightarrow> bool" where
  "edge_ok ns e \<longleftrightarrow> trim (e_id e) \<noteq> [] \<and>
     (\<exists>n \<in> set ns. n_id n = Some (e_source e) \<and> e_port e \<in> set (port_ids n)) \<and>
     (\<forall>t. e_target e = Some t \<longrightarrow> (\<exists>n \<in> set ns. n_id n = Some t))"

definition ports_covered :: "journey_node list \<Rightarrow> journey_edge list \<Rightarrow> bool" where
  "ports_covered ns es \<longleftrightarrow>
     (\<forall>n \<in> set ns. \<forall>p \<in> set (port_ids n). \<exists>e \<in> set es. n_id n = Some (e_source e) \<and> e_port e = p)"

text \<open>
  A well-formed graph: unique valid node ids, a start node, edges between known nodes on known ports, exactly
  one edge per port, no cycle, and every node reachable from the start.
\<close>

definition graph_wf :: "journey_definition \<Rightarrow> bool" where
  "graph_wf def \<longleftrightarrow>
     list_all (\<lambda>n. id_ok (n_id n)) (nodes def) \<and> distinct (node_ids def) \<and>
     (\<exists>s es. start_node_id def = Some s \<and> s \<in> set (node_ids def) \<and> edges def = Some es \<and>
        list_all (edge_ok (nodes def)) es \<and> distinct (map e_id es) \<and>
        distinct (map (\<lambda>e. (e_source e, e_port e)) es) \<and> ports_covered (nodes def) es \<and>
        acyclic (flow es) \<and> (\<forall>i \<in> set (node_ids def). (s, i) \<in> (flow es)\<^sup>*))"

lemma flag_Nil [simp]: "flag b x = [] \<longleftrightarrow> \<not> b"
  by (simp add: flag_def)

lemma index_nodes_Nil:
  "fst (index_nodes k ns m) = [] \<longleftrightarrow>
     list_all (\<lambda>n. id_ok (n_id n)) ns \<and> distinct (map (\<lambda>n. the (n_id n)) ns) \<and>
     (\<forall>n \<in> set ns. \<not> map_has m (the (n_id n)))"
proof (induction k ns m rule: index_nodes.induct)
  case (2 k n ns m)
  show ?case
  proof (cases "id_ok (n_id n) \<and> \<not> map_has m (the (n_id n))")
    case True
    then show ?thesis using 2(3) by (auto simp: map_has_iff image_iff)
  qed (auto simp: Let_def split: prod.splits)
qed simp

lemma index_nodes_map:
  "fst (index_nodes k ns m) = [] \<Longrightarrow> snd (index_nodes k ns m) = m @ map (\<lambda>n. (the (n_id n), n)) ns"
proof (induction k ns m rule: index_nodes.induct)
  case (2 k n ns m)
  then have "id_ok (n_id n) \<and> \<not> map_has m (the (n_id n))"
    by (auto simp: Let_def split: prod.splits if_splits)
  then show ?case using 2 by simp
qed simp

lemma check_edges_state:
  "snd (check_edges m es st) =
     \<lparr>es_ids = es_ids st @ map e_id es, es_outputs = es_outputs st @ map (\<lambda>e. (e_source e, e_port e)) es,
      es_adjacency = build_adjacency (map (\<lambda>e. (e_source e, e_target e)) es) (es_adjacency st)\<rparr>"
  by (induction m es st rule: check_edges.induct) (auto simp: check_edge_def Let_def split: prod.splits)

definition edge_fits :: "node_map \<Rightarrow> journey_edge \<Rightarrow> bool" where
  "edge_fits m e \<longleftrightarrow> trim (e_id e) \<noteq> [] \<and>
     (\<exists>n. map_of m (e_source e) = Some n \<and> e_port e \<in> set (port_ids n)) \<and>
     (\<forall>t. e_target e = Some t \<longrightarrow> map_has m t)"

lemma check_edge_Nil:
  "fst (check_edge m e st) = [] \<longleftrightarrow>
     edge_fits m e \<and> e_id e \<notin> set (es_ids st) \<and> (e_source e, e_port e) \<notin> set (es_outputs st)"
  by (auto simp: check_edge_def edge_fits_def split: option.splits)

lemma check_edges_Nil:
  "fst (check_edges m es st) = [] \<longleftrightarrow>
     list_all (edge_fits m) es \<and> distinct (map e_id es) \<and> set (map e_id es) \<inter> set (es_ids st) = {} \<and>
     distinct (map (\<lambda>e. (e_source e, e_port e)) es) \<and>
     set (map (\<lambda>e. (e_source e, e_port e)) es) \<inter> set (es_outputs st) = {}"
proof (induction es arbitrary: st)
  case (Cons e es)
  have s: "es_ids (snd (check_edge m e st)) = es_ids st @ [e_id e]"
    "es_outputs (snd (check_edge m e st)) = es_outputs st @ [(e_source e, e_port e)]"
    by (simp_all add: check_edge_def)
  have "fst (check_edges m (e # es) st) = [] \<longleftrightarrow>
    fst (check_edge m e st) = [] \<and> fst (check_edges m es (snd (check_edge m e st))) = []"
    by (simp add: split_beta Let_def)
  then show ?case unfolding Cons.IH check_edge_Nil s by auto
qed simp

lemma open_ports_Nil:
  "open_ports m outs = [] \<longleftrightarrow> (\<forall>(i, n) \<in> set m. \<forall>p \<in> set (port_ids n). (i, p) \<in> set outs)"
  by (fastforce simp: open_ports_def)

text \<open>The node map of a definition with unique ids\<close>

abbreviation id_map :: "journey_node list \<Rightarrow> node_map" where
  "id_map ns \<equiv> map (\<lambda>n. (the (n_id n), n)) ns"

lemma id_okD: "id_ok i \<Longrightarrow> \<exists>s. i = Some s \<and> s \<noteq> []"
  by (auto simp: id_ok_def split: option.splits)

lemma id_map_has:
  assumes "list_all (\<lambda>n. id_ok (n_id n)) ns"
  shows "map_has (id_map ns) t \<longleftrightarrow> (\<exists>n \<in> set ns. n_id n = Some t)"
  using assms by (force simp: map_has_iff list_all_iff dest!: id_okD)

lemma id_map_of:
  assumes "list_all (\<lambda>n. id_ok (n_id n)) ns" "distinct (map (\<lambda>n. the (n_id n)) ns)"
  shows "map_of (id_map ns) s = Some n \<longleftrightarrow> n \<in> set ns \<and> n_id n = Some s"
proof -
  have "distinct (map fst (id_map ns))" using assms(2) by (simp add: comp_def)
  then have "map_of (id_map ns) s = Some n \<longleftrightarrow> (s, n) \<in> set (id_map ns)" by simp
  also have "\<dots> \<longleftrightarrow> n \<in> set ns \<and> n_id n = Some s"
    using assms(1) by (force simp: list_all_iff dest!: id_okD)
  finally show ?thesis .
qed

lemma edge_fits_iff:
  assumes "list_all (\<lambda>n. id_ok (n_id n)) ns" "distinct (map (\<lambda>n. the (n_id n)) ns)"
  shows "edge_fits (id_map ns) e \<longleftrightarrow> edge_ok ns e"
  unfolding edge_fits_def edge_ok_def id_map_has [OF assms(1)] id_map_of [OF assms] by blast

lemma arcs_flow: "arcs (build_adjacency (map (\<lambda>e. (e_source e, e_target e)) es) []) = flow es"
  by (force simp: arcs_build flow_def)

lemma flow_in_nodes:
  assumes "list_all (edge_ok ns) es" "(s, t) \<in> flow es"
  shows "s \<in> set (map (\<lambda>n. the (n_id n)) ns) \<and> t \<in> set (map (\<lambda>n. the (n_id n)) ns)"
  using assms by (force simp: flow_def list_all_iff edge_ok_def)

lemma validateGraph_Nil: "validateGraph def = [] \<longleftrightarrow> graph_wf def"
proof (cases "list_all (\<lambda>n. id_ok (n_id n)) (nodes def) \<and> distinct (node_ids def)")
  case False
  then have "fst (index_nodes 0 (nodes def) []) \<noteq> []" by (auto simp: index_nodes_Nil)
  then have "validateGraph def \<noteq> []"
    by (auto simp: validateGraph_def Let_def split: prod.splits option.splits)
  then show ?thesis using False by (auto simp: graph_wf_def)
next
  case True
  let ?m = "id_map (nodes def)"
  have n: "index_nodes 0 (nodes def) [] = ([], ?m)"
    using True index_nodes_Nil [of 0 "nodes def" "[]"] index_nodes_map [of 0 "nodes def" "[]"]
    by (simp add: map_has_def prod_eq_iff)
  show ?thesis
  proof (cases "edges def")
    case None
    then show ?thesis by (simp add: validateGraph_def n graph_wf_def)
  next
    case (Some es)
    let ?a = "build_adjacency (map (\<lambda>e. (e_source e, e_target e)) es) []"
    let ?st = "\<lparr>es_ids = [], es_outputs = [], es_adjacency = []\<rparr>"
    have start: "start_known def ?m \<longleftrightarrow> (\<exists>s. start_node_id def = Some s \<and> s \<in> set (node_ids def))"
      using True id_map_has [of "nodes def"]
      by (force simp: start_known_def list_all_iff dest!: id_okD split: option.splits)
    have e: "fst (check_edges ?m es ?st) = [] \<longleftrightarrow> list_all (edge_ok (nodes def)) es \<and> distinct (map e_id es) \<and>
        distinct (map (\<lambda>e. (e_source e, e_port e)) es)"
      using edge_fits_iff [of "nodes def"] True by (simp add: check_edges_Nil list_all_iff)
    have p: "open_ports ?m (map (\<lambda>e. (e_source e, e_port e)) es) = [] \<longleftrightarrow> ports_covered (nodes def) es"
      using True by (force simp: open_ports_Nil ports_covered_def list_all_iff dest!: id_okD)
    have c: "length (topological (map fst ?m) ?a) = length ?m \<longleftrightarrow> acyclic (flow es)"
      if "list_all (edge_ok (nodes def)) es"
      using topological_complete_iff [of "node_ids def" ?a] True flow_in_nodes [OF that]
      by (simp add: distinct_build arcs_flow comp_def)
    have r: "concat (map (\<lambda>(i, n). flag (i \<notin> set (dfs ?a [] (start_stack def))) (node_issue MUnreachable None (Some i) None)) ?m) = []
        \<longleftrightarrow> (\<forall>i \<in> set (node_ids def). (s, i) \<in> (flow es)\<^sup>*)"
      if "start_node_id def = Some s" "s \<in> set (node_ids def)" for s
      using that True by (force simp: set_dfs arcs_flow start_stack_def list_all_iff dest!: id_okD)
    have "validateGraph def = [] \<longleftrightarrow> start_known def ?m \<and> fst (check_edges ?m es ?st) = [] \<and>
        open_ports ?m (map (\<lambda>e. (e_source e, e_port e)) es) = [] \<and>
        length (topological (map fst ?m) ?a) = length ?m \<and>
        concat (map (\<lambda>(i, n). flag (i \<notin> set (dfs ?a [] (start_stack def))) (node_issue MUnreachable None (Some i) None)) ?m) = []"
      using check_edges_state [of ?m es ?st]
      by (simp add: validateGraph_def n Some Let_def split_beta del: concat_eq_Nil_conv)
    then show ?thesis
      unfolding graph_wf_def start e p using True c r Some by auto
  qed
qed


section \<open>Walks through an accepted graph\<close>

text \<open>
  A run of the journey of one recipient: at each node \<open>pick\<close> says which port the outcome of the step selects,
  and the edge of that port leads on. \<^const>\<open>None\<close> means that the run is stuck or needs more than \<open>fuel\<close> steps.
\<close>

fun walk :: "journey_edge list \<Rightarrow> (string \<Rightarrow> string) \<Rightarrow> nat \<Rightarrow> string option \<Rightarrow> string list option" where
  "walk es pick fuel None = Some []"
| "walk es pick 0 (Some i) = None"
| "walk es pick (Suc fuel) (Some i) =
     (case find (\<lambda>e. e_source e = i \<and> e_port e = pick i) es of
        None \<Rightarrow> None
      | Some e \<Rightarrow> map_option (Cons i) (walk es pick fuel (e_target e)))"

lemma walk_completes:
  assumes ac: "acyclic (flow es)" and fin: "finite V"
    and out: "\<And>i. i \<in> V \<Longrightarrow> \<exists>e \<in> set es. e_source e = i \<and> e_port e = pick i"
    and targets: "\<And>s t. (s, t) \<in> flow es \<Longrightarrow> t \<in> V"
  shows "i \<in> V \<Longrightarrow> D \<subseteq> V \<Longrightarrow> (\<And>d. d \<in> D \<Longrightarrow> (d, i) \<in> (flow es)\<^sup>+) \<Longrightarrow> card V \<le> fuel + card D \<Longrightarrow>
    \<exists>path. walk es pick fuel (Some i) = Some path \<and> distinct path \<and> set path \<subseteq> V - D"
proof (induction fuel arbitrary: i D)
  case 0
  then have "D = V" using fin card_seteq [of V D] by simp
  then show ?case using 0 ac by (auto simp: acyclic_def)
next
  case (Suc fuel)
  have i: "i \<notin> D" using Suc.prems(3) [of i] ac by (auto simp: acyclic_def)
  obtain e where e: "find (\<lambda>e. e_source e = i \<and> e_port e = pick i) es = Some e"
    using out [OF Suc.prems(1)] by (cases "find (\<lambda>e. e_source e = i \<and> e_port e = pick i) es") (auto simp: find_None_iff)
  then have es: "e \<in> set es" "e_source e = i" by (auto simp: find_Some_iff in_set_conv_nth)
  show ?case
  proof (cases "e_target e")
    case None
    then show ?thesis using e i Suc.prems(1) by simp
  next
    case (Some t)
    then have f: "(i, t) \<in> flow es" using es by (auto simp: flow_def)
    have "card (insert i D) = Suc (card D)" using i finite_subset [OF Suc.prems(2) fin] by simp
    moreover have "(d, t) \<in> (flow es)\<^sup>+" if "d \<in> insert i D" for d
      using that f Suc.prems(3) by (auto intro: trancl_into_trancl)
    ultimately obtain path where "walk es pick fuel (Some t) = Some path" "distinct path" "set path \<subseteq> V - insert i D"
      using Suc.IH [of t "insert i D"] targets [OF f] Suc.prems by auto
    then show ?thesis using e Some i Suc.prems(1) by auto
  qed
qed

section \<open>Accepted journeys\<close>

definition weights_ok :: "ab_variant list \<Rightarrow> bool" where
  "weights_ok vs \<longleftrightarrow> (\<exists>ws :: int list. map av_weight vs = map (\<lambda>w. Num (of_int w)) ws \<and>
     list_all (\<lambda>w. 1 \<le> w \<and> w \<le> 100) ws \<and> sum_list ws = 100)"

definition message_ok :: "push_content option \<Rightarrow> email_content option \<Rightarrow> alimtalk_content option \<Rightarrow> bool" where
  "message_ok p e a \<longleftrightarrow>
     (\<exists>c. p = Some c \<and> e = None \<and> a = None \<and> trim (push_title c) \<noteq> [] \<and> trim (push_body c) \<noteq> []) \<or>
     (\<exists>c. p = None \<and> e = Some c \<and> a = None \<and> trim (email_subject c) \<noteq> [] \<and> trim (email_html c) \<noteq> [] \<and>
        (\<forall>x. email_provider c = Some x \<longrightarrow> x \<in> set EMAIL_PROVIDERS)) \<or>
     (\<exists>c. p = None \<and> e = None \<and> a = Some c \<and> trim (at_sender_id c) \<noteq> [] \<and> trim (at_template_code c) \<noteq> [] \<and>
        (\<forall>f. at_fallback c = Some f \<longrightarrow> trim (fb_text f) \<noteq> []))"

definition duration_ok :: "jsnum \<Rightarrow> bool" where
  "duration_ok d \<longleftrightarrow> (\<exists>i :: int. d = Num (of_int i) \<and> 0 < i \<and> i \<le> 9223372036)"

definition node_ok :: "node_body \<Rightarrow> bool" where
  "node_ok b \<longleftrightarrow>
     (case b of
        Message p e a \<Rightarrow> message_ok p e a
      | Delay d \<Rightarrow> duration_ok d
      | Branch c \<Rightarrow> validateBranchCondition c = []
      | EventWait ev d \<Rightarrow> trim ev \<noteq> [] \<and> duration_ok d
      | ABSplit vs \<Rightarrow> 2 \<le> length vs \<and> length vs \<le> 4 \<and> distinct (map av_id vs) \<and>
          list_all (\<lambda>v. trim (av_id v) \<noteq> [] \<and> trim (av_label v) \<noteq> []) vs \<and> weights_ok vs
      | Unsupported _ \<Rightarrow> False)"

definition entry_ok :: "entry_rule option \<Rightarrow> bool" where
  "entry_ok en \<longleftrightarrow>
     (\<exists>r. en = Some r \<and>
        ((entry_type r = ''blast'' \<and> (\<exists>s. entry_segment r = Some s \<and> s \<noteq> [])) \<or>
         (entry_type r = ''trigger'' \<and> (\<exists>t. entry_trigger r = Some t \<and> trim t \<noteq> []))))"

definition reentry_ok :: "bool \<Rightarrow> reentry \<Rightarrow> bool" where
  "reentry_ok graph r \<longleftrightarrow> r = Never \<or> r = Always \<or>
     (\<exists>i :: int. r = AfterDays (Num (of_int i)) \<and> 0 < i \<and> (graph \<longrightarrow> i \<le> 106751))"

definition journey_ok :: "journey_definition \<Rightarrow> bool" where
  "journey_ok def \<longleftrightarrow>
     schema_version def \<in> {None, Some (Num 1), Some (Num 2)} \<and> entry_ok (entry def) \<and>
     length (nodes def) \<le> 65535 \<and> list_ex is_message (nodes def) \<and>
     list_all (\<lambda>n. node_ok (n_body n)) (nodes def) \<and>
     (if schema_version def = Some (Num 2) then graph_wf def else list_all (\<lambda>n. v1_node (n_body n)) (nodes def)) \<and>
     category_of def \<in> {''marketing'', ''transactional''} \<and>
     reentry_ok (schema_version def = Some (Num 2)) (reentry_of def)"

lemma validDuration_iff: "validDuration d \<longleftrightarrow> duration_ok d"
proof
  assume a: "validDuration d"
  then obtain i where "d = Num (of_int i)" using num_is_safe_integerD by (auto simp: validDuration_def)
  moreover from this a have "(of_int i :: rat) \<le> of_int 9223372036" by (simp add: validDuration_def MAX_DURATION_SECONDS_def)
  then have "i \<le> 9223372036" by (simp only: of_int_le_iff)
  ultimately show "duration_ok d" using a by (auto simp: validDuration_def duration_ok_def)
next
  assume "duration_ok d"
  then obtain i :: int where i: "d = Num (of_int i)" "0 < i" "i \<le> 9223372036" by (auto simp: duration_ok_def)
  then have "(of_int i :: rat) \<le> of_int 9223372036" by (simp only: of_int_le_iff)
  moreover from this have "(of_int i :: rat) \<le> 9007199254740991" by simp
  ultimately show "validDuration d"
    using i by (simp add: validDuration_def MAX_DURATION_SECONDS_def num_is_safe_integer_Num)
qed

lemma message_errors_Nil: "message_errors p e a = [] \<longleftrightarrow> message_ok p e a"
  by (cases p; cases e; cases a) (auto simp: message_errors_def messageChannel_def message_ok_def split: option.split)

lemma foldl_num_add:
  "map av_weight vs = map (\<lambda>w. Num (of_int w)) ws \<Longrightarrow>
   foldl (\<lambda>s v. num_add s (av_weight v)) (Num r) vs = Num (r + of_int (sum_list ws))"
proof (induction vs arbitrary: ws r)
  case (Cons v vs)
  then obtain w ws' where "ws = w # ws'" "av_weight v = Num (of_int w)" "map av_weight vs = map (\<lambda>w. Num (of_int w)) ws'"
    by (cases ws) auto
  then show ?case using Cons.IH by (simp add: num_add_def algebra_simps)
qed simp

lemma weight_bad_iff: "\<not> weight_bad v \<longleftrightarrow> (\<exists>w :: int. av_weight v = Num (of_int w) \<and> 1 \<le> w \<and> w \<le> 100)"
proof
  assume a: "\<not> weight_bad v"
  then obtain w where w: "av_weight v = Num (of_int w)" using num_is_integerD by (auto simp: weight_bad_def)
  with a have "(of_int 1 :: rat) \<le> of_int w" "(of_int w :: rat) \<le> of_int 100" by (auto simp: weight_bad_def)
  then show "\<exists>w :: int. av_weight v = Num (of_int w) \<and> 1 \<le> w \<and> w \<le> 100" using w by (simp only: of_int_le_iff) blast
next
  assume "\<exists>w :: int. av_weight v = Num (of_int w) \<and> 1 \<le> w \<and> w \<le> 100"
  then show "\<not> weight_bad v" by (auto simp: weight_bad_def)
qed

lemma weights_listed:
  "list_all (\<lambda>v. \<not> weight_bad v) vs \<longleftrightarrow>
   (\<exists>ws :: int list. map av_weight vs = map (\<lambda>w. Num (of_int w)) ws \<and> list_all (\<lambda>w. 1 \<le> w \<and> w \<le> 100) ws)"
proof (induction vs)
  case (Cons v vs)
  then show ?case by (force simp: weight_bad_iff map_eq_Cons_conv Cons_eq_map_conv)
qed simp

lemma weights_Nil:
  "\<not> (list_ex weight_bad vs \<or> foldl (\<lambda>s v. num_add s (av_weight v)) (Num 0) vs \<noteq> Num 100) \<longleftrightarrow> weights_ok vs"
proof -
  have "(foldl (\<lambda>s v. num_add s (av_weight v)) (Num 0) vs = Num 100) \<longleftrightarrow> sum_list ws = 100"
    if "map av_weight vs = map (\<lambda>w. Num (of_int w)) ws" for ws :: "int list"
    unfolding foldl_num_add [OF that] by (simp add: of_int_eq_numeral_iff)
  then show ?thesis
    using weights_listed [of vs] by (auto simp: weights_ok_def list_all_iff list_ex_iff)
qed

lemma length_js_uniq: "length (js_uniq xs) = length xs \<longleftrightarrow> distinct xs"
  by (metis card_distinct distinct_card distinct_js_uniq js_uniq_distinct set_js_uniq)

lemma body_errors_Nil: "body_errors b = [] \<longleftrightarrow> node_ok b"
proof (cases b)
  case (ABSplit vs)
  have "variant_errors vs = [] \<longleftrightarrow> 2 \<le> length vs \<and> length vs \<le> 4 \<and> distinct (map av_id vs) \<and>
      list_all (\<lambda>v. trim (av_id v) \<noteq> [] \<and> trim (av_label v) \<noteq> []) vs \<and> weights_ok vs"
    using length_js_uniq [of "map av_id vs"] weights_Nil [of vs]
    by (auto simp: variant_errors_def list_all_iff list_ex_iff)
  then show ?thesis using ABSplit by (simp add: body_errors_def node_ok_def)
qed (auto simp: body_errors_def node_ok_def message_errors_Nil validDuration_iff)


lemma hasErrors_append: "hasErrors (xs @ ys) \<longleftrightarrow> hasErrors xs \<or> hasErrors ys"
  by (auto simp: hasErrors_def)

lemma hasErrors_all: "list_all (\<lambda>i. i_level i = LevelError) xs \<Longrightarrow> hasErrors xs \<longleftrightarrow> xs \<noteq> []"
  by (cases xs) (auto simp: hasErrors_def)

lemma level_node_issue [simp]: "i_level (node_issue m k i f) = LevelError" "i_level (edge_issue m e) = LevelError"
  by (simp_all add: node_issue_def edge_issue_def)

lemma hasErrors_flag [simp]: "hasErrors (flag b i) \<longleftrightarrow> b \<and> i_level i = LevelError"
  by (simp add: hasErrors_def flag_def)

lemma level_index_nodes: "list_all (\<lambda>i. i_level i = LevelError) (fst (index_nodes k ns m))"
  by (induction k ns m rule: index_nodes.induct) (auto simp: Let_def split: prod.splits)

lemma level_flag: "list_all P (flag b x) \<longleftrightarrow> (b \<longrightarrow> P x)"
  by (simp add: flag_def)

lemma level_check_edges: "list_all (\<lambda>i. i_level i = LevelError) (fst (check_edges m es st))"
  by (induction m es st rule: check_edges.induct)
     (auto simp: check_edge_def Let_def level_flag split: prod.splits option.splits)

lemma list_all_concat: "list_all P (concat xss) \<longleftrightarrow> list_all (list_all P) xss"
  by (auto simp: list_all_iff)

lemma level_validateGraph: "list_all (\<lambda>i. i_level i = LevelError) (validateGraph def)"
  using level_index_nodes [of 0 "nodes def" "[]"]
    level_check_edges [of "snd (index_nodes 0 (nodes def) [])" "the (edges def)" "\<lparr>es_ids = [], es_outputs = [], es_adjacency = []\<rparr>"]
  by (auto simp: validateGraph_def Let_def split_beta open_ports_def level_flag list_all_concat list_all_iff [of _ "map _ _"]
      split: option.split)

lemma node_issues_errors:
  "hasErrors (node_issues graph conv k n) \<longleftrightarrow> \<not> (node_ok (n_body n) \<and> (graph \<or> v1_node (n_body n)))"
proof -
  let ?es = "flag (\<not> graph \<and> \<not> v1_node (n_body n)) (MGraphOnly, None) @ body_errors (n_body n)"
  have "hasErrors (case n_body n of
        EventWait ev d \<Rightarrow> flag (ev \<noteq> [] \<and> conv = Some ev)
          ((node_issue MConversionFirst (Some k) (n_id n) (Some ''event_name''))\<lparr>i_level := LevelWarning\<rparr>)
      | _ \<Rightarrow> []) = False"
    by (auto simp: hasErrors_def flag_def split: node_body.split)
  moreover have "hasErrors (map (\<lambda>(m, fld). node_issue m (Some k) (n_id n) fld) ?es) \<longleftrightarrow> ?es \<noteq> []"
    by (subst hasErrors_all) (auto simp: list_all_iff)
  ultimately show ?thesis
    unfolding node_issues_def hasErrors_append using body_errors_Nil [of "n_body n"] by auto
qed

lemma hasErrors_each: "hasErrors (each_indexed f xs) \<longleftrightarrow> (\<exists>i < length xs. hasErrors (f i (xs ! i)))"
  using set_each_indexed [of f xs] by (auto simp: hasErrors_def list_ex_iff)

lemma node_issues_each:
  "hasErrors (each_indexed (node_issues graph conv) ns) \<longleftrightarrow>
   \<not> list_all (\<lambda>n. node_ok (n_body n) \<and> (graph \<or> v1_node (n_body n))) ns"
  by (auto simp: hasErrors_each node_issues_errors list_all_length)

lemma entry_issues_errors: "hasErrors (entry_issues en) \<longleftrightarrow> \<not> entry_ok en"
  by (auto simp: entry_issues_def entry_ok_def hasErrors_def split: option.splits)

lemma reentry_errors:
  "\<not> reentry_bad r \<and> \<not> (graph \<and> (case r of AfterDays d \<Rightarrow> num_less (Num 106751) d | _ \<Rightarrow> False)) \<longleftrightarrow> reentry_ok graph r"
proof (cases r)
  case (AfterDays d)
  show ?thesis
  proof (cases "num_is_integer d")
    case True
    then obtain i where i: "d = Num (of_int i)" using num_is_integerD by blast
    have "(106751 :: rat) < of_int i \<longleftrightarrow> 106751 < i" by (metis of_int_less_iff of_int_numeral)
    then show ?thesis using AfterDays i by (auto simp: reentry_bad_def reentry_ok_def)
  next
    case False
    then show ?thesis using AfterDays by (auto simp: reentry_bad_def reentry_ok_def)
  qed
qed (auto simp: reentry_bad_def reentry_ok_def)

lemma validateJourney_errors: "\<not> hasErrors (validateJourney def) \<longleftrightarrow> journey_ok def"
proof -
  let ?g = "schema_version def = Some (Num 2)"
  have g: "hasErrors (if ?g then validateGraph def else flag (nodes def \<noteq> [] \<and> is_delay (last (nodes def)))
        ((node_issue MTrailingDelay (Some (length (nodes def) - 1)) None None)\<lparr>i_level := LevelWarning\<rparr>)) \<longleftrightarrow> ?g \<and> \<not> graph_wf def"
    by (simp add: hasErrors_all [OF level_validateGraph] validateGraph_Nil)
  have r: "\<not> reentry_bad (reentry_of def) \<and> \<not> (?g \<and> (case reentry_of def of AfterDays d \<Rightarrow> num_less (Num 106751) d | _ \<Rightarrow> False))
      \<longleftrightarrow> reentry_ok ?g (reentry_of def)"
    by (rule reentry_errors)
  have n: "list_all (\<lambda>n. node_ok (n_body n) \<and> (?g \<or> v1_node (n_body n))) (nodes def) \<longleftrightarrow>
      list_all (\<lambda>n. node_ok (n_body n)) (nodes def) \<and> (?g \<or> list_all (\<lambda>n. v1_node (n_body n)) (nodes def))"
    by (auto simp: list_all_iff)
  have "\<not> hasErrors (validateJourney def) \<longleftrightarrow>
     schema_version def \<in> {None, Some (Num 1), Some (Num 2)} \<and> entry_ok (entry def) \<and> nodes def \<noteq> [] \<and>
     length (nodes def) \<le> 65535 \<and>
     list_all (\<lambda>n. node_ok (n_body n) \<and> (?g \<or> v1_node (n_body n))) (nodes def) \<and>
     (nodes def = [] \<or> list_ex is_message (nodes def)) \<and> \<not> (?g \<and> \<not> graph_wf def) \<and>
     category_of def \<in> {''marketing'', ''transactional''} \<and> reentry_ok ?g (reentry_of def)"
    unfolding validateJourney_def Let_def hasErrors_append g node_issues_each entry_issues_errors hasErrors_flag level_node_issue r [symmetric]
    by auto
  then show ?thesis unfolding journey_ok_def n by (auto simp: list_ex_iff)
qed

section \<open>Branch conditions and the segment compiler\<close>

text \<open>The segment definition that a stored branch condition is read as\<close>

fun str_of :: "jsval option \<Rightarrow> string" where
  "str_of (Some (JStr s)) = s"
| "str_of _ = []"

fun num_of :: "jsval option \<Rightarrow> jsnum" where
  "num_of (Some (JNum n)) = n"
| "num_of _ = NaN"

fun arr_of :: "jsval option \<Rightarrow> jsval list" where
  "arr_of (Some (JArr vs)) = vs"
| "arr_of _ = []"

fun obj_of :: "jsval \<Rightarrow> jsobj" where
  "obj_of (JObj fs) = fs"
| "obj_of _ = []"

definition dsl_of :: "jsval \<Rightarrow> segment_dsl" where
  "dsl_of v = \<lparr>dsl_version = num_of (js_get v ''version''), dsl_operator = str_of (js_get v ''operator''),
     dsl_groups = map (\<lambda>g. \<lparr>g_operator = str_of (js_get g ''operator''),
                              g_conditions = map obj_of (arr_of (js_get g ''conditions''))\<rparr>) (arr_of (js_get v ''groups''))\<rparr>"

lemma field_obj_of [simp]: "field (obj_of c) k = js_get c k"
  by (cases c) auto

lemma op_inE: "op_in v ops \<Longrightarrow> (\<And>s. v = Some (JStr s) \<Longrightarrow> s \<in> set ops \<Longrightarrow> P) \<Longrightarrow> P"
  by (auto simp: op_in_def split: option.splits jsval.splits)

lemma nonempty_truthy: "nonempty v \<Longrightarrow> opt_truthy v"
  by (auto simp: nonempty_def split: option.splits jsval.splits)

lemma op_is_obj: "op_is (obj_of c) s \<longleftrightarrow> js_get c ''op'' = Some (JStr s)"
  by (simp add: op_is_def)

lemma is_cmp_obj: "is_cmp (obj_of c) \<longleftrightarrow> op_in (js_get c ''op'') [''eq'', ''neq'', ''gt'', ''gte'', ''lt'', ''lte'']"
  by (auto simp: is_cmp_def CMP_OPS_def op_is_obj op_in_def split: option.splits jsval.splits)

lemma op_in_simps: "op_in v [] \<longleftrightarrow> False" "op_in v (x # xs) \<longleftrightarrow> v = Some (JStr x) \<or> op_in v xs"
  by (auto simp: op_in_def split: option.splits jsval.splits)

lemma attribute_ops_split:
  "op_in v ATTRIBUTE_OPS \<longleftrightarrow>
     op_in v [''eq'', ''neq''] \<or> op_in v [''gt'', ''gte'', ''lt'', ''lte''] \<or> op_in v [''in''] \<or> op_in v [''exists'', ''not_exists''] \<or>
     op_in v [''contains''] \<or> op_in v [''before'', ''after''] \<or> op_in v [''in_last_days'', ''not_in_last_days'']"
  by (simp only: ATTRIBUTE_OPS_def op_in_simps simp_thms disj_ac)

lemma attribute_ok_obj:
  "attribute_ok (obj_of c) \<longleftrightarrow> opt_truthy (js_get c ''key'') \<and>
     (op_in (js_get c ''op'') [''exists'', ''not_exists''] \<or>
      ((op_in (js_get c ''op'') [''eq'', ''neq''] \<or> op_in (js_get c ''op'') [''gt'', ''gte'', ''lt'', ''lte''] \<or>
        op_in (js_get c ''op'') [''contains''] \<or> op_in (js_get c ''op'') [''before'', ''after'']) \<and> scalar_ok (js_get c ''value'')) \<or>
      (op_in (js_get c ''op'') [''in''] \<and> array_ok (\<lambda>v. scalar_ok (Some v)) (js_get c ''value'')) \<or>
      (op_in (js_get c ''op'') [''in_last_days'', ''not_in_last_days''] \<and> number_ok (js_get c ''value'')))"
  by (simp only: attribute_ok_def op_is_obj is_cmp_obj field_obj_of op_in_simps simp_thms disj_assoc)

lemma event_condition_ok: "event_condition_errors c = [] \<Longrightarrow> event_ok (obj_of c)"
  by (auto simp: event_condition_errors_def event_ok_def op_is_obj nonempty_truthy Let_def elim!: op_inE)

lemma value_kinds:
  "scalar_value v \<Longrightarrow> scalar_ok v" "finite_number v \<Longrightarrow> scalar_ok v" "validDate v \<Longrightarrow> scalar_ok v"
  "days_in_range v hi \<Longrightarrow> number_ok v"
  by (auto simp: scalar_value_def finite_number_def validDate_def days_in_range_def number_ok_def
      split: option.splits jsval.splits)

lemma attribute_condition_ok:
  assumes "attribute_condition_errors c = []"
  shows "attribute_ok (obj_of c)"
proof -
  let ?op = "js_get c ''op''" and ?v = "js_get c ''value''"
  have nil: "nonempty (js_get c ''key'')" "op_in ?op ATTRIBUTE_OPS"
    "op_in ?op [''eq'', ''neq''] \<longrightarrow> scalar_value ?v"
    "op_in ?op [''gt'', ''gte'', ''lt'', ''lte''] \<longrightarrow> finite_number ?v"
    "op_in ?op [''contains''] \<longrightarrow> \<not> (case ?v of Some (JStr _) \<Rightarrow> False | _ \<Rightarrow> True)"
    "op_in ?op [''in''] \<longrightarrow>
       \<not> (case ?v of Some (JArr vs) \<Rightarrow> vs = [] \<or> \<not> list_all (\<lambda>v. scalar_value (Some v)) vs | _ \<Rightarrow> True)"
    "op_in ?op [''before'', ''after''] \<longrightarrow> validDate ?v"
    "op_in ?op [''in_last_days'', ''not_in_last_days''] \<longrightarrow> days_in_range ?v 106751"
    using assms unfolding attribute_condition_errors_def Let_def append_is_Nil_conv flag_Nil by blast+
  have "\<not> (case v of Some (JStr _) \<Rightarrow> False | _ \<Rightarrow> True) \<Longrightarrow> scalar_ok v" for v
    by (auto split: option.splits jsval.splits)
  moreover have "\<not> (case v of Some (JArr vs) \<Rightarrow> vs = [] \<or> \<not> list_all (\<lambda>v. scalar_value (Some v)) vs | _ \<Rightarrow> True) \<Longrightarrow>
      array_ok (\<lambda>v. scalar_ok (Some v)) v" for v
    using value_kinds(1) by (auto simp: array_ok_def list_all_iff split: option.splits jsval.splits)
  ultimately have kinds: "op_in ?op [''contains''] \<Longrightarrow> scalar_ok ?v" "op_in ?op [''in''] \<Longrightarrow> array_ok (\<lambda>v. scalar_ok (Some v)) ?v"
    using nil by blast+
  show ?thesis
    using nonempty_truthy [OF nil(1)] nil(2) nil(3,4,7,8) kinds value_kinds [of ?v]
    unfolding attribute_ok_obj attribute_ops_split by blast
qed

lemma condition_errors_ok: "condition_errors c = [] \<Longrightarrow> cond_ok ns (obj_of c)"
  by (auto simp: condition_errors_def cond_ok_def type_is_def event_condition_ok attribute_condition_ok split: if_splits)

lemma group_errors_ok:
  assumes "group_errors g = []"
  shows "str_of (js_get g ''operator'') \<in> {''AND'', ''OR''} \<and> arr_of (js_get g ''conditions'') \<noteq> [] \<and>
    list_all (\<lambda>c. cond_ok ns (obj_of c)) (arr_of (js_get g ''conditions''))"
  using assms condition_errors_ok
  by (auto simp: group_errors_def list_all_iff elim!: op_inE split: option.splits jsval.splits if_splits)

lemma branch_condition_ok:
  assumes "validateBranchCondition v = []"
  shows "dsl_ok ns (dsl_of v)"
proof -
  obtain gs where gs: "js_get v ''groups'' = Some (JArr gs)" "js_get v ''version'' = Some (JNum (Num 1))"
    "op_in (js_get v ''operator'') [''AND'', ''OR'']" "\<forall>g \<in> set gs. group_errors g = []"
    using assms by (auto simp: validateBranchCondition_def split: option.splits jsval.splits if_splits)
  from gs(3) have "str_of (js_get v ''operator'') \<in> {''AND'', ''OR''}" by (auto elim!: op_inE)
  then show ?thesis
    using gs group_errors_ok [of _ ns] by (auto simp: dsl_ok_def dsl_of_def list_all_iff)
qed

end
