(* ===== verification/Journey_Properties.thy ===== *)
theory Journey_Properties
  imports Journey_Validation
begin

text \<open>
  What follows from an accepted journey definition: runs end, branch conditions compile, published A/B allocations
  never change across versions, and the adapter turns linear definitions into valid graphs.
\<close>

section \<open>Accepted definitions\<close>

text \<open>
  C5: the validator accepts a definition (reports no error) if and only if it is well formed: known version and entry rule,
  every node complete within its bounds, and for a graph unique ids, one edge per output port, no cycle and
  every node reachable from the start.
\<close>

theorem validate_accepts_iff:
  "\<not> hasErrors (validateJourney def) \<longleftrightarrow> journey_ok def"
  by (rule validateJourney_errors)

lemma accepted_graph:
  assumes "\<not> hasErrors (validateJourney def)" "schema_version def = Some (Num 2)"
  shows "graph_wf def" "list_all (\<lambda>n. node_ok (n_body n)) (nodes def)"
  using assms by (auto simp: validateJourney_errors journey_ok_def)

lemma node_of_id:
  assumes "list_all (\<lambda>n. id_ok (n_id n)) ns" "i \<in> set (map (\<lambda>n. the (n_id n)) ns)"
  obtains n where "n \<in> set ns" "n_id n = Some i"
  using assms by (force simp: list_all_iff dest!: id_okD)

text \<open>
  C6: every run of an accepted graph ends. Whatever port the outcome of each step selects, following the edges from
  the start reaches an exit after visiting each node at most once.
\<close>

theorem accepted_run_completes:
  assumes "\<not> hasErrors (validateJourney def)" and "schema_version def = Some (Num 2)"
    and "\<And>n i. n \<in> set (nodes def) \<Longrightarrow> n_id n = Some i \<Longrightarrow> pick i \<in> set (port_ids n)"
  shows "\<exists>path. walk (the (edges def)) pick (length (nodes def)) (start_node_id def) = Some path \<and>
    distinct path \<and> set path \<subseteq> set (node_ids def)"
proof -
  let ?V = "set (node_ids def)"
  obtain s es where w: "list_all (\<lambda>n. id_ok (n_id n)) (nodes def)" "distinct (node_ids def)"
      "start_node_id def = Some s" "s \<in> ?V" "edges def = Some es" "list_all (edge_ok (nodes def)) es"
      "ports_covered (nodes def) es" "acyclic (flow es)"
    using accepted_graph(1) [OF assms(1,2)] by (auto simp: graph_wf_def)
  have out: "\<exists>e \<in> set es. e_source e = i \<and> e_port e = pick i" if i: "i \<in> ?V" for i
  proof -
    obtain n where n: "n \<in> set (nodes def)" "n_id n = Some i" using w(1) i by (rule node_of_id)
    then show ?thesis using w(7) assms(3) [OF n] unfolding ports_covered_def by force
  qed
  have targets: "t \<in> ?V" if "(u, t) \<in> flow es" for u t using flow_in_nodes [OF w(6) that] by simp
  have "card ?V \<le> length (nodes def) + card ({} :: string set)"
    using distinct_card [OF w(2)] by simp
  then show ?thesis
    using walk_completes [where D = "{}", OF w(8) _ out targets w(4), where fuel = "length (nodes def)"] w(3,5) by simp
qed

text \<open>
  C7: the condition of every branch of an accepted journey compiles: the validator's stricter checks imply those of the
  segment compiler, for every tenant, app and category.
\<close>

theorem accepted_branch_compiles:
  assumes "\<not> hasErrors (validateJourney def)" and "n \<in> set (nodes def)" and "n_body n = Branch c"
  shows "\<exists>r. compile ns (dsl_of c) t a cat = Inr r"
proof -
  have "validateBranchCondition c = []"
    using assms by (auto simp: validateJourney_errors journey_ok_def list_all_iff node_ok_def dest!: bspec)
  then have "\<not> isl (compile ns (dsl_of c) t a cat)"
    by (simp add: compile_emits emits_isl query_isl branch_condition_ok)
  then show ?thesis by (cases "compile ns (dsl_of c) t a cat") auto
qed

section \<open>Published A/B allocations\<close>

text \<open>
  The versions of one journey in the order of activation: each was accepted, and checked against the allocations
  of the versions before it.
\<close>

definition activation_history :: "journey_definition list \<Rightarrow> bool" where
  "activation_history ds \<longleftrightarrow> (\<forall>k < length ds. \<not> hasErrors (validateJourney (ds ! k)) \<and>
     validatePublishedABNodes (ds ! k) (collectPublishedABNodes (take k ds)) = [])"

lemma ab_nodes_unique:
  assumes "\<not> hasErrors (validateJourney d)" "(i, vs) \<in> ab_nodes d" "n \<in> set (nodes d)" "n_id n = Some i"
  shows "n_body n = ABSplit vs"
proof -
  obtain m where m: "m \<in> set (nodes d)" "n_id m = Some i" "n_body m = ABSplit vs"
    using assms(2) by (auto simp: ab_nodes_def)
  have "schema_version d = Some (Num 2)"
    using assms(1) m by (fastforce simp: validateJourney_errors journey_ok_def list_all_iff v1_node_def split: if_splits)
  then have "distinct (node_ids d)" using accepted_graph(1) [OF assms(1)] by (simp add: graph_wf_def)
  then have "m = n" using m(1,2) assms(3,4) by (auto simp: distinct_map inj_on_def)
  then show ?thesis using m by simp
qed

lemma collect_nodes_fresh:
  assumes "\<not> map_has pub i" "(\<exists>n \<in> set ns. n_id n = Some i)" "\<forall>n \<in> set ns. n_id n = Some i \<longrightarrow> n_body n = ABSplit vs" "i \<noteq> []"
  shows "map_of (collect_nodes ns pub) i = Some vs"
  using assms
proof (induction ns arbitrary: pub)
  case (Cons n ns)
  show ?case
  proof (cases "n_id n = Some i")
    case True
    then have "map_of (pub @ [(i, vs)]) i = Some vs" using Cons.prems(1) by (simp add: map_has_def map_add_def)
    from collect_nodes_keeps [OF this, of ns] show ?thesis using True Cons.prems by simp
  next
    case False
    let ?p = "case (n_body n, n_id n) of
          (ABSplit vs, Some i) \<Rightarrow> if i \<noteq> [] \<and> \<not> map_has pub i then pub @ [(i, vs)] else pub
        | _ \<Rightarrow> pub"
    have "\<not> map_has ?p i"
      using False Cons.prems(1) by (auto simp: map_has_def map_add_def split: node_body.splits option.splits)
    then have "map_of (collect_nodes ns ?p) i = Some vs"
      using Cons.prems False by (intro Cons.IH) auto
    then show ?thesis by simp
  qed
qed simp

lemma collect_take: "k < length ds \<Longrightarrow>
    collectPublishedABNodes (take (Suc k) ds) = collect_nodes (nodes (ds ! k)) (collectPublishedABNodes (take k ds))"
  by (simp add: collectPublishedABNodes_def take_Suc_conv_app_nth)

lemma collect_prefix:
  "map_of (collectPublishedABNodes (take k ds)) i = Some vs \<Longrightarrow> map_of (collectPublishedABNodes ds) i = Some vs"
  using collect_fold_keeps [of "collectPublishedABNodes (take k ds)" i vs "drop k ds"]
  by (simp add: collectPublishedABNodes_def flip: fold_append comp_apply [of "fold _ _" "fold _ _"])

lemma history_allocation:
  assumes "activation_history ds" "k < length ds" "(i, vs) \<in> ab_nodes (ds ! k)"
  shows "\<exists>old. map_of (collectPublishedABNodes ds) i = Some old \<and> allocation vs = allocation old"
proof (cases "map_of (collectPublishedABNodes (take k ds)) i")
  case (Some old)
  then show ?thesis
    using collect_prefix [OF Some] assms published_issues_empty [of "ds ! k" "collectPublishedABNodes (take k ds)"]
    by (auto simp: activation_history_def)
next
  case None
  have acc: "\<not> hasErrors (validateJourney (ds ! k))" using assms by (simp add: activation_history_def)
  have "map_of (collectPublishedABNodes (take (Suc k) ds)) i = Some vs"
    unfolding collect_take [OF assms(2)]
    using None assms(3) ab_nodes_unique [OF acc assms(3)]
    by (intro collect_nodes_fresh) (auto simp: map_has_def ab_nodes_def)
  from collect_prefix [OF this] show ?thesis by simp
qed

text \<open>
  an activated experiment keeps its allocation. In every activation history of a journey, all versions that contain an A/B
  node with the same id give its variants the same ids, order and weights.
\<close>

theorem published_allocation_stable:
  assumes "activation_history ds" and "d \<in> set ds" and "d' \<in> set ds"
    and "(i, vs) \<in> ab_nodes d" and "(i, vs') \<in> ab_nodes d'"
  shows "allocation vs = allocation vs'"
proof -
  obtain k k' where "k < length ds" "ds ! k = d" "k' < length ds" "ds ! k' = d'"
    using assms(2,3) by (auto simp: in_set_conv_nth)
  then show ?thesis
    using history_allocation [OF assms(1), of k i vs] history_allocation [OF assms(1), of k' i vs'] assms(4,5) by auto
qed


section \<open>Linear definitions as graphs\<close>

lemma strip_left_keeps:
  "c \<in> set s \<Longrightarrow> \<forall>w \<in> set ws. c \<notin> set w \<Longrightarrow> c \<in> set (strip_left ws s)"
proof (induction ws s rule: strip_left.induct)
  case (1 ws s)
  show ?case
  proof (cases "find (\<lambda>w. w \<noteq> [] \<and> prefix w s) ws")
    case None
    then show ?thesis using 1 by (subst strip_left.simps) simp
  next
    case (Some w)
    then have w: "w \<in> set ws" "prefix w s" by (auto simp: find_Some_iff)
    then obtain r where r: "s = w @ r" by (auto simp: prefix_def)
    then have "c \<in> set (drop (length w) s)" using 1 w by auto
    then show ?thesis using 1(1) [OF Some] 1(3) Some by (subst strip_left.simps) simp
  qed
qed

lemma trim_keeps: "c \<in> set s \<Longrightarrow> \<forall>w \<in> set js_ws. c \<notin> set w \<Longrightarrow> trim s \<noteq> []"
  using strip_left_keeps [of c s js_ws] strip_left_keeps [of c "rev (strip_left js_ws s)" "map rev js_ws"]
  by (auto simp: trim_def)

lemma trim_legacy: "trim (legacy_id i) \<noteq> []" "trim (legacy_edge_id i) \<noteq> []"
  by (rule trim_keeps [of "CHR ''l''"]; simp add: legacy_id_def legacy_edge_id_def js_ws_def)+

lemma legacy_id_ok: "i < 65535 \<Longrightarrow> id_ok (Some (legacy_id i))"
  using length_nat_str [of i 4] trim_legacy by (simp add: id_ok_def) (simp add: legacy_id_def)

lemma legacy_id_inject [simp]: "legacy_id i = legacy_id j \<longleftrightarrow> i = j" "legacy_edge_id i = legacy_edge_id j \<longleftrightarrow> i = j"
  by (simp_all add: legacy_id_def legacy_edge_id_def)

lemma length_with_ids [simp]: "length (with_ids ns) = length ns"
  by (simp add: with_ids_def)

lemma with_ids_Nil [simp]: "with_ids ns = [] \<longleftrightarrow> ns = []"
  using length_with_ids [of ns] by (metis length_0_conv)

lemma with_ids_nth:
  "i < length ns \<Longrightarrow> n_id (ns ! i) = None \<Longrightarrow> with_ids ns ! i = (ns ! i)\<lparr>n_id := Some (legacy_id i)\<rparr>"
  by (simp add: with_ids_def nth_enumerate_eq)

lemma v1_ports: "v1_node b \<Longrightarrow> map fst (outputPorts b) = [''next'']"
  by (cases b) (auto simp: v1_node_def)

text \<open>The edges of the chain \<open>legacy-0, legacy-1, ...\<close>\<close>

definition chain :: "nat \<Rightarrow> journey_edge list" where
  "chain k = map (\<lambda>i. \<lparr>e_id = legacy_edge_id i, e_source = legacy_id i, e_port = ''next'',
     e_target = (if i + 1 < k then Some (legacy_id (i + 1)) else None)\<rparr>) [0..<k]"

lemma chain_flow: "flow (chain k) = {(legacy_id i, legacy_id (i + 1)) | i. i + 1 < k}"
proof
  show "flow (chain k) \<subseteq> {(legacy_id i, legacy_id (i + 1)) | i. i + 1 < k}"
    by (auto simp: flow_def chain_def split: if_splits)
  have "(legacy_id i, legacy_id (i + 1)) \<in> flow (chain k)" if "i + 1 < k" for i
    unfolding flow_def using that
    by (intro CollectI exI [of _ "chain k ! i"] exI [of _ "legacy_id (i + 1)"]) (auto simp: chain_def)
  then show "{(legacy_id i, legacy_id (i + 1)) | i. i + 1 < k} \<subseteq> flow (chain k)" by blast
qed

lemma chain_acyclic: "acyclic (flow (chain k))"
proof (rule acyclicI_order [where f = "\<lambda>s. - int (str_nat (drop 7 s))"])
  fix a b
  assume "(a, b) \<in> flow (chain k)"
  then show "- int (str_nat (drop 7 b)) < - int (str_nat (drop 7 a))"
    by (auto simp: chain_flow legacy_id_def)
qed

lemma chain_reaches: "i < k \<Longrightarrow> (legacy_id 0, legacy_id i) \<in> (flow (chain k))\<^sup>*"
proof (induction i)
  case (Suc i)
  then have "(legacy_id i, legacy_id (Suc i)) \<in> flow (chain k)" by (auto simp: chain_flow)
  with Suc show ?case by (meson Suc_lessD rtrancl.rtrancl_into_rtrancl)
qed simp

lemma legacy_graph:
  assumes "schema_version def = None \<or> schema_version def = Some (Num 1)" "\<forall>n \<in> set (nodes def). n_id n = None" "nodes def \<noteq> []"
  shows "toGraphDefinition def = Inr (def\<lparr>schema_version := Some (Num 2), nodes := with_ids (nodes def),
    start_node_id := Some (legacy_id 0), edges := Some (chain (length (nodes def)))\<rparr>)"
proof -
  have "n_id (with_ids (nodes def) ! i) = Some (legacy_id i)" if "i < length (nodes def)" for i
    using that assms(2) by (simp add: with_ids_nth)
  then have "map (\<lambda>i. \<lparr>e_id = legacy_edge_id i, e_source = the (if i < length (nodes def) then n_id (with_ids (nodes def) ! i) else None),
      e_port = ''next'', e_target = if Suc i < length (nodes def) then n_id (with_ids (nodes def) ! Suc i) else None\<rparr>) [0..<length (nodes def)]
    = chain (length (nodes def))" "n_id (with_ids (nodes def) ! 0) = Some (legacy_id 0)"
    using assms(3) by (auto simp: chain_def)
  then show ?thesis using assms by (auto simp: toGraphDefinition_def Let_def)
qed

text \<open>
  the graph view of a linear definition. An accepted v1 definition whose nodes have no ids yet is shown as a graph
  with the same steps in the same order whose topology the v2 validator accepts.
\<close>

theorem legacy_graph_valid:
  assumes "\<not> hasErrors (validateJourney def)" and "schema_version def \<noteq> Some (Num 2)" and "\<forall>n \<in> set (nodes def). n_id n = None"
  shows "\<exists>g. toGraphDefinition def = Inr g \<and> validateGraph g = [] \<and> map n_body (nodes g) = map n_body (nodes def)"
proof -
  let ?ns = "nodes def" and ?k = "length (nodes def)"
  have ok: "schema_version def = None \<or> schema_version def = Some (Num 1)" "?ns \<noteq> []" "?k \<le> 65535"
    "list_all (\<lambda>n. v1_node (n_body n)) ?ns"
    using assms(1,2) by (auto simp: validateJourney_errors journey_ok_def)
  let ?g = "def\<lparr>schema_version := Some (Num 2), nodes := with_ids ?ns, start_node_id := Some (legacy_id 0), edges := Some (chain ?k)\<rparr>"
  have nth: "with_ids ?ns ! i = (?ns ! i)\<lparr>n_id := Some (legacy_id i)\<rparr>" if "i < ?k" for i
    using that assms(3) by (simp add: with_ids_nth)
  have ids: "map (\<lambda>n. the (n_id n)) (with_ids ?ns) = map legacy_id [0..<?k]"
    by (rule nth_equalityI) (simp_all add: nth)
  have next_port: "set (port_ids (with_ids ?ns ! i)) = {''next''}" if "i < ?k" for i
    using ok(4) that by (simp add: nth list_all_length v1_ports)
  have node: "\<exists>n \<in> set (with_ids ?ns). n_id n = Some (legacy_id i) \<and> set (port_ids n) = {''next''}" if "i < ?k" for i
  proof (rule bexI [of _ "with_ids ?ns ! i"], rule conjI)
    show "n_id (with_ids ?ns ! i) = Some (legacy_id i)" using that by (simp add: nth)
    show "set (port_ids (with_ids ?ns ! i)) = {''next''}" using that by (rule next_port)
    show "with_ids ?ns ! i \<in> set (with_ids ?ns)" using that by (intro nth_mem) simp
  qed
  have "list_all (\<lambda>n. id_ok (n_id n)) (with_ids ?ns)"
    using ok(3) legacy_id_ok by (simp add: list_all_length nth)
  moreover have "distinct (node_ids ?g)" by (simp add: ids distinct_map inj_on_def)
  moreover have "legacy_id 0 \<in> set (node_ids ?g)" using ok(2) by (simp add: ids)
  moreover have "list_all (edge_ok (with_ids ?ns)) (chain ?k)"
  proof -
    have "edge_ok (with_ids ?ns) (chain ?k ! i)" if i: "i < ?k" for i
    proof -
      have "\<exists>n \<in> set (with_ids ?ns). n_id n = Some (legacy_id i) \<and> ''next'' \<in> set (port_ids n)"
        using node [OF i] by blast
      moreover have "\<exists>n \<in> set (with_ids ?ns). n_id n = Some (legacy_id (i + 1))" if "i + 1 < ?k"
        using node [OF that] by blast
      moreover have "chain ?k ! i = \<lparr>e_id = legacy_edge_id i, e_source = legacy_id i, e_port = ''next'',
          e_target = (if i + 1 < ?k then Some (legacy_id (i + 1)) else None)\<rparr>"
        using i by (simp add: chain_def)
      ultimately show ?thesis
        unfolding edge_ok_def using trim_legacy(2) by (simp del: set_map)
    qed
    then show ?thesis by (simp add: list_all_length) (simp add: chain_def)
  qed
  moreover have "distinct (map e_id (chain ?k))" "distinct (map (\<lambda>e. (e_source e, e_port e)) (chain ?k))"
    by (simp_all add: chain_def comp_def distinct_map inj_on_def)
  moreover have "ports_covered (with_ids ?ns) (chain ?k)"
  proof -
    have "\<exists>e \<in> set (chain ?k). n_id n = Some (e_source e) \<and> e_port e = q"
      if n: "n \<in> set (with_ids ?ns)" and q: "q \<in> set (port_ids n)" for n q
    proof -
      obtain i where i: "i < ?k" "n = with_ids ?ns ! i" using n unfolding in_set_conv_nth by auto
      have "q = ''next''" using next_port [OF i(1)] q unfolding i(2) by blast
      moreover have "chain ?k ! i \<in> set (chain ?k)" using i(1) by (intro nth_mem) (simp add: chain_def)
      ultimately show ?thesis using i nth [OF i(1)] by (intro bexI [of _ "chain ?k ! i"]) (simp_all add: chain_def)
    qed
    then show ?thesis unfolding ports_covered_def by blast
  qed
  moreover have "\<forall>i \<in> set (node_ids ?g). (legacy_id 0, i) \<in> (flow (chain ?k))\<^sup>*"
    using chain_reaches by (auto simp: ids)
  ultimately have "validateGraph ?g = []"
    unfolding validateGraph_Nil graph_wf_def using chain_acyclic by auto
  moreover have "map n_body (with_ids ?ns) = map n_body ?ns" by (rule nth_equalityI) (simp_all add: nth)
  ultimately show ?thesis using legacy_graph [OF ok(1) assms(3) ok(2)] by auto
qed


section \<open>Concrete instances\<close>

definition sample_push :: node_body where
  "sample_push = Message (Some \<lparr>push_title = ''Hi'', push_body = ''there'', push_image_url = None, push_deep_link = None\<rparr>) None None"

definition sample_condition :: jsval where
  "sample_condition = JObj [(''version'', JNum (Num 1)), (''operator'', JStr ''AND''), (''groups'', JArr [JObj
     [(''operator'', JStr ''OR''), (''conditions'', JArr
        [JObj [(''type'', JStr ''attribute''), (''key'', JStr ''created_at''), (''op'', JStr ''after''), (''value'', JStr ''2024-02-29'')],
         JObj [(''type'', JStr ''event''), (''event'', JStr ''purchase''), (''op'', JStr ''not_performed'')]])]])]"

definition sample_variants :: "ab_variant list" where
  "sample_variants = [\<lparr>av_id = ''va'', av_label = ''A'', av_weight = Num 30\<rparr>, \<lparr>av_id = ''vb'', av_label = ''B'', av_weight = Num 70\<rparr>]"

definition sample_journey :: journey_definition where
  "sample_journey =
     \<lparr>schema_version = Some (Num 2),
      entry = Some \<lparr>entry_type = ''trigger'', entry_segment = None, entry_trigger = Some ''sign_up''\<rparr>,
      nodes = [\<lparr>n_id = Some ''br'', n_body = Branch sample_condition\<rparr>,
               \<lparr>n_id = Some ''ab'', n_body = ABSplit sample_variants\<rparr>,
               \<lparr>n_id = Some ''m'', n_body = sample_push\<rparr>],
      start_node_id = Some ''br'',
      edges = Some [\<lparr>e_id = ''e1'', e_source = ''br'', e_port = ''true'', e_target = Some ''ab''\<rparr>,
                    \<lparr>e_id = ''e2'', e_source = ''br'', e_port = ''false'', e_target = None\<rparr>,
                    \<lparr>e_id = ''e3'', e_source = ''ab'', e_port = ''va'', e_target = Some ''m''\<rparr>,
                    \<lparr>e_id = ''e4'', e_source = ''ab'', e_port = ''vb'', e_target = Some ''m''\<rparr>,
                    \<lparr>e_id = ''e5'', e_source = ''m'', e_port = ''next'', e_target = None\<rparr>],
      conversion_event = None, category_of = ''marketing'', reentry_of = Never\<rparr>"

lemma sample_accepted: "\<not> hasErrors (validateJourney sample_journey)"
proof -
  have "graph_wf sample_journey" unfolding validateGraph_Nil [symmetric] by code_simp
  moreover have "list_all (\<lambda>n. node_ok (n_body n)) (nodes sample_journey)"
    unfolding body_errors_Nil [symmetric] by code_simp
  moreover have "entry_ok (entry sample_journey)" 
    by (simp add: entry_ok_def sample_journey_def) code_simp
  ultimately show ?thesis
    by (simp add: validateJourney_errors journey_ok_def reentry_ok_def) (simp add: sample_journey_def is_message_def sample_push_def)
qed

definition sample_pick :: "string \<Rightarrow> string" where
  "sample_pick i = (if i = ''br'' then ''true'' else if i = ''ab'' then ''vb'' else ''next'')"

lemma accepted_run_completes_witness:
  "\<exists>path. walk (the (edges sample_journey)) sample_pick (length (nodes sample_journey)) (start_node_id sample_journey) = Some path \<and>
    distinct path \<and> set path \<subseteq> set (node_ids sample_journey)"
  by (rule accepted_run_completes [OF sample_accepted])
     (auto simp: sample_journey_def sample_pick_def sample_push_def sample_variants_def)

lemma accepted_branch_compiles_witness:
  "\<exists>r. compile (\<lambda>_. []) (dsl_of sample_condition) ''t'' ''a'' Marketing = Inr r"
  by (rule accepted_branch_compiles [OF sample_accepted, of "\<lparr>n_id = Some ''br'', n_body = Branch sample_condition\<rparr>"])
     (simp_all add: sample_journey_def)

lemma sample_history: "activation_history [sample_journey, sample_journey]"
proof -
  have "validatePublishedABNodes sample_journey (collectPublishedABNodes []) = []"
    "validatePublishedABNodes sample_journey (collectPublishedABNodes [sample_journey]) = []"
    by code_simp+
  then show ?thesis using sample_accepted by (simp add: activation_history_def less_Suc_eq)
qed

lemma published_allocation_stable_witness: "allocation sample_variants = [(''va'', Some (Num 30)), (''vb'', Some (Num 70))]"
proof -
  have "(''ab'', sample_variants) \<in> ab_nodes sample_journey" by (auto simp: ab_nodes_def sample_journey_def)
  then have "allocation sample_variants = allocation sample_variants"
    using published_allocation_stable [OF sample_history] by force
  then show ?thesis by (simp add: allocation_def sample_variants_def json_number_def)
qed

definition sample_linear :: journey_definition where
  "sample_linear = sample_journey\<lparr>schema_version := None, start_node_id := None, edges := None,
     nodes := [\<lparr>n_id = None, n_body = Delay (Num 60)\<rparr>, \<lparr>n_id = None, n_body = sample_push\<rparr>]\<rparr>"

lemma legacy_graph_valid_witness:
  "\<exists>g. toGraphDefinition sample_linear = Inr g \<and> validateGraph g = [] \<and> map n_body (nodes g) = [Delay (Num 60), sample_push]"
proof -
  have "list_all (\<lambda>n. node_ok (n_body n)) (nodes sample_linear)" unfolding body_errors_Nil [symmetric] by code_simp
  moreover have "entry sample_linear = entry sample_journey" by (simp add: sample_linear_def)
  ultimately have "\<not> hasErrors (validateJourney sample_linear)"
    using sample_accepted
    by (simp add: validateJourney_errors journey_ok_def reentry_ok_def)
       (simp add: sample_linear_def sample_journey_def is_message_def sample_push_def v1_node_def)
  then show ?thesis
    using legacy_graph_valid [of sample_linear] by (simp add: sample_linear_def sample_journey_def)
qed

end
