(* ===== verification/Journey_Editor.thy ===== *)
theory Journey_Editor
  imports Journey_Properties
begin

text \<open>
  The pure part of the journey editor of the console: drafts and templates (\<open>journeys/journey-editor-model.ts\<close>,
  \<open>journeys/journey-templates.ts\<close>) and the operations on graphs (\<open>journeys/journey-graph.ts\<close>). A graph in the editor always has ids and an edge
  array; ids that \<open>newJourneyId\<close> draws at random are arguments. An operation that throws \<open>GraphOperationError\<close> returns the key of its message.
\<close>

section \<open>Drafts\<close>

datatype node_kind = KMessage | KDelay | KBranch | KEventWait | KABSplit

definition NODE_TOOLS :: "node_kind list" where
  "NODE_TOOLS = [KMessage, KDelay, KBranch, KEventWait, KABSplit]"

fun kind_of :: "node_body \<Rightarrow> node_kind option" where
  "kind_of (Message _ _ _) = Some KMessage"
| "kind_of (Delay _) = Some KDelay"
| "kind_of (Branch _) = Some KBranch"
| "kind_of (EventWait _ _) = Some KEventWait"
| "kind_of (ABSplit _) = Some KABSplit"
| "kind_of (Unsupported _) = None"

text \<open>\<open>newJourneyId\<close>: \<open>u\<close> is the random UUID\<close>

definition newJourneyId :: "string \<Rightarrow> string \<Rightarrow> string" where
  "newJourneyId kind u = kind @ ''-'' @ u"

definition empty_condition :: jsval where
  "empty_condition = JObj [(''version'', JNum (Num 1)), (''operator'', JStr ''AND''), (''groups'', JArr
     [JObj [(''operator'', JStr ''AND''), (''conditions'', JArr
       [JObj [(''type'', JStr ''attribute''), (''key'', JStr []), (''op'', JStr ''eq''), (''value'', JStr [])]])]])]"

definition createJourneyNode :: "node_kind \<Rightarrow> string \<Rightarrow> string \<Rightarrow> string \<Rightarrow> journey_node" where
  "createJourneyNode kind u ua ub =
     \<lparr>n_id = Some (newJourneyId ''node'' u),
      n_body = (case kind of
          KMessage \<Rightarrow> Message (Some \<lparr>push_title = [], push_body = [], push_image_url = None, push_deep_link = None\<rparr>) None None
        | KDelay \<Rightarrow> Delay (Num 86400)
        | KBranch \<Rightarrow> Branch empty_condition
        | KEventWait \<Rightarrow> EventWait [] (Num 86400)
        | KABSplit \<Rightarrow> ABSplit [\<lparr>av_id = newJourneyId ''variant'' ua, av_label = ''A'', av_weight = Num 50\<rparr>,
                                \<lparr>av_id = newJourneyId ''variant'' ub, av_label = ''B'', av_weight = Num 50\<rparr>])\<rparr>"

definition emptyJourney :: "string \<Rightarrow> string \<Rightarrow> journey_definition" where
  "emptyJourney u ue =
     (let node = createJourneyNode KMessage u [] []
      in \<lparr>schema_version = Some (Num 2), entry = Some \<lparr>entry_type = ''blast'', entry_segment = None, entry_trigger = None\<rparr>,
          nodes = [node], start_node_id = n_id node,
          edges = Some [\<lparr>e_id = newJourneyId ''edge'' ue, e_source = the (n_id node), e_port = ''next'', e_target = None\<rparr>],
          conversion_event = None, category_of = ''marketing'', reentry_of = Never\<rparr>)"

text \<open>The finite-number check of \<open>JSON.stringify\<close> with its replacer, on the numbers a definition can hold\<close>

fun json_finite :: "jsval \<Rightarrow> bool" where
  "json_finite (JNum n) = num_is_finite n"
| "json_finite (JArr vs) = list_all json_finite vs"
| "json_finite (JObj fs) = list_all (\<lambda>(k, v). json_finite v) fs"
| "json_finite _ = True"

definition safe_positive :: "jsnum \<Rightarrow> bool" where
  "safe_positive n \<longleftrightarrow> num_is_safe_integer n \<and> num_less (Num 0) n"

definition checkDraft :: "string \<Rightarrow> journey_definition \<Rightarrow> string + unit" where
  "checkDraft name def =
     (if trim name = [] then Inl ''model.check.nameRequired''
      else if 200 < utf16_length name then Inl ''model.check.nameTooLong''
      else if list_ex (\<lambda>n. case n_body n of Delay d \<Rightarrow> \<not> safe_positive d | _ \<Rightarrow> False) (nodes def) then Inl ''model.check.delay''
      else if list_ex (\<lambda>n. case n_body n of EventWait _ d \<Rightarrow> \<not> safe_positive d | _ \<Rightarrow> False) (nodes def) then Inl ''model.check.eventWaitTimeout''
      else if list_ex (\<lambda>n. case n_body n of
             ABSplit vs \<Rightarrow> list_ex (\<lambda>v. \<not> num_is_safe_integer (av_weight v) \<or> num_less (av_weight v) (Num 1) \<or> num_less (Num 99) (av_weight v)) vs
           | _ \<Rightarrow> False) (nodes def)
        then Inl ''model.check.abWeight''
      else if (case reentry_of def of AfterDays d \<Rightarrow> \<not> safe_positive d | _ \<Rightarrow> False) then Inl ''model.check.reentry''
      else if list_ex (\<lambda>n. case n_body n of Branch c \<Rightarrow> \<not> json_finite c | _ \<Rightarrow> False) (nodes def) \<or>
              (case schema_version def of None \<Rightarrow> False | Some v \<Rightarrow> \<not> num_is_finite v)
        then Inl ''model.check.nonFiniteNumber''
      else Inr ())"

datatype journey_template = Welcome | ReturnVisit | Update

definition createJourneyTemplate :: "journey_template \<Rightarrow> push_content \<Rightarrow> journey_definition" where
  "createJourneyTemplate template push =
     (let delay = (case template of Welcome \<Rightarrow> 600 | ReturnVisit \<Rightarrow> 86400 | Update \<Rightarrow> 0);
          event = (case template of Welcome \<Rightarrow> ''sign_up'' | ReturnVisit \<Rightarrow> ''product_viewed'' | Update \<Rightarrow> ''playlist_updated'')
      in \<lparr>schema_version = Some (Num 2),
          entry = Some \<lparr>entry_type = ''trigger'', entry_segment = None, entry_trigger = Some event\<rparr>,
          nodes = (if delay \<noteq> 0 then [\<lparr>n_id = Some ''wait'', n_body = Delay (Num delay)\<rparr>] else []) @
            [\<lparr>n_id = Some ''message'', n_body = Message (Some push) None None\<rparr>],
          start_node_id = Some (if delay \<noteq> 0 then ''wait'' else ''message''),
          edges = Some ((if delay \<noteq> 0 then [\<lparr>e_id = ''wait-message'', e_source = ''wait'', e_port = ''next'', e_target = Some ''message''\<rparr>] else []) @
            [\<lparr>e_id = ''message-exit'', e_source = ''message'', e_port = ''next'', e_target = None\<rparr>]),
          conversion_event = (if template = ReturnVisit then Some ''purchase_completed'' else None),
          category_of = (if template = Update then ''transactional'' else ''marketing''),
          reentry_of = (if template = Update then Always else Never)\<rparr>)"

section \<open>Reading a graph\<close>

abbreviation graph_edges :: "journey_definition \<Rightarrow> journey_edge list" where
  "graph_edges def \<equiv> (case edges def of None \<Rightarrow> [] | Some es \<Rightarrow> es)"

definition ENTRY_EDGE_ID :: string where
  "ENTRY_EDGE_ID = ''__entry_edge__''"

function unused_id :: "string list \<Rightarrow> string \<Rightarrow> string" where
  "unused_id used i = (if i \<in> set used then unused_id used (i @ ''_'') else i)"
  by pat_completeness auto
termination
proof (relation "measure (\<lambda>(used, i). card {u \<in> set used. length i \<le> length u})")
  fix used :: "string list" and i
  assume used: "i \<in> set used"
  let ?longer = "\<lambda>j. {u \<in> set used. length j \<le> length u}"
  have "?longer (i @ ''_'') \<subseteq> ?longer i" by auto
  moreover have "i \<in> ?longer i" "i \<notin> ?longer (i @ ''_'')" using used by auto
  ultimately have "?longer (i @ ''_'') \<subset> ?longer i" by blast
  then have "card (?longer (i @ ''_'')) < card (?longer i)" by (intro psubset_card_mono) simp
  then show "((used, i @ ''_''), used, i) \<in> measure (\<lambda>(used, i). card {u \<in> set used. length i \<le> length u})"
    by simp
qed simp

declare unused_id.simps [simp del]

definition entryEdgeId :: "journey_definition \<Rightarrow> string" where
  "entryEdgeId def = unused_id (map e_id (graph_edges def)) ENTRY_EDGE_ID"

text \<open>The source and the truthy target of an edge\<close>

definition edge_arc :: "journey_edge \<Rightarrow> string \<times> string option" where
  "edge_arc e = (e_source e, case e_target e of None \<Rightarrow> None | Some t \<Rightarrow> if t = [] then None else Some t)"

definition truthy_id :: "string option \<Rightarrow> string list" where
  "truthy_id s = (case s of None \<Rightarrow> [] | Some i \<Rightarrow> if i = [] then [] else [i])"

definition reachableNodes :: "journey_definition \<Rightarrow> string option \<Rightarrow> string list" where
  "reachableNodes def start = dfs (build_adjacency (map edge_arc (graph_edges def)) []) [] (truthy_id start)"

definition find_node :: "journey_definition \<Rightarrow> string \<Rightarrow> journey_node option" where
  "find_node def i = find (\<lambda>n. n_id n = Some i) (nodes def)"

definition outgoingEdges :: "journey_definition \<Rightarrow> string \<Rightarrow> journey_edge list" where
  "outgoingEdges def i =
     (case find_node def i of
        None \<Rightarrow> []
      | Some n \<Rightarrow> concat (map (\<lambda>p. filter (\<lambda>e. e_source e = i \<and> e_port e = p) (graph_edges def)) (port_ids n)))"

text \<open>The shape checks of one node: \<^const>\<open>None\<close> when the editor can show it\<close>

definition condition_readable :: "jsval \<Rightarrow> bool" where
  "condition_readable c \<longleftrightarrow> truthy c \<and>
     \<not> (js_get c ''type'' = Some (JStr ''attribute'') \<and> (case js_get c ''key'' of Some (JStr _) \<Rightarrow> False | _ \<Rightarrow> True)) \<and>
     \<not> (js_get c ''type'' = Some (JStr ''event'') \<and> (case js_get c ''event'' of Some (JStr _) \<Rightarrow> False | _ \<Rightarrow> True))"

definition branch_readable :: "jsval \<Rightarrow> bool" where
  "branch_readable c \<longleftrightarrow>
     (case js_get c ''groups'' of
        Some (JArr gs) \<Rightarrow> list_all (\<lambda>g. case js_get g ''conditions'' of Some (JArr cs) \<Rightarrow> list_all condition_readable cs | _ \<Rightarrow> False) gs
      | _ \<Rightarrow> False)"

definition node_read_issue :: "node_body \<Rightarrow> string option" where
  "node_read_issue b =
     (case b of
        Unsupported _ \<Rightarrow> Some ''graph.unsupportedNode''
      | Message p e a \<Rightarrow> if p = None \<and> e = None \<and> a = None then Some ''graph.readIssue'' else None
      | Branch c \<Rightarrow> if \<not> branch_readable c then Some ''graph.readIssue'' else None
      | _ \<Rightarrow> None)"

fun first_issue :: "journey_node list \<Rightarrow> string option" where
  "first_issue [] = None"
| "first_issue (n # ns) = (case node_read_issue (n_body n) of Some k \<Rightarrow> Some k | None \<Rightarrow> first_issue ns)"

fun edges_readable :: "node_map \<Rightarrow> string list \<Rightarrow> (string \<times> string) list \<Rightarrow> journey_edge list \<Rightarrow> bool" where
  "edges_readable m ids outs [] = True"
| "edges_readable m ids outs (e # es) =
     (e_id e \<noteq> [] \<and> e_id e \<notin> set ids \<and> (e_source e, e_port e) \<notin> set outs \<and>
      (case map_of m (e_source e) of None \<Rightarrow> False | Some n \<Rightarrow> e_port e \<in> set (port_ids n)) \<and>
      (case e_target e of None \<Rightarrow> True | Some t \<Rightarrow> map_has m t) \<and>
      edges_readable m (e_id e # ids) ((e_source e, e_port e) # outs) es)"

text \<open>\<open>indegree.set(t, indegree.get(t) + 1)\<close> for the target of every edge\<close>

definition edge_degrees :: "string list \<Rightarrow> journey_edge list \<Rightarrow> degrees" where
  "edge_degrees ids es = count_targets (List.map_filter (\<lambda>e. snd (edge_arc e)) es) (map (\<lambda>i. (i, 0)) ids)"

definition edge_order :: "string list \<Rightarrow> journey_edge list \<Rightarrow> string list" where
  "edge_order ids es =
     (let ind = edge_degrees ids es
      in kahn (build_adjacency (map edge_arc es) []) ind (filter (\<lambda>i. map_of ind i = Some 0) ids) [])"

definition graphReadIssue :: "journey_definition \<Rightarrow> string option" where
  "graphReadIssue def =
     (let fail = Some ''graph.readIssue''; ids = map n_id (nodes def); m = map (\<lambda>n. (the (n_id n), n)) (nodes def)
      in case edges def of
           None \<Rightarrow> fail
         | Some es \<Rightarrow>
             if nodes def = [] then fail
             else if list_ex (\<lambda>i. i = None \<or> i = Some []) ids \<or> length (js_uniq ids) \<noteq> length ids \<or>
                     truthy_id (start_node_id def) = [] \<or> start_node_id def \<notin> set ids then fail
             else case first_issue (nodes def) of
                    Some k \<Rightarrow> Some k
                  | None \<Rightarrow>
                      if \<not> edges_readable m [] [] es then fail
                      else if \<not> list_all (\<lambda>n. list_all (\<lambda>p. (the (n_id n), p) \<in> set (map (\<lambda>e. (e_source e, e_port e)) es)) (port_ids n)) (nodes def) then fail
                      else if length (edge_order (map the ids) es) \<noteq> length ids \<or>
                              length (reachableNodes def (start_node_id def)) \<noteq> length ids then fail
                      else None)"

section \<open>Editing\<close>

text \<open>The first element that \<open>find\<close> returns is changed in place.\<close>

fun update_first :: "('a \<Rightarrow> bool) \<Rightarrow> ('a \<Rightarrow> 'a) \<Rightarrow> 'a list \<Rightarrow> 'a list" where
  "update_first p f [] = []"
| "update_first p f (x # xs) = (if p x then f x # xs else x # update_first p f xs)"

definition has_node :: "journey_definition \<Rightarrow> string \<Rightarrow> bool" where
  "has_node def i \<longleftrightarrow> list_ex (\<lambda>n. n_id n = Some i) (nodes def)"

text \<open>The edges of a new node, all to the same target; \<open>us\<close> gives the random part of the ids\<close>

definition new_edges :: "(nat \<Rightarrow> string) \<Rightarrow> journey_node \<Rightarrow> string option \<Rightarrow> journey_edge list" where
  "new_edges us n target =
     map (\<lambda>(k, p). \<lparr>e_id = newJourneyId ''edge'' (us k), e_source = the (n_id n), e_port = p, e_target = target\<rparr>) (enumerate 0 (port_ids n))"

definition insertOnEdge :: "(nat \<Rightarrow> string) \<Rightarrow> string \<Rightarrow> journey_node \<Rightarrow> journey_definition \<Rightarrow> string + journey_definition" where
  "insertOnEdge us edgeId node def =
     (let es = graph_edges def; found = find (\<lambda>e. e_id e = edgeId) es; atEntry = (edgeId = entryEdgeId def)
      in if truthy_id (n_id node) = [] \<or> has_node def (the (n_id node)) then Inl ''graph.invalidNodeId''
         else if \<not> atEntry \<and> found = None then Inl ''graph.reselectPath''
         else
           let target = (if atEntry then start_node_id def else e_target (the found));
               start = (if found = None then n_id node else start_node_id def);
               es1 = update_first (\<lambda>e. e_id e = edgeId) (\<lambda>e. e\<lparr>e_target := n_id node\<rparr>) es
           in Inr (def\<lparr>start_node_id := start, nodes := nodes def @ [node], edges := Some (es1 @ new_edges us node target)\<rparr>))"

definition connectionIssue :: "journey_definition \<Rightarrow> string \<Rightarrow> string \<Rightarrow> string option \<Rightarrow> string option" where
  "connectionIssue def source port target =
     (let known = (case find_node def source of None \<Rightarrow> False | Some n \<Rightarrow> port \<in> set (port_ids n));
          backward = (case target of None \<Rightarrow> False | Some t \<Rightarrow> t = source \<or> t \<noteq> [] \<and> source \<in> set (reachableNodes def target));
          next_def = def\<lparr>edges := Some (filter (\<lambda>e. e_source e \<noteq> source \<or> e_port e \<noteq> port) (graph_edges def) @
            [\<lparr>e_id = ''preview'', e_source = source, e_port = port, e_target = target\<rparr>])\<rparr>
      in if \<not> known then Some ''graph.portNotFound''
         else if (case target of None \<Rightarrow> False | Some t \<Rightarrow> t \<noteq> [] \<and> \<not> has_node def t) then Some ''graph.targetNotFound''
         else if backward then Some ''graph.backwardConnection''
         else if list_ex (\<lambda>i. i \<notin> set (reachableNodes next_def (start_node_id next_def))) (reachableNodes def (start_node_id def))
         then Some ''graph.detachesNodes''
         else None)"

definition connectRoute :: "string \<Rightarrow> string \<Rightarrow> string \<Rightarrow> string option \<Rightarrow> journey_definition \<Rightarrow> string + journey_definition" where
  "connectRoute u source port target def =
     (case connectionIssue def source port target of
        Some k \<Rightarrow> Inl k
      | None \<Rightarrow>
          (let es = graph_edges def; at_port = (\<lambda>e. e_source e = source \<and> e_port e = port)
           in Inr (def\<lparr>edges := Some (if list_ex at_port es then update_first at_port (\<lambda>e. e\<lparr>e_target := target\<rparr>) es
                else es @ [\<lparr>e_id = newJourneyId ''edge'' u, e_source = source, e_port = port, e_target = target\<rparr>])\<rparr>)))"

definition linear :: "journey_node option \<Rightarrow> bool" where
  "linear n \<longleftrightarrow> (case n of None \<Rightarrow> False | Some m \<Rightarrow> v1_node (n_body m))"

abbreviation incoming :: "journey_definition \<Rightarrow> string \<Rightarrow> journey_edge list" where
  "incoming def i \<equiv> filter (\<lambda>e. e_target e = Some i) (graph_edges def)"

text \<open>\<open>movablePair\<close>: \<open>up\<close> stands for the offset -1\<close>

definition movablePair :: "journey_definition \<Rightarrow> string \<Rightarrow> bool \<Rightarrow> (string \<times> string) option" where
  "movablePair def i up =
     (let previous = (if up then incoming def i else outgoingEdges def i)
      in if \<not> linear (find_node def i) \<or> length previous \<noteq> 1 then None
         else case (if up then Some (e_source (hd previous)) else e_target (hd previous)) of
                None \<Rightarrow> None
              | Some j \<Rightarrow>
                  if \<not> linear (find_node def j) then None
                  else let (first, second) = (if up then (j, i) else (i, j))
                       in if 1 < length (incoming def first) \<or> length (incoming def second) \<noteq> 1 \<or>
                             length (outgoingEdges def first) \<noteq> 1 \<or> length (outgoingEdges def second) \<noteq> 1 then None
                          else Some (first, second))"

definition canMoveNode :: "journey_definition \<Rightarrow> string \<Rightarrow> bool \<Rightarrow> bool" where
  "canMoveNode def i up \<longleftrightarrow> movablePair def i up \<noteq> None"

definition moveLinearNode :: "string \<Rightarrow> bool \<Rightarrow> journey_definition \<Rightarrow> string + journey_definition" where
  "moveLinearNode i up def =
     (case movablePair def i up of
        None \<Rightarrow> Inl ''graph.moveOnlyLinear''
      | Some (first, second) \<Rightarrow>
          (let es = graph_edges def;
               tail = (case find (\<lambda>e. e_source e = second) es of None \<Rightarrow> None | Some e \<Rightarrow> e_target e);
               es1 = map (\<lambda>e. if e_target e = Some first then e\<lparr>e_target := Some second\<rparr> else e) es;
               es2 = update_first (\<lambda>e. e_source e = first) (\<lambda>e. e\<lparr>e_target := tail\<rparr>) es1;
               es3 = update_first (\<lambda>e. e_source e = second) (\<lambda>e. e\<lparr>e_target := Some first\<rparr>) es2
           in Inr (def\<lparr>edges := Some es3, start_node_id := (if start_node_id def = Some first then Some second else start_node_id def)\<rparr>)))"

record removal_preview =
  rp_definition :: journey_definition
  rp_removed :: "journey_node list"
  rp_shared :: "journey_node list"

text \<open>The node goes and the edges into it lead on to the kept target; then the nodes that became unreachable go.\<close>

definition bypass :: "string \<Rightarrow> string option \<Rightarrow> journey_edge list \<Rightarrow> journey_edge list" where
  "bypass i t es = map (\<lambda>e. if e_target e = Some i then e\<lparr>e_target := t\<rparr> else e) (filter (\<lambda>e. e_source e \<noteq> i) es)"

definition cut_node :: "string \<Rightarrow> string option \<Rightarrow> journey_definition \<Rightarrow> journey_definition" where
  "cut_node i t def = def\<lparr>nodes := filter (\<lambda>n. n_id n \<noteq> Some i) (nodes def), edges := Some (bypass i t (graph_edges def)),
     start_node_id := (if start_node_id def = Some i then t else start_node_id def)\<rparr>"

definition drop_nodes :: "string list \<Rightarrow> journey_definition \<Rightarrow> journey_definition" where
  "drop_nodes removed def = def\<lparr>nodes := filter (\<lambda>n. n_id n \<notin> Some ` set removed) (nodes def),
     edges := Some (filter (\<lambda>e. e_source e \<notin> set removed \<and>
       (case e_target e of None \<Rightarrow> True | Some t \<Rightarrow> t = [] \<or> t \<notin> set removed)) (graph_edges def))\<rparr>"

definition previewRemoval :: "string \<Rightarrow> string option \<Rightarrow> journey_definition \<Rightarrow> string + removal_preview" where
  "previewRemoval i keepPort def =
     (let outputs = outgoingEdges def i; keep = (case keepPort of None \<Rightarrow> None | Some p \<Rightarrow> if p = [] then None else Some p)
      in if find_node def i = None then Inl ''graph.removeTargetNotFound''
         else if 1 < length outputs \<and> keep = None then Inl ''graph.chooseKeepPath''
         else case find (\<lambda>e. keep = None \<or> keep = Some (e_port e)) outputs of
                None \<Rightarrow> Inl ''graph.keepPathNotFound''
              | Some kept_edge \<Rightarrow>
                  (let before = reachableNodes def (start_node_id def);
                       descendants = reachableNodes def (Some i);
                       next1 = cut_node i (e_target kept_edge) def;
                       afterwards = reachableNodes next1 (start_node_id next1);
                       removed = i # filter (\<lambda>j. j \<notin> set afterwards) before;
                       next2 = drop_nodes removed next1
                   in if nodes next2 = [] \<or> truthy_id (start_node_id next2) = [] then Inl ''graph.needOneNode''
                      else Inr \<lparr>rp_definition = next2,
                             rp_removed = filter (\<lambda>n. n_id n \<in> Some ` set removed) (nodes def),
                             rp_shared = filter (\<lambda>n. n_id n \<in> Some ` set descendants \<and> 1 < length (filter (\<lambda>e. e_target e = n_id n) (graph_edges def)))
                               (nodes next2)\<rparr>))"

definition rename_id :: "string \<Rightarrow> string \<Rightarrow> string \<Rightarrow> string" where
  "rename_id i j x = (if x = i then j else x)"

definition renewExperiment :: "string \<Rightarrow> string \<Rightarrow> journey_definition \<Rightarrow> string + journey_definition" where
  "renewExperiment i j def =
     (if (case find_node def i of None \<Rightarrow> True | Some n \<Rightarrow> kind_of (n_body n) \<noteq> Some KABSplit) then Inl ''graph.selectAbSplit''
      else if has_node def j then Inl ''graph.duplicateExperimentId''
      else Inr (def\<lparr>nodes := map (\<lambda>n. n\<lparr>n_id := map_option (rename_id i j) (n_id n)\<rparr>) (nodes def),
             edges := Some (map (\<lambda>e. e\<lparr>e_source := rename_id i j (e_source e), e_target := map_option (rename_id i j) (e_target e)\<rparr>) (graph_edges def)),
             start_node_id := map_option (rename_id i j) (start_node_id def)\<rparr>))"

section \<open>The editor\<close>

text \<open>
  The state of \<open>JourneyEditor\<close> that its edits change. \<open>ed_locked\<close> stands for \<open>!canEdit || busy || confirmation\<close>,
  \<open>ed_dialog\<close> for an open dialog. An edit pushes the draft on the history, which keeps 30 entries; field edits of one
  selection within 800 ms share an entry.
\<close>

record editor =
  ed_definition :: journey_definition
  ed_selected :: string
  ed_history :: "(journey_definition \<times> string) list"
  ed_last_selection :: string
  ed_last_time :: int
  ed_locked :: bool
  ed_dialog :: bool

definition commitDefinition :: "journey_definition \<Rightarrow> string \<Rightarrow> bool \<Rightarrow> int \<Rightarrow> editor \<Rightarrow> editor" where
  "commitDefinition next_def selection fieldEdit now st =
     (if ed_locked st then st
      else let items = ed_history st
           in st\<lparr>ed_history := (if \<not> fieldEdit \<or> ed_last_selection st \<noteq> ed_selected st \<or> 800 < now - ed_last_time st
                 then drop (length items - 29) items @ [(ed_definition st, ed_selected st)] else items),
                ed_last_selection := (if fieldEdit then ed_selected st else []), ed_last_time := now,
                ed_definition := next_def, ed_selected := selection\<rparr>)"

definition applyOperation :: "string + journey_definition \<Rightarrow> string \<Rightarrow> int \<Rightarrow> editor \<Rightarrow> editor" where
  "applyOperation result selection now st =
     (case result of Inl _ \<Rightarrow> st | Inr d \<Rightarrow> commitDefinition d selection False now st)"

definition undo :: "editor \<Rightarrow> editor" where
  "undo st =
     (if ed_locked st \<or> ed_dialog st \<or> ed_history st = [] then st
      else let (d, selection) = last (ed_history st)
           in st\<lparr>ed_definition := d, ed_selected := selection, ed_history := butlast (ed_history st),
                ed_last_selection := [], ed_last_time := 0\<rparr>)"

text \<open>The graph operations the editor offers, with the random ids they draw\<close>

datatype graph_op =
    Insert "nat \<Rightarrow> string" string node_kind string string string
  | Connect string string string "string option"
  | Move string bool
  | Remove string "string option"
  | Renew string string

fun graph_result :: "graph_op \<Rightarrow> journey_definition \<Rightarrow> string + journey_definition" where
  "graph_result (Insert us edgeId kind u ua ub) d = insertOnEdge us edgeId (createJourneyNode kind u ua ub) d"
| "graph_result (Connect u source port target) d = connectRoute u source port target d"
| "graph_result (Move i up) d = moveLinearNode i up d"
| "graph_result (Remove i keep) d = (case previewRemoval i keep d of Inl k \<Rightarrow> Inl k | Inr r \<Rightarrow> Inr (rp_definition r))"
| "graph_result (Renew i u) d = renewExperiment i (newJourneyId ''node'' u) d"

datatype editor_action = Edit graph_op string int | Undo | Flags bool bool

fun editor_step :: "editor_action \<Rightarrow> editor \<Rightarrow> editor" where
  "editor_step (Edit e selection now) st = applyOperation (graph_result e (ed_definition st)) selection now st"
| "editor_step Undo st = undo st"
| "editor_step (Flags locked dialog) st = st\<lparr>ed_locked := locked, ed_dialog := dialog\<rparr>"

section \<open>Durations\<close>

fun node_wait :: "node_body \<Rightarrow> jsnum" where
  "node_wait (Delay d) = d"
| "node_wait (EventWait _ d) = d"
| "node_wait _ = Num 0"

definition waits :: "node_body \<Rightarrow> bool" where
  "waits b \<longleftrightarrow> (case b of Delay _ \<Rightarrow> True | EventWait _ _ \<Rightarrow> True | _ \<Rightarrow> False)"

definition charged :: "node_body \<Rightarrow> string \<Rightarrow> bool" where
  "charged b port \<longleftrightarrow> (case b of Delay _ \<Rightarrow> True | EventWait _ _ \<Rightarrow> port = ''timeout'' | _ \<Rightarrow> False)"

type_synonym ranges = "(string \<times> rat \<times> rat) list"

text \<open>The range of one node from the ranges of its targets\<close>

definition edge_range :: "node_body \<Rightarrow> rat \<Rightarrow> ranges \<Rightarrow> journey_edge \<Rightarrow> (rat \<times> rat) option" where
  "edge_range b cost rs e =
     (case (case truthy_id (e_target e) of [] \<Rightarrow> Some (0, 0) | t # _ \<Rightarrow> map_of rs t) of
        None \<Rightarrow> None
      | Some (lo, hi) \<Rightarrow> Some (lo + (if charged b (e_port e) then cost else 0), hi + cost))"

definition node_range :: "journey_node \<Rightarrow> journey_edge list \<Rightarrow> ranges \<Rightarrow> (rat \<times> rat) option" where
  "node_range n outputs rs =
     (if length outputs \<noteq> length (port_ids n) \<or>
         list_ex (\<lambda>p. length (filter (\<lambda>e. e_port e = p) outputs) \<noteq> 1) (port_ids n) then None
      else case node_wait (n_body n) of
        Num cost \<Rightarrow>
          if \<not> num_is_safe_integer (Num cost) \<or> cost < 0 \<or> (cost = 0 \<and> waits (n_body n)) then None
          else (let paths = map (edge_range (n_body n) cost rs) outputs
                in if paths = [] \<or> None \<in> set paths then None
                   else Some (Min (fst ` the ` set paths), Max (snd ` the ` set paths)))
      | _ \<Rightarrow> None)"

fun collect_ranges :: "node_map \<Rightarrow> journey_edge list \<Rightarrow> string list \<Rightarrow> ranges \<Rightarrow> ranges option" where
  "collect_ranges m es [] rs = Some rs"
| "collect_ranges m es (i # is) rs =
     (case map_of m i of
        None \<Rightarrow> None
      | Some n \<Rightarrow>
          (case node_range n (filter (\<lambda>e. e_source e = i) es) rs of
             None \<Rightarrow> None | Some r \<Rightarrow> collect_ranges m es is (AList.update i r rs)))"

definition pathDurationRange :: "journey_definition \<Rightarrow> (rat \<times> rat) option" where
  "pathDurationRange def =
     (let m = fold (\<lambda>n. AList.update (the (n_id n)) n) (nodes def) []; ids = map fst m; es = graph_edges def; order = edge_order ids es
      in case truthy_id (start_node_id def) of
           [] \<Rightarrow> None
         | s # _ \<Rightarrow>
             if list_ex (\<lambda>e. \<not> map_has m (e_source e) \<or> (case truthy_id (e_target e) of [] \<Rightarrow> False | t # _ \<Rightarrow> \<not> map_has m t)) es then None
             else if length order \<noteq> length m then None
             else case collect_ranges m es (rev order) [] of None \<Rightarrow> None | Some rs \<Rightarrow> map_of rs s)"

end
