(* ===== verification/Journey_Editing.thy ===== *)
theory Journey_Editing
  imports Journey_Editor
begin

text \<open>
  The topology invariant of the editor: a graph that is well formed stays well formed under every operation of
  \<open>journey-graph.ts\<close>. The validator of the server and the reader of the console differ only in which ids they allow,
  so the invariant is stated for any such policy (locale \<open>id_policy\<close>) and used for both.
\<close>

section \<open>Routing\<close>

text \<open>\<open>r\<close> leads from \<open>s\<close> to every node of \<open>V\<close> without a cycle.\<close>

definition routed :: "'a \<Rightarrow> 'a set \<Rightarrow> ('a \<times> 'a) set \<Rightarrow> bool" where
  "routed s V r \<longleftrightarrow> s \<in> V \<and> acyclic r \<and> (\<forall>i \<in> V. (s, i) \<in> r\<^sup>*)"

lemma rtrancl_outside: "(x, y) \<in> r\<^sup>* \<Longrightarrow> r \<subseteq> V \<times> V \<Longrightarrow> y \<notin> V \<Longrightarrow> x = y"
  by (induction rule: rtrancl_induct) auto

lemma rtrancl_outside_left: "(x, y) \<in> r\<^sup>* \<Longrightarrow> r \<subseteq> V \<times> V \<Longrightarrow> x \<notin> V \<Longrightarrow> x = y"
  by (induction rule: converse_rtrancl_induct) auto

lemma rtrancl_rename: "(x, y) \<in> r\<^sup>* \<Longrightarrow> (f x, f y) \<in> (map_prod f f ` r)\<^sup>*"
  by (induction rule: rtrancl_induct) (auto intro: rtrancl_into_rtrancl)

lemma trancl_unrename:
  assumes "(a, b) \<in> (map_prod f f ` r)\<^sup>+" "r \<subseteq> V \<times> V" "inj_on f V"
  shows "\<exists>x y. a = f x \<and> b = f y \<and> x \<in> V \<and> y \<in> V \<and> (x, y) \<in> r\<^sup>+"
  using assms(1)
proof (induction rule: trancl_induct)
  case (base b)
  then show ?case using assms(2) by auto
next
  case (step b c)
  then obtain x y where "a = f x" "b = f y" "x \<in> V" "y \<in> V" "(x, y) \<in> r\<^sup>+" by blast
  moreover from step.hyps(2) obtain y' z where "b = f y'" "c = f z" "(y', z) \<in> r" by auto
  ultimately show ?case using assms(2,3) by (metis SigmaD1 SigmaD2 inj_onD subsetD trancl_into_trancl)
qed

text \<open>Renaming the nodes keeps a routing.\<close>

lemma routed_rename:
  assumes "routed s V r" "r \<subseteq> V \<times> V" "inj_on f V"
  shows "routed (f s) (f ` V) (map_prod f f ` r)"
proof -
  have "(a, a) \<notin> (map_prod f f ` r)\<^sup>+" for a
    using trancl_unrename [OF _ assms(2,3), of a a] assms(1,3) unfolding routed_def acyclic_def inj_on_def by metis
  then show ?thesis using assms(1) rtrancl_rename [of s _ r f] by (auto simp: routed_def acyclic_def)
qed

text \<open>A new node on an arc, before the start, and a redirected arc\<close>

lemma rtrancl_via: "(\<And>x y. (x, y) \<in> r \<Longrightarrow> (x, y) \<in> q\<^sup>*) \<Longrightarrow> (x, y) \<in> r\<^sup>* \<Longrightarrow> (x, y) \<in> q\<^sup>*"
  by (metis rtrancl_idemp rtrancl_mono subrelI subsetD)

lemma routed_split:
  assumes "routed s V r" "r \<subseteq> V \<times> V" "i \<notin> V" "a \<in> V"
    and tail: "T \<subseteq> {t. (a, t) \<in> r}"
    and up: "q \<subseteq> r \<union> {(a, i)} \<union> {i} \<times> T" and new: "(a, i) \<in> q"
    and keep: "\<And>x y. (x, y) \<in> r \<Longrightarrow> (x, y) \<in> q \<or> x = a \<and> (i, y) \<in> q"
    and one: "T \<subseteq> {t}"
  shows "routed s (insert i V) q"
proof -
  have ac: "acyclic r" using assms(1) by (simp add: routed_def)
  have "acyclic (insert (a, i) (r \<union> {i} \<times> T))"
  proof (cases "T = {}")
    case True
    then show ?thesis using ac rtrancl_outside_left [of i a r V] assms(2-4) by (auto simp: acyclic_insert)
  next
    case False
    then have T: "T = {t}" "(a, t) \<in> r" using one tail by auto
    then have t: "t \<in> V" using assms(2) by auto
    have "(t, i) \<notin> r\<^sup>*" using rtrancl_outside [of t i r V] assms(2,3) t by auto
    then have 1: "acyclic (insert (i, t) r)" using ac by (simp add: acyclic_insert)
    have "(t, a) \<notin> r\<^sup>*" using ac T(2) by (meson acyclic_def rtrancl_into_trancl2)
    moreover have "(i, a) \<notin> r\<^sup>*" using rtrancl_outside_left [of i a r V] assms(2-4) by auto
    ultimately have "(i, a) \<notin> (insert (i, t) r)\<^sup>*" by (simp add: rtrancl_insert)
    then have "acyclic (insert (a, i) (insert (i, t) r))" using 1 by (simp add: acyclic_insert)
    then show ?thesis by (rule acyclic_subset) (auto simp: T(1))
  qed
  then have "acyclic q" by (rule acyclic_subset) (use up in auto)
  moreover have via: "(x, y) \<in> q\<^sup>*" if "(x, y) \<in> r\<^sup>*" for x y
  proof (rule rtrancl_via [OF _ that])
    fix u v assume "(u, v) \<in> r"
    then consider "(u, v) \<in> q" | "u = a" "(i, v) \<in> q" using keep by blast
    then show "(u, v) \<in> q\<^sup>*" using new by cases (auto intro: converse_rtrancl_into_rtrancl [of a i])
  qed
  moreover have "(s, i) \<in> q\<^sup>*" using via [of s a] assms(1,4) new by (auto simp: routed_def intro: rtrancl_into_rtrancl)
  ultimately show ?thesis using assms(1) by (auto simp: routed_def)
qed

lemma routed_prepend:
  assumes "routed s V r" "r \<subseteq> V \<times> V" "i \<notin> V"
  shows "routed i (insert i V) (insert (i, s) r)"
proof -
  have "(s, i) \<notin> r\<^sup>*" using rtrancl_outside [of s i r V] assms by (auto simp: routed_def)
  then show ?thesis using assms(1)
    by (auto simp: routed_def acyclic_insert rtrancl_insert)
qed

lemma routed_redirect:
  assumes "routed s V r" "q \<subseteq> r \<union> {a} \<times> T" "T \<subseteq> {t}" "\<And>t. t \<in> T \<Longrightarrow> (t, a) \<notin> r\<^sup>*" "\<And>v. v \<in> V \<Longrightarrow> (s, v) \<in> q\<^sup>*"
  shows "routed s V q"
proof -
  have "acyclic (r \<union> {a} \<times> T)"
  proof (cases "T = {}")
    case False
    then have "T = {t}" using assms(3) by auto
    then show ?thesis using assms(1,4) by (simp add: routed_def acyclic_insert)
  qed (use assms(1) in \<open>simp add: routed_def\<close>)
  then show ?thesis using assms by (auto simp: routed_def intro: acyclic_subset)
qed

text \<open>The part of a relation below a start\<close>

lemma routed_below:
  assumes "acyclic r" "s \<in> W" "\<And>x. x \<in> W \<longleftrightarrow> (s, x) \<in> r\<^sup>*" "q = {(x, y) \<in> r. x \<in> W}"
  shows "routed s W q"
proof -
  have "(s, x) \<in> q\<^sup>*" if "(s, x) \<in> r\<^sup>*" for x
    using that
  proof (induction rule: rtrancl_induct)
    case (step y z)
    then have "(y, z) \<in> q" using assms(3,4) by auto
    then show ?case using step by (meson rtrancl_into_rtrancl)
  qed simp
  moreover have "acyclic q" using assms(1) by (rule acyclic_subset) (auto simp: assms(4))
  ultimately show ?thesis using assms(2,3) by (auto simp: routed_def)
qed

section \<open>Topology\<close>

text \<open>The ids of the nodes, the output slots (node and port), and the slot an edge leaves from\<close>

definition known :: "journey_node list \<Rightarrow> string set" where
  "known ns = {i. Some i \<in> n_id ` set ns}"

definition slots :: "journey_node list \<Rightarrow> (string \<times> string) set" where
  "slots ns = {(i, p). \<exists>n \<in> set ns. n_id n = Some i \<and> p \<in> set (port_ids n)}"

abbreviation slot :: "journey_edge \<Rightarrow> string \<times> string" where
  "slot e \<equiv> (e_source e, e_port e)"

text \<open>
  The topology for a policy on node ids (\<open>nid\<close>) and edge ids (\<open>eid\<close>): every slot has exactly one edge, every edge
  leads to a node or out, and the edges route the start to every node.
\<close>

definition wired :: "(string \<Rightarrow> bool) \<Rightarrow> journey_node list \<Rightarrow> journey_edge list \<Rightarrow> bool" where
  "wired eid ns es \<longleftrightarrow> distinct (map e_id es) \<and> distinct (map slot es) \<and> slot ` set es = slots ns \<and>
     (\<forall>e \<in> set es. eid (e_id e) \<and> (\<forall>t. e_target e = Some t \<longrightarrow> t \<in> known ns))"

definition named :: "(string \<Rightarrow> bool) \<Rightarrow> journey_node list \<Rightarrow> bool" where
  "named nid ns \<longleftrightarrow> distinct (map n_id ns) \<and> (\<forall>n \<in> set ns. \<exists>i. n_id n = Some i \<and> nid i)"

definition topology :: "(string \<Rightarrow> bool) \<Rightarrow> (string \<Rightarrow> bool) \<Rightarrow> journey_definition \<Rightarrow> bool" where
  "topology nid eid d \<longleftrightarrow>
     (\<exists>s es. start_node_id d = Some s \<and> edges d = Some es \<and> named nid (nodes d) \<and> wired eid (nodes d) es \<and>
        routed s (known (nodes d)) (flow es))"

lemma topologyE:
  assumes "topology nid eid d"
  obtains s es where "start_node_id d = Some s" "edges d = Some es" "graph_edges d = es" "named nid (nodes d)"
    "wired eid (nodes d) es" "routed s (known (nodes d)) (flow es)"
  using assms by (auto simp: topology_def)

lemma known_append [simp]: "known (ns @ ms) = known ns \<union> known ms" "known [] = {}"
  by (auto simp: known_def)

lemma known_Cons: "known (n # ns) = (case n_id n of None \<Rightarrow> {} | Some i \<Rightarrow> {i}) \<union> known ns"
  by (auto simp: known_def split: option.split)

lemma slots_append [simp]: "slots (ns @ ms) = slots ns \<union> slots ms" "slots [] = {}"
  by (auto simp: slots_def)

lemma slots_known: "(i, p) \<in> slots ns \<Longrightarrow> i \<in> known ns"
  by (force simp: slots_def known_def)

lemma named_filter: "named nid ns \<Longrightarrow> named nid (filter P ns)"
  by (auto simp: named_def distinct_map_filter)

lemma wired_flow: "wired eid ns es \<Longrightarrow> flow es \<subseteq> known ns \<times> known ns"
proof
  fix x assume w: "wired eid ns es" and "x \<in> flow es"
  then obtain e t where e: "x = (e_source e, t)" "e \<in> set es" "e_target e = Some t" by (auto simp: flow_def)
  then have "slot e \<in> slots ns" "t \<in> known ns" using w by (auto simp: wired_def)
  then show "x \<in> known ns \<times> known ns" using e slots_known by auto
qed

text \<open>The policy of the validator and that of the reader\<close>

definition server_id :: "string \<Rightarrow> bool" where
  "server_id i \<longleftrightarrow> trim i \<noteq> [] \<and> length i \<le> 128"

definition server_edge :: "string \<Rightarrow> bool" where
  "server_edge i \<longleftrightarrow> trim i \<noteq> []"

definition console_id :: "string \<Rightarrow> bool" where
  "console_id i \<longleftrightarrow> i \<noteq> []"

lemma server_named:
  "named server_id ns \<longleftrightarrow> list_all (\<lambda>n. id_ok (n_id n)) ns \<and> distinct (map (\<lambda>n. the (n_id n)) ns)"
proof -
  have "(\<forall>n \<in> set ns. \<exists>i. n_id n = Some i \<and> server_id i) \<longleftrightarrow> list_all (\<lambda>n. id_ok (n_id n)) ns"
    by (force simp: list_all_iff id_ok_def server_id_def split: option.splits)
  moreover have "distinct (map n_id ns) \<longleftrightarrow> distinct (map (\<lambda>n. the (n_id n)) ns)" if "list_all (\<lambda>n. id_ok (n_id n)) ns"
  proof -
    have "map n_id ns = map Some (map (\<lambda>n. the (n_id n)) ns)" using that by (auto simp: list_all_iff dest!: id_okD)
    then have "distinct (map n_id ns) \<longleftrightarrow> distinct (map Some (map (\<lambda>n. the (n_id n)) ns))" by (rule arg_cong)
    then show ?thesis unfolding distinct_map [of Some] by simp
  qed
  ultimately show ?thesis by (auto simp: named_def)
qed

lemma server_known: "list_all (\<lambda>n. id_ok (n_id n)) ns \<Longrightarrow> known ns = set (map (\<lambda>n. the (n_id n)) ns)"
  by (force simp: known_def list_all_iff dest!: id_okD)

lemma slots_covered:
  assumes "\<forall>n \<in> set ns. n_id n \<noteq> None"
  shows "slots ns \<subseteq> slot ` set es \<longleftrightarrow> ports_covered ns es"
proof
  assume sub: "slots ns \<subseteq> slot ` set es"
  show "ports_covered ns es" unfolding ports_covered_def
  proof (intro ballI)
    fix n p assume n: "n \<in> set ns" "p \<in> set (port_ids n)"
    then obtain i where i: "n_id n = Some i" using assms by blast
    then have "(i, p) \<in> slots ns" using n by (auto simp: slots_def)
    then show "\<exists>e \<in> set es. n_id n = Some (e_source e) \<and> e_port e = p" using sub i by auto
  qed
next
  assume "ports_covered ns es"
  then show "slots ns \<subseteq> slot ` set es" by (fastforce simp: ports_covered_def slots_def)
qed

lemma edge_ok_iff:
  "edge_ok ns e \<longleftrightarrow> server_edge (e_id e) \<and> slot e \<in> slots ns \<and> (\<forall>t. e_target e = Some t \<longrightarrow> t \<in> known ns)"
  unfolding edge_ok_def server_edge_def slots_def known_def by (auto simp: image_iff) (metis+)?

lemma server_wired:
  assumes "list_all (\<lambda>n. id_ok (n_id n)) ns"
  shows "wired server_edge ns es \<longleftrightarrow>
   list_all (edge_ok ns) es \<and> distinct (map e_id es) \<and> distinct (map slot es) \<and> ports_covered ns es"
proof -
  have "\<forall>n \<in> set ns. n_id n \<noteq> None" using assms by (auto simp: list_all_iff dest!: id_okD)
  then have "slot ` set es = slots ns \<longleftrightarrow> (\<forall>e \<in> set es. slot e \<in> slots ns) \<and> ports_covered ns es"
    using slots_covered [of ns es] by auto
  then show ?thesis unfolding wired_def list_all_iff edge_ok_iff by auto
qed

lemma graph_wf_topology: "graph_wf d \<longleftrightarrow> topology server_id server_edge d"
proof (cases "list_all (\<lambda>n. id_ok (n_id n)) (nodes d)")
  case True
  show ?thesis
    unfolding graph_wf_def topology_def server_named server_wired [OF True] routed_def server_known [OF True] by auto
qed (simp add: graph_wf_def topology_def server_named)

section \<open>Lemmas about the helpers\<close>

lemma unused_id_fresh: "unused_id used i \<notin> set used"
  by (induction used i rule: unused_id.induct) (subst unused_id.simps, auto)

lemma update_first_none: "(\<And>x. x \<in> set xs \<Longrightarrow> \<not> p x) \<Longrightarrow> update_first p f xs = xs"
  by (induction xs) auto

lemma update_first_map:
  "distinct (map k xs) \<Longrightarrow> (\<And>x. x \<in> set xs \<Longrightarrow> p x \<longleftrightarrow> k x = c) \<Longrightarrow>
   update_first p f xs = map (\<lambda>x. if p x then f x else x) xs"
proof (induction xs)
  case (Cons x xs)
  show ?case
  proof (cases "p x")
    case True
    then have "k y \<noteq> c" if "y \<in> set xs" for y using Cons.prems that by fastforce
    then have "map (\<lambda>x. if p x then f x else x) xs = xs" using Cons.prems(2) by (intro map_idI) auto
    then show ?thesis using True by simp
  qed (use Cons in simp)
qed simp

lemma find_unique:
  "distinct (map k xs) \<Longrightarrow> find (\<lambda>x. k x = c) xs = Some x \<longleftrightarrow> x \<in> set xs \<and> k x = c"
  by (induction xs) auto

lemma flow_append [simp]: "flow (es @ fs) = flow es \<union> flow fs"
  by (auto simp: flow_def)

lemma flow_single [simp]: "flow [e] = {e_source e} \<times> set_option (e_target e)"
  by (auto simp: flow_def)

lemma flowI: "e \<in> set es \<Longrightarrow> e_target e = Some t \<Longrightarrow> (e_source e, t) \<in> flow es"
  by (auto simp: flow_def)

lemma flowE:
  assumes "(x, t) \<in> flow es"
  obtains e where "e \<in> set es" "e_source e = x" "e_target e = Some t"
  using assms by (auto simp: flow_def)

lemma arcs_edges:
  assumes "\<And>e. e \<in> set es \<Longrightarrow> e_target e \<noteq> Some []"
  shows "arcs (build_adjacency (map edge_arc es) []) = flow es"
proof -
  have "map edge_arc es = map (\<lambda>e. (e_source e, e_target e)) es"
    using assms by (auto simp: edge_arc_def split: option.split)
  then show ?thesis by (simp only: arcs_flow)
qed

lemma set_reachable:
  assumes "\<And>e. e \<in> set (graph_edges d) \<Longrightarrow> e_target e \<noteq> Some []" "s \<noteq> []"
  shows "set (reachableNodes d (Some s)) = {y. (s, y) \<in> (flow (graph_edges d))\<^sup>*}"
proof -
  have "arcs (build_adjacency (map edge_arc (graph_edges d)) []) = flow (graph_edges d)"
    using assms(1) by (rule arcs_edges)
  then show ?thesis using assms(2) unfolding reachableNodes_def set_dfs by (simp add: truthy_id_def)
qed

lemma new_edges_slots: "map slot (new_edges us n t) = map (\<lambda>p. (the (n_id n), p)) (port_ids n)"
proof -
  have "map slot (new_edges us n t) = map (\<lambda>p. (the (n_id n), p)) (map snd (enumerate 0 (port_ids n)))"
    by (simp add: new_edges_def split_beta del: map_snd_enumerate)
  then show ?thesis by (simp only: map_snd_enumerate)
qed

lemma new_edges_ids: "map e_id (new_edges us n t) = map (\<lambda>k. newJourneyId ''edge'' (us k)) [0..<length (port_ids n)]"
proof -
  have "map e_id (new_edges us n t) = map (\<lambda>k. newJourneyId ''edge'' (us k)) (map fst (enumerate 0 (port_ids n)))"
    by (simp add: new_edges_def split_beta del: map_fst_enumerate)
  then show ?thesis by (simp only: map_fst_enumerate) simp
qed

lemma new_edges_each: "e \<in> set (new_edges us n t) \<Longrightarrow> e_source e = the (n_id n) \<and> e_target e = t"
  by (auto simp: new_edges_def)

lemma new_edges_flow: "port_ids n \<noteq> [] \<Longrightarrow> flow (new_edges us n t) = {the (n_id n)} \<times> set_option t"
proof -
  assume "port_ids n \<noteq> []"
  then have "length (new_edges us n t) \<noteq> 0" by (simp add: new_edges_def)
  then obtain e where "e \<in> set (new_edges us n t)" by (cases "new_edges us n t") auto
  then show ?thesis using new_edges_each [of _ us n t] unfolding flow_def by (cases t) (auto, metis)
qed

lemma newJourneyId_inject [simp]: "newJourneyId k u = newJourneyId k v \<longleftrightarrow> u = v"
  by (simp add: newJourneyId_def)

section \<open>The operations keep the topology\<close>

text \<open>Edges with new targets: the slots and ids are those of the old edges.\<close>

lemma image_of_map: "map f xs = map g ys \<Longrightarrow> f ` set xs = g ` set ys"
  by (drule arg_cong [of _ _ set]) simp

lemma Some_in_image: "Some i \<in> map_option f ` A \<longleftrightarrow> (\<exists>x. Some x \<in> A \<and> i = f x)"
proof
  assume "Some i \<in> map_option f ` A"
  then obtain z where "z \<in> A" "Some i = map_option f z" by blast
  then show "\<exists>x. Some x \<in> A \<and> i = f x" by (cases z) auto
qed (auto intro: rev_image_eqI)

lemma wired_retarget:
  assumes "wired eid ns es" "known ns = V" "slots ms = slots ns" "V \<subseteq> known ms"
    and "map e_id fs = map e_id es" "map slot fs = map slot es" "\<And>e t. e \<in> set fs \<Longrightarrow> e_target e = Some t \<Longrightarrow> t \<in> known ms"
  shows "wired eid ms fs"
proof -
  have ids: "e_id ` set fs = e_id ` set es" and sl: "slot ` set fs = slot ` set es"
    using assms(5,6) by (auto dest: image_of_map)
  have "eid (e_id e)" if "e \<in> set fs" for e
  proof -
    have "e_id e \<in> e_id ` set es" using that by (simp flip: ids)
    then show ?thesis using assms(1) by (auto simp: wired_def)
  qed
  moreover have "slot ` set fs = slots ms" using assms(1,3) sl by (simp add: wired_def)
  moreover have "distinct (map e_id fs)" "distinct (map slot fs)" using assms(1,5,6) by (simp_all add: wired_def)
  ultimately show ?thesis using assms(7) unfolding wired_def by blast
qed

text \<open>The edge of an id gets a new target.\<close>

abbreviation retarget :: "string \<Rightarrow> string option \<Rightarrow> journey_edge \<Rightarrow> journey_edge" where
  "retarget c t e \<equiv> (if e_id e = c then e\<lparr>e_target := t\<rparr> else e)"

lemma routed_insert_edge:
  assumes "routed s V (flow es)" "flow es \<subseteq> V \<times> V" "i \<notin> V" "e0 \<in> set es" "e_source e0 \<in> V" "distinct (map e_id es)"
  shows "routed s (insert i V) (flow (map (retarget (e_id e0) (Some i)) es) \<union> {i} \<times> set_option (e_target e0))"
    (is "routed s _ ?q")
proof (rule routed_split [OF assms(1-3,5), of "set_option (e_target e0)" _ "the (e_target e0)"])
  let ?f = "retarget (e_id e0) (Some i)"
  have one: "e = e0" if "e \<in> set es" "e_id e = e_id e0" for e
    using that assms(4,6) by (auto simp: distinct_map dest: inj_onD)
  show "set_option (e_target e0) \<subseteq> {t. (e_source e0, t) \<in> flow es}" using assms(4) by (auto intro: flowI)
  show "?q \<subseteq> flow es \<union> {(e_source e0, i)} \<union> {i} \<times> set_option (e_target e0)"
    using one by (fastforce simp: flow_def split: if_splits)
  show "(e_source e0, i) \<in> ?q" using flowI [of "?f e0" "map ?f es" i] assms(4) by auto
  show "(x, y) \<in> ?q \<or> x = e_source e0 \<and> (i, y) \<in> ?q" if xy: "(x, y) \<in> flow es" for x y
  proof -
    obtain e where e: "e \<in> set es" "e_source e = x" "e_target e = Some y" using xy by (rule flowE)
    show ?thesis
    proof (cases "e_id e = e_id e0")
      case True
      then show ?thesis using one e by auto
    next
      case False
      then show ?thesis using flowI [of "?f e" "map ?f es" y] e by auto
    qed
  qed
qed auto

lemma flow_retarget_slot:
  assumes "(a, p) \<in> slot ` set es"
  shows "flow (map (\<lambda>e. if e_source e = a \<and> e_port e = p then e\<lparr>e_target := t\<rparr> else e) es) =
    flow (filter (\<lambda>e. e_source e \<noteq> a \<or> e_port e \<noteq> p) es) \<union> {a} \<times> set_option t" (is "flow (map ?f es) = ?r")
proof (intro set_eqI iffI)
  fix x assume "x \<in> flow (map ?f es)"
  then show "x \<in> ?r" by (force simp: flow_def split: if_splits)
next
  obtain e0 where e0: "e0 \<in> set es" "e_source e0 = a" "e_port e0 = p" using assms by auto
  fix x assume "x \<in> ?r"
  then consider e y where "e \<in> set es" "e_source e \<noteq> a \<or> e_port e \<noteq> p" "x = (e_source e, y)" "e_target e = Some y"
    | y where "x = (a, y)" "t = Some y" by (auto simp: flow_def)
  then show "x \<in> flow (map ?f es)"
  proof cases
    case 1
    then show ?thesis using flowI [of "?f e" "map ?f es" y] by auto
  next
    case 2
    then show ?thesis using flowI [of "?f e0" "map ?f es" y] e0 by auto
  qed
qed

text \<open>A movable pair: two linear nodes, the first leads to the second, and nothing else leads to the second.\<close>

lemma outgoing_edge: "e \<in> set (outgoingEdges d i) \<Longrightarrow> e \<in> set (graph_edges d) \<and> e_source e = i"
  by (auto simp: outgoingEdges_def split: option.splits)

lemma movablePair_Some:
  assumes "movablePair d i up = Some (f, g)"
  shows "linear (find_node d f) \<and> linear (find_node d g) \<and> length (incoming d g) = 1 \<and>
    (\<exists>e \<in> set (graph_edges d). e_source e = f \<and> e_target e = Some g)"
proof (cases up)
  case True
  then have "length (incoming d i) = 1" using assms by (auto simp: movablePair_def Let_def split: if_splits)
  then obtain e where e: "incoming d i = [e]" by (auto simp: length_Suc_conv)
  have "e \<in> set (incoming d i)" unfolding e by simp
  then have "e \<in> set (graph_edges d)" "e_target e = Some i" by simp_all
  moreover have "f = e_source e" "g = i" "linear (find_node d f)" "linear (find_node d g)" "length (incoming d g) = 1"
    using assms True e by (auto simp: movablePair_def Let_def split: if_splits)
  ultimately show ?thesis by blast
next
  case False
  then have "length (outgoingEdges d i) = 1" using assms by (auto simp: movablePair_def Let_def split: if_splits)
  then obtain e where e: "outgoingEdges d i = [e]" by (auto simp: length_Suc_conv)
  then have "e \<in> set (graph_edges d)" "e_source e = i" using outgoing_edge [of e d i] by auto
  moreover have "e_target e = Some g" "f = i" "linear (find_node d f)" "linear (find_node d g)" "length (incoming d g) = 1"
    using assms False e by (auto simp: movablePair_def Let_def split: if_splits option.splits)
  ultimately show ?thesis by blast
qed

text \<open>The edges after a move: the first node takes over the target of the second.\<close>

definition moved :: "string \<Rightarrow> string \<Rightarrow> string option \<Rightarrow> journey_edge \<Rightarrow> journey_edge" where
  "moved f g tail e = (if e_source e = f then e\<lparr>e_target := tail\<rparr> else if e_source e = g then e\<lparr>e_target := Some f\<rparr>
     else if e_target e = Some f then e\<lparr>e_target := Some g\<rparr> else e)"

definition swap :: "string \<Rightarrow> string \<Rightarrow> string \<Rightarrow> string" where
  "swap f g x = (if x = f then g else if x = g then f else x)"

lemma swap_inj: "inj_on (swap f g) V"
  by (auto simp: inj_on_def swap_def split: if_splits)

lemma swap_image: "f \<in> V \<Longrightarrow> g \<in> V \<Longrightarrow> swap f g ` V = V"
  by (force simp: swap_def image_iff)

lemma flow_moved:
  assumes fg: "ef \<in> set es" "e_source ef = f" "e_target ef = Some g" "eg \<in> set es" "e_source eg = g"
    and uniq: "\<And>e. e \<in> set es \<Longrightarrow> e_source e = f \<Longrightarrow> e = ef" "\<And>e. e \<in> set es \<Longrightarrow> e_source e = g \<Longrightarrow> e = eg"
    and into: "\<And>e. e \<in> set es \<Longrightarrow> e_target e = Some g \<Longrightarrow> e = ef"
    and ac: "f \<noteq> g" "e_target eg \<noteq> Some f"
  shows "flow (map (moved f g (e_target eg)) es) = map_prod (swap f g) (swap f g) ` flow es"
proof (intro set_eqI iffI)
  fix x assume "x \<in> flow (map (moved f g (e_target eg)) es)"
  then obtain e t where e: "e \<in> set es" "x = (e_source e, t)" "e_target (moved f g (e_target eg) e) = Some t"
    by (auto simp: flow_def moved_def split: if_splits)
  consider "e = ef" | "e = eg" | "e_source e \<noteq> f" "e_source e \<noteq> g" using uniq e(1) by blast
  then show "x \<in> map_prod (swap f g) (swap f g) ` flow es"
  proof cases
    case 1
    then have "(g, t) \<in> flow es" "t \<noteq> f" "t \<noteq> g" using e fg ac flowI [of eg es t] into [of eg] by (auto simp: moved_def)
    then show ?thesis using 1 e(2) fg ac by (force simp: swap_def image_iff)
  next
    case 2
    then have "(f, g) \<in> flow es" "t = f" using e fg ac flowI [of ef es g] by (auto simp: moved_def split: if_splits)
    then show ?thesis using 2 e(2) fg ac by (force simp: swap_def image_iff)
  next
    case 3
    then have "\<exists>u. e_target e = Some u \<and> t = swap f g u" using e into [of e] fg
      by (cases "e_target e") (auto simp: moved_def swap_def split: if_splits)
    then obtain u where "(e_source e, u) \<in> flow es" "t = swap f g u" using flowI [of e es] e(1) by blast
    then show ?thesis using 3 e(2) by (force simp: swap_def image_iff)
  qed
next
  fix x assume "x \<in> map_prod (swap f g) (swap f g) ` flow es"
  then obtain e t where e: "e \<in> set es" "e_target e = Some t" "x = (swap f g (e_source e), swap f g t)"
    by (auto simp: flow_def)
  consider "e = ef" | "e = eg" | "e_source e \<noteq> f" "e_source e \<noteq> g" using uniq e(1) by blast
  then show "x \<in> flow (map (moved f g (e_target eg)) es)"
  proof cases
    case 1
    then have "x = (e_source eg, f)" using e fg ac by (auto simp: swap_def)
    then show ?thesis using flowI [of "moved f g (e_target eg) eg" "map (moved f g (e_target eg)) es" f] fg ac
      by (auto simp: moved_def)
  next
    case 2
    then have "x = (e_source ef, t)" using e fg ac into [of e] by (auto simp: swap_def)
    then show ?thesis using flowI [of "moved f g (e_target eg) ef" "map (moved f g (e_target eg)) es" t] 2 e fg ac
      by (auto simp: moved_def)
  next
    case 3
    then show ?thesis using flowI [of "moved f g (e_target eg) e" "map (moved f g (e_target eg)) es" "swap f g t"] e into [of e] fg
      by (auto simp: moved_def swap_def split: if_splits)
  qed
qed

lemma update_first_source:
  assumes "map slot fs = map slot es" "distinct (map slot es)" "\<And>e. e \<in> set es \<Longrightarrow> e_source e = x \<Longrightarrow> e_port e = p"
  shows "update_first (\<lambda>e. e_source e = x) k fs = map (\<lambda>e. if e_source e = x then k e else e) fs"
proof (rule update_first_map [of slot])
  show "distinct (map slot fs)" using assms(1,2) by metis
  show "e_source e = x \<longleftrightarrow> slot e = (x, p)" if "e \<in> set fs" for e
  proof -
    have "slot e \<in> slot ` set es" using that image_of_map [OF assms(1)] by blast
    then obtain e' where "e' \<in> set es" "slot e = slot e'" by blast
    then show ?thesis using assms(3) by auto
  qed
qed

lemma move_edges:
  assumes "distinct (map slot es)" "f \<noteq> g" "\<And>e. e \<in> set es \<Longrightarrow> e_source e = f \<or> e_source e = g \<Longrightarrow> e_port e = p"
  shows "update_first (\<lambda>e. e_source e = g) (\<lambda>e. e\<lparr>e_target := Some f\<rparr>)
      (update_first (\<lambda>e. e_source e = f) (\<lambda>e. e\<lparr>e_target := tail\<rparr>)
        (map (\<lambda>e. if e_target e = Some f then e\<lparr>e_target := Some g\<rparr> else e) es)) = map (moved f g tail) es"
proof -
  let ?es1 = "map (\<lambda>e. if e_target e = Some f then e\<lparr>e_target := Some g\<rparr> else e) es"
  have 1: "map slot ?es1 = map slot es" by simp
  then have "update_first (\<lambda>e. e_source e = f) (\<lambda>e. e\<lparr>e_target := tail\<rparr>) ?es1 =
      map (\<lambda>e. if e_source e = f then e\<lparr>e_target := tail\<rparr> else e) ?es1" (is "_ = ?es2")
    using assms(1,3) by (intro update_first_source [OF 1, of _ p]) auto
  moreover have 2: "map slot ?es2 = map slot es" by simp
  then have "update_first (\<lambda>e. e_source e = g) (\<lambda>e. e\<lparr>e_target := Some f\<rparr>) ?es2 =
      map (\<lambda>e. if e_source e = g then e\<lparr>e_target := Some f\<rparr> else e) ?es2"
    using assms(1,3) by (intro update_first_source [OF 2, of _ p]) auto
  ultimately show ?thesis using assms(2) by (auto simp: moved_def)
qed

text \<open>Removal: the edges into the node go to the target of the kept output; what is no longer reachable goes too.\<close>

lemma known_within: "W \<subseteq> known ns \<Longrightarrow> known (filter (\<lambda>n. n_id n \<in> Some ` W) ns) = W"
  by (auto simp: known_def) (force simp: image_iff)

lemma wired_below:
  assumes w: "wired eid ns es" and W: "W \<subseteq> known ns" "\<And>e t. e \<in> set es \<Longrightarrow> e_source e \<in> W \<Longrightarrow> e_target e = Some t \<Longrightarrow> t \<in> W"
  shows "wired eid (filter (\<lambda>n. n_id n \<in> Some ` W) ns) (filter (\<lambda>e. e_source e \<in> W) es)" (is "wired eid ?ms ?fs")
proof -
  have k: "known ?ms = W" using W(1) by (rule known_within)
  have "slots ?ms = {(i, p) \<in> slots ns. i \<in> W}" by (auto simp: slots_def)
  moreover have "slot ` set ?fs = {(i, p) \<in> slot ` set es. i \<in> W}" by auto
  ultimately have "slot ` set ?fs = slots ?ms" using w by (simp add: wired_def)
  then show ?thesis using w W(2) by (auto simp: wired_def k distinct_map inj_on_def)
qed

lemma flow_bypass:
  assumes "k \<in> set es" "e_source k = i"
  shows "flow (bypass i (e_target k) es) \<subseteq> (flow es)\<^sup>+"
proof
  fix x assume "x \<in> flow (bypass i (e_target k) es)"
  then obtain e t where e: "e \<in> set es" "x = (e_source e, t)" "(if e_target e = Some i then e_target k else e_target e) = Some t"
    by (auto simp: flow_def bypass_def split: if_splits)
  show "x \<in> (flow es)\<^sup>+"
  proof (cases "e_target e = Some i")
    case True
    then have "(e_source e, i) \<in> flow es" "(i, t) \<in> flow es" using e assms flowI [of e es i] flowI [of k es t] by auto
    then show ?thesis using e(2) by (meson r_into_trancl' trancl_into_trancl)
  next
    case False
    then show ?thesis using e flowI [of e es t] by auto
  qed
qed

lemma known_without: "known (filter (\<lambda>n. n_id n \<noteq> Some i) ns) = known ns - {i}"
  by (auto simp: known_def)

lemma wired_bypass:
  assumes w: "wired eid ns es" and t: "set_option t \<subseteq> known ns - {i}"
  shows "wired eid (filter (\<lambda>n. n_id n \<noteq> Some i) ns) (bypass i t es)" (is "wired eid ?ms ?fs")
proof -
  have "map slot ?fs = map slot (filter (\<lambda>e. e_source e \<noteq> i) es)" by (simp add: bypass_def)
  moreover have "slots ?ms = {(j, p) \<in> slots ns. j \<noteq> i}" by (auto simp: slots_def)
  moreover have "slot ` set (filter (\<lambda>e. e_source e \<noteq> i) es) = {(j, p) \<in> slot ` set es. j \<noteq> i}" by auto
  ultimately have "slot ` set ?fs = slots ?ms" "distinct (map slot ?fs)"
    using w image_of_map [of slot ?fs slot "filter (\<lambda>e. e_source e \<noteq> i) es"]
    by (simp_all add: wired_def distinct_map_filter)
  moreover have "map e_id ?fs = map e_id (filter (\<lambda>e. e_source e \<noteq> i) es)" by (simp add: bypass_def)
  then have "distinct (map e_id ?fs)" using w by (simp add: wired_def distinct_map_filter)
  moreover have "eid (e_id e) \<and> (\<forall>x. e_target e = Some x \<longrightarrow> x \<in> known ns - {i})" if "e \<in> set ?fs" for e
    using that w t by (auto simp: bypass_def wired_def split: if_splits)
  ultimately show ?thesis unfolding wired_def known_without by blast
qed

locale id_policy =
  fixes nid eid :: "string \<Rightarrow> bool"
  assumes nid_nonempty: "nid i \<Longrightarrow> i \<noteq> []"
    and eid_new: "eid (newJourneyId ''edge'' u)"
begin

lemma known_nonempty: "named nid ns \<Longrightarrow> i \<in> known ns \<Longrightarrow> i \<noteq> []"
  using nid_nonempty by (force simp: named_def known_def)

lemma target_nonempty: "named nid ns \<Longrightarrow> wired eid ns es \<Longrightarrow> e \<in> set es \<Longrightarrow> e_target e \<noteq> Some []"
  using known_nonempty by (fastforce simp: wired_def)

lemma reached:
  assumes "named nid (nodes d)" "wired eid (nodes d) (graph_edges d)" "s \<in> known (nodes d)"
  shows "set (reachableNodes d (Some s)) = {y. (s, y) \<in> (flow (graph_edges d))\<^sup>*}"
  using target_nonempty [OF assms(1,2)] known_nonempty [OF assms(1,3)] by (intro set_reachable)

lemma reached_from_start:
  assumes "named nid (nodes d)" "wired eid (nodes d) (graph_edges d)" "routed s (known (nodes d)) (flow (graph_edges d))"
  shows "set (reachableNodes d (Some s)) = known (nodes d)"
proof -
  have s: "s \<in> known (nodes d)" using assms(3) by (simp add: routed_def)
  have "y \<in> known (nodes d)" if "(s, y) \<in> (flow (graph_edges d))\<^sup>*" for y
    using rtrancl_outside [OF that wired_flow [OF assms(2)]] s by blast
  then show ?thesis using reached [OF assms(1,2) s] assms(3) by (auto simp: routed_def)
qed

text \<open>Nodes and edges added by an insertion\<close>

lemma wired_insert:
  assumes n: "n_id n = Some i" "i \<notin> known ns" "distinct (port_ids n)"
    and w: "wired eid ns es" and ids: "map e_id fs = map e_id es" and sl: "map slot fs = map slot es"
    and t: "\<And>e t. e \<in> set fs \<Longrightarrow> e_target e = Some t \<Longrightarrow> t \<in> insert i (known ns)"
    and new: "set_option target \<subseteq> known ns" "inj us" "range (\<lambda>k. newJourneyId ''edge'' (us k)) \<inter> e_id ` set es = {}"
  shows "wired eid (ns @ [n]) (fs @ new_edges us n target)"
proof -
  let ?new = "new_edges us n target"
  have k: "known (ns @ [n]) = insert i (known ns)" by (auto simp: known_def n(1))
  have old: "slot ` set fs = slots ns" using w image_of_map [OF sl] by (simp add: wired_def)
  have news: "slot ` set ?new = {i} \<times> set (port_ids n)"
    using arg_cong [OF new_edges_slots [of us n target], of set] n(1) by auto
  have "distinct (map slot fs)" using w sl by (simp add: wired_def)
  moreover have "distinct (map slot ?new)"
    using n(3) unfolding new_edges_slots distinct_map by (simp add: inj_on_def)
  moreover have "slot ` set fs \<inter> slot ` set ?new = {}" using n(2) slots_known [of i _ ns] unfolding old news by auto
  ultimately have "distinct (map slot (fs @ ?new))" by simp
  moreover have "slot ` set (fs @ ?new) = slots (ns @ [n])"
    unfolding set_append image_Un old news slots_append by (auto simp: slots_def n(1))
  moreover have "distinct (map e_id (fs @ ?new))"
  proof -
    have "distinct (map e_id fs)" using w ids by (simp add: wired_def)
    moreover have "distinct (map e_id ?new)"
      using new(2) unfolding new_edges_ids distinct_map by (simp add: inj_def inj_on_def)
    moreover have "set (map e_id fs) \<inter> set (map e_id ?new) = {}" using new(3) unfolding ids new_edges_ids set_map by blast
    ultimately show ?thesis unfolding map_append distinct_append by blast
  qed
  moreover have "eid (e_id e)" if "e \<in> set (fs @ ?new)" for e
  proof -
    have "e_id e \<in> set (map e_id (fs @ ?new))" using that by auto
    then show ?thesis using w eid_new unfolding map_append ids new_edges_ids wired_def by auto
  qed
  moreover have "e_target e = Some x \<Longrightarrow> x \<in> known (ns @ [n])" if "e \<in> set (fs @ ?new)" for e x
    using that t new(1) new_edges_each [of e us n target] unfolding k by auto
  ultimately show ?thesis by (simp add: wired_def)
qed

lemma named_insert: "named nid ns \<Longrightarrow> n_id n = Some i \<Longrightarrow> i \<notin> known ns \<Longrightarrow> nid i \<Longrightarrow> named nid (ns @ [n])"
  by (auto simp: named_def known_def)

lemma insert_topology:
  assumes top: "topology nid eid d" and ins: "insertOnEdge us edgeId n d = Inr d'" and i: "n_id n = Some i" "nid i"
    and ports: "distinct (port_ids n)" "port_ids n \<noteq> []"
    and new: "inj us" "range (\<lambda>k. newJourneyId ''edge'' (us k)) \<inter> e_id ` set (graph_edges d) = {}"
  shows "topology nid eid d'"
proof -
  obtain s es where d: "start_node_id d = Some s" "edges d = Some es" "graph_edges d = es" "named nid (nodes d)"
    "wired eid (nodes d) es" "routed s (known (nodes d)) (flow es)" using top by (rule topologyE)
  have fresh: "i \<notin> known (nodes d)"
    using ins i by (force simp: insertOnEdge_def has_node_def known_def Let_def list_ex_iff split: if_splits)
  have k: "known (nodes d @ [n]) = insert i (known (nodes d))" by (auto simp: known_def i(1))
  have named: "named nid (nodes d @ [n])" using named_insert d(4) i fresh by blast
  have sub: "flow es \<subseteq> known (nodes d) \<times> known (nodes d)" using d(5) by (rule wired_flow)
  have unused: "entryEdgeId d \<notin> e_id ` set es" using unused_id_fresh [of "map e_id es"] by (simp add: entryEdgeId_def d(2))
  show ?thesis
  proof (cases "find (\<lambda>e. e_id e = edgeId) es")
    case None
    then have none: "update_first (\<lambda>e. e_id e = edgeId) f es = es" for f
      by (intro update_first_none) (auto simp: find_None_iff)
    have d': "start_node_id d' = Some i" "nodes d' = nodes d @ [n]" "edges d' = Some (es @ new_edges us n (Some s))"
      using ins None none by (auto simp: insertOnEdge_def Let_def d(1,2) i(1) split: if_splits)
    have "wired eid (nodes d @ [n]) (es @ new_edges us n (Some s))"
      using d(3,5,6) i(1) fresh ports(1) new by (intro wired_insert) (auto simp: wired_def routed_def)
    moreover have "routed i (insert i (known (nodes d))) (flow (es @ new_edges us n (Some s)))"
      using routed_prepend [OF d(6) sub fresh] ports(2) by (simp add: new_edges_flow i(1))
    ultimately show ?thesis using named d' k by (auto simp: topology_def)
  next
    case (Some e0)
    then have e0: "e0 \<in> set es" "e_id e0 = edgeId" by (auto dest: find_SomeD)
    then have ne: "edgeId \<noteq> entryEdgeId d" using unused by (metis imageI)
    let ?fs = "map (retarget (e_id e0) (Some i)) es"
    have upd: "update_first (\<lambda>e. e_id e = edgeId) (\<lambda>e. e\<lparr>e_target := n_id n\<rparr>) es = ?fs"
      unfolding i(1) e0(2) using d(5) by (intro update_first_map [of e_id]) (auto simp: wired_def)
    have d': "start_node_id d' = Some s" "nodes d' = nodes d @ [n]" "edges d' = Some (?fs @ new_edges us n (e_target e0))"
      using ins Some ne e0 by (auto simp: insertOnEdge_def Let_def d(1,2) upd split: if_splits)
    have "e_source e0 \<in> known (nodes d)"
      using e0(1) d(5) slots_known [of "e_source e0" "e_port e0" "nodes d"] by (auto simp: wired_def)
    then have "routed s (insert i (known (nodes d))) (flow (?fs @ new_edges us n (e_target e0)))"
      using routed_insert_edge [OF d(6) sub fresh e0(1)] d(5) ports(2) by (simp add: new_edges_flow i(1) wired_def)
    moreover have "wired eid (nodes d @ [n]) (?fs @ new_edges us n (e_target e0))"
    proof (rule wired_insert [OF i(1) fresh ports(1) d(5)])
      show "t \<in> insert i (known (nodes d))" if "e \<in> set ?fs" "e_target e = Some t" for e t
        using that d(5) by (auto simp: wired_def split: if_splits)
    qed (use d(3,5) e0(1) new in \<open>auto simp: wired_def\<close>)
    ultimately show ?thesis using named d' k by (auto simp: topology_def)
  qed
qed

lemma connect_topology:
  assumes top: "topology nid eid d" and con: "connectRoute u a p target d = Inr d'" and target: "target \<noteq> Some []"
  shows "topology nid eid d'"
proof -
  obtain s es where d: "start_node_id d = Some s" "edges d = Some es" "graph_edges d = es" "named nid (nodes d)"
    "wired eid (nodes d) es" "routed s (known (nodes d)) (flow es)" using top by (rule topologyE)
  let ?f = "\<lambda>e. if e_source e = a \<and> e_port e = p then e\<lparr>e_target := target\<rparr> else e"
  let ?next = "d\<lparr>edges := Some (filter (\<lambda>e. e_source e \<noteq> a \<or> e_port e \<noteq> p) es @
    [\<lparr>e_id = ''preview'', e_source = a, e_port = p, e_target = target\<rparr>])\<rparr>"
  have issue: "connectionIssue d a p target = None" using con by (auto simp: connectRoute_def split: option.splits)
  then have "(a, p) \<in> slots (nodes d)"
    by (auto simp: connectionIssue_def find_node_def slots_def Let_def split: option.splits if_splits dest!: find_SomeD)
  then have slot: "(a, p) \<in> slot ` set es" and a: "a \<in> known (nodes d)" using d(5) slots_known by (auto simp: wired_def)
  have t: "t \<in> known (nodes d) \<and> (t, a) \<notin> (flow es)\<^sup>*" if "t \<in> set_option target" for t
  proof -
    have "t \<in> known (nodes d)" using issue target that
      by (force simp: connectionIssue_def has_node_def list_ex_iff known_def Let_def split: if_splits option.splits)
    moreover from this have "a \<notin> set (reachableNodes d (Some t))" using issue target that known_nonempty [OF d(4)]
      by (force simp: connectionIssue_def Let_def split: if_splits option.splits)
    ultimately show ?thesis using reached [of d t] d(3,4,5) by auto
  qed
  have es': "start_node_id d' = Some s" "nodes d' = nodes d" "edges d' = Some (map ?f es)"
  proof -
    have "update_first (\<lambda>e. e_source e = a \<and> e_port e = p) (\<lambda>e. e\<lparr>e_target := target\<rparr>) es = map ?f es"
      using d(5) by (intro update_first_map [of slot _ _ "(a, p)"]) (auto simp: wired_def)
    moreover have "list_ex (\<lambda>e. e_source e = a \<and> e_port e = p) es" using slot by (auto simp: list_ex_iff)
    ultimately show "start_node_id d' = Some s" "nodes d' = nodes d" "edges d' = Some (map ?f es)"
      using con issue by (auto simp: connectRoute_def d(1-3))
  qed
  have next_flow: "flow (graph_edges ?next) = flow (map ?f es)"
    by (simp add: flow_retarget_slot [OF slot])
  have "known (nodes d) \<subseteq> set (reachableNodes ?next (Some s))"
    using issue reached_from_start [of d s] d by (auto simp: connectionIssue_def Let_def list_ex_iff split: if_splits)
  moreover have "set (reachableNodes ?next (Some s)) = {y. (s, y) \<in> (flow (graph_edges ?next))\<^sup>*}"
  proof (rule set_reachable)
    show "e_target e \<noteq> Some []" if "e \<in> set (graph_edges ?next)" for e
      using that target target_nonempty [OF d(4,5)] by auto
    show "s \<noteq> []" using known_nonempty [OF d(4)] d(6) by (auto simp: routed_def)
  qed
  ultimately have "routed s (known (nodes d)) (flow (map ?f es))"
    using t unfolding next_flow
    by (intro routed_redirect [OF d(6), of _ a "set_option target" "the target"]) (auto simp: flow_retarget_slot [OF slot], auto simp: flow_def)
  moreover have "wired eid (nodes d) (map ?f es)"
    using d(5) t by (intro wired_retarget [OF d(5)]) (auto simp: wired_def split: if_splits)
  ultimately show ?thesis using es' d(4) by (auto simp: topology_def)
qed

lemma wired_rename:
  assumes w: "wired eid ns es" and inj: "inj_on f (known ns)"
  defines "ms \<equiv> map (\<lambda>n. n\<lparr>n_id := map_option f (n_id n)\<rparr>) ns"
    and "fs \<equiv> map (\<lambda>e. e\<lparr>e_source := f (e_source e), e_target := map_option f (e_target e)\<rparr>) es"
  shows "wired eid ms fs" "known ms = f ` known ns" "flow fs = map_prod f f ` flow es"
proof -
  have "n_id ` set ms = map_option f ` (n_id ` set ns)" by (simp add: ms_def image_image)
  then show k: "known ms = f ` known ns" by (auto simp: known_def Some_in_image)
  show "flow fs = map_prod f f ` flow es" by (force simp: flow_def fs_def)
  have "slots ms = map_prod f id ` slots ns" by (force simp: slots_def ms_def)
  moreover have s: "map slot fs = map (map_prod f id) (map slot es)" by (simp add: fs_def)
  ultimately have "slot ` set fs = slots ms" using w image_of_map [OF s] by (simp add: wired_def image_image)
  moreover have "inj_on (map_prod f id) (slots ns)" using inj slots_known by (force simp: inj_on_def)
  then have "distinct (map slot fs)" using w unfolding s distinct_map [of "map_prod f id"] by (simp add: wired_def)
  moreover have "map e_id fs = map e_id es" by (simp add: fs_def)
  then have "distinct (map e_id fs)" using w unfolding wired_def by argo
  moreover have "eid (e_id e)" if "e \<in> set fs" for e using that w by (auto simp: wired_def fs_def)
  moreover have "t \<in> known ms" if "e \<in> set fs" "e_target e = Some t" for e t using that w k by (auto simp: wired_def fs_def)
  ultimately show "wired eid ms fs" by (auto simp: wired_def)
qed

lemma named_rename:
  assumes "named nid ns" "inj_on f (known ns)" "\<And>i. i \<in> known ns \<Longrightarrow> nid (f i)"
  shows "named nid (map (\<lambda>n. n\<lparr>n_id := map_option f (n_id n)\<rparr>) ns)"
proof -
  have "inj_on (map_option f) (set (map n_id ns))"
  proof (rule inj_onI)
    fix a b assume "a \<in> set (map n_id ns)" "b \<in> set (map n_id ns)" "map_option f a = map_option f b"
    then show "a = b" using assms(2) by (cases a; cases b) (auto simp: known_def inj_on_def)
  qed
  then have "distinct (map (map_option f) (map n_id ns))" using assms(1) unfolding distinct_map [of "map_option f"] named_def by blast
  then show ?thesis using assms(1,3) by (force simp: named_def known_def comp_def)
qed

lemma renew_topology:
  assumes top: "topology nid eid d" and ren: "renewExperiment i j d = Inr d'" and j: "nid j"
  shows "topology nid eid d'"
proof -
  obtain s es where d: "start_node_id d = Some s" "edges d = Some es" "graph_edges d = es" "named nid (nodes d)"
    "wired eid (nodes d) es" "routed s (known (nodes d)) (flow es)" using top by (rule topologyE)
  have "j \<notin> known (nodes d)"
    using ren by (force simp: renewExperiment_def has_node_def known_def list_ex_iff split: if_splits option.splits)
  then have inj: "inj_on (rename_id i j) (known (nodes d))" by (auto simp: inj_on_def rename_id_def)
  have ok: "nid (rename_id i j x)" if "x \<in> known (nodes d)" for x
    using that j d(4) by (force simp: rename_id_def named_def known_def)
  have d': "d' = d\<lparr>nodes := map (\<lambda>n. n\<lparr>n_id := map_option (rename_id i j) (n_id n)\<rparr>) (nodes d),
      edges := Some (map (\<lambda>e. e\<lparr>e_source := rename_id i j (e_source e), e_target := map_option (rename_id i j) (e_target e)\<rparr>) es),
      start_node_id := Some (rename_id i j s)\<rparr>"
    using ren by (simp add: renewExperiment_def d(1-3) split: if_splits)
  show ?thesis
    using named_rename [OF d(4) inj ok] wired_rename [OF d(5) inj] routed_rename [OF d(6) wired_flow [OF d(5)] inj]
    by (auto simp: topology_def d')
qed

lemma linear_slots:
  assumes "named nid (nodes d)" "linear (find_node d f)"
  shows "f \<in> known (nodes d)" "(f, p) \<in> slots (nodes d) \<longleftrightarrow> p = ''next''"
proof -
  obtain n where n: "n \<in> set (nodes d)" "n_id n = Some f" "v1_node (n_body n)"
    using assms(2) by (auto simp: linear_def find_node_def split: option.splits dest!: find_SomeD)
  then show "f \<in> known (nodes d)" by (force simp: known_def)
  have "inj_on n_id (set (nodes d))" using assms(1) by (simp add: named_def distinct_map)
  then have "m = n" if "m \<in> set (nodes d)" "n_id m = Some f" for m using that n inj_onD by fastforce
  then have "(f, p) \<in> slots (nodes d) \<longleftrightarrow> p \<in> set (port_ids n)" using n(1,2) unfolding slots_def by blast
  moreover have "port_ids n = [''next'']" using n(3) by (auto simp: v1_node_def split: node_body.splits)
  ultimately show "(f, p) \<in> slots (nodes d) \<longleftrightarrow> p = ''next''" by simp
qed

lemma movable_edges:
  assumes d: "named nid (nodes d)" "wired eid (nodes d) (graph_edges d)" "acyclic (flow (graph_edges d))"
    and fg: "movablePair d i up = Some (f, g)"
  obtains ef eg where "ef \<in> set (graph_edges d)" "e_source ef = f" "e_target ef = Some g" "eg \<in> set (graph_edges d)" "e_source eg = g"
    "f \<in> known (nodes d)" "g \<in> known (nodes d)" "f \<noteq> g" "e_target eg \<noteq> Some f"
    "\<And>e. e \<in> set (graph_edges d) \<Longrightarrow> e_target e = Some g \<Longrightarrow> e = ef"
    "\<And>e. e \<in> set (graph_edges d) \<Longrightarrow> e_source e = f \<or> e_source e = g \<Longrightarrow> e_port e = ''next''"
proof -
  obtain ef where ef: "ef \<in> set (graph_edges d)" "e_source ef = f" "e_target ef = Some g"
    and pair: "linear (find_node d f)" "linear (find_node d g)" "length (incoming d g) = 1"
    using movablePair_Some [OF fg] by blast
  note f = linear_slots [OF d(1) pair(1)] and g = linear_slots [OF d(1) pair(2)]
  have src: "e_port e = ''next''" if "e \<in> set (graph_edges d)" "e_source e = f \<or> e_source e = g" for e
  proof -
    have "slot e \<in> slots (nodes d)" using that(1) d(2) by (auto simp: wired_def)
    then show ?thesis using that(2) f(2) g(2) by auto
  qed
  have "(g, ''next'') \<in> slot ` set (graph_edges d)" using d(2) g(2) by (auto simp: wired_def)
  then obtain eg where eg: "eg \<in> set (graph_edges d)" "e_source eg = g" by auto
  have into: "e = ef" if "e \<in> set (graph_edges d)" "e_target e = Some g" for e
  proof -
    obtain z where "incoming d g = [z]" using pair(3) by (auto simp: length_Suc_conv)
    moreover have "e \<in> set (incoming d g)" "ef \<in> set (incoming d g)" using that ef by auto
    ultimately show ?thesis by simp
  qed
  have arc: "(f, g) \<in> flow (graph_edges d)" using flowI [OF ef(1,3)] ef(2) by simp
  have "f \<noteq> g" using arc d(3) by (auto simp: acyclic_def)
  moreover have "e_target eg \<noteq> Some f"
  proof
    assume "e_target eg = Some f"
    then have "(g, f) \<in> flow (graph_edges d)" using flowI [OF eg(1)] eg(2) by simp
    then have "(f, f) \<in> (flow (graph_edges d))\<^sup>+" using arc by (meson r_into_trancl' trancl_into_trancl)
    then show False using d(3) by (auto simp: acyclic_def)
  qed
  ultimately show ?thesis using that ef eg f(1) g(1) into src by blast
qed

lemma move_topology:
  assumes top: "topology nid eid d" and mov: "moveLinearNode i up d = Inr d'"
  shows "topology nid eid d'"
proof -
  obtain s es where d: "start_node_id d = Some s" "edges d = Some es" "graph_edges d = es" "named nid (nodes d)"
    "wired eid (nodes d) es" "routed s (known (nodes d)) (flow es)" using top by (rule topologyE)
  have ac: "acyclic (flow es)" using d(6) by (simp add: routed_def)
  obtain f g where fg: "movablePair d i up = Some (f, g)" using mov by (auto simp: moveLinearNode_def split: option.splits)
  obtain ef eg where e: "ef \<in> set es" "e_source ef = f" "e_target ef = Some g" "eg \<in> set es" "e_source eg = g"
    "f \<in> known (nodes d)" "g \<in> known (nodes d)" "f \<noteq> g" "e_target eg \<noteq> Some f"
    and into: "\<And>e. e \<in> set es \<Longrightarrow> e_target e = Some g \<Longrightarrow> e = ef"
    and src: "\<And>e. e \<in> set es \<Longrightarrow> e_source e = f \<or> e_source e = g \<Longrightarrow> e_port e = ''next''"
    using movable_edges [of d i up f g] d(3-5) ac fg by blast
  have inj: "inj_on slot (set es)" using d(5) by (simp add: wired_def distinct_map)
  have uniq: "a = b" if "a \<in> set es" "b \<in> set es" "e_source a = e_source b" "e_source b = f \<or> e_source b = g" for a b
    using inj_onD [OF inj _ that(1,2)] src [OF that(1)] src [OF that(2)] that(3,4) by simp
  have find: "find (\<lambda>x. e_source x = g) es = Some eg"
  proof (cases "find (\<lambda>x. e_source x = g) es")
    case None
    then show ?thesis using e(4,5) by (auto simp: find_None_iff)
  next
    case (Some x)
    then show ?thesis using find_SomeD [OF Some] uniq [of x eg] e(4,5) by simp
  qed
  let ?fs = "map (moved f g (e_target eg)) es"
  have "s \<noteq> g" using flowI [OF e(1,3)] e(2,6) ac d(6) by (metis acyclic_def rtrancl_into_trancl1 routed_def)
  then have start: "(if start_node_id d = Some f then Some g else start_node_id d) = Some (swap f g s)" by (simp add: swap_def d(1))
  have "distinct (map slot es)" using d(5) by (simp add: wired_def)
  note upd = move_edges [OF this e(8) src, of "e_target eg"]
  have "moveLinearNode i up d =
      Inr (d\<lparr>edges := Some ?fs, start_node_id := (if start_node_id d = Some f then Some g else start_node_id d)\<rparr>)"
    by (simp add: moveLinearNode_def fg find d(2) Let_def upd del: update_first.simps)
  then have d': "d' = d\<lparr>edges := Some ?fs, start_node_id := Some (swap f g s)\<rparr>" using mov unfolding start by simp
  have "x = ef" if "x \<in> set es" "e_source x = f" for x using uniq [OF that(1) e(1)] that(2) e(2) by simp
  moreover have "x = eg" if "x \<in> set es" "e_source x = g" for x using uniq [OF that(1) e(4)] that(2) e(5) by simp
  ultimately have flow: "flow ?fs = map_prod (swap f g) (swap f g) ` flow es" by (rule flow_moved [OF e(1-5) _ _ into e(8,9)])
  have "routed (swap f g s) (known (nodes d)) (flow ?fs)"
    using routed_rename [OF d(6) wired_flow [OF d(5)] swap_inj, of f g] unfolding flow swap_image [OF e(6,7)] .
  moreover have "wired eid (nodes d) ?fs"
  proof (rule wired_retarget [OF d(5)])
    show "t \<in> known (nodes d)" if "x \<in> set ?fs" "e_target x = Some t" for x t
      using that d(5) e by (auto simp: wired_def moved_def split: if_splits)
  qed (auto simp: moved_def)
  ultimately show ?thesis using d(4) by (auto simp: topology_def d')
qed

lemma removal_shape:
  assumes "previewRemoval i keep d = Inr r"
  obtains k where "k \<in> set (graph_edges d)" "e_source k = i" "find_node d i \<noteq> None"
    "truthy_id (start_node_id (cut_node i (e_target k) d)) \<noteq> []"
    "rp_definition r = drop_nodes (i # filter (\<lambda>j. j \<notin> set (reachableNodes (cut_node i (e_target k) d)
       (start_node_id (cut_node i (e_target k) d)))) (reachableNodes d (start_node_id d))) (cut_node i (e_target k) d)"
proof -
  let ?keep = "case keep of None \<Rightarrow> None | Some p \<Rightarrow> if p = [] then None else Some p"
  obtain k where k: "find (\<lambda>e. ?keep = None \<or> ?keep = Some (e_port e)) (outgoingEdges d i) = Some k"
    using assms by (auto simp: previewRemoval_def Let_def split: if_splits option.splits)
  then have "k \<in> set (graph_edges d)" "e_source k = i" using outgoing_edge [of k d i] by (auto dest: find_SomeD)
  moreover have "start_node_id (drop_nodes js e) = start_node_id e" for js e by (simp add: drop_nodes_def)
  ultimately show ?thesis
    using assms k by (intro that [of k]) (auto simp: previewRemoval_def Let_def split: if_splits)
qed

text \<open>Dropping everything outside a closed set \<open>W\<close> keeps exactly the nodes of \<open>W\<close> and their edges.\<close>

lemma drop_outside:
  assumes n: "named nid (nodes c)" and e: "edges c = Some es" and w: "wired eid (nodes c) es" and i: "i \<notin> known (nodes c)"
    and W: "W \<subseteq> known (nodes c)" "\<And>e t. e \<in> set es \<Longrightarrow> e_source e \<in> W \<Longrightarrow> e_target e = Some t \<Longrightarrow> t \<in> W"
    and V: "set before = insert i (known (nodes c))"
  shows "drop_nodes (i # filter (\<lambda>j. j \<notin> W) before) c =
    c\<lparr>nodes := filter (\<lambda>n. n_id n \<in> Some ` W) (nodes c), edges := Some (filter (\<lambda>e. e_source e \<in> W) es)\<rparr>"
proof -
  let ?R = "set (i # filter (\<lambda>j. j \<notin> W) before)"
  have R: "j \<in> ?R \<longleftrightarrow> j \<notin> W" if "j \<in> known (nodes c)" for j using that i V by auto
  have "filter (\<lambda>n. n_id n \<notin> Some ` ?R) (nodes c) = filter (\<lambda>n. n_id n \<in> Some ` W) (nodes c)"
  proof (rule filter_cong [OF refl])
    fix m assume m: "m \<in> set (nodes c)"
    then obtain j where "n_id m = Some j" using n by (auto simp: named_def)
    moreover from this have "j \<in> known (nodes c)" using m by (force simp: known_def)
    ultimately show "(n_id m \<notin> Some ` ?R) = (n_id m \<in> Some ` W)" using R by (simp add: inj_image_mem_iff del: set_simps)
  qed
  moreover have "filter (\<lambda>e. e_source e \<notin> ?R \<and> (case e_target e of None \<Rightarrow> True | Some t \<Rightarrow> t = [] \<or> t \<notin> ?R)) es =
      filter (\<lambda>e. e_source e \<in> W) es"
  proof (rule filter_cong [OF refl])
    fix e assume e: "e \<in> set es"
    then have "e_source e \<in> known (nodes c)" using w slots_known [of "e_source e" "e_port e"] by (auto simp: wired_def)
    then have "e_source e \<notin> ?R \<longleftrightarrow> e_source e \<in> W" using R by blast
    moreover have "t \<notin> ?R" if "e_source e \<in> W" "e_target e = Some t" for t
      using R [of t] W that e by blast
    ultimately show "(e_source e \<notin> ?R \<and> (case e_target e of None \<Rightarrow> True | Some t \<Rightarrow> t = [] \<or> t \<notin> ?R)) = (e_source e \<in> W)"
      by (auto split: option.split simp del: set_simps)
  qed
  ultimately show ?thesis unfolding drop_nodes_def e by simp
qed

lemma removal_topology:
  assumes top: "topology nid eid d" and rem: "previewRemoval i keep d = Inr r"
  shows "topology nid eid (rp_definition r)"
proof -
  obtain s es where d: "start_node_id d = Some s" "edges d = Some es" "graph_edges d = es" "named nid (nodes d)"
    "wired eid (nodes d) es" "routed s (known (nodes d)) (flow es)" using top by (rule topologyE)
  obtain k where k: "k \<in> set es" "e_source k = i"
    and start: "truthy_id (start_node_id (cut_node i (e_target k) d)) \<noteq> []"
    and r: "rp_definition r = drop_nodes (i # filter (\<lambda>j. j \<notin> set (reachableNodes (cut_node i (e_target k) d)
       (start_node_id (cut_node i (e_target k) d)))) (reachableNodes d (start_node_id d))) (cut_node i (e_target k) d)"
    using rem unfolding d(3) [symmetric] by (rule removal_shape)
  let ?c = "cut_node i (e_target k) d" and ?ns = "filter (\<lambda>n. n_id n \<noteq> Some i) (nodes d)" and ?es = "bypass i (e_target k) es"
  obtain s' where s': "start_node_id ?c = Some s'" using start by (auto simp: truthy_id_def split: option.splits)
  let ?W = "set (reachableNodes ?c (Some s'))"
  have ac: "acyclic (flow es)" using d(6) by (simp add: routed_def)
  have sub: "flow es \<subseteq> known (nodes d) \<times> known (nodes d)" using d(5) by (rule wired_flow)
  have t: "set_option (e_target k) \<subseteq> known (nodes d) - {i}"
    using flowI [OF k(1)] k(2) ac sub by (auto simp: acyclic_def)
  have c: "nodes ?c = ?ns" "graph_edges ?c = ?es" by (simp_all add: cut_node_def d(2))
  have w: "wired eid ?ns ?es" using wired_bypass [OF d(5) t] .
  have n: "named nid ?ns" using d(4) by (rule named_filter)
  have s'V: "s' \<in> known ?ns" using s' t d(1,6) by (auto simp: cut_node_def known_without routed_def split: if_splits)
  have W: "?W = {y. (s', y) \<in> (flow ?es)\<^sup>*}" using reached [of ?c s'] n w s'V unfolding c by blast
  have before: "set (reachableNodes d (start_node_id d)) = known (nodes d)"
    using reached_from_start [of d s] d by simp
  have WV: "?W \<subseteq> known ?ns" using rtrancl_outside [OF _ wired_flow [OF w]] s'V unfolding W by blast
  have closed: "y \<in> ?W" if "e \<in> set ?es" "e_source e \<in> ?W" "e_target e = Some y" for e y
    using that flowI [OF that(1,3)] unfolding W by (auto intro: rtrancl_into_rtrancl)
  have "i \<in> known (nodes d)" using k d(5) slots_known [of i "e_port k"] by (auto simp: wired_def)
  then have V: "set (reachableNodes d (start_node_id d)) = insert i (known (nodes ?c))" unfolding before c known_without by blast
  have ed: "edges ?c = Some ?es" by (simp add: cut_node_def d(2))
  have r': "rp_definition r =
      ?c\<lparr>nodes := filter (\<lambda>n. n_id n \<in> Some ` ?W) (nodes ?c), edges := Some (filter (\<lambda>e. e_source e \<in> ?W) ?es)\<rparr>"
    unfolding r s'
  proof (rule drop_outside [OF _ ed _ _ _ closed V])
    show "named nid (nodes ?c)" "wired eid (nodes ?c) ?es" "?W \<subseteq> known (nodes ?c)" unfolding c by (fact n w WV)+
    show "i \<notin> known (nodes ?c)" unfolding c known_without by blast
  qed
  have "acyclic ((flow es)\<^sup>+)" using ac by (simp add: acyclic_def trancl_id)
  then have "acyclic (flow ?es)" using flow_bypass [OF k] by (rule acyclic_subset)
  moreover have "flow (filter (\<lambda>e. e_source e \<in> ?W) ?es) = {(x, y) \<in> flow ?es. x \<in> ?W}" by (auto simp: flow_def)
  moreover have "s' \<in> ?W" "\<And>x. x \<in> ?W \<longleftrightarrow> (s', x) \<in> (flow ?es)\<^sup>*" unfolding W by auto
  ultimately have "routed s' ?W (flow (filter (\<lambda>e. e_source e \<in> ?W) ?es))" by (intro routed_below)
  moreover have "known (filter (\<lambda>n. n_id n \<in> Some ` ?W) ?ns) = ?W" using WV by (rule known_within)
  moreover have "named nid (filter (\<lambda>n. n_id n \<in> Some ` ?W) ?ns)" using n by (rule named_filter)
  ultimately show ?thesis using wired_below [OF w WV closed] s' unfolding r' c by (simp add: topology_def)
qed

end

end
