(* ===== verification/Journey_Drafts.thy ===== *)
theory Journey_Drafts
  imports Journey_Editing
begin

text \<open>
  Editing sessions: with fresh ids every draft an editor holds, undo states included, stays a graph that the server
  validates and the console reads; what the server accepts opens in the editor.
\<close>

section \<open>The two id policies\<close>

lemma trim_newJourneyId: "trim (newJourneyId k u) \<noteq> []"
  by (rule trim_keeps [of "CHR ''-''"]; simp add: newJourneyId_def js_ws_def)

interpretation server: id_policy server_id server_edge
  by unfold_locales (auto simp: server_id_def server_edge_def trim_newJourneyId)

interpretation console: id_policy console_id console_id
  by unfold_locales (auto simp: console_id_def newJourneyId_def)

section \<open>Sessions\<close>

text \<open>The assumption on the random ids of an operation, and that a connection names a node or the exit\<close>

fun fresh_op :: "(string \<Rightarrow> bool) \<Rightarrow> graph_op \<Rightarrow> journey_definition \<Rightarrow> bool" where
  "fresh_op nid (Insert us edgeId kind u ua ub) d \<longleftrightarrow> nid (newJourneyId ''node'' u) \<and> ua \<noteq> ub \<and> inj us \<and>
     range (\<lambda>k. newJourneyId ''edge'' (us k)) \<inter> e_id ` set (graph_edges d) = {}"
| "fresh_op nid (Connect u source port target) d \<longleftrightarrow> target \<noteq> Some []"
| "fresh_op nid (Renew i u) d \<longleftrightarrow> nid (newJourneyId ''node'' u)"
| "fresh_op nid _ d \<longleftrightarrow> True"

fun fresh_action :: "(string \<Rightarrow> bool) \<Rightarrow> editor_action \<Rightarrow> editor \<Rightarrow> bool" where
  "fresh_action nid (Edit e selection now) st \<longleftrightarrow> fresh_op nid e (ed_definition st)"
| "fresh_action nid _ st \<longleftrightarrow> True"

inductive editor_run :: "(string \<Rightarrow> bool) \<Rightarrow> editor \<Rightarrow> editor \<Rightarrow> bool" for nid st0 where
  open_editor: "editor_run nid st0 st0"
| act: "editor_run nid st0 st \<Longrightarrow> fresh_action nid a st \<Longrightarrow> editor_run nid st0 (editor_step a st)"

lemma createJourneyNode_ports:
  "n_id (createJourneyNode kind u ua ub) = Some (newJourneyId ''node'' u)"
  "ua \<noteq> ub \<Longrightarrow> distinct (port_ids (createJourneyNode kind u ua ub))" "port_ids (createJourneyNode kind u ua ub) \<noteq> []"
  by (cases kind; simp add: createJourneyNode_def)+

context id_policy
begin

lemma graph_result_topology:
  assumes "topology nid eid d" "graph_result e d = Inr d'" "fresh_op nid e d"
  shows "topology nid eid d'"
proof (cases e)
  case (Insert us edgeId kind u ua ub)
  then show ?thesis
    using insert_topology [OF assms(1) _ createJourneyNode_ports(1)] createJourneyNode_ports(2,3) assms(2,3) by auto
next
  case (Connect u source port target)
  then show ?thesis using connect_topology [OF assms(1)] assms(2,3) by auto
next
  case (Move i up)
  then show ?thesis using move_topology [OF assms(1)] assms(2) by auto
next
  case (Remove i keep)
  then show ?thesis using removal_topology [OF assms(1)] assms(2) by (auto split: sum.splits)
next
  case (Renew i u)
  then show ?thesis using renew_topology [OF assms(1)] assms(2,3) by auto
qed

end

text \<open>What every graph operation keeps holds of the draft and of every undo state; the history is bounded.\<close>

lemma editor_run_keeps:
  assumes "editor_run nid st0 st"
    and op: "\<And>d e d'. P d \<Longrightarrow> fresh_op nid e d \<Longrightarrow> graph_result e d = Inr d' \<Longrightarrow> P d'"
    and start: "P (ed_definition st0)" "ed_history st0 = []"
  shows "P (ed_definition st) \<and> (\<forall>h \<in> set (ed_history st). P (fst h)) \<and> length (ed_history st) \<le> 30"
  using assms(1)
proof (induction rule: editor_run.induct)
  case (act st a)
  note IH = act.IH
  show ?case
  proof (cases a)
    case (Edit e selection now)
    show ?thesis
    proof (cases "graph_result e (ed_definition st)")
      case (Inr d')
      then have "P d'" using op [of "ed_definition st" e d'] IH act.hyps(2) Edit by auto
      then show ?thesis using IH Edit Inr by (auto simp: applyOperation_def commitDefinition_def Let_def dest: in_set_dropD)
    qed (use IH Edit in \<open>simp add: applyOperation_def\<close>)
  next
    case Undo
    show ?thesis
    proof (cases "ed_locked st \<or> ed_dialog st \<or> ed_history st = []")
      case False
      then have "last (ed_history st) \<in> set (ed_history st)" by simp
      then show ?thesis using IH Undo False
        by (auto simp: undo_def Let_def split_beta dest: in_set_butlastD)
    qed (use IH Undo in \<open>simp add: undo_def\<close>)
  qed (use IH in simp)
qed (use start in simp)

section \<open>The reader of the console\<close>

text \<open>The editor and the validator count degrees differently, but both sort alike.\<close>

lemma relax_new_cong: "map_of ind = map_of ind' \<Longrightarrow> snd (relax ts ind) = snd (relax ts ind')"
proof (induction ts arbitrary: ind ind')
  case (Cons t ts)
  show ?case
  proof (cases "map_of ind t")
    case (Some x)
    have "map_of (AList.update t (x - 1) ind) = map_of (AList.update t (x - 1) ind')"
      using Cons.prems by (simp add: update_conv')
    then show ?thesis using Cons.IH [of "AList.update t (x - 1) ind" "AList.update t (x - 1) ind'"] Cons.prems Some
      by (simp add: relax_Cons del: relax.simps)
  next
    case None
    then show ?thesis using Cons.IH [OF Cons.prems] Cons.prems by (simp add: relax_Cons del: relax.simps)
  qed
qed simp

lemma kahn_cong: "map_of ind = map_of ind' \<Longrightarrow> kahn m ind pend vis = kahn m ind' pend vis"
proof (induction m ind pend vis arbitrary: ind' rule: kahn.induct)
  case (2 m ind x xs vis)
  have "map_of (fst (relax (succs m x) ind)) = map_of (fst (relax (succs m x) ind'))"
    using "2.prems" by (simp add: fun_eq_iff relax_degrees)
  then show ?case using "2.IH" relax_new_cong [OF "2.prems"] by simp
qed simp

lemma count_arcs:
  assumes "finite S"
  shows "(\<Sum>s \<in> S. count_list (map (\<lambda>e. the (snd e)) (filter (\<lambda>e. fst e = s \<and> snd e \<noteq> None) as)) t) =
    count_list (List.map_filter (\<lambda>a. if fst a \<in> S then snd a else None) as) t"
proof (induction as)
  case (Cons a as)
  let ?c = "\<lambda>as s. count_list (map (\<lambda>e. the (snd e)) (filter (\<lambda>e. fst e = s \<and> snd e \<noteq> None) as)) t"
  have "?c (a # as) s = ?c as s + (if s = fst a then of_bool (snd a = Some t) else 0)" for s by (auto split: option.split)
  then have "(\<Sum>s \<in> S. ?c (a # as) s) = (\<Sum>s \<in> S. ?c as s) + (if fst a \<in> S then of_bool (snd a = Some t) else 0)"
    by (simp only: sum.distrib sum.delta assms if_True)
  then show ?case unfolding Cons.IH by (auto simp: List.map_filter_simps split: option.split)
qed (simp add: List.map_filter_simps)

lemma map_filter_cong: "(\<And>x. x \<in> set xs \<Longrightarrow> f x = g x) \<Longrightarrow> List.map_filter f xs = List.map_filter g xs"
  by (induction xs) (auto simp: List.map_filter_simps split: option.split)

lemma map_filter_map: "List.map_filter f (map g xs) = List.map_filter (\<lambda>x. f (g x)) xs"
  by (induction xs) (auto simp: List.map_filter_simps split: option.split)

lemma edge_degrees_eq:
  assumes "distinct ids"
  shows "map_of (edge_degrees ids es) = map_of (indegrees ids (build_adjacency (map edge_arc es) []))"
proof
  fix t
  let ?m = "build_adjacency (map edge_arc es) []"
  have "int (count_list (List.map_filter (\<lambda>e. snd (edge_arc e)) es) t) = (\<Sum>s \<in> sources ?m. arrows ?m s t)"
  proof -
    have "(if fst a \<in> sources ?m then snd a else None) = snd a" if "a \<in> set (map edge_arc es)" for a
    proof (cases "snd a")
      case (Some u)
      then have "(fst a, Some u) \<in> set (map edge_arc es)" using that by (metis prod.collapse)
      then have "fst a \<in> sources ?m" unfolding sources_def keys_build by blast
      then show ?thesis by simp
    qed simp
    then have "List.map_filter (\<lambda>a. if fst a \<in> sources ?m then snd a else None) (map edge_arc es) =
        List.map_filter (\<lambda>e. snd (edge_arc e)) es"
      using map_filter_cong [of "map edge_arc es" "\<lambda>a. if fst a \<in> sources ?m then snd a else None" snd] by (simp add: map_filter_map)
    moreover have "succs ?m s = map (\<lambda>e. the (snd e)) (filter (\<lambda>e. fst e = s \<and> snd e \<noteq> None) (map edge_arc es))" for s
      unfolding succs_build by (simp add: map_get_or_def)
    ultimately show ?thesis using count_arcs [OF finite_sources, of "map edge_arc es" t ?m] by (simp only: of_nat_sum [symmetric])
  qed
  then show "map_of (edge_degrees ids es) t = map_of (indegrees ids ?m) t"
    using assms by (simp add: edge_degrees_def count_targets_degrees indegrees_eq distinct_build map_of_map_restrict restrict_map_def)
qed

lemma edge_order_topological:
  "distinct ids \<Longrightarrow> edge_order ids es = topological ids (build_adjacency (map edge_arc es) [])"
  using kahn_cong [OF edge_degrees_eq] edge_degrees_eq by (simp add: edge_order_def topological_def Let_def)

lemma edge_order_complete:
  assumes "distinct ids" "flow es \<subseteq> set ids \<times> set ids" "\<And>e. e \<in> set es \<Longrightarrow> e_target e \<noteq> Some []"
  shows "length (edge_order ids es) = length ids \<longleftrightarrow> acyclic (flow es)"
  using topological_complete_iff [OF assms(1), of "build_adjacency (map edge_arc es) []"] assms(2)
  by (auto simp: edge_order_topological [OF assms(1)] distinct_build arcs_edges [OF assms(3)])

lemma first_issue_None: "first_issue ns = None \<longleftrightarrow> (\<forall>n \<in> set ns. node_read_issue (n_body n) = None)"
  by (induction ns) (auto split: option.split)

lemma edges_readable_iff:
  "edges_readable m ids outs es \<longleftrightarrow>
     (\<forall>e \<in> set es. e_id e \<noteq> [] \<and> (\<exists>n. map_of m (e_source e) = Some n \<and> e_port e \<in> set (port_ids n)) \<and>
        (\<forall>t. e_target e = Some t \<longrightarrow> map_has m t)) \<and>
     distinct (map e_id es) \<and> e_id ` set es \<inter> set ids = {} \<and> distinct (map slot es) \<and> slot ` set es \<inter> set outs = {}"
proof (induction m ids outs es rule: edges_readable.induct)
  case (2 m ids outs e es)
  show ?case unfolding edges_readable.simps "2.IH" by (auto split: option.splits)
qed simp

lemma console_named:
  "named console_id ns \<longleftrightarrow> \<not> list_ex (\<lambda>i. i = None \<or> i = Some []) (map n_id ns) \<and> distinct (map n_id ns)"
  by (force simp: named_def console_id_def list_ex_iff)

lemma known_list: "named nid ns \<Longrightarrow> known ns = set (map the (map n_id ns))"
  by (force simp: named_def known_def)

lemma named_distinct: "named nid ns \<Longrightarrow> distinct (map the (map n_id ns))"
proof -
  assume n: "named nid ns"
  have "inj_on the (set (map n_id ns))"
  proof (rule inj_onI)
    fix a b assume "a \<in> set (map n_id ns)" "b \<in> set (map n_id ns)" "the a = the b"
    moreover from this have "a \<noteq> None" "b \<noteq> None" using n by (auto simp: named_def)
    ultimately show "a = b" by auto
  qed
  then show ?thesis using n unfolding distinct_map [of the] named_def by blast
qed

lemma named_node_map:
  assumes "named nid ns"
  shows "map_of (id_map ns) i = Some n \<longleftrightarrow> n \<in> set ns \<and> n_id n = Some i" "map_has (id_map ns) i \<longleftrightarrow> i \<in> known ns"
proof -
  have "distinct (map (\<lambda>n. the (n_id n)) ns)" using named_distinct [OF assms] by (simp add: comp_def)
  then have "map_of (id_map ns) i = Some n \<longleftrightarrow> (i, n) \<in> set (id_map ns)" by (intro map_of_eq_Some_iff) (simp add: comp_def)
  then show "map_of (id_map ns) i = Some n \<longleftrightarrow> n \<in> set ns \<and> n_id n = Some i" using assms by (force simp: named_def)
  show "map_has (id_map ns) i \<longleftrightarrow> i \<in> known ns" using assms by (force simp: map_has_iff named_def known_def)
qed

lemma console_wired:
  assumes n: "named console_id ns"
  shows "wired console_id ns es \<longleftrightarrow> edges_readable (id_map ns) [] [] es \<and>
    list_all (\<lambda>n. list_all (\<lambda>p. (the (n_id n), p) \<in> set (map slot es)) (port_ids n)) ns"
proof -
  have "(\<exists>n. map_of (id_map ns) (e_source e) = Some n \<and> e_port e \<in> set (port_ids n)) \<longleftrightarrow> slot e \<in> slots ns" for e
    unfolding named_node_map [OF n] by (auto simp: slots_def)
  moreover have "list_all (\<lambda>n. list_all (\<lambda>p. (the (n_id n), p) \<in> set (map slot es)) (port_ids n)) ns \<longleftrightarrow> slots ns \<subseteq> slot ` set es"
    using n by (force simp: list_all_iff slots_def named_def)
  moreover have "slot ` set es = slots ns \<longleftrightarrow> (\<forall>e \<in> set es. slot e \<in> slots ns) \<and> slots ns \<subseteq> slot ` set es" by blast
  ultimately show ?thesis
    unfolding wired_def edges_readable_iff named_node_map [OF n] console_id_def by auto
qed

lemma graphReadIssue_checks:
  assumes "edges d = Some es"
  shows "graphReadIssue d = None \<longleftrightarrow> nodes d \<noteq> [] \<and> named console_id (nodes d) \<and> truthy_id (start_node_id d) \<noteq> [] \<and>
    start_node_id d \<in> n_id ` set (nodes d) \<and> (\<forall>n \<in> set (nodes d). node_read_issue (n_body n) = None) \<and>
    wired console_id (nodes d) es \<and> length (edge_order (map the (map n_id (nodes d))) es) = length (nodes d) \<and>
    length (reachableNodes d (start_node_id d)) = length (nodes d)"
proof -
  have "graphReadIssue d = None \<longleftrightarrow> nodes d \<noteq> [] \<and> named console_id (nodes d) \<and> truthy_id (start_node_id d) \<noteq> [] \<and>
    start_node_id d \<in> n_id ` set (nodes d) \<and> first_issue (nodes d) = None \<and>
    (edges_readable (id_map (nodes d)) [] [] es \<and>
     list_all (\<lambda>n. list_all (\<lambda>p. (the (n_id n), p) \<in> set (map slot es)) (port_ids n)) (nodes d)) \<and>
    length (edge_order (map the (map n_id (nodes d))) es) = length (nodes d) \<and>
    length (reachableNodes d (start_node_id d)) = length (nodes d)"
    unfolding console_named length_js_uniq [symmetric]
    by (cases "first_issue (nodes d)") (auto simp: graphReadIssue_def assms Let_def)
  then show ?thesis unfolding first_issue_None using console_wired [of "nodes d" es] by blast
qed

lemma graphReadIssue_None:
  "graphReadIssue d = None \<longleftrightarrow> topology console_id console_id d \<and> (\<forall>n \<in> set (nodes d). node_read_issue (n_body n) = None)"
proof (cases "edges d")
  case None
  then show ?thesis by (simp add: graphReadIssue_def topology_def)
next
  case (Some es)
  have routed: "length (edge_order (map the (map n_id (nodes d))) es) = length (nodes d) \<and>
      length (reachableNodes d (start_node_id d)) = length (nodes d) \<longleftrightarrow> routed s (known (nodes d)) (flow es)"
    if n: "named console_id (nodes d)" and w: "wired console_id (nodes d) es" and s: "start_node_id d = Some s" "s \<in> known (nodes d)" for s
  proof -
    have V: "known (nodes d) = set (map the (map n_id (nodes d)))" using n by (rule known_list)
    have dist: "distinct (map the (map n_id (nodes d)))" using n by (rule named_distinct)
    have sub: "flow es \<subseteq> known (nodes d) \<times> known (nodes d)" using w by (rule wired_flow)
    have "length (edge_order (map the (map n_id (nodes d))) es) = length (nodes d) \<longleftrightarrow> acyclic (flow es)"
      using edge_order_complete [OF dist, of es] sub console.target_nonempty [OF n w] unfolding V by simp
    moreover have R: "set (reachableNodes d (start_node_id d)) = {y. (s, y) \<in> (flow es)\<^sup>*}"
      using console.reached [of d s] n w s Some by simp
    moreover have "length (reachableNodes d (start_node_id d)) = length (nodes d) \<longleftrightarrow> set (reachableNodes d (start_node_id d)) = known (nodes d)"
    proof -
      have "distinct (reachableNodes d (start_node_id d))" by (simp add: reachableNodes_def dfs_distinct del: dfs.simps)
      then have "length (reachableNodes d (start_node_id d)) = card (set (reachableNodes d (start_node_id d)))" by (simp add: distinct_card)
      moreover have "length (nodes d) = card (known (nodes d))" unfolding V using distinct_card [OF dist] by simp
      moreover have "set (reachableNodes d (start_node_id d)) \<subseteq> known (nodes d)" unfolding R using rtrancl_outside [OF _ sub] s(2) by blast
      moreover have "finite (known (nodes d))" unfolding V by (rule finite_set)
      ultimately show ?thesis using card_subset_eq by metis
    qed
    moreover have "y \<in> known (nodes d)" if "(s, y) \<in> (flow es)\<^sup>*" for y using rtrancl_outside [OF that sub] s(2) by blast
    ultimately show ?thesis using s(2) by (auto simp: routed_def)
  qed
  have start: "truthy_id (start_node_id d) \<noteq> [] \<and> start_node_id d \<in> n_id ` set (nodes d) \<longleftrightarrow>
      (\<exists>s. start_node_id d = Some s \<and> s \<in> known (nodes d))" if "named console_id (nodes d)"
    using console.known_nonempty [OF that] by (cases "start_node_id d") (auto simp: known_def truthy_id_def)
  have "known (nodes d) \<noteq> {} \<Longrightarrow> nodes d \<noteq> []" by auto
  then show ?thesis unfolding graphReadIssue_checks [OF Some] topology_def using routed start Some
    by (auto simp: routed_def)
qed

section \<open>Properties\<close>

lemma server_console: "topology server_id server_edge d \<Longrightarrow> topology console_id console_id d"
proof -
  have p: "server_id i \<Longrightarrow> console_id i" "server_edge i \<Longrightarrow> console_id i" for i
    by (auto simp: server_id_def server_edge_def console_id_def)
  then have "named server_id ns \<Longrightarrow> named console_id ns" "wired server_edge ns es \<Longrightarrow> wired console_id ns es" for ns es
    by (fastforce simp: named_def, auto simp: wired_def)
  then show "topology server_id server_edge d \<Longrightarrow> ?thesis" unfolding topology_def by blast
qed

lemma branch_accepted_readable: "validateBranchCondition c = [] \<Longrightarrow> branch_readable c"
proof -
  assume a: "validateBranchCondition c = []"
  then obtain gs where gs: "js_get c ''groups'' = Some (JArr gs)" "\<forall>g \<in> set gs. group_errors g = []"
    by (auto simp: validateBranchCondition_def split: option.splits jsval.splits if_splits)
  have "\<exists>cs. js_get g ''conditions'' = Some (JArr cs) \<and> list_all condition_readable cs" if "g \<in> set gs" for g
  proof -
    have "group_errors g = []" using gs(2) that by blast
    then obtain cs where cs: "js_get g ''conditions'' = Some (JArr cs)" "\<forall>x \<in> set cs. condition_errors x = []"
      by (auto simp: group_errors_def split: option.splits jsval.splits if_splits)
    have "condition_readable x" if "x \<in> set cs" for x
    proof -
      have x: "condition_errors x = []" using cs(2) that by blast
      then have "js_get x ''type'' \<noteq> None" by (auto simp: condition_errors_def split: if_splits)
      then have "truthy x" by (cases x) auto
      moreover have "js_get x ''type'' = Some (JStr ''event'') \<Longrightarrow> nonempty (js_get x ''event'')"
        using x by (simp add: condition_errors_def event_condition_errors_def)
      moreover have "js_get x ''type'' = Some (JStr ''attribute'') \<Longrightarrow> nonempty (js_get x ''key'')"
        using x by (simp add: condition_errors_def attribute_condition_errors_def Let_def)
      moreover have "nonempty v \<Longrightarrow> \<exists>s. v = Some (JStr s)" for v by (auto simp: nonempty_def split: option.splits jsval.splits)
      ultimately show ?thesis unfolding condition_readable_def by fastforce
    qed
    then show ?thesis using cs(1) by (auto simp: list_all_iff)
  qed
  then show ?thesis using gs(1) by (force simp: branch_readable_def list_all_iff)
qed

lemma accepted_readable: "node_ok b \<Longrightarrow> node_read_issue b = None"
  by (cases b) (auto simp: node_ok_def node_read_issue_def message_ok_def branch_accepted_readable)



text \<open>
  C8: in an editing session that starts from a draft whose graph the server validates, with fresh ids, the draft and every state
  that undo can restore pass the graph validation after any sequence of insertions, connections, moves, removals,
  experiment renewals and undos, whatever of them is refused; the history never holds more than 30 states.
\<close>

theorem editing_keeps_graph_valid:
  assumes "editor_run server_id st0 st" "validateGraph (ed_definition st0) = []" "ed_history st0 = []"
  shows "validateGraph (ed_definition st) = [] \<and> (\<forall>h \<in> set (ed_history st). validateGraph (fst h) = []) \<and>
    length (ed_history st) \<le> 30"
  using editor_run_keeps [OF assms(1), of "\<lambda>d. validateGraph d = []"] assms(2,3) server.graph_result_topology
  unfolding validateGraph_Nil graph_wf_topology by blast


text \<open>every graph definition that the server accepts opens in the editor.\<close>

theorem accepted_opens_in_editor:
  assumes "\<not> hasErrors (validateJourney d)" "schema_version d = Some (Num 2)"
  shows "graphReadIssue d = None"
proof -
  have ok: "journey_ok d" using assms(1) by (simp add: validateJourney_errors)
  then have "topology server_id server_edge d" using assms(2) by (simp add: journey_ok_def graph_wf_topology)
  moreover have "node_read_issue (n_body n) = None" if "n \<in> set (nodes d)" for n
    using ok that accepted_readable by (auto simp: journey_ok_def list_all_iff)
  ultimately show ?thesis by (simp add: graphReadIssue_None server_console)
qed

lemma undo_all:
  "\<not> ed_locked st \<Longrightarrow> \<not> ed_dialog st \<Longrightarrow>
   ed_definition ((undo ^^ length (ed_history st)) st) = fst (hd (ed_history st @ [(ed_definition st, [])]))"
proof (induction "length (ed_history st)" arbitrary: st)
  case (Suc n)
  then have ne: "ed_history st \<noteq> []" by auto
  have u: "ed_history (undo st) = butlast (ed_history st)" "ed_definition (undo st) = fst (last (ed_history st))"
    "\<not> ed_locked (undo st)" "\<not> ed_dialog (undo st)" using Suc.prems ne by (auto simp: undo_def Let_def split_beta)
  have n: "n = length (ed_history (undo st))" using u(1) Suc.hyps(2) by (simp flip: Suc.hyps(2))
  have "ed_definition ((undo ^^ n) (undo st)) = fst (hd (butlast (ed_history st) @ [(fst (last (ed_history st)), [])]))"
    using Suc.hyps(1) [OF n u(3,4), folded n] unfolding u(1,2) .
  also have "\<dots> = fst (hd (butlast (ed_history st) @ [last (ed_history st)]))" by (cases "butlast (ed_history st)") auto
  finally show ?case using ne Suc.hyps(2) by (simp add: funpow_swap1 flip: Suc.hyps(2))
qed simp

lemma edits_history:
  assumes "length acts + length (ed_history st) \<le> 30" "\<not> ed_locked st"
  defines "st' \<equiv> fold (\<lambda>(e, selection, now). editor_step (Edit e selection now)) acts st"
  shows "ed_locked st' = ed_locked st \<and> ed_dialog st' = ed_dialog st \<and>
    fst (hd (ed_history st' @ [(ed_definition st', [])])) = fst (hd (ed_history st @ [(ed_definition st, [])]))"
  using assms(1,2) unfolding st'_def
proof (induction acts arbitrary: st)
  case (Cons a acts)
  obtain e selection now where a: "a = (e, selection, now)" by (cases a)
  let ?s = "editor_step (Edit e selection now) st"
  have "length acts + length (ed_history ?s) \<le> 30 \<and> ed_locked ?s = ed_locked st \<and> ed_dialog ?s = ed_dialog st \<and>
      fst (hd (ed_history ?s @ [(ed_definition ?s, [])])) = fst (hd (ed_history st @ [(ed_definition st, [])]))"
    using Cons.prems by (auto simp: applyOperation_def commitDefinition_def Let_def hd_append split: sum.split)
  then show ?case using Cons.IH [of ?s] Cons.prems(2) a by simp
qed simp

text \<open>
  After up to 30 graph operations from a freshly opened draft, of which any may be refused, undoing until the history is empty
  brings the opened draft back.
\<close>

theorem undo_restores_draft:
  assumes "ed_history st = []" "\<not> ed_locked st" "\<not> ed_dialog st" "length acts \<le> 30"
    and "st' = fold (\<lambda>(e, selection, now). editor_step (Edit e selection now)) acts st"
  shows "ed_definition ((undo ^^ length (ed_history st')) st') = ed_definition st"
  using edits_history [of acts st] undo_all [of st'] assms by simp

section \<open>A session\<close>

text \<open>A draft from a template, a branch put before its message, and undo\<close>

definition sample_editor :: editor where
  "sample_editor = \<lparr>ed_definition = createJourneyTemplate Welcome \<lparr>push_title = ''Hi'', push_body = ''Welcome'', push_image_url = None, push_deep_link = None\<rparr>,
     ed_selected = ''entry'', ed_history = [], ed_last_selection = [], ed_last_time = 0, ed_locked = False, ed_dialog = False\<rparr>"

definition sample_insert :: graph_op where
  "sample_insert = Insert (\<lambda>k. replicate k CHR ''x'') ''wait-message'' KBranch ''1'' [] ''b''"

lemma sample_run: "editor_run nid sample_editor (editor_step (Edit sample_insert ''node:node-1'' 5) sample_editor)"
  if "nid ''node-1''"
proof (rule editor_run.act [OF editor_run.open_editor])
  have "inj (\<lambda>k. replicate k CHR ''x'')" by (rule injI) (metis length_replicate)
  then show "fresh_action nid (Edit sample_insert ''node:node-1'' 5) sample_editor"
    using that by (auto simp: sample_insert_def sample_editor_def createJourneyTemplate_def newJourneyId_def)
qed

lemma sample_inserted:
  "map n_id (nodes (ed_definition (editor_step (Edit sample_insert ''node:node-1'' 5) sample_editor))) = map Some [''wait'', ''message'', ''node-1'']"
  by (simp add: sample_insert_def sample_editor_def createJourneyTemplate_def newJourneyId_def applyOperation_def commitDefinition_def
      insertOnEdge_def createJourneyNode_def has_node_def Let_def truthy_id_def)

lemma editing_keeps_graph_valid_witness:
  "map n_id (nodes (ed_definition (editor_step (Edit sample_insert ''node:node-1'' 5) sample_editor))) = map Some [''wait'', ''message'', ''node-1''] \<and>
   validateGraph (ed_definition (editor_step (Edit sample_insert ''node:node-1'' 5) sample_editor)) = []"
proof -
  have "server_id ''node-1''" by code_simp
  moreover have "validateGraph (ed_definition sample_editor) = []" by code_simp
  moreover have "ed_history sample_editor = []" by (simp add: sample_editor_def)
  ultimately show ?thesis using editing_keeps_graph_valid [OF sample_run] sample_inserted by blast
qed


lemma accepted_opens_in_editor_witness: "graphReadIssue sample_journey = None"
  by (rule accepted_opens_in_editor [OF sample_accepted]) (simp add: sample_journey_def)

lemma undo_restores_draft_witness:
  "ed_definition (undo (editor_step (Edit sample_insert ''node:node-1'' 5) sample_editor)) = ed_definition sample_editor"
proof -
  let ?s = "editor_step (Edit sample_insert ''node:node-1'' 5) sample_editor"
  have "ed_history ?s = [(ed_definition sample_editor, ed_selected sample_editor)]"
    by (simp add: sample_insert_def sample_editor_def createJourneyTemplate_def newJourneyId_def applyOperation_def commitDefinition_def
      insertOnEdge_def createJourneyNode_def has_node_def Let_def truthy_id_def)
  moreover have "ed_definition ((undo ^^ length (ed_history ?s)) ?s) = ed_definition sample_editor"
    by (rule undo_restores_draft [where acts = "[(sample_insert, ''node:node-1'', 5)]"]) (simp_all add: sample_editor_def)
  ultimately show ?thesis by simp
qed

end
