(* ===== verification/Journey_Durations.thy ===== *)
theory Journey_Durations
  imports Journey_Drafts
begin

text \<open>
  The waiting time the editor shows: \<open>pathDurationRange\<close> against a reference definition of the time a route through the
  journey takes. The range is exact, and small enough that the additions of the code are exact on doubles.
\<close>

section \<open>The time of a route\<close>

text \<open>
  A delay takes its duration; the timeout of an event wait comes after exactly its limit, the event at any moment before.
\<close>

fun elapsed :: "node_body \<Rightarrow> string \<Rightarrow> rat \<Rightarrow> bool" where
  "elapsed (Delay d) p w \<longleftrightarrow> d = Num w"
| "elapsed (EventWait ev d) p w \<longleftrightarrow> (if p = ''timeout'' then d = Num w else 0 \<le> w \<and> (\<exists>r. d = Num r \<and> w \<le> r))"
| "elapsed _ p w \<longleftrightarrow> w = 0"

inductive route_time :: "journey_node list \<Rightarrow> journey_edge list \<Rightarrow> string option \<Rightarrow> rat \<Rightarrow> bool" for ns es where
  leave: "route_time ns es None 0"
| step: "n \<in> set ns \<Longrightarrow> n_id n = Some i \<Longrightarrow> e \<in> set es \<Longrightarrow> e_source e = i \<Longrightarrow> elapsed (n_body n) (e_port e) w \<Longrightarrow>
    route_time ns es (e_target e) t \<Longrightarrow> route_time ns es (Some i) (w + t)"

inductive_cases route_time_None: "route_time ns es None t"
inductive_cases route_time_Some: "route_time ns es (Some i) t"

section \<open>Sharp bounds\<close>

definition sharp :: "(rat \<Rightarrow> bool) \<Rightarrow> rat \<times> rat \<Rightarrow> bool" where
  "sharp P r \<longleftrightarrow> P (fst r) \<and> P (snd r) \<and> (\<forall>t. P t \<longrightarrow> fst r \<le> t \<and> t \<le> snd r)"

lemma sharp_add:
  "sharp P (a, b) \<Longrightarrow> sharp Q (c, d) \<Longrightarrow> sharp (\<lambda>t. \<exists>w u. t = w + u \<and> P w \<and> Q u) (a + c, b + d)"
  by (auto simp: sharp_def intro: add_mono)

lemma sharp_family:
  assumes "finite E" "E \<noteq> {}" "\<And>e. e \<in> E \<Longrightarrow> sharp (P e) (r e)"
  shows "sharp (\<lambda>t. \<exists>e \<in> E. P e t) (Min (fst ` r ` E), Max (snd ` r ` E))"
proof -
  have "Min (fst ` r ` E) \<in> fst ` r ` E" "Max (snd ` r ` E) \<in> snd ` r ` E" using assms(1,2) by (simp_all del: image_image)
  then obtain e f where e: "e \<in> E" "Min (fst ` r ` E) = fst (r e)" and f: "f \<in> E" "Max (snd ` r ` E) = snd (r f)" by blast
  have "Min (fst ` r ` E) \<le> t \<and> t \<le> Max (snd ` r ` E)" if g: "g \<in> E" "P g t" for g t
  proof -
    have "Min (fst ` r ` E) \<le> fst (r g)" "snd (r g) \<le> Max (snd ` r ` E)" using g(1) assms(1) by (auto intro: Min_le Max_ge)
    moreover have "fst (r g) \<le> t" "t \<le> snd (r g)" using assms(3) [OF g(1)] g(2) by (auto simp: sharp_def)
    ultimately show ?thesis by linarith
  qed
  moreover have "P e (fst (r e))" "P f (snd (r f))" using assms(3) e(1) f(1) by (auto simp: sharp_def)
  ultimately show ?thesis using e f by (auto simp: sharp_def)
qed

lemma elapsed_sharp:
  assumes "node_ok b" "node_wait b = Num cost"
  shows "sharp (elapsed b p) (if charged b p then cost else 0, cost)"
  using assms by (cases b) (auto simp: sharp_def charged_def node_ok_def duration_ok_def)

lemma wait_bounds:
  assumes "node_ok b"
  shows "\<exists>c :: int. node_wait b = Num (of_int c) \<and> 0 \<le> c \<and> c \<le> 9223372036 \<and> (waits b \<longrightarrow> 0 < c)"
  using assms by (cases b) (auto simp: node_ok_def duration_ok_def waits_def intro: exI [of _ 0])

section \<open>The range of one node\<close>

lemma route_None: "route_time ns es None t \<longleftrightarrow> t = 0"
  by (auto elim: route_time_None intro: leave)

lemma edge_range_sharp:
  assumes b: "node_ok b" "node_wait b = Num cost" "cost \<le> C"
    and t: "\<And>t. e_target e = Some t \<Longrightarrow> t \<noteq> [] \<and> (\<exists>r. map_of rs t = Some r \<and> sharp (route_time ns es (Some t)) r \<and> snd r \<le> B)"
    and B: "0 \<le> B"
  shows "\<exists>r. edge_range b cost rs e = Some r \<and> snd r \<le> B + C \<and>
    sharp (\<lambda>t. \<exists>w u. t = w + u \<and> elapsed b (e_port e) w \<and> route_time ns es (e_target e) u) r"
proof -
  obtain lo hi where r: "(case truthy_id (e_target e) of [] \<Rightarrow> Some (0, 0) | t # _ \<Rightarrow> map_of rs t) = Some (lo, hi)"
    "sharp (route_time ns es (e_target e)) (lo, hi)" "hi \<le> B"
  proof (cases "e_target e")
    case None
    then show ?thesis using that [of 0 0] B by (simp add: truthy_id_def sharp_def route_None)
  next
    case (Some x)
    then show ?thesis using that t [of x] by (auto simp: truthy_id_def)
  qed
  have "sharp (\<lambda>t. \<exists>w u. t = w + u \<and> elapsed b (e_port e) w \<and> route_time ns es (e_target e) u)
      ((if charged b (e_port e) then cost else 0) + lo, cost + hi)"
    using elapsed_sharp [OF b(1,2)] r(2) by (rule sharp_add)
  then show ?thesis using r(1,3) b(3) by (simp add: edge_range_def add.commute add_mono)
qed

lemma named_unique:
  assumes "named nid ns" "n \<in> set ns" "m \<in> set ns" "n_id n = n_id m"
  shows "n = m"
proof -
  have "inj_on n_id (set ns)" using assms(1) by (simp add: named_def distinct_map)
  then show ?thesis using assms(4,2,3) by (rule inj_onD)
qed

lemma route_step:
  assumes "named nid ns" "n \<in> set ns" "n_id n = Some i"
  shows "route_time ns es (Some i) t \<longleftrightarrow>
    (\<exists>e \<in> set (filter (\<lambda>e. e_source e = i) es). \<exists>w u. t = w + u \<and> elapsed (n_body n) (e_port e) w \<and> route_time ns es (e_target e) u)"
    (is "_ \<longleftrightarrow> ?r")
proof
  assume "route_time ns es (Some i) t"
  then show ?r
  proof (rule route_time_Some)
    fix m e w u
    assume a: "t = w + u" "m \<in> set ns" "n_id m = Some i" "e \<in> set es" "e_source e = i" "elapsed (n_body m) (e_port e) w"
      "route_time ns es (e_target e) u"
    then have "m = n" using named_unique [OF assms(1) a(2) assms(2)] assms(3) by simp
    then show ?r using a by auto
  qed
qed (use assms(2,3) in \<open>auto intro: step\<close>)

lemma one_with_key: "distinct (map f xs) \<Longrightarrow> c \<in> f ` set xs \<Longrightarrow> length (filter (\<lambda>x. f x = c) xs) = 1"
proof (induction xs)
  case (Cons x xs)
  then show ?case by (cases "f x = c") (auto simp: filter_empty_conv, metis imageI)
qed simp

lemma outgoing_ports:
  assumes "named nid ns" "wired eid ns es" "n \<in> set ns" "n_id n = Some i" "distinct (port_ids n)"
  defines "out \<equiv> filter (\<lambda>e. e_source e = i) es"
  shows "length out = length (port_ids n)" "p \<in> set (port_ids n) \<Longrightarrow> length (filter (\<lambda>e. e_port e = p) out) = 1"
proof -
  have "m = n" if "m \<in> set ns" "n_id m = Some i" for m
    using named_unique [OF assms(1) that(1) assms(3)] that(2) assms(4) by simp
  then have "(i, p) \<in> slots ns \<longleftrightarrow> p \<in> set (port_ids n)" for p using assms(3,4) unfolding slots_def by blast
  moreover have "p \<in> e_port ` set out \<longleftrightarrow> (i, p) \<in> slot ` set es" for p unfolding out_def by auto
  moreover have "slot ` set es = slots ns" using assms(2) by (simp add: wired_def)
  ultimately have ports: "e_port ` set out = set (port_ids n)" by blast
  have "distinct (map slot out)" using assms(2) unfolding wired_def out_def by (simp add: distinct_map_filter)
  moreover have "map slot out = map (Pair i) (map e_port out)" unfolding out_def by (induction es) auto
  ultimately have dist: "distinct (map e_port out)" by (simp only: distinct_map)
  show "length out = length (port_ids n)"
    using distinct_card [OF dist] distinct_card [OF assms(5)] ports by simp
  show "length (filter (\<lambda>e. e_port e = p) out) = 1" if "p \<in> set (port_ids n)"
    using one_with_key [OF dist, of p] that ports by simp
qed

lemma node_range_sharp:
  assumes ns: "named nid ns" "wired eid ns es" "n \<in> set ns" "n_id n = Some i"
    and ok: "node_ok (n_body n)"
    and t: "\<And>e t. e \<in> set es \<Longrightarrow> e_source e = i \<Longrightarrow> e_target e = Some t \<Longrightarrow>
      t \<noteq> [] \<and> (\<exists>r. map_of rs t = Some r \<and> sharp (route_time ns es (Some t)) r \<and> snd r \<le> B)"
    and B: "0 \<le> B"
  shows "\<exists>r. node_range n (filter (\<lambda>e. e_source e = i) es) rs = Some r \<and> sharp (route_time ns es (Some i)) r \<and> snd r \<le> B + 9223372036"
proof -
  define out where "out = filter (\<lambda>e. e_source e = i) es"
  obtain c :: int where c: "node_wait (n_body n) = Num (of_int c)" "0 \<le> c" "c \<le> 9223372036" "waits (n_body n) \<longrightarrow> 0 < c"
    using wait_bounds [OF ok] by blast
  have le: "(of_int c :: rat) \<le> of_int 9223372036" using c(3) by (simp only: of_int_le_iff)
  then have safe: "num_is_safe_integer (Num (of_int c))" using c(2) by (simp add: num_is_safe_integer_def abs_of_nonneg)
  have dp: "distinct (port_ids n)" and np: "port_ids n \<noteq> []" using ok by (cases "n_body n"; auto simp: node_ok_def comp_def)+
  note ports = outgoing_ports [OF ns dp, folded out_def]
  define R where "R e = the (edge_range (n_body n) (of_int c) rs e)" for e
  have R: "edge_range (n_body n) (of_int c) rs e = Some (R e) \<and> snd (R e) \<le> B + 9223372036 \<and>
      sharp (\<lambda>t. \<exists>w u. t = w + u \<and> elapsed (n_body n) (e_port e) w \<and> route_time ns es (e_target e) u) (R e)" if "e \<in> set out" for e
    using edge_range_sharp [OF ok c(1), of 9223372036 e rs ns es B] le t [of e] B that unfolding R_def out_def by auto
  have paths: "map (edge_range (n_body n) (of_int c) rs) out = map (\<lambda>e. Some (R e)) out" using R by (intro map_cong [OF refl]) blast
  have ne: "set out \<noteq> {}" using ports(1) np by (metis length_0_conv set_empty)
  have img: "the ` set (map (\<lambda>e. Some (R e)) out) = R ` set out" by (simp add: image_image)
  have "node_range n out rs = Some (Min (fst ` R ` set out), Max (snd ` R ` set out))"
    using ports safe c(2,4) ne img by (auto simp: node_range_def c(1) Let_def paths list_ex_iff)
  moreover have "sharp (route_time ns es (Some i)) (Min (fst ` R ` set out), Max (snd ` R ` set out))"
    unfolding route_step [OF ns(1,3,4), abs_def] out_def [symmetric] using R ne by (intro sharp_family) auto
  moreover have "Max (snd ` R ` set out) \<le> B + 9223372036" using R ne by (subst Max_le_iff) auto
  ultimately show ?thesis unfolding out_def by auto
qed

section \<open>The loop over the sorted nodes\<close>

abbreviation MAX_WAIT :: rat where
  "MAX_WAIT \<equiv> 9223372036"

definition settled :: "journey_node list \<Rightarrow> journey_edge list \<Rightarrow> ranges \<Rightarrow> nat \<Rightarrow> string \<Rightarrow> bool" where
  "settled ns es rs k t \<longleftrightarrow> (\<exists>r. map_of rs t = Some r \<and> sharp (route_time ns es (Some t)) r \<and> snd r \<le> MAX_WAIT * of_nat k)"

lemma settled_mono: "settled ns es rs k t \<Longrightarrow> k \<le> l \<Longrightarrow> settled ns es rs l t"
proof -
  assume s: "settled ns es rs k t" and "k \<le> l"
  then have "MAX_WAIT * of_nat k \<le> MAX_WAIT * of_nat l" by simp
  then show ?thesis using s unfolding settled_def by (blast intro: order_trans)
qed

lemma collect_ranges_settled:
  assumes ns: "named nid ns" "wired eid ns es" "\<And>i. nid i \<Longrightarrow> i \<noteq> []" "\<And>n. n \<in> set ns \<Longrightarrow> node_ok (n_body n)"
  shows "set xs \<subseteq> known ns \<Longrightarrow> (\<And>ys x zs t. xs = ys @ x # zs \<Longrightarrow> (x, t) \<in> flow es \<Longrightarrow> t \<in> D \<union> set ys) \<Longrightarrow>
    (\<And>t. t \<in> D \<Longrightarrow> settled ns es rs k t) \<Longrightarrow>
    \<exists>rs'. collect_ranges (id_map ns) es xs rs = Some rs' \<and> (\<forall>t \<in> D \<union> set xs. settled ns es rs' (k + length xs) t)"
proof (induction xs arbitrary: rs D k)
  case (Cons i xs)
  obtain n where n: "n \<in> set ns" "n_id n = Some i" using Cons.prems(1) by (auto simp: known_def)
  have targets: "t \<noteq> [] \<and> (\<exists>r. map_of rs t = Some r \<and> sharp (route_time ns es (Some t)) r \<and> snd r \<le> MAX_WAIT * of_nat k)"
    if "e \<in> set es" "e_source e = i" "e_target e = Some t" for e t
  proof -
    have "(i, t) \<in> flow es" using flowI [OF that(1,3)] that(2) by simp
    then have "settled ns es rs k t" using Cons.prems(2) [of "[]" i xs t] Cons.prems(3) by simp
    moreover have "t \<in> known ns" using ns(2) that by (auto simp: wired_def)
    then have "t \<noteq> []" using ns(1,3) by (force simp: named_def known_def)
    ultimately show ?thesis by (simp add: settled_def)
  qed
  have "\<exists>r. node_range n (filter (\<lambda>e. e_source e = i) es) rs = Some r \<and> sharp (route_time ns es (Some i)) r \<and>
      snd r \<le> MAX_WAIT * of_nat k + MAX_WAIT"
    using targets by (intro node_range_sharp [OF ns(1,2) n ns(4) [OF n(1)]]) auto
  then obtain r where r: "node_range n (filter (\<lambda>e. e_source e = i) es) rs = Some r" "sharp (route_time ns es (Some i)) r"
    "snd r \<le> MAX_WAIT * of_nat k + MAX_WAIT" by blast
  let ?rs = "AList.update i r rs"
  have "settled ns es ?rs (Suc k) t" if "t \<in> insert i D" for t
  proof (cases "t = i")
    case True
    then show ?thesis using r(2,3) by (simp add: settled_def update_conv algebra_simps)
  next
    case False
    then have "settled ns es rs k t" using that Cons.prems(3) by simp
    then have "settled ns es rs (Suc k) t" by (rule settled_mono) simp
    then show ?thesis using False by (simp add: settled_def update_conv)
  qed
  moreover have "t \<in> insert i D \<union> set ys" if "xs = ys @ x # zs" "(x, t) \<in> flow es" for ys x zs t
    using Cons.prems(2) [of "i # ys" x zs t] that by auto
  ultimately obtain rs' where "collect_ranges (id_map ns) es xs ?rs = Some rs'"
    "\<forall>t \<in> insert i D \<union> set xs. settled ns es rs' (Suc k + length xs) t"
    using Cons.IH [of "insert i D" ?rs "Suc k"] Cons.prems(1) by auto
  moreover have "map_of (id_map ns) i = Some n" using named_node_map(1) [OF ns(1)] n by blast
  ultimately show ?case using r(1) by auto
qed auto

section \<open>The range of a journey\<close>

lemma update_new: "k \<notin> fst ` set m \<Longrightarrow> AList.update k v m = m @ [(k, v)]"
  by (induction m) auto

lemma fold_update_map:
  "distinct (map f xs) \<Longrightarrow> f ` set xs \<inter> fst ` set m = {} \<Longrightarrow> fold (\<lambda>x. AList.update (f x) x) xs m = m @ map (\<lambda>x. (f x, x)) xs"
proof (induction xs arbitrary: m)
  case (Cons x xs)
  then have "AList.update (f x) x m = m @ [(f x, x)]" by (intro update_new) auto
  then show ?case using Cons.IH [of "m @ [(f x, x)]"] Cons.prems by auto
qed simp

text \<open>In the reversed order every node comes after its targets.\<close>

lemma targets_first:
  assumes "ordered m xs" "distinct xs" "(x, t) \<in> arcs m" "t \<in> set xs" "acyclic (arcs m)" "rev xs = ys @ x # zs"
  shows "t \<in> set ys"
proof -
  have xs: "xs = rev zs @ x # rev ys" using assms(6) by (metis rev_append rev_rev_ident rev.simps(2) append.assoc append_Cons append_Nil)
  obtain us vs where split: "xs = us @ t # vs" using assms(4) by (meson split_list)
  then have "x \<in> set us" using assms(1,3) unfolding ordered_def by blast
  moreover have "t \<noteq> x" using assms(3,5) by (auto simp: acyclic_def)
  ultimately show ?thesis using xs split assms(2)
    by (auto simp: append_eq_append_conv2 append_eq_Cons_conv Cons_eq_append_conv)
       (metis Un_iff list.set_intros(1) set_append set_rev)
qed

lemma duration_range_sharp:
  assumes d: "named nid (nodes d)" "wired eid (nodes d) es" "routed s (known (nodes d)) (flow es)" "start_node_id d = Some s" "edges d = Some es"
    and nid: "\<And>i. nid i \<Longrightarrow> i \<noteq> []" and ok: "\<And>n. n \<in> set (nodes d) \<Longrightarrow> node_ok (n_body n)"
  shows "\<exists>r. pathDurationRange d = Some r \<and> sharp (route_time (nodes d) es (Some s)) r \<and> snd r \<le> MAX_WAIT * of_nat (length (nodes d))"
proof -
  let ?ids = "map (\<lambda>n. the (n_id n)) (nodes d)" and ?m = "build_adjacency (map edge_arc es) []"
  have dist: "distinct ?ids" using named_distinct [OF d(1)] by (simp add: comp_def)
  have V: "known (nodes d) = set ?ids" using known_list [OF d(1)] by (simp add: comp_def)
  have nz: "i \<noteq> []" if "i \<in> known (nodes d)" for i using that d(1) nid by (force simp: named_def known_def)
  have tz: "e_target e \<noteq> Some []" if "e \<in> set es" for e using that nz d(2) by (fastforce simp: wired_def)
  have sub: "flow es \<subseteq> set ?ids \<times> set ?ids" using wired_flow [OF d(2)] V by simp
  have ac: "acyclic (flow es)" and s: "s \<in> known (nodes d)" using d(3) by (auto simp: routed_def)
  have arcs: "arcs ?m = flow es" using tz by (rule arcs_edges)
  have map: "fold (\<lambda>n. AList.update (the (n_id n)) n) (nodes d) [] = id_map (nodes d)" using fold_update_map [of "\<lambda>n. the (n_id n)" "nodes d" "[]"] dist by simp
  let ?order = "edge_order ?ids es"
  have o: "ordered ?m ?order" "distinct ?order" "set ?order \<subseteq> set ?ids"
    using topological_ordered [OF dist distinct_build] by (simp_all add: edge_order_topological [OF dist])
  have len: "length ?order = length ?ids" using edge_order_complete [OF dist sub tz] ac by simp
  then have "card (set ?order) = card (set ?ids)" unfolding distinct_card [OF o(2)] distinct_card [OF dist] .
  then have set: "set ?order = set ?ids" using o(3) by (intro card_subset_eq) simp_all
  have before: "t \<in> {} \<union> set ys" if "rev ?order = ys @ x # zs" "(x, t) \<in> flow es" for ys x zs t
    using targets_first [OF o(1,2) _ _ _ that(1)] that(2) sub ac unfolding arcs set by blast
  obtain rs where rs: "collect_ranges (id_map (nodes d)) es (rev ?order) [] = Some rs"
    "\<forall>t \<in> set ?ids. settled (nodes d) es rs (length ?ids) t"
    using collect_ranges_settled [OF d(1,2) nid ok, of "rev ?order" "{}" "[]" 0] before len set V by auto
  have "map_has (id_map (nodes d)) (e_source e) \<and> (\<forall>t. e_target e = Some t \<longrightarrow> map_has (id_map (nodes d)) t)" if "e \<in> set es" for e
    using that d(2) slots_known [of "e_source e" "e_port e" "nodes d"] unfolding named_node_map(2) [OF d(1)] wired_def by blast
  then have "\<not> list_ex (\<lambda>e. \<not> map_has (id_map (nodes d)) (e_source e) \<or>
      (case truthy_id (e_target e) of [] \<Rightarrow> False | t # _ \<Rightarrow> \<not> map_has (id_map (nodes d)) t)) es"
    by (auto simp: list_ex_iff truthy_id_def split: option.splits)
  then have "pathDurationRange d = map_of rs s"
    using rs(1) len nz [OF s] by (simp add: pathDurationRange_def map d(4,5) Let_def truthy_id_def comp_def)
  then show ?thesis using rs(2) s V by (auto simp: settled_def)
qed

text \<open>
  C10: for an accepted graph the editor shows a waiting time: the range of \<open>pathDurationRange\<close> is exactly the range of the time that
  a route from the start to an exit can take, its ends are the times of some routes, and they are safe integers of JavaScript.
\<close>

theorem duration_range_exact:
  assumes "\<not> hasErrors (validateJourney d)" "schema_version d = Some (Num 2)"
  shows "\<exists>lo hi. pathDurationRange d = Some (lo, hi) \<and>
    route_time (nodes d) (graph_edges d) (start_node_id d) lo \<and> route_time (nodes d) (graph_edges d) (start_node_id d) hi \<and>
    (\<forall>t. route_time (nodes d) (graph_edges d) (start_node_id d) t \<longrightarrow> lo \<le> t \<and> t \<le> hi) \<and> hi \<le> 9007199254740991"
proof -
  have ok: "journey_ok d" using assms(1) by (simp add: validateJourney_errors)
  then have "topology server_id server_edge d" using assms(2) by (simp add: journey_ok_def graph_wf_topology)
  then obtain s es where d: "start_node_id d = Some s" "edges d = Some es" "graph_edges d = es" "named server_id (nodes d)"
    "wired server_edge (nodes d) es" "routed s (known (nodes d)) (flow es)" by (rule topologyE)
  have "node_ok (n_body n)" if "n \<in> set (nodes d)" for n using ok that by (auto simp: journey_ok_def list_all_iff)
  then obtain r where r: "pathDurationRange d = Some r" "sharp (route_time (nodes d) es (Some s)) r"
    "snd r \<le> MAX_WAIT * of_nat (length (nodes d))"
    using duration_range_sharp [OF d(4-6,1,2) server.nid_nonempty] by blast
  have "length (nodes d) \<le> 65535" using ok by (simp add: journey_ok_def)
  then have "MAX_WAIT * of_nat (length (nodes d)) \<le> MAX_WAIT * of_nat 65535" by (intro mult_left_mono) auto
  then have "snd r \<le> 9007199254740991" using r(3) by simp
  then show ?thesis using r(1,2) unfolding d(1,3) by (cases r) (auto simp: sharp_def)
qed

text \<open>A wait for an event of at most an hour, then a delay of a minute on the way to the message\<close>

definition sample_waiting :: journey_definition where
  "sample_waiting = sample_journey\<lparr>
     nodes := [\<lparr>n_id = Some ''w'', n_body = EventWait ''login'' (Num 3600)\<rparr>, \<lparr>n_id = Some ''d'', n_body = Delay (Num 60)\<rparr>,
               \<lparr>n_id = Some ''m'', n_body = sample_push\<rparr>],
     start_node_id := Some ''w'',
     edges := Some [\<lparr>e_id = ''e1'', e_source = ''w'', e_port = ''matched'', e_target = Some ''m''\<rparr>,
                    \<lparr>e_id = ''e2'', e_source = ''w'', e_port = ''timeout'', e_target = Some ''d''\<rparr>,
                    \<lparr>e_id = ''e3'', e_source = ''d'', e_port = ''next'', e_target = Some ''m''\<rparr>,
                    \<lparr>e_id = ''e4'', e_source = ''m'', e_port = ''next'', e_target = None\<rparr>]\<rparr>"

lemma sample_waiting_accepted: "\<not> hasErrors (validateJourney sample_waiting)"
proof -
  have "graph_wf sample_waiting" unfolding validateGraph_Nil [symmetric] by code_simp
  moreover have "list_all (\<lambda>n. node_ok (n_body n)) (nodes sample_waiting)" unfolding body_errors_Nil [symmetric] by code_simp
  moreover have "entry sample_waiting = entry sample_journey" by (simp add: sample_waiting_def)
  ultimately show ?thesis
    using sample_accepted
    by (simp add: validateJourney_errors journey_ok_def reentry_ok_def)
       (simp add: sample_waiting_def sample_journey_def is_message_def sample_push_def)
qed

lemma sample_waiting_range: "pathDurationRange sample_waiting = Some (0, 3660)"
  by code_simp

lemma duration_range_exact_witness:
  "pathDurationRange sample_waiting = Some (0, 3660) \<and>
   route_time (nodes sample_waiting) (graph_edges sample_waiting) (start_node_id sample_waiting) 3660"
  using duration_range_exact [OF sample_waiting_accepted] sample_waiting_range
  by (auto simp: sample_waiting_def sample_journey_def)

end
