(* ===== verification/Journey_Contract.thy ===== *)
theory Journey_Contract
  imports Journey_Properties "HOL-Library.Multiset"
begin

text \<open>
  The request contract of the journey API (\<open>journeys/journey-contract.ts\<close>): the zod schemas of definitions, drafts and activations,
  the canonical form of a JSON value and the revision of a draft. A schema maps a JSON value to its parsed output or rejects it. The UUID check
  of zod, ECMAScript's \<open>Number::toString\<close>, the order of \<open>localeCompare\<close> and SHA-256 are parameters.
\<close>

section \<open>Schemas\<close>

type_synonym schema = "jsval \<Rightarrow> jsval option"

datatype zfield = Required schema | Optional schema | Default jsval schema

fun field_schema :: "zfield \<Rightarrow> schema" where
  "field_schema (Required p) = p"
| "field_schema (Optional p) = p"
| "field_schema (Default d p) = p"

fun z_fields :: "(string \<times> zfield) list \<Rightarrow> jsval \<Rightarrow> jsobj option" where
  "z_fields [] v = Some []"
| "z_fields ((k, f) # fs) v =
     (case z_fields fs v of
        None \<Rightarrow> None
      | Some rest \<Rightarrow>
          (case js_get v k of
             Some w \<Rightarrow> map_option (\<lambda>x. (k, x) # rest) (field_schema f w)
           | None \<Rightarrow> (case f of Required p \<Rightarrow> None | Optional p \<Rightarrow> Some rest | Default d p \<Rightarrow> Some ((k, d) # rest))))"

text \<open>\<open>z.object(...)\<close> drops unknown keys, \<open>.strict()\<close> rejects them\<close>

definition z_object :: "bool \<Rightarrow> (string \<times> zfield) list \<Rightarrow> schema" where
  "z_object exact spec v =
     (if is_object v \<and> \<not> (exact \<and> extra_keys v (map fst spec)) then map_option JObj (z_fields spec v) else None)"

definition z_list :: "nat \<Rightarrow> schema \<Rightarrow> schema" where
  "z_list hi p v =
     (case v of
        JArr vs \<Rightarrow> (let ps = map p vs in if length vs \<le> hi \<and> None \<notin> set ps then Some (JArr (map the ps)) else None)
      | _ \<Rightarrow> None)"

definition z_text :: "nat \<Rightarrow> nat \<Rightarrow> schema" where
  "z_text lo hi v = map_option JStr (z_string lo hi (Some v))"

definition z_any_text :: schema where
  "z_any_text v = (case v of JStr s \<Rightarrow> Some v | _ \<Rightarrow> None)"

definition z_enum :: "string list \<Rightarrow> schema" where
  "z_enum xs v = (case v of JStr s \<Rightarrow> if s \<in> set xs then Some v else None | _ \<Rightarrow> None)"

definition z_uuid :: "(string \<Rightarrow> bool) \<Rightarrow> schema" where
  "z_uuid is_uuid v = (case v of JStr s \<Rightarrow> if is_uuid s then Some v else None | _ \<Rightarrow> None)"

definition z_integer :: schema where
  "z_integer v = (case v of JNum n \<Rightarrow> if num_is_integer n then Some v else None | _ \<Rightarrow> None)"

definition z_nullable :: "schema \<Rightarrow> schema" where
  "z_nullable p v = (if v = JNull then Some JNull else p v)"

definition identifierSchema :: schema where
  "identifierSchema v = (case v of JStr s \<Rightarrow> if length s \<le> 128 then z_text 1 128 v else None | _ \<Rightarrow> None)"

definition text_record :: schema where
  "text_record v =
     (case v of JObj fs \<Rightarrow> if list_all (\<lambda>(k, w). z_text 0 4000 w \<noteq> None) fs then Some v else None | _ \<Rightarrow> None)"

definition messageSchema :: "(string \<Rightarrow> bool) \<Rightarrow> schema" where
  "messageSchema is_uuid = z_object True
     [(''id'', Optional identifierSchema), (''type'', Required (z_enum [''message''])),
      (''push'', Optional (z_object False
         [(''title'', Required (z_text 0 256)), (''body'', Required (z_text 0 2048)),
          (''image_url'', Optional z_any_text), (''deep_link'', Optional z_any_text)])),
      (''email'', Optional (z_object False
         [(''subject'', Required (z_text 1 998)), (''html'', Required (z_text 1 1000000)), (''provider'', Optional (z_enum EMAIL_PROVIDERS))])),
      (''alimtalk'', Optional (z_object True
         [(''sender_id'', Required (z_uuid is_uuid)), (''template_code'', Required (z_text 1 20)), (''variables'', Optional text_record),
          (''fallback'', Optional (z_object True
             [(''type'', Required (z_enum [''SMS'', ''LMS''])), (''title'', Optional (z_text 0 64)), (''text'', Required (z_text 1 2000))]))]))]"

definition variantSchema :: schema where
  "variantSchema = z_object True [(''id'', Required identifierSchema), (''label'', Required (z_text 0 100)), (''weight'', Required z_integer)]"

definition nodeSchema :: "(string \<Rightarrow> bool) \<Rightarrow> schema" where
  "nodeSchema is_uuid v =
     (let plain = (\<lambda>t more. z_object True ([(''id'', Optional identifierSchema), (''type'', Required (z_enum [t]))] @ more) v)
      in case js_get v ''type'' of
           Some (JStr t) \<Rightarrow>
             if t = ''message'' then messageSchema is_uuid v
             else if t = ''delay'' then plain t [(''duration_seconds'', Required z_integer)]
             else if t = ''branch'' then plain t [(''condition'', Required (\<lambda>c. if is_object c then Some c else None))]
             else if t = ''event_wait'' then plain t [(''event_name'', Required (z_text 0 200)), (''timeout_seconds'', Required z_integer)]
             else if t = ''ab_split'' then plain t [(''variants'', Required (z_list 4 variantSchema))]
             else None
         | _ \<Rightarrow> None)"

definition edgeSchema :: schema where
  "edgeSchema = z_object True
     [(''id'', Required identifierSchema), (''source'', Required identifierSchema), (''source_port'', Required identifierSchema),
      (''target'', Required (z_nullable identifierSchema))]"

definition reentrySchema :: schema where
  "reentrySchema v =
     (case z_enum [''never'', ''always''] v of
        Some x \<Rightarrow> Some x
      | None \<Rightarrow> z_object False [(''after_days'', Required (\<lambda>n. case z_integer n of
          Some (JNum d) \<Rightarrow> if num_less (Num 0) d then Some n else None | _ \<Rightarrow> None))] v)"

definition versionSchema :: schema where
  "versionSchema v = (if v = JNum (Num 1) \<or> v = JNum (Num 2) then Some v else None)"

text \<open>The checks of \<open>superRefine\<close> on the parsed definition\<close>

definition node_type :: "jsval \<Rightarrow> string" where
  "node_type n = str_of (js_get n ''type'')"

definition channel_count :: "jsval \<Rightarrow> nat" where
  "channel_count n = length (filter (\<lambda>k. opt_truthy (js_get n k)) [''push'', ''email'', ''alimtalk''])"

definition definition_refined :: "jsval \<Rightarrow> bool" where
  "definition_refined d \<longleftrightarrow>
     (let ns = arr_of (js_get d ''nodes'')
      in (if js_get d ''schema_version'' = Some (JNum (Num 2))
          then js_get d ''start_node_id'' \<noteq> None \<and> js_get d ''edges'' \<noteq> None \<and> list_all (\<lambda>n. opt_truthy (js_get n ''id'')) ns
          else js_get d ''edges'' = None \<and> js_get d ''start_node_id'' = None \<and> list_all (\<lambda>n. node_type n \<in> {''message'', ''delay''}) ns) \<and>
         list_all (\<lambda>n. node_type n = ''message'' \<longrightarrow> channel_count n = 1) ns)"

definition definitionSchema :: "(string \<Rightarrow> bool) \<Rightarrow> schema" where
  "definitionSchema is_uuid v =
     (case z_object True
         [(''schema_version'', Optional versionSchema),
          (''entry'', Required (z_object False
             [(''type'', Required (z_enum [''blast'', ''trigger''])), (''segment_id'', Optional (z_uuid is_uuid)),
              (''trigger_event'', Optional (z_text 0 200))])),
          (''nodes'', Required (z_list 65535 (nodeSchema is_uuid))),
          (''start_node_id'', Optional (z_nullable identifierSchema)),
          (''edges'', Optional (z_list 262140 edgeSchema)),
          (''exit'', Default (JObj []) (z_object False [(''conversion_event'', Optional (z_text 0 200))])),
          (''settings'', Required (z_object False
             [(''category'', Required (z_enum [''marketing'', ''transactional''])), (''reentry'', Default (JStr ''never'') reentrySchema)]))] v of
        None \<Rightarrow> None
      | Some d \<Rightarrow> if definition_refined d then Some d else None)"

definition journey_upsert :: "(string \<Rightarrow> bool) \<Rightarrow> jsval \<Rightarrow> (string \<times> jsval) option" where
  "journey_upsert is_uuid body =
     (if \<not> is_object body then None
      else case (js_get body ''name'', js_get body ''definition'') of
             (Some (JStr s), Some d) \<Rightarrow>
               (if 1 \<le> utf16_length (trim s) \<and> utf16_length (trim s) \<le> 200
                then map_option (\<lambda>x. (trim s, x)) (definitionSchema is_uuid d) else None)
           | _ \<Rightarrow> None)"

definition lower_hex :: "char \<Rightarrow> bool" where
  "lower_hex c \<longleftrightarrow> c \<in> set ''0123456789abcdef''"

definition activationSchema :: "jsval \<Rightarrow> string option option" where
  "activationSchema body =
     (case (if body = JNull then JObj [] else body) of
        JObj fs \<Rightarrow> (case map_of fs ''revision'' of
                     None \<Rightarrow> Some None
                   | Some (JStr r) \<Rightarrow> if length r = 64 \<and> list_all lower_hex r then Some (Some r) else None
                   | _ \<Rightarrow> None)
      | _ \<Rightarrow> None)"

section \<open>Canonical form and revision\<close>

text \<open>\<open>sort\<close> is stable; \<open>le a b\<close> is \<open>a.localeCompare(b) <= 0\<close>.\<close>

fun insert_by :: "('a \<Rightarrow> 'a \<Rightarrow> bool) \<Rightarrow> 'a \<Rightarrow> 'a list \<Rightarrow> 'a list" where
  "insert_by le x [] = [x]"
| "insert_by le x (y # ys) = (if le x y then x # y # ys else y # insert_by le x ys)"

definition sort_by :: "('a \<Rightarrow> 'a \<Rightarrow> bool) \<Rightarrow> 'a list \<Rightarrow> 'a list" where
  "sort_by le xs = foldr (insert_by le) xs []"

text \<open>The own property order of an object: array indexes first, ascending, then the other keys as inserted\<close>

definition index_key :: "string \<Rightarrow> bool" where
  "index_key k \<longleftrightarrow> k \<noteq> [] \<and> list_all is_digit k \<and> nat_str (str_nat k) = k \<and> str_nat k < 4294967295"

definition own_order :: "jsobj \<Rightarrow> jsobj" where
  "own_order fs = sort_by (\<lambda>a b. str_nat (fst a) \<le> str_nat (fst b)) (filter (index_key \<circ> fst) fs) @ filter (Not \<circ> index_key \<circ> fst) fs"

fun canonical :: "(string \<Rightarrow> string \<Rightarrow> bool) \<Rightarrow> jsval \<Rightarrow> jsval" where
  "canonical le (JArr vs) = JArr (map (canonical le) vs)"
| "canonical le (JObj fs) = JObj (own_order (sort_by (\<lambda>a b. le (fst a) (fst b)) (map (\<lambda>(k, v). (k, canonical le v)) fs)))"
| "canonical le v = v"

text \<open>\<open>JSON.stringify\<close>\<close>

definition hex_char :: "nat \<Rightarrow> char" where
  "hex_char n = ''0123456789abcdef'' ! n"

definition quote_char :: "char \<Rightarrow> string" where
  "quote_char c =
     (let n = (of_char c :: nat); bs = CHR 0x5C
      in if c = CHR 0x22 \<or> c = CHR 0x5C then [bs, c]
         else if n = 8 then [bs, CHR ''b''] else if n = 9 then [bs, CHR ''t''] else if n = 10 then [bs, CHR ''n'']
         else if n = 12 then [bs, CHR ''f''] else if n = 13 then [bs, CHR ''r'']
         else if n < 32 then [bs, CHR ''u'', CHR ''0'', CHR ''0'', hex_char (n div 16), hex_char (n mod 16)]
         else [c])"

definition quote_string :: "string \<Rightarrow> string" where
  "quote_string s = [CHR 0x22] @ concat (map quote_char s) @ [CHR 0x22]"

fun stringify :: "(jsnum \<Rightarrow> string) \<Rightarrow> jsval \<Rightarrow> string" where
  "stringify ns JNull = ''null''"
| "stringify ns (JBool b) = (if b then ''true'' else ''false'')"
| "stringify ns (JNum n) = (if num_is_finite n then ns n else ''null'')"
| "stringify ns (JStr s) = quote_string s"
| "stringify ns (JArr vs) = ''['' @ join '','' (map (stringify ns) vs) @ '']''"
| "stringify ns (JObj fs) = ''{'' @ join '','' (map (\<lambda>(k, v). quote_string k @ '':'' @ stringify ns v) fs) @ ''}''"

definition draft_text :: "(jsnum \<Rightarrow> string) \<Rightarrow> (string \<Rightarrow> string \<Rightarrow> bool) \<Rightarrow> string \<Rightarrow> jsval \<Rightarrow> string" where
  "draft_text ns le name d = stringify ns (canonical le (JObj [(''name'', JStr name), (''definition'', d)]))"

definition draftRevision :: "(string \<Rightarrow> string) \<Rightarrow> (jsnum \<Rightarrow> string) \<Rightarrow> (string \<Rightarrow> string \<Rightarrow> bool) \<Rightarrow> string \<Rightarrow> jsval \<Rightarrow> string" where
  "draftRevision sha ns le name d = sha (draft_text ns le name d)"

definition journeyCapabilities :: "bool \<Rightarrow> bool \<times> string list" where
  "journeyCapabilities graphV2 =
     (graphV2, if graphV2 then [''message'', ''delay'', ''branch'', ''event_wait'', ''ab_split''] else [''message'', ''delay''])"

section \<open>Stored definitions as journey definitions\<close>

text \<open>The fields that the validator reads from the stored JSON\<close>

fun opt_str :: "jsval option \<Rightarrow> string option" where
  "opt_str (Some (JStr s)) = Some s"
| "opt_str _ = None"

definition sub_object :: "jsval \<Rightarrow> string \<Rightarrow> jsval option" where
  "sub_object v k = (case js_get v k of Some (JObj fs) \<Rightarrow> Some (JObj fs) | _ \<Rightarrow> None)"

definition push_of :: "jsval \<Rightarrow> push_content" where
  "push_of p = \<lparr>push_title = str_of (js_get p ''title''), push_body = str_of (js_get p ''body''),
     push_image_url = opt_str (js_get p ''image_url''), push_deep_link = opt_str (js_get p ''deep_link'')\<rparr>"

definition email_of :: "jsval \<Rightarrow> email_content" where
  "email_of p = \<lparr>email_subject = str_of (js_get p ''subject''), email_html = str_of (js_get p ''html''),
     email_provider = opt_str (js_get p ''provider'')\<rparr>"

definition alimtalk_of :: "jsval \<Rightarrow> alimtalk_content" where
  "alimtalk_of p = \<lparr>at_sender_id = str_of (js_get p ''sender_id''), at_template_code = str_of (js_get p ''template_code''),
     at_variables = (case js_get p ''variables'' of Some (JObj fs) \<Rightarrow> map (\<lambda>(k, v). (k, str_of (Some v))) fs | _ \<Rightarrow> []),
     at_fallback = map_option (\<lambda>f. \<lparr>fb_type = str_of (js_get f ''type''), fb_text = str_of (js_get f ''text''),
       fb_title = opt_str (js_get f ''title'')\<rparr>) (sub_object p ''fallback'')\<rparr>"

definition body_of :: "jsval \<Rightarrow> node_body" where
  "body_of n =
     (let t = node_type n
      in if t = ''message'' then Message (map_option push_of (sub_object n ''push'')) (map_option email_of (sub_object n ''email''))
                                    (map_option alimtalk_of (sub_object n ''alimtalk''))
         else if t = ''delay'' then Delay (num_of (js_get n ''duration_seconds''))
         else if t = ''branch'' then Branch (case js_get n ''condition'' of Some c \<Rightarrow> c | None \<Rightarrow> JNull)
         else if t = ''event_wait'' then EventWait (str_of (js_get n ''event_name'')) (num_of (js_get n ''timeout_seconds''))
         else if t = ''ab_split'' then ABSplit (map (\<lambda>v. \<lparr>av_id = str_of (js_get v ''id''), av_label = str_of (js_get v ''label''),
                                                     av_weight = num_of (js_get v ''weight'')\<rparr>) (arr_of (js_get n ''variants'')))
         else Unsupported t)"

definition edge_of :: "jsval \<Rightarrow> journey_edge" where
  "edge_of e = \<lparr>e_id = str_of (js_get e ''id''), e_source = str_of (js_get e ''source''), e_port = str_of (js_get e ''source_port''),
     e_target = opt_str (js_get e ''target'')\<rparr>"

definition reentry_of_json :: "jsval option \<Rightarrow> reentry" where
  "reentry_of_json v =
     (case v of
        Some (JStr s) \<Rightarrow> if s = ''never'' then Never else if s = ''always'' then Always else BadReentry
      | Some (JObj fs) \<Rightarrow> AfterDays (num_of (map_of fs ''after_days''))
      | _ \<Rightarrow> BadReentry)"

definition journey_of :: "jsval \<Rightarrow> journey_definition" where
  "journey_of d =
     (let settings = (case sub_object d ''settings'' of None \<Rightarrow> JNull | Some s \<Rightarrow> s)
      in \<lparr>schema_version = (case js_get d ''schema_version'' of Some (JNum n) \<Rightarrow> Some n | _ \<Rightarrow> None),
          entry = map_option (\<lambda>e. \<lparr>entry_type = str_of (js_get e ''type''), entry_segment = opt_str (js_get e ''segment_id''),
            entry_trigger = opt_str (js_get e ''trigger_event'')\<rparr>) (sub_object d ''entry''),
          nodes = map (\<lambda>n. \<lparr>n_id = opt_str (js_get n ''id''), n_body = body_of n\<rparr>) (arr_of (js_get d ''nodes'')),
          start_node_id = opt_str (js_get d ''start_node_id''),
          edges = (case js_get d ''edges'' of Some (JArr es) \<Rightarrow> Some (map edge_of es) | _ \<Rightarrow> None),
          conversion_event = (case sub_object d ''exit'' of None \<Rightarrow> None | Some e \<Rightarrow> opt_str (js_get e ''conversion_event'')),
          category_of = str_of (js_get settings ''category''),
          reentry_of = reentry_of_json (js_get settings ''reentry'')\<rparr>)"

section \<open>The revision does not depend on the order of keys\<close>

text \<open>Values that differ in the order of object keys only, as a \<open>jsonb\<close> column returns them\<close>

inductive same_json :: "jsval \<Rightarrow> jsval \<Rightarrow> bool" where
  same: "same_json v v"
| items: "list_all2 same_json vs ws \<Longrightarrow> same_json (JArr vs) (JArr ws)"
| members: "list_all2 (rel_prod (=) same_json) fs gs \<Longrightarrow> mset gs = mset hs \<Longrightarrow> distinct (map fst fs) \<Longrightarrow> same_json (JObj fs) (JObj hs)"

fun json_keys :: "jsval \<Rightarrow> string set" where
  "json_keys (JArr vs) = \<Union> (json_keys ` set vs)"
| "json_keys (JObj fs) = fst ` set fs \<union> \<Union> ((\<lambda>(k, v). json_keys v) ` set fs)"
| "json_keys _ = {}"

text \<open>\<open>localeCompare\<close> orders the keys in \<open>K\<close> linearly\<close>

definition collates :: "('k \<Rightarrow> 'k \<Rightarrow> bool) \<Rightarrow> 'k set \<Rightarrow> bool" where
  "collates le K \<longleftrightarrow> (\<forall>a \<in> K. \<forall>b \<in> K. (le a b \<or> le b a) \<and> (le a b \<longrightarrow> le b a \<longrightarrow> a = b)) \<and>
     (\<forall>a \<in> K. \<forall>b \<in> K. \<forall>c \<in> K. le a b \<longrightarrow> le b c \<longrightarrow> le a c)"

lemma mset_insert_by: "mset (insert_by le x xs) = add_mset x (mset xs)"
  by (induction xs) auto

lemma mset_sort_by: "mset (sort_by le xs) = mset xs"
  by (induction xs) (simp_all add: sort_by_def mset_insert_by)

lemma sorted_insert_by:
  assumes "collates le K"
  shows "f x \<in> K \<Longrightarrow> f ` set xs \<subseteq> K \<Longrightarrow> sorted_wrt (\<lambda>a b. le (f a) (f b)) xs \<Longrightarrow>
    sorted_wrt (\<lambda>a b. le (f a) (f b)) (insert_by (\<lambda>a b. le (f a) (f b)) x xs)"
proof (induction xs)
  case (Cons y xs)
  have set: "set (insert_by (\<lambda>a b. le (f a) (f b)) x xs) = insert x (set xs)" using arg_cong [OF mset_insert_by, of set_mset] by simp
  have tr: "le (f a) (f c)" if "a \<in> insert x (set (y # xs))" "b \<in> insert x (set (y # xs))" "c \<in> insert x (set (y # xs))" "le (f a) (f b)" "le (f b) (f c)" for a b c
  proof -
    have "f a \<in> K" "f b \<in> K" "f c \<in> K" using that Cons.prems by auto
    then show ?thesis using assms that(4,5) unfolding collates_def by blast
  qed
  show ?case
  proof (cases "le (f x) (f y)")
    case True
    then show ?thesis using Cons.prems(3) tr [of x y] by auto
  next
    case False
    then have "le (f y) (f x)" using assms Cons.prems unfolding collates_def by auto
    then show ?thesis using False Cons set by auto
  qed
qed simp

lemma sorted_sort_by:
  assumes "collates le K" "f ` set xs \<subseteq> K"
  shows "sorted_wrt (\<lambda>a b. le (f a) (f b)) (sort_by (\<lambda>a b. le (f a) (f b)) xs)"
  using assms(2)
proof (induction xs)
  case (Cons x xs)
  have "set (sort_by (\<lambda>a b. le (f a) (f b)) xs) = set xs" using mset_sort_by by (metis set_mset_mset)
  then show ?case using Cons sorted_insert_by [OF assms(1), of f x "sort_by (\<lambda>a b. le (f a) (f b)) xs"] by (simp add: sort_by_def)
qed (simp add: sort_by_def)

lemma sorted_mset_unique:
  "sorted_wrt R xs \<Longrightarrow> sorted_wrt R ys \<Longrightarrow> mset xs = mset ys \<Longrightarrow>
   (\<And>a b. a \<in> set xs \<Longrightarrow> b \<in> set xs \<Longrightarrow> R a b \<Longrightarrow> R b a \<Longrightarrow> a = b) \<Longrightarrow> xs = ys"
proof (induction xs arbitrary: ys)
  case (Cons x xs)
  then obtain y zs where ys: "ys = y # zs" by (cases ys) auto
  have sets: "set (x # xs) = set ys" using Cons.prems(3) by (metis set_mset_mset)
  have "x = y"
  proof (rule ccontr)
    assume ne: "x \<noteq> y"
    then have "x \<in> set zs" "y \<in> set xs" using sets ys by auto
    then have "R y x" "R x y" using Cons.prems(1,2) ys by auto
    then show False using Cons.prems(4) [of x y] \<open>y \<in> set xs\<close> ne by auto
  qed
  moreover from this have "xs = zs" using Cons.IH [of zs] Cons.prems ys by auto
  ultimately show ?case using ys by simp
qed simp

lemma sort_by_perm:
  assumes "mset fs = mset gs" "distinct (map fst fs)" "collates le (fst ` set fs)"
  shows "sort_by (\<lambda>a b. le (fst a) (fst b)) fs = sort_by (\<lambda>a b. le (fst a) (fst b)) gs"
proof (rule sorted_mset_unique [where R = "\<lambda>a b. le (fst a) (fst b)"])
  have sets: "set fs = set gs" using assms(1) by (metis set_mset_mset)
  show "sorted_wrt (\<lambda>a b. le (fst a) (fst b)) (sort_by (\<lambda>a b. le (fst a) (fst b)) fs)"
    "sorted_wrt (\<lambda>a b. le (fst a) (fst b)) (sort_by (\<lambda>a b. le (fst a) (fst b)) gs)"
    using assms(3) sets by (auto intro: sorted_sort_by)
  show "mset (sort_by (\<lambda>a b. le (fst a) (fst b)) fs) = mset (sort_by (\<lambda>a b. le (fst a) (fst b)) gs)"
    using assms(1) by (simp add: mset_sort_by)
  fix a b assume ab: "a \<in> set (sort_by (\<lambda>a b. le (fst a) (fst b)) fs)" "b \<in> set (sort_by (\<lambda>a b. le (fst a) (fst b)) fs)"
    "le (fst a) (fst b)" "le (fst b) (fst a)"
  then have m: "a \<in> set fs" "b \<in> set fs" by (metis mset_sort_by set_mset_mset)+
  then have "fst a = fst b" using assms(3) ab(3,4) unfolding collates_def by blast
  then show "a = b" using m assms(2) by (auto simp: distinct_map dest: inj_onD)
qed

lemma collates_subset: "collates le K \<Longrightarrow> L \<subseteq> K \<Longrightarrow> collates le L"
  unfolding collates_def by blast

lemma canonical_same: "same_json v w \<Longrightarrow> collates le (json_keys v) \<Longrightarrow> canonical le v = canonical le w"
proof (induction rule: same_json.induct)
  case (items vs ws)
  have "canonical le x = canonical le y" if "(x, y) \<in> set (zip vs ws)" for x y
  proof -
    have "x \<in> set vs" using that by (rule set_zip_leftD)
    then have "collates le (json_keys x)" using items.prems by (auto intro: collates_subset)
    then show ?thesis using items.IH that by (auto simp: list_all2_iff)
  qed
  then have "list_all2 (\<lambda>x y. canonical le x = canonical le y) vs ws" using items.IH by (auto simp: list_all2_iff)
  then have "map (canonical le) vs = map (canonical le) ws" by (simp add: list_all2_conv_all_nth list_eq_iff_nth_eq)
  then show ?case by simp
next
  case (members fs gs hs)
  let ?c = "\<lambda>(k, v). (k, canonical le v)"
  have "?c x = ?c y" if xy: "(x, y) \<in> set (zip fs gs)" for x y
  proof -
    have "x \<in> set fs" using xy by (rule set_zip_leftD)
    then have "collates le (json_keys (snd x))" using members.prems by (force intro: collates_subset)
    then show ?thesis using members.IH xy by (cases x; cases y) (auto simp: list_all2_iff)
  qed
  then have "list_all2 (\<lambda>x y. ?c x = ?c y) fs gs" using members.IH by (auto simp: list_all2_iff)
  then have eq: "map ?c fs = map ?c gs" by (simp add: list_all2_conv_all_nth list_eq_iff_nth_eq)
  have keys: "map fst (map ?c fs) = map fst fs" by auto
  have "sort_by (\<lambda>a b. le (fst a) (fst b)) (map ?c fs) = sort_by (\<lambda>a b. le (fst a) (fst b)) (map ?c hs)"
  proof (rule sort_by_perm)
    show "mset (map ?c fs) = mset (map ?c hs)" using members.hyps(1) unfolding eq by simp
    show "distinct (map fst (map ?c fs))" unfolding keys using members.hyps(2) .
    have "fst ` set (map ?c fs) = fst ` set fs" using arg_cong [OF keys, of set] by (simp only: set_map)
    then show "collates le (fst ` set (map ?c fs))" using members.prems by (auto intro: collates_subset)
  qed
  then show ?case by simp
qed simp

text \<open>
  The revision of a draft does not depend on the order of its keys: the draft that the database returns with its object keys in another order
  has the revision that was computed from the request, whenever \<open>localeCompare\<close> tells the keys apart.
\<close>

theorem revision_ignores_key_order:
  assumes "same_json d d'" "collates le (json_keys d)"
  shows "draftRevision sha ns le name d = draftRevision sha ns le name d'"
  by (simp add: draftRevision_def draft_text_def canonical_same [OF assms])

end
