(* ===== verification/Stored_Json.thy ===== *)
theory Stored_Json
  imports Journey_Contract
begin

text \<open>
  JSON values that go through a \<open>jsonb\<close> column: the numbers \<open>JSON.stringify\<close> cannot write, the schemas that keep them out, and
  what the readers of a stored definition see when the column returns its keys in another order.
\<close>

text \<open>\<open>JSON.stringify\<close> writes a number that is not finite as \<open>null\<close>; a \<open>jsonb\<close> parameter is sent as that text.\<close>

fun to_json :: "jsval \<Rightarrow> jsval" where
  "to_json (JNum n) = (if num_is_finite n then JNum n else JNull)"
| "to_json (JArr vs) = JArr (map to_json vs)"
| "to_json (JObj fs) = JObj (map (\<lambda>(k, v). (k, to_json v)) fs)"
| "to_json v = v"

section \<open>Values that JSON text carries unchanged\<close>

fun finite_json :: "jsval \<Rightarrow> bool" where
  "finite_json (JNum n) = num_is_finite n"
| "finite_json (JArr vs) = list_all finite_json vs"
| "finite_json (JObj fs) = list_all (\<lambda>(k, v). finite_json v) fs"
| "finite_json _ = True"

lemma to_json_finite: "finite_json v \<Longrightarrow> to_json v = v"
proof (induction v)
  case (JArr vs)
  then show ?case by (auto simp: list_all_iff intro: map_idI)
next
  case (JObj fs)
  then show ?case by (fastforce simp: list_all_iff intro: map_idI)
qed simp_all

lemma finite_to_json: "finite_json (to_json v)"
  by (induction v) (auto simp: list_all_iff)

lemma finite_get: "finite_json v \<Longrightarrow> js_get v k = Some w \<Longrightarrow> finite_json w"
  by (cases v) (auto simp: list_all_iff dest!: map_of_SomeD)

text \<open>Schemas whose output is free of non-finite numbers when the input is\<close>

definition keeps_finite :: "schema \<Rightarrow> bool" where
  "keeps_finite p \<longleftrightarrow> (\<forall>v x. finite_json v \<longrightarrow> p v = Some x \<longrightarrow> finite_json x)"

lemma keeps_finiteD: "keeps_finite p \<Longrightarrow> finite_json v \<Longrightarrow> p v = Some x \<Longrightarrow> finite_json x"
  unfolding keeps_finite_def by blast

lemma keeps_finite_same: "(\<And>v x. p v = Some x \<Longrightarrow> x = v) \<Longrightarrow> keeps_finite p"
  unfolding keeps_finite_def by blast

fun field_finite :: "zfield \<Rightarrow> bool" where
  "field_finite (Required p) = keeps_finite p"
| "field_finite (Optional p) = keeps_finite p"
| "field_finite (Default d p) = (finite_json d \<and> keeps_finite p)"

lemma field_finiteD: "field_finite f \<Longrightarrow> finite_json w \<Longrightarrow> field_schema f w = Some x \<Longrightarrow> finite_json x"
  by (cases f) (auto dest: keeps_finiteD)

lemma finite_z_fields:
  "finite_json v \<Longrightarrow> list_all (\<lambda>(k, f). field_finite f) spec \<Longrightarrow> z_fields spec v = Some r \<Longrightarrow> finite_json (JObj r)"
proof (induction spec arbitrary: r)
  case (Cons kf spec)
  obtain k f where kf: "kf = (k, f)" by fastforce
  then obtain r' where r': "z_fields spec v = Some r'" using Cons.prems(3) by (auto split: option.splits)
  then have IH: "finite_json (JObj r')" using Cons by simp
  have "\<exists>x. (r = r' \<or> r = (k, x) # r') \<and> finite_json x"
  proof (cases "js_get v k")
    case None
    then show ?thesis using Cons.prems r' kf by (cases f) (auto intro: exI [of _ JNull])
  next
    case (Some w)
    then show ?thesis using Cons.prems r' kf finite_get [OF Cons.prems(1) Some] by (auto dest: field_finiteD)
  qed
  then show ?case using IH by auto
qed simp

lemma keeps_finite_object [intro]: "list_all (\<lambda>(k, f). field_finite f) spec \<Longrightarrow> keeps_finite (z_object b spec)"
  unfolding keeps_finite_def by (auto simp: z_object_def finite_z_fields split: if_splits simp del: finite_json.simps)

lemma keeps_finite_list [intro]: "keeps_finite p \<Longrightarrow> keeps_finite (z_list n p)"
  unfolding keeps_finite_def by (force simp: z_list_def Let_def list_all_iff image_iff split: jsval.splits if_splits)

lemma keeps_finite_scalars [simp]:
  "keeps_finite z_any_text" "keeps_finite (z_enum xs)" "keeps_finite (z_uuid u)" "keeps_finite z_integer"
  by (rule keeps_finite_same; auto simp: z_any_text_def z_enum_def z_uuid_def z_integer_def split: jsval.splits if_splits)+

lemma keeps_finite_text [simp]: "keeps_finite (z_text lo hi)" "keeps_finite identifierSchema"
  by (auto simp: keeps_finite_def z_text_def identifierSchema_def split: jsval.splits if_splits)

lemma keeps_finite_nullable [intro]: "keeps_finite p \<Longrightarrow> keeps_finite (z_nullable p)"
  by (auto simp: keeps_finite_def z_nullable_def split: if_splits)

text \<open>The schema of journey definitions keeps non-finite numbers out of everything but what was sent.\<close>

lemma keeps_finite_text_record [simp]: "keeps_finite text_record"
  by (rule keeps_finite_same) (auto simp: text_record_def split: jsval.splits if_splits)

lemma keeps_finite_node: "keeps_finite (nodeSchema u)"
proof -
  let ?plain = "\<lambda>t more. z_object True ([(''id'', Optional identifierSchema), (''type'', Required (z_enum [t]))] @ more)"
  have plain: "keeps_finite (?plain t more)" if "list_all (\<lambda>(k, f). field_finite f) more" for t more
    using that by (intro keeps_finite_object) simp
  have "keeps_finite (messageSchema u)" "keeps_finite variantSchema"
    unfolding messageSchema_def variantSchema_def by (auto intro!: keeps_finite_object)
  moreover from this have "keeps_finite (z_list 4 variantSchema)" by blast
  moreover have "keeps_finite (\<lambda>c. if is_object c then Some c else None)" by (rule keeps_finite_same) (simp split: if_splits)
  moreover have "(\<exists>t more. list_all (\<lambda>(k, f). field_finite f) more \<and> ?plain t more v = Some x) \<or> messageSchema u v = Some x"
    if "nodeSchema u v = Some x" "keeps_finite (z_list 4 variantSchema)" "keeps_finite (\<lambda>c. if is_object c then Some c else None)" for v x
  proof -
    note node = that(1)
    have ok: "list_all (\<lambda>(k, f). field_finite f) [(''duration_seconds'', Required z_integer)]"
      "list_all (\<lambda>(k, f). field_finite f) [(''condition'', Required (\<lambda>c. if is_object c then Some c else None))]"
      "list_all (\<lambda>(k, f). field_finite f) [(''event_name'', Required (z_text 0 200)), (''timeout_seconds'', Required z_integer)]"
      "list_all (\<lambda>(k, f). field_finite f) [(''variants'', Required (z_list 4 variantSchema))]" using that(2,3) by simp_all
    obtain t where "js_get v ''type'' = Some (JStr t)" using node by (auto simp: nodeSchema_def Let_def split: option.splits jsval.splits)
    then have "messageSchema u v = Some x \<or> ?plain t [(''duration_seconds'', Required z_integer)] v = Some x \<or>
      ?plain t [(''condition'', Required (\<lambda>c. if is_object c then Some c else None))] v = Some x \<or>
      ?plain t [(''event_name'', Required (z_text 0 200)), (''timeout_seconds'', Required z_integer)] v = Some x \<or>
      ?plain t [(''variants'', Required (z_list 4 variantSchema))] v = Some x"
      using node unfolding nodeSchema_def Let_def by (simp split: if_split_asm)
    then show ?thesis using ok by blast
  qed
  ultimately show ?thesis
    unfolding keeps_finite_def [of "nodeSchema u"] using plain by (meson keeps_finiteD)
qed

lemma keeps_finite_reentry: "keeps_finite reentrySchema"
proof -
  let ?days = "\<lambda>n. case z_integer n of Some (JNum d) \<Rightarrow> if num_less (Num 0) d then Some n else None | _ \<Rightarrow> None"
  have "keeps_finite ?days" by (rule keeps_finite_same) (auto split: option.splits jsval.splits if_splits)
  then have "keeps_finite (z_object False [(''after_days'', Required ?days)])" by (intro keeps_finite_object) simp
  moreover have "z_enum xs v = Some x \<or> z_object False [(''after_days'', Required ?days)] v = Some x"
    if "reentrySchema v = Some x" "xs = [''never'', ''always'']" for v x xs
    using that unfolding reentrySchema_def by (simp split: option.splits)
  ultimately show ?thesis unfolding keeps_finite_def [of reentrySchema] by (meson keeps_finiteD keeps_finite_scalars(2))
qed

lemma keeps_finite_definition: "keeps_finite (definitionSchema u)"
proof -
  have edge: "keeps_finite (z_list n edgeSchema)" for n
    unfolding edgeSchema_def by (intro keeps_finite_list keeps_finite_object) (simp add: keeps_finite_nullable)
  have version: "keeps_finite versionSchema" by (rule keeps_finite_same) (auto simp: versionSchema_def split: if_splits)
  have sub: "list_all (\<lambda>(k, f). field_finite f) fs \<Longrightarrow> keeps_finite (z_object False fs)" for fs by (rule keeps_finite_object)
  have "keeps_finite (z_object True
         [(''schema_version'', Optional versionSchema),
          (''entry'', Required (z_object False
             [(''type'', Required (z_enum [''blast'', ''trigger''])), (''segment_id'', Optional (z_uuid u)),
              (''trigger_event'', Optional (z_text 0 200))])),
          (''nodes'', Required (z_list 65535 (nodeSchema u))),
          (''start_node_id'', Optional (z_nullable identifierSchema)),
          (''edges'', Optional (z_list 262140 edgeSchema)),
          (''exit'', Default (JObj []) (z_object False [(''conversion_event'', Optional (z_text 0 200))])),
          (''settings'', Required (z_object False
             [(''category'', Required (z_enum [''marketing'', ''transactional''])), (''reentry'', Default (JStr ''never'') reentrySchema)]))])"
    by (rule keeps_finite_object)
      (simp add: edge version sub keeps_finite_list keeps_finite_node keeps_finite_nullable keeps_finite_reentry)
  from keeps_finiteD [OF this] show ?thesis
    unfolding keeps_finite_def [of "definitionSchema u"] definitionSchema_def by (simp split: option.splits if_splits del: finite_json.simps)
qed

section \<open>Reading values that differ in the order of keys\<close>

inductive_simps same_scalar [simp]:
  "same_json (JStr s) w" "same_json (JNum n) w" "same_json (JBool b) w" "same_json JNull w"

inductive_cases same_ArrE: "same_json (JArr vs) w"

inductive_cases same_ObjE: "same_json (JObj fs) w"

lemma same_list: "list_all2 same_json vs vs"
  by (rule list_all2_refl) (rule same_json.same)

lemma list_all2_transfer: "list_all2 (\<lambda>x y. R x y \<and> (P x \<longrightarrow> P y)) xs ys \<Longrightarrow> list_all P xs \<Longrightarrow> list_all P ys"
  by (induction rule: list_all2_induct) auto

lemma same_finite: "same_json v w \<Longrightarrow> finite_json v \<Longrightarrow> finite_json w"
proof (induction rule: same_json.induct)
  case (items vs ws)
  show ?case using list_all2_transfer [OF items.IH] items.prems by simp
next
  case (members fs gs hs)
  have "list_all2 (\<lambda>x y. fst x = fst y \<and> (finite_json (snd x) \<longrightarrow> finite_json (snd y))) fs gs"
    using members.IH by (rule list_all2_mono) auto
  then have "list_all (\<lambda>x. finite_json (snd x)) gs"
    by (rule list_all2_transfer) (use members.prems in \<open>auto simp: list_all_iff\<close>)
  then show ?case using mset_eq_setD [OF members.hyps(1)] by (auto simp: list_all_iff)
qed simp

lemma same_map_of:
  assumes "list_all2 (rel_prod (=) same_json) fs gs"
  shows "rel_option same_json (map_of fs k) (map_of gs k)"
  using assms by (induction rule: list_all2_induct) auto

lemma same_get: "same_json v w \<Longrightarrow> rel_option same_json (js_get v k) (js_get w k)"
proof (induction rule: same_json.cases)
  case (same v)
  then show ?case by (cases "js_get v k") (auto intro: same_json.same)
next
  case (members fs gs hs)
  have keys: "map fst gs = map fst fs" using members(3) by (induction rule: list_all2_induct) auto
  have "mset (map fst gs) = mset (map fst hs)" using members(4) by simp
  then have "distinct (map fst hs)" using members(5) keys by (metis mset_eq_imp_distinct_iff)
  then have "map_of gs = map_of hs"
    using members(4,5) keys mset_eq_setD by (intro map_of_inject_set [THEN iffD2]) auto
  then show ?case using same_map_of [OF members(3), of k] members(1,2) by simp
qed auto

lemma same_arr: "rel_option same_json x y \<Longrightarrow> list_all2 same_json (arr_of x) (arr_of y)"
  by (cases x rule: arr_of.cases) (auto simp: option_rel_Some1 elim!: same_ArrE same_ObjE intro: same_list)

lemma same_shape:
  assumes "same_json v w"
  shows "str_of (Some v) = str_of (Some w)" "num_of (Some v) = num_of (Some w)" "scalar_ok (Some v) = scalar_ok (Some w)"
    "number_ok (Some v) = number_ok (Some w)" "truthy v = truthy w" "v = JNull \<longleftrightarrow> w = JNull" "v = JStr s \<longleftrightarrow> w = JStr s"
  using assms by (cases rule: same_json.cases; simp add: scalar_ok_def number_ok_def)+

lemma same_reads:
  assumes "rel_option same_json x y"
  shows "str_of x = str_of y" "num_of x = num_of y" "scalar_ok x = scalar_ok y" "number_ok x = number_ok y"
    "opt_truthy x = opt_truthy y" "non_null x = non_null y" "x = Some (JStr s) \<longleftrightarrow> y = Some (JStr s)"
  using assms by (cases x; cases y; simp add: same_shape non_null_def)+

lemma same_array_ok:
  assumes "rel_option same_json x y" "\<And>v w. same_json v w \<Longrightarrow> P v = P w"
  shows "array_ok P x = array_ok P y"
proof -
  have arr: "list_all P vs = list_all P ws" if "list_all2 same_json vs ws" for vs ws
    using that by (induction rule: list_all2_induct) (auto simp: assms(2))
  show ?thesis
  proof (cases x)
    case (Some v)
    then obtain w where "y = Some w" "same_json v w" using assms(1) by (cases y) auto
    then show ?thesis using Some by (cases v) (auto simp: array_ok_def arr elim!: same_ArrE same_ObjE)
  qed (use assms in auto)
qed

lemma same_cond_ok:
  assumes "same_json c c'"
  shows "cond_ok ns (obj_of c) = cond_ok ns (obj_of c')"
proof -
  note g = same_get [OF assms]
  have str: "js_get c k = Some (JStr s) \<longleftrightarrow> js_get c' k = Some (JStr s)" for k s using same_reads(7) [OF g] .
  have "platform_ok ns v = platform_ok ns w" if "same_json v w" for v w
    using that by (cases rule: same_json.cases) (simp_all add: platform_ok_def)
  then have "array_ok (platform_ok ns) (js_get c k) = array_ok (platform_ok ns) (js_get c' k)" for k using g by (rule same_array_ok [rotated])
  moreover have "array_ok (\<lambda>v. scalar_ok (Some v)) (js_get c k) = array_ok (\<lambda>v. scalar_ok (Some v)) (js_get c' k)" for k
    using g by (rule same_array_ok) (simp add: same_shape)
  ultimately show ?thesis
    by (simp add: cond_ok_def attribute_ok_def channel_ok_def event_ok_def is_cmp_def op_is_def type_is_def str
        same_reads(3-6) [OF g])
qed

lemma same_dsl_ok:
  assumes "same_json v w"
  shows "dsl_ok ns (dsl_of v) = dsl_ok ns (dsl_of w)"
proof -
  have conds: "list_all (\<lambda>c. cond_ok ns (obj_of c)) cs = list_all (\<lambda>c. cond_ok ns (obj_of c)) cs' \<and> (cs = [] \<longleftrightarrow> cs' = [])"
    if "list_all2 same_json cs cs'" for cs cs'
    using that by (induction rule: list_all2_induct) (auto simp: same_cond_ok)
  let ?P = "\<lambda>g. str_of (js_get g ''operator'') \<in> {''AND'', ''OR''} \<and> arr_of (js_get g ''conditions'') \<noteq> [] \<and>
    list_all (\<lambda>c. cond_ok ns (obj_of c)) (arr_of (js_get g ''conditions''))"
  have grp: "?P g = ?P g'" if "same_json g g'" for g g'
    using same_reads(1) [OF same_get [OF that]] conds [OF same_arr [OF same_get [OF that]]] by simp
  have "list_all ?P gs = list_all ?P gs'" if "list_all2 same_json gs gs'" for gs gs'
    using that by (induction rule: list_all2_induct) (simp_all only: list.pred_inject grp)
  from this [OF same_arr [OF same_get [OF assms]]] show ?thesis
    using same_reads(1,2) [OF same_get [OF assms]] by (simp add: dsl_ok_def dsl_of_def list.pred_map comp_def)
qed

end
