(* ===== verification/Auth_Store.thy ===== *)
theory Auth_Store
  imports Prelude
begin

text \<open>
  The tables behind authentication and administration (\<open>db/postgres/schema.sql\<close>): tenants, members,
  sessions, backup codes, apps, API keys, the installation row and the audit log, and the writes that
  several services share: sessions (\<open>auth/session.service.ts\<close>), the audit log (\<open>audit/audit.service.ts\<close>)
  and member insertion under the unique index on \<open>lower(email)\<close>. Times are milliseconds; \<open>now\<close> is the
  clock of the request. SHA-256 (\<open>h\<close>) and the database's \<open>lower\<close> are parameters.
\<close>

section \<open>Rows\<close>

datatype member_status = Invited | Active | Disabled

record tenant_row =
  t_id :: string
  t_name :: string
  t_require_2fa :: bool
  t_delete_requested_at :: "int option"
  t_purge_after :: "int option"

record member_row =
  m_id :: string
  m_tenant :: string
  m_email :: string
  m_password_hash :: "string option"
  m_name :: string
  m_role :: string
  m_status :: member_status
  m_totp_secret :: "string option"
  m_totp_enabled_at :: "int option"
  m_totp_last_counter :: "int option"
  m_totp_failed :: int
  m_totp_locked_until :: "int option"

record backup_code_row =
  b_id :: string
  b_tenant :: string
  b_member :: string
  b_hash :: string
  b_used_at :: "int option"

record session_row =
  s_tenant :: string
  s_member :: string
  s_token_hash :: string
  s_ip :: "string option"
  s_user_agent :: "string option"
  s_expires_at :: int
  s_revoked_at :: "int option"

record app_row =
  a_id :: string
  a_tenant :: string
  a_name :: string
  a_timezone :: "string option"

datatype key_kind = Sdk | Server
datatype key_scope = Full | IngestOnly
datatype key_status = KeyActive | KeyRotating | KeyRevoked

record api_key_row =
  k_id :: string
  k_tenant :: string
  k_app :: string
  k_kind :: key_kind
  k_scope :: key_scope
  k_prefix :: string
  k_hash :: string
  k_status :: key_status
  k_grace_expires_at :: "int option"
  k_last_used_at :: "int option"

datatype install_state = Unclaimed | Claimed | Secured | RecoveryRequired

record setup_result =
  r_tenant_id :: string
  r_app_id :: string
  r_member_id :: string
  r_installation_id :: string
  r_secured_at :: int

record installation_row =
  in_id :: string
  in_state :: install_state
  in_token_hash :: "string option"
  in_token_version :: int
  in_claim_hash :: "string option"
  in_claim_expires :: "int option"
  in_claimed_at :: "int option"
  in_secured_at :: "int option"
  in_tenant :: "string option"
  in_owner :: "string option"
  in_app :: "string option"
  in_idem_hash :: "string option"
  in_request_hash :: "string option"
  in_result :: "setup_result option"
  in_record_version :: int

record audit_row =
  au_tenant :: string
  au_actor :: "string option"
  au_email :: "string option"
  au_action :: string
  au_target_type :: "string option"
  au_target :: "string option"
  au_ip :: "string option"

record auth_db =
  tenants :: "tenant_row list"
  members :: "member_row list"
  backup_codes :: "backup_code_row list"
  sessions :: "session_row list"
  apps :: "app_row list"
  api_keys :: "api_key_row list"
  installation :: "installation_row option"
  audits :: "audit_row list"

section \<open>Sessions\<close>

record session_member =
  sm_member :: string
  sm_tenant :: string
  sm_email :: string
  sm_name :: string
  sm_role :: string
  sm_totp_enabled :: bool
  sm_requires_2fa :: bool

text \<open>\<open>SessionService.create\<close>: \<open>token\<close> is the random token; the unique index refuses a hash that exists\<close>

definition session_create ::
  "(string \<Rightarrow> string) \<Rightarrow> int \<Rightarrow> int \<Rightarrow> string \<Rightarrow> string \<Rightarrow> string \<Rightarrow> string option \<Rightarrow> string option \<Rightarrow> auth_db \<Rightarrow>
     (auth_db, string \<times> int) outcome" where
  "session_create h ttl_hours now token tenantId memberId ip ua db =
     (let expires = now + ttl_hours * 3600000
      in if h token \<in> set (map s_token_hash (sessions db)) then Inl (Internal ''unique_violation'')
         else Inr ((token, expires),
           db\<lparr>sessions := sessions db @
             [\<lparr>s_tenant = tenantId, s_member = memberId, s_token_hash = h token, s_ip = ip, s_user_agent = ua,
               s_expires_at = expires, s_revoked_at = None\<rparr>]\<rparr>))"

definition session_live :: "int \<Rightarrow> session_row \<Rightarrow> bool" where
  "session_live now s \<longleftrightarrow> s_revoked_at s = None \<and> now < s_expires_at s"

text \<open>\<open>SessionService.resolve\<close>: the join of the session with its active member and its tenant\<close>

definition session_resolve :: "(string \<Rightarrow> string) \<Rightarrow> int \<Rightarrow> string \<Rightarrow> auth_db \<Rightarrow> session_member option" where
  "session_resolve h now token db =
     (if token = [] then None
      else case find (\<lambda>s. s_token_hash s = h token \<and> session_live now s) (sessions db) of
        None \<Rightarrow> None
      | Some s \<Rightarrow>
          (case find (\<lambda>m. m_id m = s_member s \<and> m_status m = Active) (members db) of
             None \<Rightarrow> None
           | Some m \<Rightarrow>
               (case find (\<lambda>t. t_id t = s_tenant s) (tenants db) of
                  None \<Rightarrow> None
                | Some t \<Rightarrow>
                    Some \<lparr>sm_member = m_id m, sm_tenant = s_tenant s, sm_email = m_email m, sm_name = m_name m,
                          sm_role = m_role m, sm_totp_enabled = (m_totp_enabled_at m \<noteq> None),
                          sm_requires_2fa = t_require_2fa t\<rparr>)))"

definition session_revoke :: "(string \<Rightarrow> string) \<Rightarrow> int \<Rightarrow> string \<Rightarrow> auth_db \<Rightarrow> auth_db" where
  "session_revoke h now token db =
     db\<lparr>sessions := update_where (\<lambda>s. s_token_hash s = h token \<and> s_revoked_at s = None)
          (\<lambda>s. s\<lparr>s_revoked_at := Some now\<rparr>) (sessions db)\<rparr>"

text \<open>
  \<open>SessionService.revokeAllForMember\<close>, with the number of revoked rows; an empty or missing \<open>exceptToken\<close> spares
  no session
\<close>

definition revoked_by :: "(string \<Rightarrow> string) \<Rightarrow> string \<Rightarrow> string \<Rightarrow> string option \<Rightarrow> session_row \<Rightarrow> bool" where
  "revoked_by h tenantId memberId except s \<longleftrightarrow>
     s_tenant s = tenantId \<and> s_member s = memberId \<and> s_revoked_at s = None \<and>
     (case except of None \<Rightarrow> True | Some t \<Rightarrow> t = [] \<or> s_token_hash s \<noteq> h t)"

definition session_revoke_all ::
  "(string \<Rightarrow> string) \<Rightarrow> int \<Rightarrow> string \<Rightarrow> string \<Rightarrow> string option \<Rightarrow> auth_db \<Rightarrow> nat \<times> auth_db" where
  "session_revoke_all h now tenantId memberId except db =
     (length (filter (revoked_by h tenantId memberId except) (sessions db)),
      db\<lparr>sessions := update_where (revoked_by h tenantId memberId except) (\<lambda>s. s\<lparr>s_revoked_at := Some now\<rparr>) (sessions db)\<rparr>)"

section \<open>Guards\<close>

definition isEnrollmentAllowed :: "string \<Rightarrow> bool" where
  "isEnrollmentAllowed path \<longleftrightarrow> prefix ''/v1/auth/totp'' path"

definition SessionGuard :: "(string \<Rightarrow> string) \<Rightarrow> int \<Rightarrow> string option \<Rightarrow> string \<Rightarrow> auth_db \<Rightarrow> http_error + session_member" where
  "SessionGuard h now cookie url db =
     (case session_resolve h now (case cookie of None \<Rightarrow> [] | Some t \<Rightarrow> t) db of
        None \<Rightarrow> Inl (Unauthorized ''login required'')
      | Some m \<Rightarrow>
          if sm_requires_2fa m \<and> \<not> sm_totp_enabled m \<and> \<not> isEnrollmentAllowed (takeWhile (\<lambda>c. c \<noteq> CHR ''?'') url)
          then Inl (Forbidden ''enrollment_required'') else Inr m)"

section \<open>Audit log\<close>

text \<open>\<open>AuditService.record\<close> and \<open>recordAs\<close>: append-only\<close>

definition audit_record :: "audit_row \<Rightarrow> auth_db \<Rightarrow> auth_db" where
  "audit_record entry db = db\<lparr>audits := audits db @ [entry]\<rparr>"

definition recordAs :: "session_member \<Rightarrow> string option \<Rightarrow> string \<Rightarrow> string option \<Rightarrow> string option \<Rightarrow> auth_db \<Rightarrow> auth_db" where
  "recordAs actor ip action targetType targetId db =
     audit_record \<lparr>au_tenant = sm_tenant actor, au_actor = Some (sm_member actor), au_email = Some (sm_email actor),
       au_action = action, au_target_type = targetType, au_target = targetId, au_ip = ip\<rparr> db"

section \<open>Members\<close>

text \<open>\<open>INSERT INTO members\<close> under the unique index on \<open>lower(email)\<close>\<close>

definition insert_member :: "(string \<Rightarrow> string) \<Rightarrow> member_row \<Rightarrow> auth_db \<Rightarrow> http_error + auth_db" where
  "insert_member lower m db =
     (if lower (m_email m) \<in> set (map (\<lambda>r. lower (m_email r)) (members db)) then Inl (Internal ''unique_violation'')
      else Inr (db\<lparr>members := members db @ [m]\<rparr>))"

definition new_member :: "string \<Rightarrow> string \<Rightarrow> string \<Rightarrow> string \<Rightarrow> string \<Rightarrow> string \<Rightarrow> member_row" where
  "new_member mid tenantId email hash name role =
     \<lparr>m_id = mid, m_tenant = tenantId, m_email = email, m_password_hash = Some hash, m_name = name, m_role = role,
      m_status = Active, m_totp_secret = None, m_totp_enabled_at = None, m_totp_last_counter = None,
      m_totp_failed = 0, m_totp_locked_until = None\<rparr>"

definition active_owner :: "string \<Rightarrow> member_row \<Rightarrow> bool" where
  "active_owner tenantId m \<longleftrightarrow> m_tenant m = tenantId \<and> m_role m = ''owner'' \<and> m_status m = Active"

section \<open>What the shared writes keep\<close>

lemma session_writes_simps [simp]:
  "members (session_revoke h now tok db) = members db" "tenants (session_revoke h now tok db) = tenants db"
  "members (snd (session_revoke_all h now t m e db)) = members db"
  "tenants (snd (session_revoke_all h now t m e db)) = tenants db"
  "installation (session_revoke h now tok db) = installation db"
  "installation (snd (session_revoke_all h now t m e db)) = installation db"
  "backup_codes (session_revoke h now tok db) = backup_codes db"
  "backup_codes (snd (session_revoke_all h now t m e db)) = backup_codes db"
  by (simp_all add: session_revoke_def session_revoke_all_def)

lemma recordAs_simps [simp]:
  "members (recordAs a ip act tt ti db) = members db" "tenants (recordAs a ip act tt ti db) = tenants db"
  "sessions (recordAs a ip act tt ti db) = sessions db" "installation (recordAs a ip act tt ti db) = installation db"
  "backup_codes (recordAs a ip act tt ti db) = backup_codes db"
  by (simp_all add: recordAs_def audit_record_def)

lemma session_create_members:
  "session_create h ttl now tok t m ip ua db = Inr (r, db') \<Longrightarrow>
     members db' = members db \<and> tenants db' = tenants db \<and> installation db' = installation db \<and> backup_codes db' = backup_codes db"
  by (auto simp: session_create_def Let_def split: if_splits)

lemma session_resolve_SomeE:
  assumes "session_resolve h now tok db = Some sm"
  obtains s m where "s \<in> set (sessions db)" "m \<in> set (members db)" "s_token_hash s = h tok" "session_live now s"
    "s_member s = m_id m" "m_status m = Active" "sm_member sm = m_id m" "sm_tenant sm = s_tenant s" "sm_role sm = m_role m"
    "sm_totp_enabled sm = (m_totp_enabled_at m \<noteq> None)"
proof -
  obtain s m where f: "find (\<lambda>s. s_token_hash s = h tok \<and> session_live now s) (sessions db) = Some s"
      "find (\<lambda>m. m_id m = s_member s \<and> m_status m = Active) (members db) = Some m"
      "sm_member sm = m_id m" "sm_tenant sm = s_tenant s" "sm_role sm = m_role m" "sm_totp_enabled sm = (m_totp_enabled_at m \<noteq> None)"
    using assms by (auto simp: session_resolve_def split: if_splits option.splits)
  from find_SomeD [OF f(1)] find_SomeD [OF f(2)] show thesis using f(3-) by (intro that [of s m]) simp_all
qed

lemma session_resolve_None:
  "(\<And>s. s \<in> set (sessions db) \<Longrightarrow> s_token_hash s = h tok \<Longrightarrow> \<not> session_live now s) \<Longrightarrow> session_resolve h now tok db = None"
  by (auto simp: session_resolve_def dest!: find_SomeD split: option.splits)

text \<open>Token hashes identify sessions, as the unique index says.\<close>

definition sessions_unique :: "auth_db \<Rightarrow> bool" where
  "sessions_unique db \<longleftrightarrow> distinct (map s_token_hash (sessions db))"

lemma session_create_unique:
  "sessions_unique db \<Longrightarrow> session_create h ttl now tok t m ip ua db = Inr (r, db') \<Longrightarrow> sessions_unique db'"
  by (auto simp: session_create_def sessions_unique_def Let_def split: if_splits)

lemma session_revokes_unique:
  "sessions_unique db \<Longrightarrow> sessions_unique (session_revoke h now tok db)"
  "sessions_unique db \<Longrightarrow> sessions_unique (snd (session_revoke_all h now t m e db))"
  by (simp_all add: session_revoke_def session_revoke_all_def sessions_unique_def map_update_where)

text \<open>A revoked token never resolves again, and revoking all sessions of a member ends each of them.\<close>

lemma session_revoke_resolve: "session_resolve h now' tok (session_revoke h now tok db) = None"
  by (rule session_resolve_None)
     (auto simp: session_revoke_def session_live_def elim!: in_update_whereE split: if_splits)

lemma revoke_all_ends:
  assumes "s \<in> set (sessions (snd (session_revoke_all h now t m None db)))" "s_tenant s = t" "s_member s = m"
  shows "\<not> session_live now' s"
proof -
  let ?p = "revoked_by h t m None"
  obtain r where r: "r \<in> set (sessions db)" "s = (if ?p r then r\<lparr>s_revoked_at := Some now\<rparr> else r)"
    using assms(1) by (auto simp: session_revoke_all_def elim: in_update_whereE)
  show ?thesis
  proof (cases "?p r")
    case True
    then show ?thesis using r by (simp add: session_live_def)
  next
    case False
    then show ?thesis using r(2) assms(2,3) by (auto simp: revoked_by_def session_live_def)
  qed
qed

end
