(* ===== verification/Members.thy ===== *)
theory Members
  imports Auth_Store
begin

text \<open>
  Roles and permissions (\<open>authz/permissions.ts\<close>, \<open>authz/permission.guard.ts\<close>) and the team administration
  (\<open>members/members.service.ts\<close>, \<open>members/members.controller.ts\<close>). A handler runs behind the session
  guard and the permission guard; random ids, password hashes and the e-mail and UUID checks of the libraries
  are arguments.
\<close>

section \<open>Permissions\<close>

definition READ_ALL :: "string list" where
  "READ_ALL = [''segments:read'', ''journeys:read'', ''apps:read'', ''users:read'', ''analytics:read'']"

definition EDITOR :: "string list" where
  "EDITOR = READ_ALL @ [''segments:write'', ''journeys:write'', ''journeys:activate'']"

definition ADMIN :: "string list" where
  "ADMIN = EDITOR @ [''in_app:publish'', ''credentials:read'', ''credentials:write'', ''apikeys:read'', ''apikeys:write'',
     ''apps:write'', ''team:read'', ''team:write'', ''settings:write'', ''member:reset_2fa'']"

definition OWNER :: "string list" where
  "OWNER = ADMIN @ [''billing:manage'', ''tenant:delete'']"

definition ROLE_PERMISSIONS :: "(string \<times> string list) list" where
  "ROLE_PERMISSIONS = [(''viewer'', READ_ALL), (''editor'', EDITOR), (''admin'', ADMIN), (''owner'', OWNER)]"

definition isRole :: "string \<Rightarrow> bool" where
  "isRole value \<longleftrightarrow> value \<in> {''owner'', ''admin'', ''editor'', ''viewer''}"

definition can :: "string \<Rightarrow> string \<Rightarrow> bool" where
  "can role perm \<longleftrightarrow> isRole role \<and> perm \<in> set (map_get_or ROLE_PERMISSIONS [] role)"

definition permissionsForRole :: "string \<Rightarrow> string list" where
  "permissionsForRole role = (if isRole role then map_get_or ROLE_PERMISSIONS [] role else [])"

definition PermissionGuard :: "string option \<Rightarrow> session_member option \<Rightarrow> http_error + unit" where
  "PermissionGuard required member =
     (case required of
        None \<Rightarrow> Inr ()
      | Some p \<Rightarrow>
          (case member of
             None \<Rightarrow> Inl (Unauthorized ''login required'')
           | Some m \<Rightarrow> if \<not> can (sm_role m) p then Inl (Forbidden p) else Inr ()))"

text \<open>The request data every console handler sees\<close>

record request =
  q_cookie :: "string option"
  q_url :: string
  q_ip :: "string option"
  q_user_agent :: "string option"
  q_body :: jsval

text \<open>\<open>@UseGuards(SessionGuard, PermissionGuard)\<close> around a handler\<close>

definition guarded :: "(string \<Rightarrow> string) \<Rightarrow> int \<Rightarrow> request \<Rightarrow> string option \<Rightarrow> auth_db \<Rightarrow>
    (session_member \<Rightarrow> (auth_db, 'a) reply) \<Rightarrow> (auth_db, 'a) reply" where
  "guarded h now q required db k =
     (case SessionGuard h now (q_cookie q) (q_url q) db of
        Inl e \<Rightarrow> (Inl e, db)
      | Inr m \<Rightarrow> (case PermissionGuard required (Some m) of Inl e \<Rightarrow> (Inl e, db) | Inr _ \<Rightarrow> k m))"

section \<open>Service\<close>

definition member_list :: "string \<Rightarrow> auth_db \<Rightarrow> member_row list" where
  "member_list tenantId db = filter (\<lambda>m. m_tenant m = tenantId) (members db)"

definition assertAssignableRole :: "string \<Rightarrow> string \<Rightarrow> http_error + unit" where
  "assertAssignableRole actorRole newRole =
     (if \<not> isRole newRole then Inl (BadRequest ''unknown role'')
      else if newRole = ''owner'' \<and> actorRole \<noteq> ''owner'' then Inl (Forbidden ''owner assigns owner'')
      else Inr ())"

definition assertCanManageTarget :: "string \<Rightarrow> string \<Rightarrow> http_error + unit" where
  "assertCanManageTarget actorRole targetRole =
     (if targetRole = ''owner'' \<and> actorRole \<noteq> ''owner'' then Inl (Forbidden ''owner manages owner'') else Inr ())"

definition lockMember :: "string \<Rightarrow> string \<Rightarrow> auth_db \<Rightarrow> http_error + member_row" where
  "lockMember tenantId targetId db =
     (case find (\<lambda>m. m_tenant m = tenantId \<and> m_id m = targetId) (members db) of
        None \<Rightarrow> Inl (NotFound ''member'') | Some m \<Rightarrow> Inr m)"

definition assertNotLastOwner :: "string \<Rightarrow> string \<Rightarrow> auth_db \<Rightarrow> http_error + unit" where
  "assertNotLastOwner tenantId targetId db =
     (if list_ex (\<lambda>m. active_owner tenantId m \<and> m_id m \<noteq> targetId) (members db) then Inr ()
      else Inl (BadRequest ''at least one owner''))"

text \<open>\<open>create\<close>: \<open>mid\<close> is the generated id and \<open>hash\<close> the Argon2id hash of the password\<close>

definition member_create ::
  "(string \<Rightarrow> string) \<Rightarrow> string \<Rightarrow> string \<Rightarrow> string \<Rightarrow> string \<Rightarrow> string \<Rightarrow> string \<Rightarrow> string \<Rightarrow> auth_db \<Rightarrow> (auth_db, member_row) outcome" where
  "member_create lower mid hash tenantId actorRole email name role db =
     (case assertAssignableRole actorRole role of
        Inl e \<Rightarrow> Inl e
      | Inr _ \<Rightarrow>
          if list_ex (\<lambda>m. m_tenant m = tenantId \<and> lower (m_email m) = lower email) (members db) then Inl (Conflict ''email exists'')
          else (let m = new_member mid tenantId email hash name role
                in case insert_member lower m db of Inl e \<Rightarrow> Inl e | Inr db' \<Rightarrow> Inr (m, db')))"

definition assertInTenant :: "string \<Rightarrow> string \<Rightarrow> auth_db \<Rightarrow> http_error + unit" where
  "assertInTenant tenantId memberId db =
     (if list_ex (\<lambda>m. m_tenant m = tenantId \<and> m_id m = memberId) (members db) then Inr () else Inl (NotFound ''member''))"

definition set_member :: "string \<Rightarrow> string \<Rightarrow> (member_row \<Rightarrow> member_row) \<Rightarrow> auth_db \<Rightarrow> auth_db" where
  "set_member tenantId targetId f db =
     db\<lparr>members := update_where (\<lambda>m. m_tenant m = tenantId \<and> m_id m = targetId) f (members db)\<rparr>"

definition changeRole ::
  "(string \<Rightarrow> string) \<Rightarrow> int \<Rightarrow> string \<Rightarrow> string \<Rightarrow> string \<Rightarrow> string \<Rightarrow> auth_db \<Rightarrow> (auth_db, nat) outcome" where
  "changeRole h now tenantId actorRole targetId newRole db =
     (case lockMember tenantId targetId db of
        Inl e \<Rightarrow> Inl e
      | Inr target \<Rightarrow>
          (case assertAssignableRole actorRole newRole of
             Inl e \<Rightarrow> Inl e
           | Inr _ \<Rightarrow>
               (case assertCanManageTarget actorRole (m_role target) of
                  Inl e \<Rightarrow> Inl e
                | Inr _ \<Rightarrow>
                    (case (if m_role target = ''owner'' \<and> newRole \<noteq> ''owner'' then assertNotLastOwner tenantId targetId db else Inr ()) of
                       Inl e \<Rightarrow> Inl e
                     | Inr _ \<Rightarrow>
                         Inr (session_revoke_all h now tenantId targetId None
                                (set_member tenantId targetId (\<lambda>m. m\<lparr>m_role := newRole\<rparr>) db))))))"

definition remove_member ::
  "(string \<Rightarrow> string) \<Rightarrow> int \<Rightarrow> string \<Rightarrow> string \<Rightarrow> string \<Rightarrow> string \<Rightarrow> auth_db \<Rightarrow> (auth_db, nat) outcome" where
  "remove_member h now tenantId actorRole actorId targetId db =
     (if actorId = targetId then Inl (BadRequest ''cannot remove yourself'')
      else case lockMember tenantId targetId db of
        Inl e \<Rightarrow> Inl e
      | Inr target \<Rightarrow>
          (case assertCanManageTarget actorRole (m_role target) of
             Inl e \<Rightarrow> Inl e
           | Inr _ \<Rightarrow>
               (case (if m_role target = ''owner'' then assertNotLastOwner tenantId targetId db else Inr ()) of
                  Inl e \<Rightarrow> Inl e
                | Inr _ \<Rightarrow>
                    Inr (session_revoke_all h now tenantId targetId None
                           (set_member tenantId targetId (\<lambda>m. m\<lparr>m_status := Disabled\<rparr>) db)))))"

section \<open>Controller\<close>

definition z_role :: "jsval option \<Rightarrow> string option" where
  "z_role v = (case v of Some (JStr s) \<Rightarrow> (if isRole s then Some s else None) | _ \<Rightarrow> None)"

definition z_email :: "(string \<Rightarrow> bool) \<Rightarrow> jsval option \<Rightarrow> string option" where
  "z_email is_email v = (case v of Some (JStr s) \<Rightarrow> (if is_email s then Some s else None) | _ \<Rightarrow> None)"

definition createSchema :: "(string \<Rightarrow> bool) \<Rightarrow> jsval \<Rightarrow> (string \<times> string \<times> string \<times> string) option" where
  "createSchema is_email b =
     (case (z_email is_email (js_get b ''email''), z_string 1 100 (js_get b ''name''), z_role (js_get b ''role''),
            z_string 8 128 (js_get b ''password'')) of
        (Some e, Some n, Some r, Some p) \<Rightarrow> Some (e, n, r, p) | _ \<Rightarrow> None)"

definition members_list_handler :: "(string \<Rightarrow> string) \<Rightarrow> int \<Rightarrow> request \<Rightarrow> auth_db \<Rightarrow> (auth_db, member_row list) reply" where
  "members_list_handler h now q db =
     guarded h now q (Some ''team:read'') db (\<lambda>me. (Inr (member_list (sm_tenant me) db), db))"

definition members_create_handler ::
  "(string \<Rightarrow> string) \<Rightarrow> (string \<Rightarrow> string) \<Rightarrow> (string \<Rightarrow> bool) \<Rightarrow> int \<Rightarrow> string \<Rightarrow> (string \<Rightarrow> string) \<Rightarrow> request \<Rightarrow> auth_db \<Rightarrow>
     (auth_db, member_row) reply" where
  "members_create_handler h lower is_email now mid argon2 q db =
     guarded h now q (Some ''team:write'') db (\<lambda>me.
       case createSchema is_email (q_body q) of
         None \<Rightarrow> (Inl (BadRequest ''body''), db)
       | Some (email, name, role, password) \<Rightarrow>
           (case member_create lower mid (argon2 password) (sm_tenant me) (sm_role me) email name role db of
              Inl e \<Rightarrow> (Inl e, db)
            | Inr (m, db1) \<Rightarrow> (Inr m, recordAs me (q_ip q) ''member.create'' (Some ''member'') (Some (m_id m)) db1)))"

definition members_change_role_handler ::
  "(string \<Rightarrow> string) \<Rightarrow> (string \<Rightarrow> bool) \<Rightarrow> int \<Rightarrow> string \<Rightarrow> request \<Rightarrow> auth_db \<Rightarrow> (auth_db, nat) reply" where
  "members_change_role_handler h is_uuid now memberId q db =
     guarded h now q (Some ''team:write'') db (\<lambda>me.
       if \<not> is_uuid memberId then (Inl (BadRequest ''uuid''), db)
       else case assertInTenant (sm_tenant me) memberId db of
         Inl e \<Rightarrow> (Inl e, db)
       | Inr _ \<Rightarrow>
           (case z_role (js_get (q_body q) ''role'') of
              None \<Rightarrow> (Inl (BadRequest ''body''), db)
            | Some role \<Rightarrow>
                (case changeRole h now (sm_tenant me) (sm_role me) memberId role db of
                   Inl e \<Rightarrow> (Inl e, db)
                 | Inr (n, db1) \<Rightarrow> (Inr n, recordAs me (q_ip q) ''member.role_change'' (Some ''member'') (Some memberId) db1))))"

definition members_remove_handler ::
  "(string \<Rightarrow> string) \<Rightarrow> (string \<Rightarrow> bool) \<Rightarrow> int \<Rightarrow> string \<Rightarrow> request \<Rightarrow> auth_db \<Rightarrow> (auth_db, nat) reply" where
  "members_remove_handler h is_uuid now memberId q db =
     guarded h now q (Some ''team:write'') db (\<lambda>me.
       if \<not> is_uuid memberId then (Inl (BadRequest ''uuid''), db)
       else case remove_member h now (sm_tenant me) (sm_role me) (sm_member me) memberId db of
         Inl e \<Rightarrow> (Inl e, db)
       | Inr (n, db1) \<Rightarrow> (Inr n, recordAs me (q_ip q) ''member.remove'' (Some ''member'') (Some memberId) db1))"

section \<open>Invariants\<close>

text \<open>Every tenant has an active owner.\<close>

definition owned :: "auth_db \<Rightarrow> bool" where
  "owned db \<longleftrightarrow> (\<forall>t \<in> set (tenants db). \<exists>m \<in> set (members db). active_owner (t_id t) m)"

text \<open>Unique member ids and e-mails; the session of a member belongs to the member's tenant.\<close>

definition members_unique :: "(string \<Rightarrow> string) \<Rightarrow> auth_db \<Rightarrow> bool" where
  "members_unique lower db \<longleftrightarrow> distinct (map m_id (members db)) \<and> distinct (map (\<lambda>m. lower (m_email m)) (members db))"

definition sessions_match :: "auth_db \<Rightarrow> bool" where
  "sessions_match db \<longleftrightarrow>
     (\<forall>s \<in> set (sessions db). \<forall>m \<in> set (members db). s_member s = m_id m \<longrightarrow> s_tenant s = m_tenant m)"

lemma members_set_member [simp]:
  "tenants (set_member t i f db) = tenants db" "sessions (set_member t i f db) = sessions db"
  "installation (set_member t i f db) = installation db" "backup_codes (set_member t i f db) = backup_codes db"
  by (simp_all add: set_member_def)

lemma changeRole_InrE:
  assumes "changeRole h now t actor i role db = Inr (n, db')"
  obtains target where "lockMember t i db = Inr target" "isRole role" "role = ''owner'' \<longrightarrow> actor = ''owner''"
    "m_role target = ''owner'' \<longrightarrow> actor = ''owner''"
    "m_role target = ''owner'' \<and> role \<noteq> ''owner'' \<longrightarrow> (\<exists>m \<in> set (members db). active_owner t m \<and> m_id m \<noteq> i)"
    "(n, db') = session_revoke_all h now t i None (set_member t i (\<lambda>m. m\<lparr>m_role := role\<rparr>) db)"
  using assms
  by (auto simp: changeRole_def assertAssignableRole_def assertCanManageTarget_def assertNotLastOwner_def list_ex_iff
      split: sum.splits if_splits)

lemma remove_member_InrE:
  assumes "remove_member h now t actor me i db = Inr (n, db')"
  obtains target where "lockMember t i db = Inr target" "me \<noteq> i" "m_role target = ''owner'' \<longrightarrow> actor = ''owner''"
    "m_role target = ''owner'' \<longrightarrow> (\<exists>m \<in> set (members db). active_owner t m \<and> m_id m \<noteq> i)"
    "(n, db') = session_revoke_all h now t i None (set_member t i (\<lambda>m. m\<lparr>m_status := Disabled\<rparr>) db)"
  using assms
  by (auto simp: remove_member_def assertCanManageTarget_def assertNotLastOwner_def list_ex_iff
      split: sum.splits if_splits)

lemma lockMember_InrD:
  "lockMember t i db = Inr m \<Longrightarrow> m \<in> set (members db) \<and> m_tenant m = t \<and> m_id m = i"
  by (auto simp: lockMember_def dest!: find_SomeD split: option.splits)

lemma unique_id: "members_unique lower db \<Longrightarrow> m \<in> set (members db) \<Longrightarrow> m' \<in> set (members db) \<Longrightarrow> m_id m = m_id m' \<Longrightarrow> m = m'"
  by (auto simp: members_unique_def distinct_map inj_on_def)


lemma set_member_owned:
  assumes inv: "owned db" "members_unique lower db" and lock: "lockMember t i db = Inr target"
    and keep: "active_owner t target \<Longrightarrow> active_owner t (f target) \<or> (\<exists>m \<in> set (members db). active_owner t m \<and> m_id m \<noteq> i)"
  shows "owned (set_member t i f db)"
  unfolding owned_def
proof
  fix tt assume "tt \<in> set (tenants (set_member t i f db))"
  then obtain m0 where m0: "m0 \<in> set (members db)" "active_owner (t_id tt) m0" using inv(1) by (auto simp: owned_def)
  note target = lockMember_InrD [OF lock]
  have unhit: "m \<in> set (members (set_member t i f db))" if "m \<in> set (members db)" "m_id m \<noteq> i \<or> m_tenant m \<noteq> t" for m
    using update_whereI [OF that(1), of "\<lambda>m. m_tenant m = t \<and> m_id m = i" f] that(2) by (auto simp: set_member_def)
  show "\<exists>m \<in> set (members (set_member t i f db)). active_owner (t_id tt) m"
  proof (cases "m_tenant m0 = t \<and> m_id m0 = i")
    case True
    then have "m0 = target" using unique_id [OF inv(2) m0(1)] target by simp
    moreover have "t_id tt = t" using True m0(2) by (simp add: active_owner_def)
    moreover have "f target \<in> set (members (set_member t i f db))"
      using update_whereI [of target "members db" "\<lambda>m. m_tenant m = t \<and> m_id m = i" f] target by (simp add: set_member_def)
    ultimately show ?thesis using keep m0(2) unhit by metis
  next
    case False
    then show ?thesis using unhit m0 by blast
  qed
qed

lemma set_member_unique:
  "members_unique lower db \<Longrightarrow> (\<And>m. m_id (f m) = m_id m \<and> m_email (f m) = m_email m) \<Longrightarrow> members_unique lower (set_member t i f db)"
  by (simp add: members_unique_def set_member_def map_update_where)

lemma set_member_match:
  "sessions_match db \<Longrightarrow> (\<And>m. m_id (f m) = m_id m \<and> m_tenant (f m) = m_tenant m) \<Longrightarrow> sessions_match (set_member t i f db)"
  unfolding sessions_match_def set_member_def by (auto elim!: in_update_whereE)

lemma revoke_all_match: "sessions_match db \<Longrightarrow> sessions_match (snd (session_revoke_all h now t i e db))"
  unfolding sessions_match_def session_revoke_all_def by (auto elim!: in_update_whereE split: if_splits)

definition directory_inv :: "(string \<Rightarrow> string) \<Rightarrow> auth_db \<Rightarrow> bool" where
  "directory_inv lower db \<longleftrightarrow> owned db \<and> members_unique lower db \<and> sessions_match db \<and>
     (\<forall>s \<in> set (sessions db). \<exists>m \<in> set (members db). s_member s = m_id m)"

lemma directory_inv_cong:
  "members db' = members db \<Longrightarrow> tenants db' = tenants db \<Longrightarrow> sessions db' = sessions db \<Longrightarrow> directory_inv lower db' = directory_inv lower db"
  by (simp add: directory_inv_def owned_def members_unique_def sessions_match_def)

lemma directory_inv_revoke_all:
  "directory_inv lower db \<Longrightarrow> directory_inv lower (snd (session_revoke_all h now t i e db))"
  using revoke_all_match [of db h now t i e]
  by (auto simp: directory_inv_def owned_def members_unique_def) (auto simp: session_revoke_all_def elim!: in_update_whereE)

lemma directory_inv_set_member:
  assumes "directory_inv lower db" "lockMember t i db = Inr target" "\<And>m. m_id (f m) = m_id m \<and> m_tenant (f m) = m_tenant m \<and> m_email (f m) = m_email m"
    "active_owner t target \<Longrightarrow> active_owner t (f target) \<or> (\<exists>m \<in> set (members db). active_owner t m \<and> m_id m \<noteq> i)"
  shows "directory_inv lower (set_member t i f db)"
proof -
  have "\<exists>m \<in> set (members (set_member t i f db)). s_member s = m_id m" if s: "s \<in> set (sessions db)" for s
  proof -
    obtain m where "m \<in> set (members db)" "s_member s = m_id m" using assms(1) s unfolding directory_inv_def by blast
    then show ?thesis
      using update_whereI [of m "members db" "\<lambda>m. m_tenant m = t \<and> m_id m = i" f] assms(3) [of m]
      by (intro bexI [of _ "if m_tenant m = t \<and> m_id m = i then f m else m"]) (auto simp: set_member_def)
  qed
  then show ?thesis
    using assms set_member_owned [OF _ _ assms(2), of lower f] set_member_unique [of lower db f t i] set_member_match [of db f t i]
    by (auto simp: directory_inv_def)
qed

lemma changeRole_inv:
  assumes "directory_inv lower db" "changeRole h now t actor i role db = Inr (n, db')"
  shows "directory_inv lower db'"
  using assms(2)
proof (rule changeRole_InrE)
  fix target
  assume a: "lockMember t i db = Inr target"
    "m_role target = ''owner'' \<and> role \<noteq> ''owner'' \<longrightarrow> (\<exists>m \<in> set (members db). active_owner t m \<and> m_id m \<noteq> i)"
    "(n, db') = session_revoke_all h now t i None (set_member t i (\<lambda>m. m\<lparr>m_role := role\<rparr>) db)"
  have "directory_inv lower (set_member t i (\<lambda>m. m\<lparr>m_role := role\<rparr>) db)"
    by (rule directory_inv_set_member [OF assms(1) a(1)]) (use a(2) in \<open>auto simp: active_owner_def\<close>)
  then show ?thesis using directory_inv_revoke_all a(3) by (metis snd_conv)
qed

lemma remove_member_inv:
  assumes "directory_inv lower db" "remove_member h now t actor me i db = Inr (n, db')"
  shows "directory_inv lower db'"
  using assms(2)
proof (rule remove_member_InrE)
  fix target
  assume a: "lockMember t i db = Inr target"
    "m_role target = ''owner'' \<longrightarrow> (\<exists>m \<in> set (members db). active_owner t m \<and> m_id m \<noteq> i)"
    "(n, db') = session_revoke_all h now t i None (set_member t i (\<lambda>m. m\<lparr>m_status := Disabled\<rparr>) db)"
  have "directory_inv lower (set_member t i (\<lambda>m. m\<lparr>m_status := Disabled\<rparr>) db)"
    by (rule directory_inv_set_member [OF assms(1) a(1)]) (use a(2) in \<open>auto simp: active_owner_def\<close>)
  then show ?thesis using directory_inv_revoke_all a(3) by (metis snd_conv)
qed

lemma insert_member_inv:
  assumes "directory_inv lower db" "insert_member lower m db = Inr db'" "m_id m \<notin> set (map m_id (members db))"
  shows "directory_inv lower db'"
proof -
  have db': "db' = db\<lparr>members := members db @ [m]\<rparr>" "lower (m_email m) \<notin> set (map (\<lambda>r. lower (m_email r)) (members db))"
    using assms(2) by (auto simp: insert_member_def split: if_splits)
  have "s_member s \<noteq> m_id m" if "s \<in> set (sessions db)" for s
    using assms(1,3) that unfolding directory_inv_def by (metis image_eqI list.set_map)
  then show ?thesis
    using assms(1,3) db' by (auto simp: directory_inv_def owned_def members_unique_def sessions_match_def)
qed

lemma member_create_InrE:
  assumes "member_create lower mid hash t actor email name role db = Inr (m, db')"
  obtains "m = new_member mid t email hash name role" "insert_member lower m db = Inr db'" "isRole role"
    "role = ''owner'' \<longrightarrow> actor = ''owner''"
proof (cases "assertAssignableRole actor role")
  case (Inr u)
  let ?m = "new_member mid t email hash name role"
  have "\<not> list_ex (\<lambda>m. m_tenant m = t \<and> lower (m_email m) = lower email) (members db)"
    using assms Inr unfolding member_create_def by (simp only: sum.case split: if_splits) simp_all
  then have eq: "(case insert_member lower ?m db of Inl e \<Rightarrow> Inl e | Inr db' \<Rightarrow> Inr (?m, db')) = Inr (m, db')"
    using assms Inr unfolding member_create_def Let_def by (simp only: sum.case if_False)
  have "isRole role" "role = ''owner'' \<longrightarrow> actor = ''owner''"
    using Inr unfolding assertAssignableRole_def by (auto split: if_splits)
  with eq that show thesis by (cases "insert_member lower ?m db") auto
next
  case (Inl e)
  then show thesis using assms unfolding member_create_def by simp
qed

lemma member_create_inv:
  assumes "directory_inv lower db" "member_create lower mid hash t actor email name role db = Inr (m, db')"
    "mid \<notin> set (map m_id (members db))"
  shows "directory_inv lower db'"
  using assms(2)
proof (rule member_create_InrE)
  assume m: "m = new_member mid t email hash name role" and ins: "insert_member lower m db = Inr db'"
  have "m_id m \<notin> set (map m_id (members db))" using assms(3) m by (simp add: new_member_def)
  with assms(1) ins show ?thesis by (rule insert_member_inv)
qed

text \<open>The requests of the members controller; the id of a new member is fresh, as a random UUID is.\<close>

datatype member_request =
    ListMembers request
  | CreateMember string "string \<Rightarrow> string" request
  | ChangeRole string request
  | RemoveMember string request

definition member_step ::
  "(string \<Rightarrow> string) \<Rightarrow> (string \<Rightarrow> string) \<Rightarrow> (string \<Rightarrow> bool) \<Rightarrow> (string \<Rightarrow> bool) \<Rightarrow> int \<times> member_request \<Rightarrow> auth_db \<Rightarrow> auth_db" where
  "member_step h lower is_email is_uuid r db =
     (case r of
        (now, ListMembers q) \<Rightarrow> snd (members_list_handler h now q db)
      | (now, CreateMember mid argon2 q) \<Rightarrow>
          if mid \<in> set (map m_id (members db)) then db else snd (members_create_handler h lower is_email now mid argon2 q db)
      | (now, ChangeRole i q) \<Rightarrow> snd (members_change_role_handler h is_uuid now i q db)
      | (now, RemoveMember i q) \<Rightarrow> snd (members_remove_handler h is_uuid now i q db))"

lemma recordAs_inv [simp]: "directory_inv lower (recordAs a ip act tt ti db) = directory_inv lower db"
  by (rule directory_inv_cong) simp_all

lemma guarded_inv:
  "directory_inv lower db \<Longrightarrow> (\<And>m. directory_inv lower (snd (k m))) \<Longrightarrow> directory_inv lower (snd (guarded h now q p db k))"
  by (auto simp: guarded_def split: sum.split)

lemma members_create_handler_inv:
  "directory_inv lower db \<Longrightarrow> mid \<notin> set (map m_id (members db)) \<Longrightarrow>
   directory_inv lower (snd (members_create_handler h lower is_email now mid argon2 q db))"
  unfolding members_create_handler_def
  by (rule guarded_inv) (auto intro: member_create_inv split: option.split sum.split)

lemma members_change_role_handler_inv:
  "directory_inv lower db \<Longrightarrow> directory_inv lower (snd (members_change_role_handler h is_uuid now i q db))"
  unfolding members_change_role_handler_def
  by (rule guarded_inv) (auto intro: changeRole_inv split: option.split sum.split)

lemma members_remove_handler_inv:
  "directory_inv lower db \<Longrightarrow> directory_inv lower (snd (members_remove_handler h is_uuid now i q db))"
  unfolding members_remove_handler_def
  by (rule guarded_inv) (auto intro: remove_member_inv split: sum.split)

lemma member_step_inv: "directory_inv lower db \<Longrightarrow> directory_inv lower (member_step h lower is_email is_uuid r db)"
  using members_create_handler_inv members_change_role_handler_inv members_remove_handler_inv
  by (auto simp: member_step_def members_list_handler_def intro: guarded_inv split: member_request.split prod.split)

interpretation team: invariant_system "member_step h lower is_email is_uuid" "directory_inv lower"
  for h lower is_email is_uuid
  by unfold_locales (rule member_step_inv)

section \<open>Effects on the member table\<close>

lemma filter_update_where:
  "(\<And>r. r \<in> set rows \<Longrightarrow> p r \<Longrightarrow> \<not> g r \<and> \<not> g (f r)) \<Longrightarrow> filter g (update_where p f rows) = filter g rows"
  by (induction rows) (auto simp: update_where_def)

fun request_of :: "member_request \<Rightarrow> request" where
  "request_of (ListMembers q) = q"
| "request_of (CreateMember _ _ q) = q"
| "request_of (ChangeRole _ q) = q"
| "request_of (RemoveMember _ q) = q"

text \<open>
  A part \<open>g\<close> of the member table that the operations of an actor cannot touch: the rows in it are no targets, and
  no row enters it.
\<close>

definition beyond :: "session_member \<Rightarrow> (member_row \<Rightarrow> bool) \<Rightarrow> bool" where
  "beyond me g \<longleftrightarrow>
     (\<forall>m. m_tenant m = sm_tenant me \<longrightarrow> (m_role m = ''owner'' \<longrightarrow> sm_role me = ''owner'') \<longrightarrow> \<not> g m)"

lemma changeRole_beyond:
  assumes "members_unique lower db" "changeRole h now (sm_tenant me) (sm_role me) i role db = Inr (n, db')" "beyond me g"
  shows "filter g (members db') = filter g (members db)"
  using assms(2)
proof (rule changeRole_InrE)
  fix target
  assume a: "lockMember (sm_tenant me) i db = Inr target" "role = ''owner'' \<longrightarrow> sm_role me = ''owner''"
    "m_role target = ''owner'' \<longrightarrow> sm_role me = ''owner''"
    "(n, db') = session_revoke_all h now (sm_tenant me) i None (set_member (sm_tenant me) i (\<lambda>m. m\<lparr>m_role := role\<rparr>) db)"
  have "members db' = update_where (\<lambda>m. m_tenant m = sm_tenant me \<and> m_id m = i) (\<lambda>m. m\<lparr>m_role := role\<rparr>) (members db)"
    using arg_cong [OF a(4), of snd] by (simp add: session_revoke_all_def set_member_def)
  moreover have "r = target" if "r \<in> set (members db)" "m_tenant r = sm_tenant me \<and> m_id r = i" for r
    using unique_id [OF assms(1) that(1)] lockMember_InrD [OF a(1)] that(2) by simp
  ultimately show ?thesis
    using a(2,3) assms(3) by (auto simp: beyond_def intro!: filter_update_where)
qed

lemma remove_member_beyond:
  assumes "members_unique lower db" "remove_member h now (sm_tenant me) (sm_role me) self i db = Inr (n, db')" "beyond me g"
  shows "filter g (members db') = filter g (members db)"
  using assms(2)
proof (rule remove_member_InrE)
  fix target
  assume a: "lockMember (sm_tenant me) i db = Inr target" "m_role target = ''owner'' \<longrightarrow> sm_role me = ''owner''"
    "(n, db') = session_revoke_all h now (sm_tenant me) i None (set_member (sm_tenant me) i (\<lambda>m. m\<lparr>m_status := Disabled\<rparr>) db)"
  have "members db' = update_where (\<lambda>m. m_tenant m = sm_tenant me \<and> m_id m = i) (\<lambda>m. m\<lparr>m_status := Disabled\<rparr>) (members db)"
    using arg_cong [OF a(3), of snd] by (simp add: session_revoke_all_def set_member_def)
  moreover have "r = target" if "r \<in> set (members db)" "m_tenant r = sm_tenant me \<and> m_id r = i" for r
    using unique_id [OF assms(1) that(1)] lockMember_InrD [OF a(1)] that(2) by simp
  ultimately show ?thesis
    using a(2) assms(3) by (auto simp: beyond_def intro!: filter_update_where)
qed

lemma member_create_beyond:
  assumes "member_create lower mid hash (sm_tenant me) (sm_role me) email name role db = Inr (m, db')" "beyond me g"
  shows "filter g (members db') = filter g (members db)"
  using assms(1)
proof (rule member_create_InrE)
  assume m: "m = new_member mid (sm_tenant me) email hash name role" and ins: "insert_member lower m db = Inr db'"
    and r: "role = ''owner'' \<longrightarrow> sm_role me = ''owner''"
  have "\<not> g m" using assms(2) r m by (simp add: beyond_def new_member_def)
  moreover have "members db' = members db @ [m]" using ins by (simp add: insert_member_def split: if_splits) auto
  ultimately show ?thesis by simp
qed

lemma member_step_beyond:
  assumes inv: "members_unique lower db" and me: "SessionGuard h now (q_cookie (request_of r)) (q_url (request_of r)) db = Inr me"
    and g: "beyond me g"
  shows "filter g (members (member_step h lower is_email is_uuid (now, r) db)) = filter g (members db)"
proof (cases r)
  case (ListMembers q)
  then show ?thesis using me by (simp add: member_step_def members_list_handler_def guarded_def split: sum.split)
next
  case (CreateMember mid argon2 q)
  then show ?thesis using me member_create_beyond [OF _ g]
    by (auto simp: member_step_def members_create_handler_def guarded_def split: sum.split option.split)
next
  case (ChangeRole i q)
  then show ?thesis using me changeRole_beyond [OF inv _ g]
    by (auto simp: member_step_def members_change_role_handler_def guarded_def split: sum.split option.split)
next
  case (RemoveMember i q)
  then show ?thesis using me remove_member_beyond [OF inv _ g]
    by (auto simp: member_step_def members_remove_handler_def guarded_def split: sum.split)
qed

section \<open>Properties\<close>

text \<open>
  C11: a tenant never loses its last owner. Whatever requests the members controller receives, in whatever order and by
  whomever, every tenant keeps an active owner and member ids, e-mails and sessions stay consistent.
\<close>

theorem members_always_owned:
  assumes "directory_inv lower db" and "t \<in> set (tenants (fold (member_step h lower is_email is_uuid) rs db))"
  shows "\<exists>m \<in> set (members (fold (member_step h lower is_email is_uuid) rs db)). active_owner (t_id t) m"
  using team.run_inv [OF assms(1), of h is_email is_uuid rs] assms(2) by (simp add: directory_inv_def owned_def)


text \<open>
  No privilege escalation. A request of the members controller by someone who is not an owner creates no owner and changes no
  owner.
\<close>

theorem non_owner_cannot_touch_owners:
  assumes "members_unique lower db"
    and "SessionGuard h now (q_cookie (request_of r)) (q_url (request_of r)) db = Inr me" and "sm_role me \<noteq> ''owner''"
  shows "filter (\<lambda>m. m_role m = ''owner'') (members (member_step h lower is_email is_uuid (now, r) db)) =
    filter (\<lambda>m. m_role m = ''owner'') (members db)"
  using assms by (intro member_step_beyond) (auto simp: beyond_def)

text \<open>
  tenant isolation of the member administration. A request never changes the members of a tenant other than the one of
  the acting session.
\<close>

theorem member_requests_tenant_local:
  assumes "members_unique lower db"
    and "SessionGuard h now (q_cookie (request_of r)) (q_url (request_of r)) db = Inr me"
  shows "filter (\<lambda>m. m_tenant m \<noteq> sm_tenant me) (members (member_step h lower is_email is_uuid (now, r) db)) =
    filter (\<lambda>m. m_tenant m \<noteq> sm_tenant me) (members db)"
  using assms by (intro member_step_beyond) (auto simp: beyond_def)

lemma target_sessions_dead:
  assumes inv: "directory_inv lower db'" and t: "m0 \<in> set (members db')" "m_id m0 = i" "m_tenant m0 = t"
    and db': "(n, db') = session_revoke_all h now t i None db1"
    and res: "session_resolve h now' tok db' = Some sm"
  shows "sm_member sm \<noteq> i"
proof
  assume i: "sm_member sm = i"
  from res obtain s m where s: "s \<in> set (sessions db')" "m \<in> set (members db')" "session_live now' s" "s_member s = m_id m" "sm_member sm = m_id m"
    by (rule session_resolve_SomeE)
  then have "m = m0" using unique_id [of lower db' m m0] inv t i by (simp add: directory_inv_def)
  then have "s_tenant s = t" "s_member s = i" using inv s t by (auto simp: directory_inv_def sessions_match_def)
  then show False using revoke_all_ends [of s h now t i db1 now'] s db' by (metis snd_conv)
qed

text \<open>
  A role change or a removal takes effect at once. After it committed, no session token resolves to the target member any
  more, at any later time.
\<close>

theorem role_change_ends_sessions:
  assumes "directory_inv lower db"
    and "changeRole h now t actor i role db = Inr (n, db') \<or> remove_member h now t actor self i db = Inr (n, db')"
    and "session_resolve h now' tok db' = Some sm"
  shows "sm_member sm \<noteq> i"
proof -
  obtain f target where f: "lockMember t i db = Inr target" "(n, db') = session_revoke_all h now t i None (set_member t i f db)"
    "m_id (f target) = m_id target" "m_tenant (f target) = m_tenant target"
    using assms(2) by (fastforce elim: changeRole_InrE remove_member_InrE)
  have inv: "directory_inv lower db'"
    using assms(1,2) changeRole_inv remove_member_inv by blast
  have "members db' = members (set_member t i f db)" using arg_cong [OF f(2), of snd] by simp
  then have "f target \<in> set (members db')"
    using update_whereI [of target "members db" "\<lambda>m. m_tenant m = t \<and> m_id m = i" f] lockMember_InrD [OF f(1)]
    by (simp add: set_member_def)
  then show ?thesis
    using target_sessions_dead [OF inv _ _ _ f(2) assms(3)] f(3,4) lockMember_InrD [OF f(1)] by simp
qed

text \<open>
  Roles form a hierarchy and everything else is denied. Each role's permissions contain those of the role below it, a permission
  check agrees with the list given to the console, an unknown role has no permission, and only admins and owners write to the team.
\<close>

theorem role_hierarchy:
  "set (permissionsForRole ''viewer'') \<subset> set (permissionsForRole ''editor'') \<and>
   set (permissionsForRole ''editor'') \<subset> set (permissionsForRole ''admin'') \<and>
   set (permissionsForRole ''admin'') \<subset> set (permissionsForRole ''owner'') \<and>
   {r. can r p} = {r. p \<in> set (permissionsForRole r)} \<and>
   {r. can r p} \<subseteq> {''viewer'', ''editor'', ''admin'', ''owner''} \<and>
   {r. can r ''team:write''} = {''admin'', ''owner''} \<and> {r. can r ''tenant:delete''} = {''owner''}"
proof -
  have "set (permissionsForRole ''viewer'') \<subset> set (permissionsForRole ''editor'')"
    "set (permissionsForRole ''editor'') \<subset> set (permissionsForRole ''admin'')"
    "set (permissionsForRole ''admin'') \<subset> set (permissionsForRole ''owner'')"
    by code_simp+
  moreover have "{r. can r p} = {r. p \<in> set (permissionsForRole r)}"
    by (auto simp: can_def permissionsForRole_def)
  moreover have "{r. can r p} \<subseteq> {''viewer'', ''editor'', ''admin'', ''owner''}"
    by (auto simp: can_def isRole_def)
  moreover have "{r. can r ''team:write''} = {''admin'', ''owner''}" "{r. can r ''tenant:delete''} = {''owner''}"
    by (auto simp: can_def isRole_def ROLE_PERMISSIONS_def map_get_or_def READ_ALL_def EDITOR_def ADMIN_def OWNER_def)
  ultimately show ?thesis by blast
qed

text \<open>
  which addresses a new member may have. An address used in the same tenant is refused as a conflict; one used only in
  another tenant passes that check and fails on the global unique index, as an internal error.
\<close>

theorem member_create_email_errors:
  assumes "isRole role" and "role = ''owner'' \<longrightarrow> actor = ''owner''"
  shows "member_create lower mid hash t actor email name role db =
    (if (\<exists>m \<in> set (members db). m_tenant m = t \<and> lower (m_email m) = lower email) then Inl (Conflict ''email exists'')
     else if (\<exists>m \<in> set (members db). lower (m_email m) = lower email) then Inl (Internal ''unique_violation'')
     else Inr (new_member mid t email hash name role,
               db\<lparr>members := members db @ [new_member mid t email hash name role]\<rparr>))"
proof -
  have r: "assertAssignableRole actor role = Inr ()" using assms by (simp add: assertAssignableRole_def)
  have e: "m_email (new_member mid t email hash name role) = email" by (simp add: new_member_def)
  have "lower email \<in> set (map (\<lambda>r. lower (m_email r)) (members db)) \<longleftrightarrow> (\<exists>m \<in> set (members db). lower (m_email m) = lower email)"
    by force
  then show ?thesis unfolding member_create_def r Let_def insert_member_def e sum.case list_ex_iff by auto
qed


section \<open>Concrete instances\<close>

definition sample_member :: "string \<Rightarrow> string \<Rightarrow> member_row" where
  "sample_member i role = new_member i ''t1'' (i @ ''@x.io'') ''hash'' i role"

definition sample_session :: "string \<Rightarrow> session_row" where
  "sample_session i = \<lparr>s_tenant = ''t1'', s_member = i, s_token_hash = ''tok-'' @ i, s_ip = None, s_user_agent = None,
     s_expires_at = 1000, s_revoked_at = None\<rparr>"

definition sample_auth :: auth_db where
  "sample_auth =
     \<lparr>tenants = [\<lparr>t_id = ''t1'', t_name = ''T'', t_require_2fa = False, t_delete_requested_at = None, t_purge_after = None\<rparr>],
      members = [sample_member ''o1'' ''owner'', sample_member ''o2'' ''owner'', sample_member ''a1'' ''admin''],
      backup_codes = [], sessions = [sample_session ''o1'', sample_session ''o2'', sample_session ''a1''],
      apps = [], api_keys = [], installation = None, audits = []\<rparr>"

definition sample_request :: "string \<Rightarrow> request" where
  "sample_request i = \<lparr>q_cookie = Some (''tok-'' @ i), q_url = ''/v1/members'', q_ip = None, q_user_agent = None,
     q_body = JObj [(''role'', JStr ''viewer'')]\<rparr>"

lemma sample_auth_inv: "directory_inv (\<lambda>s. s) sample_auth"
  by (simp add: directory_inv_def owned_def members_unique_def sessions_match_def sample_auth_def sample_member_def
      new_member_def sample_session_def active_owner_def)

lemma sample_auth_unique: "members_unique (\<lambda>s. s) sample_auth"
  using sample_auth_inv by (simp add: directory_inv_def)

lemma sample_guard_admin:
  "SessionGuard (\<lambda>s. s) 5 (q_cookie (request_of (RemoveMember ''o1'' (sample_request ''a1''))))
     (q_url (request_of (RemoveMember ''o1'' (sample_request ''a1'')))) sample_auth =
   Inr \<lparr>sm_member = ''a1'', sm_tenant = ''t1'', sm_email = ''a1@x.io'', sm_name = ''a1'', sm_role = ''admin'',
        sm_totp_enabled = False, sm_requires_2fa = False\<rparr>"
  by code_simp

definition sample_run :: auth_db where
  "sample_run = fold (member_step (\<lambda>s. s) (\<lambda>s. s) (\<lambda>_. True) (\<lambda>_. True))
     [(5, RemoveMember ''o1'' (sample_request ''o2'')), (6, ChangeRole ''o2'' (sample_request ''o2''))] sample_auth"

lemma members_always_owned_witness: "\<exists>m \<in> set (members sample_run). active_owner ''t1'' m"
proof -
  have "map t_id (tenants sample_run) = [''t1'']" by code_simp
  then obtain t where t: "t \<in> set (tenants sample_run)" "t_id t = ''t1''" by (cases "tenants sample_run") auto
  show ?thesis using members_always_owned [OF sample_auth_inv t(1) [unfolded sample_run_def]] t(2) by (simp add: sample_run_def)
qed

lemma non_owner_cannot_touch_owners_witness:
  "filter (\<lambda>m. m_role m = ''owner'') (members (member_step (\<lambda>s. s) (\<lambda>s. s) (\<lambda>_. True) (\<lambda>_. True)
      (5, RemoveMember ''o1'' (sample_request ''a1'')) sample_auth)) = [sample_member ''o1'' ''owner'', sample_member ''o2'' ''owner'']"
  by (subst non_owner_cannot_touch_owners [OF sample_auth_unique sample_guard_admin])
     (simp_all add: sample_auth_def sample_member_def new_member_def)

lemma member_requests_tenant_local_witness:
  "filter (\<lambda>m. m_tenant m \<noteq> ''t1'') (members (member_step (\<lambda>s. s) (\<lambda>s. s) (\<lambda>_. True) (\<lambda>_. True)
      (5, RemoveMember ''o1'' (sample_request ''a1'')) sample_auth)) = []"
  using member_requests_tenant_local [OF sample_auth_unique sample_guard_admin, of "\<lambda>_. True" "\<lambda>_. True"]
  by (simp add: sample_auth_def sample_member_def new_member_def)

lemma role_change_ends_sessions_witness:
  "\<exists>n db'. remove_member (\<lambda>s. s) 5 ''t1'' ''owner'' ''o1'' ''a1'' sample_auth = Inr (n, db') \<and>
     map_option sm_member (session_resolve (\<lambda>s. s) 6 ''tok-a1'' db') \<noteq> Some ''a1'' \<and> n = 1"
proof -
  have "map_sum (\<lambda>_. ()) fst (remove_member (\<lambda>s. s) 5 ''t1'' ''owner'' ''o1'' ''a1'' sample_auth) = Inr 1" by code_simp
  then obtain db' where r: "remove_member (\<lambda>s. s) 5 ''t1'' ''owner'' ''o1'' ''a1'' sample_auth = Inr (1, db')"
    by (cases "remove_member (\<lambda>s. s) 5 ''t1'' ''owner'' ''o1'' ''a1'' sample_auth") auto
  have "map_option sm_member (session_resolve (\<lambda>s. s) 6 ''tok-a1'' db') \<noteq> Some ''a1''"
    using role_change_ends_sessions [OF sample_auth_inv disjI2, OF r, of 6 "''tok-a1''"] by auto
  with r show ?thesis by blast
qed

lemma member_create_email_errors_witness:
  "member_create (\<lambda>s. s) ''n1'' ''hash'' ''t2'' ''owner'' ''a1@x.io'' ''N'' ''viewer'' sample_auth = Inl (Internal ''unique_violation'')"
  by (subst member_create_email_errors) (simp_all add: isRole_def sample_auth_def sample_member_def new_member_def)

end
