(* ===== verification/Api_Keys.thy ===== *)
theory Api_Keys
  imports Members
begin

text \<open>
  API keys: generation, resolution and the guard of the SDK and server endpoints (\<open>auth/api-key.service.ts\<close>,
  \<open>auth/api-key.guard.ts\<close>), the budget of background usage writes (\<open>auth/api-key-usage.ts\<close>) and their administration
  (\<open>apps/apps.controller.ts\<close>). Random key material and row ids are arguments; the unique indexes on the id and on
  the hash of a key refuse duplicates. Lists are in table order; the sort order of a listing is not represented. Rotation reads the key before its transaction begins, so it is two steps.
\<close>

section \<open>Keys\<close>

definition generateApiKey :: "(string \<Rightarrow> string) \<Rightarrow> key_kind \<Rightarrow> string \<Rightarrow> string \<times> string \<times> string" where
  "generateApiKey h kind raw =
     (let key = (if kind = Sdk then ''pk'' else ''sk'') @ ''_'' @ raw in (key, h key, take 11 key))"

definition is_key_char :: "char \<Rightarrow> bool" where
  "is_key_char c \<longleftrightarrow>
     (let n = (of_char c :: nat) in (65 \<le> n \<and> n \<le> 90) \<or> (97 \<le> n \<and> n \<le> 122) \<or> (48 \<le> n \<and> n \<le> 57) \<or> n = 95 \<or> n = 45)"

text \<open>\<open>/^(pk|sk)_[A-Za-z0-9_-]{20,}$/\<close>\<close>

definition key_format :: "string \<Rightarrow> bool" where
  "key_format raw \<longleftrightarrow> take 3 raw \<in> {''pk_'', ''sk_''} \<and> 20 \<le> length (drop 3 raw) \<and> list_all is_key_char (drop 3 raw)"

record resolved_key =
  rk_id :: string
  rk_tenant :: string
  rk_app :: string
  rk_kind :: key_kind
  rk_scope :: key_scope

definition usage_due :: "int \<Rightarrow> api_key_row \<Rightarrow> bool" where
  "usage_due now k \<longleftrightarrow> (case k_last_used_at k of None \<Rightarrow> True | Some t \<Rightarrow> t < now - 60000)"

text \<open>\<open>ApiKeyService.resolve\<close>: the key and whether its usage is due to be recorded\<close>

definition resolve_key :: "(string \<Rightarrow> string) \<Rightarrow> int \<Rightarrow> string \<Rightarrow> auth_db \<Rightarrow> (resolved_key \<times> bool) option" where
  "resolve_key h now rawKey db =
     (if \<not> key_format rawKey then None
      else case find (\<lambda>k. k_hash k = h rawKey) (api_keys db) of
        None \<Rightarrow> None
      | Some row \<Rightarrow>
          if k_status row = KeyRevoked then None
          else if k_status row = KeyRotating \<and> (case k_grace_expires_at row of None \<Rightarrow> False | Some g \<Rightarrow> g < now) then None
          else Some (\<lparr>rk_id = k_id row, rk_tenant = k_tenant row, rk_app = k_app row, rk_kind = k_kind row, rk_scope = k_scope row\<rparr>,
                     usage_due now row))"

section \<open>Guard\<close>

definition ascii_lower :: "char \<Rightarrow> char" where
  "ascii_lower c = (if 65 \<le> (of_char c :: nat) \<and> of_char c \<le> (90 :: nat) then char_of (of_char c + 32 :: nat) else c)"

text \<open>\<open>header.replace(/^Bearer\s+/i, "")\<close>\<close>

definition strip_bearer :: "string \<Rightarrow> string" where
  "strip_bearer s =
     (if map ascii_lower (take 6 s) = ''bearer'' \<and> strip_left js_ws (drop 6 s) \<noteq> drop 6 s then strip_left js_ws (drop 6 s) else s)"

definition ApiKeyGuard ::
  "(string \<Rightarrow> string) \<Rightarrow> int \<Rightarrow> key_kind list \<Rightarrow> key_scope option \<Rightarrow> string option \<Rightarrow> string option \<Rightarrow> auth_db \<Rightarrow>
     http_error + resolved_key option" where
  "ApiKeyGuard h now kinds requiredScope authorization x_api_key db =
     (if kinds = [] then Inr None
      else let raw = (case authorization of Some a \<Rightarrow> strip_bearer a | None \<Rightarrow> (case x_api_key of Some k \<Rightarrow> k | None \<Rightarrow> []))
        in if raw = [] then Inl (Unauthorized ''api key required'')
           else case resolve_key h now raw db of
             None \<Rightarrow> Inl (Unauthorized ''invalid api key'')
           | Some (k, _) \<Rightarrow>
               if rk_kind k \<notin> set kinds then Inl (Unauthorized ''key kind'')
               else if requiredScope = Some Full \<and> rk_scope k \<noteq> Full then Inl (Forbidden ''full scope'')
               else Inr (Some k))"

section \<open>Usage writes\<close>

definition API_KEY_USAGE_MAX_PENDING :: nat where
  "API_KEY_USAGE_MAX_PENDING = 2"

text \<open>The keys with a pending write (the \<open>pending\<close> set) and the background jobs under way\<close>

record usage =
  pending :: "string list"
  jobs :: "resolved_key list"

definition usage_record :: "bool \<Rightarrow> resolved_key \<Rightarrow> bool \<Rightarrow> usage \<Rightarrow> usage" where
  "usage_record enabled key due u =
     (if enabled then
        if \<not> due then u
        else if rk_id key \<in> set (pending u) then u
        else if API_KEY_USAGE_MAX_PENDING \<le> length (pending u) then u
        else u\<lparr>pending := pending u @ [rk_id key], jobs := jobs u @ [key]\<rparr>
      else u\<lparr>jobs := jobs u @ [key]\<rparr>)"

definition usage_write :: "bool \<Rightarrow> int \<Rightarrow> resolved_key \<Rightarrow> auth_db \<Rightarrow> auth_db" where
  "usage_write enabled now key db =
     db\<lparr>api_keys := update_where
          (\<lambda>k. k_id k = rk_id key \<and> k_tenant k = rk_tenant key \<and> k_app k = rk_app key \<and>
               (enabled \<longrightarrow> k_status k \<noteq> KeyRevoked \<and>
                  (k_status k \<noteq> KeyRotating \<or> (case k_grace_expires_at k of None \<Rightarrow> True | Some g \<Rightarrow> now \<le> g)) \<and> usage_due now k))
          (\<lambda>k. k\<lparr>k_last_used_at := Some now\<rparr>) (api_keys db)\<rparr>"

text \<open>The end of a job, whether its write succeeded or not\<close>

definition usage_finish :: "resolved_key \<Rightarrow> usage \<Rightarrow> usage" where
  "usage_finish key u = u\<lparr>pending := removeAll (rk_id key) (pending u), jobs := remove1 key (jobs u)\<rparr>"

section \<open>Administration\<close>

definition assertApp :: "string \<Rightarrow> session_member \<Rightarrow> auth_db \<Rightarrow> http_error + unit" where
  "assertApp appId me db =
     (if list_ex (\<lambda>a. a_id a = appId \<and> a_tenant a = sm_tenant me) (apps db) then Inr () else Inl (NotFound ''app''))"

definition assertKeyAdmin :: "session_member \<Rightarrow> http_error + unit" where
  "assertKeyAdmin me = (if sm_role me \<in> {''owner'', ''admin''} then Inr () else Inl (Forbidden ''api keys''))"

definition new_key_row :: "string \<Rightarrow> string \<Rightarrow> string \<Rightarrow> key_kind \<Rightarrow> string \<Rightarrow> string \<Rightarrow> api_key_row" where
  "new_key_row kid tenantId appId kind pre hsh =
     \<lparr>k_id = kid, k_tenant = tenantId, k_app = appId, k_kind = kind, k_scope = Full, k_prefix = pre, k_hash = hsh,
      k_status = KeyActive, k_grace_expires_at = None, k_last_used_at = None\<rparr>"

definition insert_key :: "api_key_row \<Rightarrow> auth_db \<Rightarrow> http_error + auth_db" where
  "insert_key k db =
     (if k_hash k \<in> set (map k_hash (api_keys db)) \<or> k_id k \<in> set (map k_id (api_keys db)) then Inl (Internal ''unique_violation'')
      else Inr (db\<lparr>api_keys := api_keys db @ [k]\<rparr>))"

definition SDK_ROTATION_GRACE_DAYS :: int where
  "SDK_ROTATION_GRACE_DAYS = 30"

text \<open>What a handler does before it touches the keys of an app\<close>

definition key_admin ::
  "(string \<Rightarrow> string) \<Rightarrow> (string \<Rightarrow> bool) \<Rightarrow> int \<Rightarrow> string list \<Rightarrow> string \<Rightarrow> request \<Rightarrow> auth_db \<Rightarrow>
     (session_member \<Rightarrow> (auth_db, 'a) reply) \<Rightarrow> (auth_db, 'a) reply" where
  "key_admin h is_uuid now params appId q db k =
     guarded h now q None db (\<lambda>me.
       if \<not> list_all is_uuid params then (Inl (BadRequest ''uuid''), db)
       else case assertApp appId me db of
         Inl e \<Rightarrow> (Inl e, db)
       | Inr _ \<Rightarrow> (case assertKeyAdmin me of Inl e \<Rightarrow> (Inl e, db) | Inr _ \<Rightarrow> k me))"

definition apps_list :: "(string \<Rightarrow> string) \<Rightarrow> int \<Rightarrow> request \<Rightarrow> auth_db \<Rightarrow> (auth_db, app_row list) reply" where
  "apps_list h now q db = guarded h now q None db (\<lambda>me. (Inr (filter (\<lambda>a. a_tenant a = sm_tenant me) (apps db)), db))"

definition keys_list :: "(string \<Rightarrow> string) \<Rightarrow> (string \<Rightarrow> bool) \<Rightarrow> int \<Rightarrow> string \<Rightarrow> request \<Rightarrow> auth_db \<Rightarrow> (auth_db, api_key_row list) reply" where
  "keys_list h is_uuid now appId q db =
     key_admin h is_uuid now [appId] appId q db (\<lambda>me.
       (Inr (filter (\<lambda>k. k_tenant k = sm_tenant me \<and> k_app k = appId) (api_keys db)), db))"

text \<open>The checks of \<open>rotate\<close>, made on a state read before the transaction\<close>

definition rotate_check :: "string \<Rightarrow> string \<Rightarrow> session_member \<Rightarrow> auth_db \<Rightarrow> http_error + unit" where
  "rotate_check appId keyId me db =
     (case find (\<lambda>k. k_id k = keyId \<and> k_tenant k = sm_tenant me \<and> k_app k = appId) (api_keys db) of
        None \<Rightarrow> Inl (NotFound ''key'')
      | Some k \<Rightarrow>
          if k_kind k \<noteq> Sdk then Inl (BadRequest ''sdk keys only'')
          else if k_status k \<noteq> KeyActive then Inl (BadRequest ''active keys only'') else Inr ())"

text \<open>Its transaction\<close>

definition rotate_write ::
  "(string \<Rightarrow> string) \<Rightarrow> int \<Rightarrow> string \<Rightarrow> string \<Rightarrow> string \<Rightarrow> string \<Rightarrow> string \<Rightarrow> auth_db \<Rightarrow> (auth_db, string) outcome" where
  "rotate_write h now newId raw tenantId appId keyId db =
     (case generateApiKey h Sdk raw of
        (key, hsh, pre) \<Rightarrow>
          (let db1 = db\<lparr>api_keys := update_where (\<lambda>k. k_id k = keyId)
                 (\<lambda>k. k\<lparr>k_status := KeyRotating, k_grace_expires_at := Some (now + SDK_ROTATION_GRACE_DAYS * 86400000)\<rparr>) (api_keys db)\<rparr>
           in case insert_key (new_key_row newId tenantId appId Sdk pre hsh) db1 of
                Inl e \<Rightarrow> Inl e
              | Inr db2 \<Rightarrow> Inr (key, db2)))"

definition rotate_key ::
  "(string \<Rightarrow> string) \<Rightarrow> (string \<Rightarrow> bool) \<Rightarrow> int \<Rightarrow> string \<Rightarrow> string \<Rightarrow> string \<Rightarrow> string \<Rightarrow> request \<Rightarrow> auth_db \<Rightarrow> (auth_db, string) reply" where
  "rotate_key h is_uuid now newId raw appId keyId q db =
     key_admin h is_uuid now [appId, keyId] appId q db (\<lambda>me.
       case rotate_check appId keyId me db of
         Inl e \<Rightarrow> (Inl e, db)
       | Inr _ \<Rightarrow>
           (case rotate_write h now newId raw (sm_tenant me) appId keyId db of
              Inl e \<Rightarrow> (Inl e, db)
            | Inr (key, db1) \<Rightarrow> (Inr key, recordAs me (q_ip q) ''apikey.rotate'' (Some ''apikey'') (Some keyId) db1)))"

definition createServerKey ::
  "(string \<Rightarrow> string) \<Rightarrow> (string \<Rightarrow> bool) \<Rightarrow> int \<Rightarrow> string \<Rightarrow> string \<Rightarrow> string \<Rightarrow> request \<Rightarrow> auth_db \<Rightarrow> (auth_db, string \<times> string) reply" where
  "createServerKey h is_uuid now newId raw appId q db =
     key_admin h is_uuid now [appId] appId q db (\<lambda>me.
       case generateApiKey h Server raw of
         (key, hsh, pre) \<Rightarrow>
           (case insert_key (new_key_row newId (sm_tenant me) appId Server pre hsh) db of
              Inl e \<Rightarrow> (Inl e, db)
            | Inr db1 \<Rightarrow> (Inr (newId, key), recordAs me (q_ip q) ''apikey.create'' (Some ''apikey'') (Some newId) db1)))"

definition revocable :: "string \<Rightarrow> string \<Rightarrow> string \<Rightarrow> api_key_row \<Rightarrow> bool" where
  "revocable tenantId appId keyId k \<longleftrightarrow> k_id k = keyId \<and> k_tenant k = tenantId \<and> k_app k = appId \<and> k_status k \<noteq> KeyRevoked"

definition revoke_key ::
  "(string \<Rightarrow> string) \<Rightarrow> (string \<Rightarrow> bool) \<Rightarrow> int \<Rightarrow> string \<Rightarrow> string \<Rightarrow> request \<Rightarrow> auth_db \<Rightarrow> (auth_db, unit) reply" where
  "revoke_key h is_uuid now appId keyId q db =
     key_admin h is_uuid now [appId, keyId] appId q db (\<lambda>me.
       if \<not> list_ex (revocable (sm_tenant me) appId keyId) (api_keys db) then (Inl (NotFound ''key''), db)
       else (Inr (), recordAs me (q_ip q) ''apikey.revoke'' (Some ''apikey'') (Some keyId)
               (db\<lparr>api_keys := update_where (revocable (sm_tenant me) appId keyId) (\<lambda>k. k\<lparr>k_status := KeyRevoked\<rparr>) (api_keys db)\<rparr>)))"

section \<open>Requests on keys\<close>

definition keys_unique :: "auth_db \<Rightarrow> bool" where
  "keys_unique db \<longleftrightarrow> distinct (map k_id (api_keys db)) \<and> distinct (map k_hash (api_keys db))"

definition key_dead :: "string \<Rightarrow> auth_db \<Rightarrow> bool" where
  "key_dead hsh db \<longleftrightarrow> (\<exists>k \<in> set (api_keys db). k_hash k = hsh \<and> k_status k = KeyRevoked)"

datatype key_request =
    RotateKey string string string string request
  | CreateKey string string string request
  | RevokeKey string string request
  | ListKeys string request
  | WriteUsage bool resolved_key

definition key_step :: "(string \<Rightarrow> string) \<Rightarrow> (string \<Rightarrow> bool) \<Rightarrow> int \<times> key_request \<Rightarrow> auth_db \<Rightarrow> auth_db" where
  "key_step h is_uuid r db =
     (case r of
        (now, RotateKey newId raw appId keyId q) \<Rightarrow> snd (rotate_key h is_uuid now newId raw appId keyId q db)
      | (now, CreateKey newId raw appId q) \<Rightarrow> snd (createServerKey h is_uuid now newId raw appId q db)
      | (now, RevokeKey appId keyId q) \<Rightarrow> snd (revoke_key h is_uuid now appId keyId q db)
      | (now, ListKeys appId q) \<Rightarrow> snd (keys_list h is_uuid now appId q db)
      | (now, WriteUsage enabled key) \<Rightarrow> usage_write enabled now key db)"

definition dead_inv :: "string \<Rightarrow> auth_db \<Rightarrow> bool" where
  "dead_inv hsh db \<longleftrightarrow> keys_unique db \<and> key_dead hsh db"

lemma api_keys_recordAs [simp]: "api_keys (recordAs a ip act tt ti db) = api_keys db"
  by (simp add: recordAs_def audit_record_def)

lemma dead_inv_recordAs [simp]: "dead_inv hsh (recordAs a ip act tt ti db) = dead_inv hsh db"
  by (simp add: dead_inv_def keys_unique_def key_dead_def)

lemma dead_inv_update:
  assumes "dead_inv hsh db" "\<And>k. k_id (f k) = k_id k \<and> k_hash (f k) = k_hash k"
    "\<And>k. k \<in> set (api_keys db) \<Longrightarrow> p k \<Longrightarrow> k_status k = KeyRevoked \<Longrightarrow> k_status (f k) = KeyRevoked"
  shows "dead_inv hsh (db\<lparr>api_keys := update_where p f (api_keys db)\<rparr>)"
proof -
  obtain k where k: "k \<in> set (api_keys db)" "k_hash k = hsh" "k_status k = KeyRevoked"
    using assms(1) by (auto simp: dead_inv_def key_dead_def)
  have "(if p k then f k else k) \<in> set (update_where p f (api_keys db))" using k(1) by (rule update_whereI)
  then have "key_dead hsh (db\<lparr>api_keys := update_where p f (api_keys db)\<rparr>)"
    using k assms(2,3) by (cases "p k") (auto simp: key_dead_def)
  then show ?thesis using assms(1,2) by (simp add: dead_inv_def keys_unique_def map_update_where)
qed

lemma dead_inv_insert: "dead_inv hsh db \<Longrightarrow> insert_key k db = Inr db' \<Longrightarrow> dead_inv hsh db'"
  by (auto simp: insert_key_def dead_inv_def keys_unique_def key_dead_def split: if_splits)

lemma key_by_id: "keys_unique db \<Longrightarrow> k \<in> set (api_keys db) \<Longrightarrow> k' \<in> set (api_keys db) \<Longrightarrow> k_id k = k_id k' \<Longrightarrow> k = k'"
  by (auto simp: keys_unique_def distinct_map inj_on_def)

lemma key_by_hash: "keys_unique db \<Longrightarrow> k \<in> set (api_keys db) \<Longrightarrow> k' \<in> set (api_keys db) \<Longrightarrow> k_hash k = k_hash k' \<Longrightarrow> k = k'"
  by (auto simp: keys_unique_def distinct_map inj_on_def)

lemma rotate_checkE:
  assumes "rotate_check appId keyId me db = Inr u"
  obtains k where "k \<in> set (api_keys db)" "k_id k = keyId" "k_tenant k = sm_tenant me" "k_app k = appId" "k_status k = KeyActive"
  using assms by (auto simp: rotate_check_def dest!: find_SomeD split: option.splits if_splits)

lemma rotate_write_dead_inv:
  assumes "dead_inv hsh db" "rotate_check appId keyId me db = Inr u" "rotate_write h now newId raw t appId keyId db = Inr (key, db')"
  shows "dead_inv hsh db'"
proof -
  let ?db1 = "db\<lparr>api_keys := update_where (\<lambda>k. k_id k = keyId)
    (\<lambda>k. k\<lparr>k_status := KeyRotating, k_grace_expires_at := Some (now + SDK_ROTATION_GRACE_DAYS * 86400000)\<rparr>) (api_keys db)\<rparr>"
  obtain k where k: "k \<in> set (api_keys db)" "k_id k = keyId" "k_status k = KeyActive" using assms(2) by (rule rotate_checkE)
  have "k_status k' \<noteq> KeyRevoked" if "k' \<in> set (api_keys db)" "k_id k' = keyId" for k'
    using key_by_id [of db k k'] assms(1) k that by (auto simp: dead_inv_def)
  then have "dead_inv hsh ?db1" using assms(1) by (intro dead_inv_update) auto
  moreover obtain r where "insert_key r ?db1 = Inr db'"
    using assms(3) by (auto simp: rotate_write_def Let_def split: prod.splits sum.splits)
  ultimately show ?thesis by (rule dead_inv_insert)
qed

lemma key_admin_keeps:
  "P db \<Longrightarrow> (\<And>me. P (snd (k me))) \<Longrightarrow> P (snd (key_admin h is_uuid now params appId q db k))"
  by (auto simp: key_admin_def guarded_def split: sum.split)

lemma rotate_key_dead_inv: "dead_inv hsh db \<Longrightarrow> dead_inv hsh (snd (rotate_key h is_uuid now newId raw appId keyId q db))"
  unfolding rotate_key_def
  by (rule key_admin_keeps [where P = "dead_inv hsh"]) (auto intro: rotate_write_dead_inv split: sum.split)

lemma createServerKey_dead_inv: "dead_inv hsh db \<Longrightarrow> dead_inv hsh (snd (createServerKey h is_uuid now newId raw appId q db))"
  unfolding createServerKey_def
  by (rule key_admin_keeps [where P = "dead_inv hsh"]) (auto intro: dead_inv_insert split: sum.split prod.split)

lemma revoke_key_dead_inv: "dead_inv hsh db \<Longrightarrow> dead_inv hsh (snd (revoke_key h is_uuid now appId keyId q db))"
  unfolding revoke_key_def
  by (rule key_admin_keeps [where P = "dead_inv hsh"]) (auto intro: dead_inv_update)

lemma usage_write_dead_inv: "dead_inv hsh db \<Longrightarrow> dead_inv hsh (usage_write enabled now key db)"
  unfolding usage_write_def by (rule dead_inv_update) simp_all

lemma key_step_dead_inv: "dead_inv hsh db \<Longrightarrow> dead_inv hsh (key_step h is_uuid r db)"
  using rotate_key_dead_inv createServerKey_dead_inv revoke_key_dead_inv usage_write_dead_inv
  by (auto simp: key_step_def keys_list_def intro: key_admin_keeps [where P = "dead_inv hsh"] split: prod.split key_request.split)

interpretation keyring: invariant_system "key_step h is_uuid" "dead_inv hsh" for h is_uuid hsh
  by unfold_locales (rule key_step_dead_inv)

lemma dead_key_unresolved:
  assumes d: "dead_inv (h raw) db"
  shows "resolve_key h now raw db = None"
proof -
  from d obtain k where k: "k \<in> set (api_keys db)" "k_hash k = h raw" "k_status k = KeyRevoked" by (auto simp: dead_inv_def key_dead_def)
  have "k' = k" if "find (\<lambda>k. k_hash k = h raw) (api_keys db) = Some k'" for k'
    using find_SomeD [OF that] key_by_hash [of db k' k] k d by (simp add: dead_inv_def)
  then show ?thesis using k(3) by (auto simp: resolve_key_def split: option.split)
qed

lemma revoke_keyE:
  assumes "revoke_key h is_uuid now appId keyId q db = (Inr u, db')"
  obtains t where "list_ex (revocable t appId keyId) (api_keys db)"
    "api_keys db' = update_where (revocable t appId keyId) (\<lambda>k. k\<lparr>k_status := KeyRevoked\<rparr>) (api_keys db)"
  using assms by (auto simp: revoke_key_def key_admin_def guarded_def split: sum.splits if_splits)

lemma revoke_key_dead:
  assumes "keys_unique db" "revoke_key h is_uuid now appId keyId q db = (Inr u, db')" "k \<in> set (api_keys db)" "k_id k = keyId"
  shows "dead_inv (k_hash k) db'"
  using assms(2)
proof (rule revoke_keyE)
  fix t
  let ?p = "revocable t appId keyId" and ?f = "\<lambda>k. k\<lparr>k_status := KeyRevoked\<rparr>"
  assume e: "list_ex ?p (api_keys db)" and db': "api_keys db' = update_where ?p ?f (api_keys db)"
  from e obtain k' where k': "k' \<in> set (api_keys db)" "?p k'" by (auto simp: list_ex_iff)
  then have "k' = k" using key_by_id [OF assms(1), of k' k] assms(3,4) by (auto simp: revocable_def)
  then have "?f k \<in> set (api_keys db')" using update_whereI [OF k'(1), of ?p ?f] k'(2) db' by simp
  then have "key_dead (k_hash k) db'" by (auto simp: key_dead_def intro!: bexI [of _ "?f k"])
  then show ?thesis using assms(1) db' by (simp add: dead_inv_def keys_unique_def map_update_where)
qed

section \<open>The budget of usage writes\<close>

datatype usage_event = Use resolved_key bool | Finish resolved_key

definition usage_step :: "bool \<Rightarrow> usage_event \<Rightarrow> usage \<Rightarrow> usage" where
  "usage_step enabled e u =
     (case e of Use key due \<Rightarrow> usage_record enabled key due u | Finish key \<Rightarrow> if key \<in> set (jobs u) then usage_finish key u else u)"

definition usage_inv :: "usage \<Rightarrow> bool" where
  "usage_inv u \<longleftrightarrow> pending u = map rk_id (jobs u) \<and> distinct (pending u) \<and> length (pending u) \<le> API_KEY_USAGE_MAX_PENDING"

lemma removeAll_map_distinct:
  "distinct (map f xs) \<Longrightarrow> x \<in> set xs \<Longrightarrow> removeAll (f x) (map f xs) = map f (remove1 x xs)"
proof (induction xs)
  case (Cons y ys)
  show ?case
  proof (cases "x = y")
    case True
    then show ?thesis using Cons.prems by (simp add: removeAll_id)
  next
    case False
    then show ?thesis using Cons by (auto simp: image_iff)
  qed
qed simp

lemma usage_step_inv: "usage_inv u \<Longrightarrow> usage_inv (usage_step True e u)"
proof (cases e)
  case (Use key due)
  assume "usage_inv u"
  then show ?thesis unfolding Use by (auto simp: usage_step_def usage_record_def usage_inv_def)
next
  case (Finish key)
  assume u: "usage_inv u"
  have "key \<in> set (jobs u) \<Longrightarrow> removeAll (rk_id key) (pending u) = map rk_id (remove1 key (jobs u))"
    using u removeAll_map_distinct [of rk_id "jobs u" key] unfolding usage_inv_def by metis
  moreover have "distinct (removeAll (rk_id key) (pending u))" "length (removeAll (rk_id key) (pending u)) \<le> API_KEY_USAGE_MAX_PENDING"
    using u length_removeAll_less_eq [of "rk_id key" "pending u"] unfolding usage_inv_def by (metis distinct_removeAll, linarith)
  ultimately show ?thesis using u by (auto simp: Finish usage_step_def usage_finish_def usage_inv_def)
qed

interpretation usage_writes: invariant_system "usage_step True" usage_inv
  by unfold_locales (rule usage_step_inv)

section \<open>Properties\<close>

text \<open>
  C24: a revoked key is dead for good. After a revocation succeeded, no sequence of complete key requests and usage writes makes the
  key resolve again.
\<close>

theorem revoked_key_stays_dead:
  assumes "keys_unique db" and "revoke_key h is_uuid now appId keyId q db = (Inr u, db')"
    and "k \<in> set (api_keys db)" and "k_id k = keyId" and "h raw = k_hash k"
  shows "resolve_key h now' raw (fold (key_step h is_uuid) rs db') = None"
proof -
  have "dead_inv (h raw) db'" using revoke_key_dead [OF assms(1-4)] assms(5) by simp
  then have "dead_inv (h raw) (fold (key_step h is_uuid) rs db')" by (rule keyring.run_inv)
  then show ?thesis by (rule dead_key_unresolved)
qed

text \<open>
  The exception is a rotation that overlaps. The rotation checks the status before its transaction and its update does not check it
  again: if the key is revoked in between, the write turns the revoked key into a rotating one that resolves for thirty more days.
\<close>

theorem overlapping_rotation_revives_key:
  assumes "keys_unique db" and "rotate_check appId keyId me db = Inr ()"
    and "revoke_key h is_uuid now appId keyId q db = (Inr u, db1)"
    and "rotate_write h now newId raw' (sm_tenant me) appId keyId db1 = Inr (key, db2)"
    and "k \<in> set (api_keys db)" and "k_id k = keyId" and "h raw = k_hash k" and "key_format raw"
    and "now' \<le> now + SDK_ROTATION_GRACE_DAYS * 86400000"
  shows "resolve_key h now' raw db1 = None \<and> (\<exists>r. resolve_key h now' raw db2 = Some r)"
proof -
  let ?f = "\<lambda>k. k\<lparr>k_status := KeyRotating, k_grace_expires_at := Some (now + SDK_ROTATION_GRACE_DAYS * 86400000)\<rparr>"
  let ?db2 = "db1\<lparr>api_keys := update_where (\<lambda>k. k_id k = keyId) ?f (api_keys db1)\<rparr>"
  have d: "dead_inv (h raw) db1" using revoke_key_dead [OF assms(1,3,5,6)] assms(7) by simp
  obtain t where db1: "api_keys db1 = update_where (revocable t appId keyId) (\<lambda>k. k\<lparr>k_status := KeyRevoked\<rparr>) (api_keys db)"
    using assms(3) by (rule revoke_keyE)
  obtain k1 where k1: "k1 \<in> set (api_keys db1)" "k_id k1 = keyId" "k_hash k1 = h raw"
    using update_whereI [OF assms(5), of "revocable t appId keyId" "\<lambda>k. k\<lparr>k_status := KeyRevoked\<rparr>"] db1 assms(6,7)
    by (cases "revocable t appId keyId k") auto
  have f: "?f k1 \<in> set (api_keys ?db2)" using update_whereI [OF k1(1), of "\<lambda>k. k_id k = keyId" ?f] k1(2) by simp
  obtain row where row: "insert_key row ?db2 = Inr db2"
    using assms(4) by (auto simp: rotate_write_def Let_def split: prod.splits sum.splits)
  then have db2: "api_keys db2 = api_keys ?db2 @ [row]" by (auto simp: insert_key_def split: if_splits)
  have u1: "keys_unique db1" using d by (simp add: dead_inv_def)
  have u: "keys_unique ?db2" using u1 by (simp add: keys_unique_def map_update_where)
  have u2: "keys_unique db2" using u row by (auto simp: insert_key_def keys_unique_def split: if_splits)
  have "find (\<lambda>k. k_hash k = h raw) (api_keys db2) = Some (?f k1)"
  proof (cases "find (\<lambda>k. k_hash k = h raw) (api_keys db2)")
    case None
    then show ?thesis using f k1(3) db2 by (auto simp: find_None_iff)
  next
    case (Some k')
    then have "k' = ?f k1" using find_SomeD [OF Some] key_by_hash [OF u2, of k' "?f k1"] f k1(3) db2 by simp
    then show ?thesis using Some by simp
  qed
  then have "\<exists>r. resolve_key h now' raw db2 = Some r" using assms(8,9) by (simp add: resolve_key_def)
  with dead_key_unresolved [of h raw, OF d] show ?thesis by simp
qed

text \<open>
  recording key usage cannot exhaust the database pool. With coalescing on, whatever requests arrive and in whatever order the
  background writes end, at most two writes are under way, never two for the same key, and a key is marked pending exactly while its
  write is under way.
\<close>

theorem usage_writes_bounded:
  "length (jobs (fold (usage_step True) es \<lparr>pending = [], jobs = []\<rparr>)) \<le> 2 \<and>
   distinct (map rk_id (jobs (fold (usage_step True) es \<lparr>pending = [], jobs = []\<rparr>))) \<and>
   pending (fold (usage_step True) es \<lparr>pending = [], jobs = []\<rparr>) = map rk_id (jobs (fold (usage_step True) es \<lparr>pending = [], jobs = []\<rparr>))"
proof -
  have "usage_inv \<lparr>pending = [], jobs = []\<rparr>" by (simp add: usage_inv_def)
  then have "usage_inv (fold (usage_step True) es \<lparr>pending = [], jobs = []\<rparr>)" by (rule usage_writes.run_inv)
  then show ?thesis by (auto simp: usage_inv_def API_KEY_USAGE_MAX_PENDING_def)
qed

section \<open>Witnesses\<close>

definition sample_key :: string where
  "sample_key = ''pk_abcdefghijklmnopqrst''"

definition sample_keys :: auth_db where
  "sample_keys = sample_auth
     \<lparr>apps := [\<lparr>a_id = ''a1'', a_tenant = ''t1'', a_name = ''App'', a_timezone = None\<rparr>],
      api_keys := [new_key_row ''k1'' ''t1'' ''a1'' Sdk (take 11 sample_key) sample_key]\<rparr>"

lemma sample_revoked:
  "revoke_key (\<lambda>s. s) (\<lambda>_. True) 5 ''a1'' ''k1'' (sample_request ''o1'') sample_keys =
     (Inr (), snd (revoke_key (\<lambda>s. s) (\<lambda>_. True) 5 ''a1'' ''k1'' (sample_request ''o1'') sample_keys))"
proof -
  have "fst (revoke_key (\<lambda>s. s) (\<lambda>_. True) 5 ''a1'' ''k1'' (sample_request ''o1'') sample_keys) = Inr ()" by code_simp
  then show ?thesis by (metis prod.collapse)
qed

lemma sample_keys_unique: "keys_unique sample_keys"
  by (simp add: keys_unique_def sample_keys_def)

lemma revoked_key_stays_dead_witness:
  "resolve_key (\<lambda>s. s) 6 sample_key
     (fold (key_step (\<lambda>s. s) (\<lambda>_. True)) [(6, RotateKey ''k2'' ''zzzzzzzzzzzzzzzzzzzzzz'' ''a1'' ''k1'' (sample_request ''o1''))]
       (snd (revoke_key (\<lambda>s. s) (\<lambda>_. True) 5 ''a1'' ''k1'' (sample_request ''o1'') sample_keys))) = None"
  by (rule revoked_key_stays_dead [OF sample_keys_unique sample_revoked, of "new_key_row ''k1'' ''t1'' ''a1'' Sdk (take 11 sample_key) sample_key"])
     (simp_all add: sample_keys_def new_key_row_def)

lemma overlapping_rotation_revives_key_witness:
  "\<exists>db2 key. rotate_write (\<lambda>s. s) 5 ''k2'' ''zzzzzzzzzzzzzzzzzzzzzz'' ''t1'' ''a1'' ''k1''
       (snd (revoke_key (\<lambda>s. s) (\<lambda>_. True) 5 ''a1'' ''k1'' (sample_request ''o1'') sample_keys)) = Inr (key, db2) \<and>
     (\<exists>r. resolve_key (\<lambda>s. s) 6 sample_key db2 = Some r)"
proof -
  let ?me = "\<lparr>sm_member = ''o1'', sm_tenant = ''t1'', sm_email = [], sm_name = [], sm_role = ''owner'', sm_totp_enabled = False, sm_requires_2fa = False\<rparr>"
  let ?w = "rotate_write (\<lambda>s. s) 5 ''k2'' ''zzzzzzzzzzzzzzzzzzzzzz'' ''t1'' ''a1'' ''k1''
    (snd (revoke_key (\<lambda>s. s) (\<lambda>_. True) 5 ''a1'' ''k1'' (sample_request ''o1'') sample_keys))"
  have "\<not> isl ?w" by code_simp
  then obtain key db2 where w: "?w = Inr (key, db2)" by (cases ?w) auto
  have c: "rotate_check ''a1'' ''k1'' ?me sample_keys = Inr ()" by code_simp
  have f: "key_format sample_key" by code_simp
  have "\<exists>r. resolve_key (\<lambda>s. s) 6 sample_key db2 = Some r"
    using overlapping_rotation_revives_key [OF sample_keys_unique c sample_revoked, of "''k2''" _ key db2 "new_key_row ''k1'' ''t1'' ''a1'' Sdk (take 11 sample_key) sample_key" sample_key 6]
      w f by (simp add: sample_keys_def new_key_row_def SDK_ROTATION_GRACE_DAYS_def)
  with w show ?thesis by blast
qed

end
