(* ===== verification/Segment_Admin.thy ===== *)
theory Segment_Admin
  imports Stored_Json Api_Keys
begin

text \<open>
  The tables of segments and journeys (\<open>db/postgres/schema.sql\<close>) and the segment API (\<open>segments/segments.controller.ts\<close>).
  A request reads the session of the caller from the authentication tables. The SHA-256 digest, the checks of zod, the order of
  \<open>localeCompare\<close>, \<open>Number(...)\<close> and the answers of ClickHouse are parameters; so is \<open>ce_jsonb\<close>, the value a \<open>jsonb\<close> column holds
  after a write, if PostgreSQL accepts it.
\<close>

section \<open>Tables\<close>

record segment_row =
  sg_id :: string
  sg_tenant :: string
  sg_app :: string
  sg_name :: string
  sg_definition :: jsval
  sg_status :: string
  sg_detail :: "string option"
  sg_last_count :: "int option"
  sg_last_evaluated :: "int option"
  sg_created_by :: string
  sg_updated :: int

record journey_row =
  j_id :: string
  j_tenant :: string
  j_app :: string
  j_name :: string
  j_status :: string
  j_category :: string
  j_draft :: jsval
  j_active_version :: "nat option"
  j_created_by :: string
  j_updated :: int

record version_row =
  v_journey :: string
  v_version :: nat
  v_definition :: jsval

record outbox_entry =
  oe_tenant :: string
  oe_app :: string
  oe_stream :: string
  oe_key :: string
  oe_payload :: jsval

record state_row =
  js_tenant :: string
  js_app :: string
  js_journey :: string
  js_status :: string
  js_claim_token :: "string option"
  js_claimed_by :: "string option"
  js_claimed_at :: "int option"
  js_next_wake :: "int option"
  js_updated :: int

record execution_row =
  x_tenant :: string
  x_app :: string
  x_journey :: string
  x_status :: string
  x_resolved_at :: "int option"
  x_updated :: int

type_synonym clickhouse = "string \<times> (string \<times> jsval option) list"

record content_db =
  cd_auth :: auth_db
  segments :: "segment_row list"
  journeys :: "journey_row list"
  journey_versions :: "version_row list"
  journey_outbox :: "outbox_entry list"
  journey_states :: "state_row list"
  node_executions :: "execution_row list"
  audiences :: "(string \<times> clickhouse) list"
  preview_cache :: "(string \<times> jsval \<times> int) list"

record content_env =
  ce_sha :: "string \<Rightarrow> string"
  ce_uuid :: "string \<Rightarrow> bool"
  ce_ns :: "jsnum \<Rightarrow> string"
  ce_le :: "string \<Rightarrow> string \<Rightarrow> bool"
  ce_number :: "jsval \<Rightarrow> jsnum"
  ce_jsonb :: "jsval \<Rightarrow> jsval option"
  ce_graph_v2 :: bool
  ce_query :: "int \<Rightarrow> clickhouse \<Rightarrow> jsval list option"
  ce_command :: "int \<Rightarrow> clickhouse \<Rightarrow> bool"

definition write_jsonb :: "content_env \<Rightarrow> jsval \<Rightarrow> http_error + jsval" where
  "write_jsonb env v = (case ce_jsonb env (to_json v) of None \<Rightarrow> Inl (Internal ''jsonb'') | Some w \<Rightarrow> Inr w)"

section \<open>Guards\<close>

definition EDITOR_ROLES :: "string list" where
  "EDITOR_ROLES = [''owner'', ''admin'', ''editor'']"

definition assertEditor :: "session_member \<Rightarrow> http_error + unit" where
  "assertEditor me = (if sm_role me \<in> set EDITOR_ROLES then Inr () else Inl (Forbidden ''editor''))"

text \<open>\<open>SessionGuard\<close> and the \<open>ParseUUIDPipe\<close> of the path parameters around a handler\<close>

definition content_guard ::
  "content_env \<Rightarrow> int \<Rightarrow> string list \<Rightarrow> request \<Rightarrow> content_db \<Rightarrow> (session_member \<Rightarrow> (content_db, 'a) reply) \<Rightarrow> (content_db, 'a) reply" where
  "content_guard env now params q db k =
     (case SessionGuard (ce_sha env) now (q_cookie q) (q_url q) (cd_auth db) of
        Inl e \<Rightarrow> (Inl e, db)
      | Inr me \<Rightarrow> if list_all (ce_uuid env) params then k me else (Inl (BadRequest ''uuid''), db))"

definition when_ok :: "http_error + 'a \<Rightarrow> 's \<Rightarrow> ('a \<Rightarrow> ('s, 'b) reply) \<Rightarrow> ('s, 'b) reply" where
  "when_ok r db k = (case r of Inl e \<Rightarrow> (Inl e, db) | Inr a \<Rightarrow> k a)"

section \<open>Segments\<close>

definition z_many :: "nat \<Rightarrow> schema \<Rightarrow> schema" where
  "z_many lo p v = (case v of JArr vs \<Rightarrow> if lo \<le> length vs then z_list (length vs) p v else None | _ \<Rightarrow> None)"

definition conditionSchema :: schema where
  "conditionSchema v = (if is_object v then Some v else None)"

definition dslSchema :: schema where
  "dslSchema = z_object False
     [(''version'', Required (\<lambda>v. if v = JNum (Num 1) then Some v else None)), (''operator'', Required (z_enum [''AND'', ''OR''])),
      (''groups'', Required (z_many 0 (z_object False
         [(''operator'', Required (z_enum [''AND'', ''OR''])), (''conditions'', Required (z_many 1 conditionSchema))])))]"

definition segment_upsert :: "jsval \<Rightarrow> (string \<times> jsval) option" where
  "segment_upsert body =
     (if \<not> is_object body then None
      else case (z_string 1 200 (js_get body ''name''), js_get body ''definition'') of
             (Some n, Some d) \<Rightarrow> map_option (\<lambda>x. (n, x)) (dslSchema d)
           | _ \<Rightarrow> None)"

definition parse_body :: "'a option \<Rightarrow> http_error + 'a" where
  "parse_body r = (case r of None \<Rightarrow> Inl (BadRequest ''invalid body'') | Some a \<Rightarrow> Inr a)"

definition assertCompiles :: "(jsnum \<Rightarrow> string) \<Rightarrow> jsval \<Rightarrow> string \<Rightarrow> string \<Rightarrow> http_error + unit" where
  "assertCompiles ns d tenantId appId =
     (case compile ns (dsl_of d) tenantId appId Marketing of Inl _ \<Rightarrow> Inl (BadRequest ''does not compile'') | Inr _ \<Rightarrow> Inr ())"

abbreviation segment_at :: "string \<Rightarrow> string \<Rightarrow> string \<Rightarrow> segment_row \<Rightarrow> bool" where
  "segment_at i tenantId appId s \<equiv> sg_id s = i \<and> sg_tenant s = tenantId \<and> sg_app s = appId"

definition list_segments :: "content_env \<Rightarrow> int \<Rightarrow> string \<Rightarrow> request \<Rightarrow> content_db \<Rightarrow> 
    (content_db, (string \<times> string \<times> string \<times> string option \<times> int option \<times> int option \<times> int) list) reply" where
  "list_segments env now appId q db =
     content_guard env now [appId] q db (\<lambda>me.
       when_ok (assertApp appId me (cd_auth db)) db (\<lambda>_.
         (Inr (map (\<lambda>s. (sg_id s, sg_name s, sg_status s, sg_detail s, sg_last_count s, sg_last_evaluated s, sg_updated s))
            (rev (sort_key sg_updated (filter (\<lambda>s. sg_tenant s = sm_tenant me \<and> sg_app s = appId) (segments db))))), db)))"

definition get_segment :: "content_env \<Rightarrow> int \<Rightarrow> string \<Rightarrow> string \<Rightarrow> request \<Rightarrow> content_db \<Rightarrow> 
    (content_db, string \<times> string \<times> jsval \<times> string \<times> string option \<times> int option \<times> int) reply" where
  "get_segment env now appId sid q db =
     content_guard env now [appId, sid] q db (\<lambda>me.
       when_ok (assertApp appId me (cd_auth db)) db (\<lambda>_.
         case find (segment_at sid (sm_tenant me) appId) (segments db) of
           None \<Rightarrow> (Inl (NotFound ''segment''), db) | Some s \<Rightarrow>
             (Inr (sg_id s, sg_name s, sg_definition s, sg_status s, sg_detail s, sg_last_count s, sg_updated s), db)))"

definition create_segment :: "content_env \<Rightarrow> int \<Rightarrow> string \<Rightarrow> string \<Rightarrow> jsval \<Rightarrow> request \<Rightarrow> content_db \<Rightarrow> (content_db, string) reply" where
  "create_segment env now newId appId body q db =
     content_guard env now [appId] q db (\<lambda>me.
       when_ok (assertApp appId me (cd_auth db)) db (\<lambda>_.
       when_ok (assertEditor me) db (\<lambda>_.
       when_ok (parse_body (segment_upsert body)) db (\<lambda>(name, d).
       when_ok (assertCompiles (ce_ns env) d (sm_tenant me) appId) db (\<lambda>_.
       when_ok (write_jsonb env d) db (\<lambda>stored.
         if list_ex (\<lambda>s. sg_app s = appId \<and> sg_name s = name) (segments db) \<or> newId \<in> set (map sg_id (segments db))
         then (Inl (BadRequest ''name taken''), db)
         else (Inr newId, db\<lparr>segments := segments db @ [\<lparr>sg_id = newId, sg_tenant = sm_tenant me, sg_app = appId, sg_name = name,
                 sg_definition = stored, sg_status = ''active'', sg_detail = None, sg_last_count = None, sg_last_evaluated = None,
                 sg_created_by = sm_member me, sg_updated = now\<rparr>]\<rparr>)))))))"

definition update_segment ::
  "content_env \<Rightarrow> int \<Rightarrow> string \<Rightarrow> string \<Rightarrow> jsval \<Rightarrow> request \<Rightarrow> content_db \<Rightarrow> (content_db, unit) reply" where
  "update_segment env now appId sid body q db =
     content_guard env now [appId, sid] q db (\<lambda>me.
       when_ok (assertApp appId me (cd_auth db)) db (\<lambda>_.
       when_ok (assertEditor me) db (\<lambda>_.
       when_ok (parse_body (segment_upsert body)) db (\<lambda>(name, d).
       when_ok (assertCompiles (ce_ns env) d (sm_tenant me) appId) db (\<lambda>_.
       when_ok (write_jsonb env d) db (\<lambda>stored.
         if \<not> list_ex (segment_at sid (sm_tenant me) appId) (segments db) then (Inl (NotFound ''segment''), db)
         else if list_ex (\<lambda>s. sg_app s = appId \<and> sg_name s = name \<and> sg_id s \<noteq> sid) (segments db) then (Inl (BadRequest ''name taken''), db)
         else (Inr (), db\<lparr>segments := update_where (segment_at sid (sm_tenant me) appId)
                 (\<lambda>s. s\<lparr>sg_name := name, sg_definition := stored, sg_status := ''active'', sg_detail := None, sg_updated := now\<rparr>) (segments db)\<rparr>)))))))"

definition remove_segment :: "content_env \<Rightarrow> int \<Rightarrow> string \<Rightarrow> string \<Rightarrow> request \<Rightarrow> content_db \<Rightarrow> (content_db, unit) reply" where
  "remove_segment env now appId sid q db =
     content_guard env now [appId, sid] q db (\<lambda>me.
       when_ok (assertApp appId me (cd_auth db)) db (\<lambda>_.
       when_ok (assertEditor me) db (\<lambda>_.
         if \<not> list_ex (segment_at sid (sm_tenant me) appId) (segments db) then (Inl (NotFound ''segment''), db)
         else (Inr (), db\<lparr>segments := filter (\<lambda>s. \<not> segment_at sid (sm_tenant me) appId s) (segments db)\<rparr>))))"

text \<open>The preview: an approximate count and a sample, cached for a minute under the tenant and the digest of the query\<close>

definition PREVIEW_CACHE_TTL :: int where
  "PREVIEW_CACHE_TTL = 60"

definition previewSchema :: "jsval \<Rightarrow> (jsval \<times> category) option" where
  "previewSchema body =
     (if \<not> is_object body then None
      else case (js_get body ''definition'', z_enum [''marketing'', ''transactional''] (case js_get body ''category'' of None \<Rightarrow> JStr ''marketing'' | Some c \<Rightarrow> c)) of
             (Some d, Some (JStr c)) \<Rightarrow> map_option (\<lambda>x. (x, if c = ''marketing'' then Marketing else Transactional)) (dslSchema d)
           | _ \<Rightarrow> None)"

definition preview_key :: "content_env \<Rightarrow> string \<Rightarrow> compiled \<Rightarrow> string" where
  "preview_key env tenantId c = ''seg:preview:'' @ tenantId @ '':'' @ ce_sha env (fst c @ stringify (ce_ns env) (JArr (snd c)))"

text \<open>A compiled query inside other text, as ClickHouse runs it\<close>

definition ask_clickhouse :: "content_env \<Rightarrow> int \<Rightarrow> string \<Rightarrow> compiled \<Rightarrow> string \<Rightarrow> http_error + jsval list" where
  "ask_clickhouse env now pre c post =
     (case toClickHouse (pre @ fst c @ post, snd c) of
        Inl _ \<Rightarrow> Inl (Internal ''placeholders'')
      | Inr query \<Rightarrow> (case ce_query env now query of None \<Rightarrow> Inl (Internal ''clickhouse'') | Some rows \<Rightarrow> Inr rows))"

definition count_of :: "content_env \<Rightarrow> string \<Rightarrow> jsval list \<Rightarrow> jsnum" where
  "count_of env k rows =
     (case (case rows of [] \<Rightarrow> None | r # _ \<Rightarrow> js_get r k) of
        None \<Rightarrow> Num 0 | Some JNull \<Rightarrow> Num 0 | Some (JNum n) \<Rightarrow> n | Some v \<Rightarrow> ce_number env v)"

definition sample_row :: "jsval \<Rightarrow> jsval" where
  "sample_row s =
     (let fld = (\<lambda>k. case js_get s k of None \<Rightarrow> [] | Some v \<Rightarrow> [(k, v)])
      in JObj (fld ''user_id'' @ [(''external_id'', if opt_truthy (js_get s ''external_id'') then the (js_get s ''external_id'') else JNull)] @ fld ''platforms''))"

definition preview_segment :: "content_env \<Rightarrow> int \<Rightarrow> string \<Rightarrow> jsval \<Rightarrow> request \<Rightarrow> content_db \<Rightarrow> (content_db, jsval) reply" where
  "preview_segment env now appId body q db =
     content_guard env now [appId] q db (\<lambda>me.
       when_ok (assertApp appId me (cd_auth db)) db (\<lambda>_.
       when_ok (parse_body (previewSchema body)) db (\<lambda>(d, category).
         case compile (ce_ns env) (dsl_of d) (sm_tenant me) appId category of
           Inl _ \<Rightarrow> (Inl (BadRequest ''does not compile''), db)
         | Inr c \<Rightarrow>
             (let key = preview_key env (sm_tenant me) c
              in case find (\<lambda>(k, v, e). k = key \<and> now < e) (preview_cache db) of
                   Some (k, v, e) \<Rightarrow> (Inr v, db)
                 | None \<Rightarrow>
                     when_ok (ask_clickhouse env now ''SELECT uniqCombined(user_id) AS approx FROM ('' c '')'') db (\<lambda>counts.
                     when_ok (ask_clickhouse env now ''SELECT user_id, external_id, platforms FROM profiles_mirror FINAL WHERE user_id IN ('' c '') LIMIT 10'') db (\<lambda>sample.
                       let result = JObj [(''approx_count'', JNum (count_of env ''approx'' counts)), (''sample'', JArr (map sample_row sample))]
                       in (Inr result, db\<lparr>preview_cache := filter (\<lambda>(k, v, e). k \<noteq> key) (preview_cache db) @
                            [(key, to_json result, now + PREVIEW_CACHE_TTL * 1000)]\<rparr>)))))))"

section \<open>What the handlers leave behind\<close>

abbreviation caller :: "content_env \<Rightarrow> int \<Rightarrow> request \<Rightarrow> content_db \<Rightarrow> session_member \<Rightarrow> bool" where
  "caller env now q db me \<equiv> SessionGuard (ce_sha env) now (q_cookie q) (q_url q) (cd_auth db) = Inr me"

lemma when_ok_Inr: "when_ok r db k = (Inr y, d) \<longleftrightarrow> (\<exists>a. r = Inr a \<and> k a = (Inr y, d))"
  by (simp add: when_ok_def split: sum.split)

lemma when_ok_Inl: "when_ok r db k = (Inl e, d) \<longleftrightarrow> r = Inl e \<and> d = db \<or> (\<exists>a. r = Inr a \<and> k a = (Inl e, d))"
  by (auto simp: when_ok_def split: sum.split)

lemma content_guard_Inr:
  "content_guard env now params q db k = (Inr y, d) \<longleftrightarrow> (\<exists>me. caller env now q db me \<and> list_all (ce_uuid env) params \<and> k me = (Inr y, d))"
  by (simp add: content_guard_def split: sum.split)

lemma content_guard_Inl:
  "content_guard env now params q db k = (Inl e, d) \<Longrightarrow> d = db \<or> (\<exists>me. caller env now q db me \<and> k me = (Inl e, d))"
  by (auto simp: content_guard_def split: sum.splits if_splits)

text \<open>A handler that answers an error before it writes anything\<close>

definition errs_unchanged :: "('s, 'a) reply \<Rightarrow> 's \<Rightarrow> bool" where
  "errs_unchanged r db \<longleftrightarrow> (isl (fst r) \<longrightarrow> snd r = db)"

lemma errs_unchanged_simps [simp]: "errs_unchanged (Inl e, db) db" "errs_unchanged (Inr y, d) db"
  by (simp_all add: errs_unchanged_def)

lemma errs_unchanged_when: "(\<And>a. r = Inr a \<Longrightarrow> errs_unchanged (k a) db) \<Longrightarrow> errs_unchanged (when_ok r db k) db"
  by (simp add: when_ok_def split: sum.split)

lemma errs_unchanged_guard: "(\<And>me. errs_unchanged (k me) db) \<Longrightarrow> errs_unchanged (content_guard env now params q db k) db"
  by (simp add: content_guard_def split: sum.split)

lemma handler_cases [consumes 1, case_names error success]:
  assumes "errs_unchanged r db" "\<And>e. r = (Inl e, db) \<Longrightarrow> P db" "\<And>y d. r = (Inr y, d) \<Longrightarrow> P d"
  shows "P (snd r)"
  using assms by (cases r; cases "fst r") (auto simp: errs_unchanged_def)

lemmas handler_Inr = content_guard_Inr when_ok_Inr

lemmas handler_errs = errs_unchanged_guard errs_unchanged_when

lemma parse_body_Inr [simp]: "parse_body r = Inr a \<longleftrightarrow> r = Some a"
  by (simp add: parse_body_def split: option.split)

text \<open>What is known of a JSON column: the order of keys may change, and a stored value is stored again unchanged.\<close>

definition jsonb_law :: "content_env \<Rightarrow> bool" where
  "jsonb_law env \<longleftrightarrow> (\<forall>v w. ce_jsonb env v = Some w \<longrightarrow> same_json v w \<and> ce_jsonb env w = Some w)"

definition stored_value :: "content_env \<Rightarrow> jsval \<Rightarrow> bool" where
  "stored_value env w \<longleftrightarrow> finite_json w \<and> ce_jsonb env w = Some w"

lemma write_jsonb_stored: "jsonb_law env \<Longrightarrow> write_jsonb env v = Inr w \<Longrightarrow> stored_value env w"
proof -
  assume law: "jsonb_law env" and w: "write_jsonb env v = Inr w"
  then have "ce_jsonb env (to_json v) = Some w" by (simp add: write_jsonb_def split: option.splits)
  then have "same_json (to_json v) w" "ce_jsonb env w = Some w" using law unfolding jsonb_law_def by blast+
  then show ?thesis using same_finite [OF _ finite_to_json] by (simp add: stored_value_def)
qed

lemma write_jsonb_same: "jsonb_law env \<Longrightarrow> write_jsonb env v = Inr w \<Longrightarrow> finite_json v \<Longrightarrow> same_json v w"
  by (auto simp: write_jsonb_def jsonb_law_def to_json_finite split: option.splits)

lemma write_stored: "stored_value env w \<Longrightarrow> write_jsonb env w = Inr w"
  by (simp add: stored_value_def write_jsonb_def to_json_finite)

lemma finite_z_many: "keeps_finite p \<Longrightarrow> keeps_finite (z_many lo p)"
proof -
  assume p: "keeps_finite p"
  have "\<exists>n. z_list n p v = Some x" if "z_many lo p v = Some x" for v x
    using that unfolding z_many_def by (cases v) (auto split: if_splits)
  then show ?thesis unfolding keeps_finite_def [of "z_many lo p"] using keeps_finiteD [OF keeps_finite_list [OF p]] by blast
qed

lemma finite_dslSchema: "keeps_finite dslSchema"
proof -
  have "keeps_finite conditionSchema" by (rule keeps_finite_same) (simp add: conditionSchema_def split: if_splits)
  then have "keeps_finite (z_object False [(''operator'', Required (z_enum [''AND'', ''OR''])), (''conditions'', Required (z_many 1 conditionSchema))])"
    by (intro keeps_finite_object) (simp add: finite_z_many)
  moreover have "keeps_finite (\<lambda>v. if v = JNum (Num 1) then Some v else None)" by (rule keeps_finite_same) (simp split: if_splits)
  ultimately show ?thesis unfolding dslSchema_def by (intro keeps_finite_object) (simp add: finite_z_many)
qed

lemma segment_upsert_finite: "finite_json body \<Longrightarrow> segment_upsert body = Some (n, d) \<Longrightarrow> finite_json d"
proof -
  assume fin: "finite_json body" and up: "segment_upsert body = Some (n, d)"
  obtain raw where "js_get body ''definition'' = Some raw" "dslSchema raw = Some d"
    using up by (simp add: segment_upsert_def split: if_splits option.splits)
  then show ?thesis using finite_get [OF fin] keeps_finiteD [OF finite_dslSchema] by blast
qed

lemma assertCompiles_ok: "assertCompiles ns d t a = Inr () \<longleftrightarrow> dsl_ok ns (dsl_of d)"
proof -
  have "isl (compile ns (dsl_of d) t a Marketing) \<longleftrightarrow> \<not> dsl_ok ns (dsl_of d)" by (simp add: compile_emits emits_isl query_isl)
  then show ?thesis by (auto simp: assertCompiles_def split: sum.splits)
qed

text \<open>An accepted definition still compiles as it comes back from the column.\<close>

lemma stored_compiles:
  assumes "jsonb_law env" "finite_json d" "dsl_ok ns (dsl_of d)" "write_jsonb env d = Inr w"
  shows "dsl_ok ns (dsl_of w)"
  using same_dsl_ok [OF write_jsonb_same [OF assms(1,4,2)]] assms(3) by simp

section \<open>Effects of the segment handlers\<close>

lemma create_segment_errs: "errs_unchanged (create_segment env now n a b q db) db"
  unfolding create_segment_def by (intro handler_errs) (auto intro!: handler_errs)

lemma update_segment_errs: "errs_unchanged (update_segment env now a n b q db) db"
  unfolding update_segment_def by (intro handler_errs) (auto intro!: handler_errs)

lemma remove_segment_errs: "errs_unchanged (remove_segment env now a n q db) db"
  unfolding remove_segment_def by (intro handler_errs) auto

text \<open>A request that changes a table went through every check.\<close>

lemma create_segment_Inr:
  "create_segment env now n a b q db = (Inr y, d) \<Longrightarrow>
   \<exists>me name df w. caller env now q db me \<and> assertEditor me = Inr () \<and> segment_upsert b = Some (name, df) \<and> dsl_ok (ce_ns env) (dsl_of df) \<and>
     write_jsonb env df = Inr w \<and>
     d = db\<lparr>segments := segments db @ [\<lparr>sg_id = n, sg_tenant = sm_tenant me, sg_app = a, sg_name = name,
                 sg_definition = w, sg_status = ''active'', sg_detail = None, sg_last_count = None, sg_last_evaluated = None,
                 sg_created_by = sm_member me, sg_updated = now\<rparr>]\<rparr>"
  by (auto simp: create_segment_def handler_Inr assertCompiles_ok split: if_splits)

lemma update_segment_Inr:
  "update_segment env now a n b q db = (Inr y, d) \<Longrightarrow>
   \<exists>me name df w. caller env now q db me \<and> assertEditor me = Inr () \<and> segment_upsert b = Some (name, df) \<and> dsl_ok (ce_ns env) (dsl_of df) \<and>
     write_jsonb env df = Inr w \<and>
     d = db\<lparr>segments := update_where (segment_at n (sm_tenant me) a)
                 (\<lambda>s. s\<lparr>sg_name := name, sg_definition := w, sg_status := ''active'', sg_detail := None, sg_updated := now\<rparr>) (segments db)\<rparr>"
  by (auto simp: update_segment_def handler_Inr assertCompiles_ok split: if_splits)

lemma remove_segment_Inr:
  "remove_segment env now a n q db = (Inr y, d) \<Longrightarrow>
   \<exists>me. caller env now q db me \<and> assertEditor me = Inr () \<and>
     d = db\<lparr>segments := filter (\<lambda>s. \<not> segment_at n (sm_tenant me) a s) (segments db)\<rparr>"
  by (auto simp: remove_segment_def handler_Inr split: if_splits)

definition cache_only :: "content_db \<Rightarrow> content_db \<Rightarrow> bool" where
  "cache_only db d \<longleftrightarrow> d = db\<lparr>preview_cache := preview_cache d\<rparr>"

lemma cache_onlyE: "cache_only db d \<Longrightarrow> \<exists>c. d = db\<lparr>preview_cache := c\<rparr>"
  unfolding cache_only_def by blast

lemma cache_only_simps [simp]: "cache_only db db" "cache_only db (db\<lparr>preview_cache := c\<rparr>)"
  by (simp_all add: cache_only_def)

lemma cache_only_when: "(\<And>a. r = Inr a \<Longrightarrow> cache_only db (snd (k a))) \<Longrightarrow> cache_only db (snd (when_ok r db k))"
  by (simp add: when_ok_def split: sum.split)

lemma preview_segment_effect: "cache_only db (snd (preview_segment env now a b q db))"
  unfolding preview_segment_def Let_def content_guard_def
  by (auto intro!: cache_only_when split: sum.split option.split)

end
