(* ===== verification/Journey_Admin.thy ===== *)
theory Journey_Admin
  imports Segment_Admin
begin

text \<open>
  The journey API (\<open>journeys/journeys.controller.ts\<close>): drafts, validation, activation with its version snapshot, audience snapshot and
  entry job, pausing and archiving. A handler that opens a transaction returns the database of its start when it fails; the audience rows of
  ClickHouse are outside the transaction and stay.
\<close>

section \<open>Reading\<close>

abbreviation journey_at :: "string \<Rightarrow> string \<Rightarrow> string \<Rightarrow> journey_row \<Rightarrow> bool" where
  "journey_at i tenantId appId j \<equiv> j_id j = i \<and> j_tenant j = tenantId \<and> j_app j = appId"

definition versions_of :: "string \<Rightarrow> string \<Rightarrow> string \<Rightarrow> content_db \<Rightarrow> version_row list" where
  "versions_of tenantId appId i db =
     (if list_ex (journey_at i tenantId appId) (journeys db) then filter (\<lambda>v. v_journey v = i) (journey_versions db) else [])"

definition publishedABNodes :: "string \<Rightarrow> string \<Rightarrow> string \<Rightarrow> content_db \<Rightarrow> published_ab" where
  "publishedABNodes tenantId appId i db =
     collectPublishedABNodes (map (\<lambda>v. journey_of (v_definition v)) (sort_key v_version (versions_of tenantId appId i db)))"

definition definitionIssues :: "content_env \<Rightarrow> string \<Rightarrow> string \<Rightarrow> string \<Rightarrow> content_db \<Rightarrow> journey_definition \<Rightarrow> issue list" where
  "definitionIssues env tenantId appId i db def =
     validateJourney def @
     (if schema_version def = Some (Num 2) \<and> \<not> ce_graph_v2 env
      then [\<lparr>i_level = LevelError, i_message = MGraphDisabled, i_node_index = None, i_node_id = None, i_edge_id = None,
             i_field = Some ''schema_version''\<rparr>] else []) @
     validatePublishedABNodes def (publishedABNodes tenantId appId i db)"

definition draft_revision :: "content_env \<Rightarrow> string \<Rightarrow> jsval \<Rightarrow> string" where
  "draft_revision env = draftRevision (ce_sha env) (ce_ns env) (ce_le env)"

definition list_journeys :: "content_env \<Rightarrow> int \<Rightarrow> string \<Rightarrow> request \<Rightarrow> content_db \<Rightarrow>
    (content_db, (string \<times> string \<times> string \<times> string \<times> nat option \<times> int) list \<times> (bool \<times> string list)) reply" where
  "list_journeys env now appId q db =
     content_guard env now [appId] q db (\<lambda>me.
       when_ok (assertApp appId me (cd_auth db)) db (\<lambda>_.
         (Inr (map (\<lambda>j. (j_id j, j_name j, j_status j, j_category j, j_active_version j, j_updated j))
                 (rev (sort_key j_updated (filter (\<lambda>j. j_tenant j = sm_tenant me \<and> j_app j = appId) (journeys db)))),
               journeyCapabilities (ce_graph_v2 env)), db)))"

definition get_journey :: "content_env \<Rightarrow> int \<Rightarrow> string \<Rightarrow> string \<Rightarrow> request \<Rightarrow> content_db \<Rightarrow>
    (content_db, (string \<times> string \<times> string \<times> string \<times> jsval \<times> nat option \<times> int) \<times> string \<times> published_ab \<times> (bool \<times> string list)) reply" where
  "get_journey env now appId i q db =
     content_guard env now [appId, i] q db (\<lambda>me.
       when_ok (assertApp appId me (cd_auth db)) db (\<lambda>_.
         case find (journey_at i (sm_tenant me) appId) (journeys db) of
           None \<Rightarrow> (Inl (NotFound ''journey''), db)
         | Some j \<Rightarrow> (Inr ((j_id j, j_name j, j_status j, j_category j, j_draft j, j_active_version j, j_updated j), draft_revision env (j_name j) (j_draft j), publishedABNodes (sm_tenant me) appId i db,
                          journeyCapabilities (ce_graph_v2 env)), db)))"

section \<open>Drafts\<close>

definition draft_category :: "jsval \<Rightarrow> string" where
  "draft_category d = str_of (case js_get d ''settings'' of None \<Rightarrow> None | Some s \<Rightarrow> js_get s ''category'')"

definition create_journey ::
  "content_env \<Rightarrow> int \<Rightarrow> string \<Rightarrow> string \<Rightarrow> jsval \<Rightarrow> request \<Rightarrow> content_db \<Rightarrow> (content_db, string \<times> string) reply" where
  "create_journey env now newId appId body q db =
     content_guard env now [appId] q db (\<lambda>me.
       when_ok (assertApp appId me (cd_auth db)) db (\<lambda>_.
       when_ok (assertEditor me) db (\<lambda>_.
       when_ok (parse_body (journey_upsert (ce_uuid env) body)) db (\<lambda>(name, d).
       when_ok (write_jsonb env d) db (\<lambda>stored.
         if list_ex (\<lambda>j. j_app j = appId \<and> j_name j = name) (journeys db) \<or> newId \<in> set (map j_id (journeys db))
         then (Inl (BadRequest ''name taken''), db)
         else (Inr (newId, draft_revision env name d),
               db\<lparr>journeys := journeys db @ [\<lparr>j_id = newId, j_tenant = sm_tenant me, j_app = appId, j_name = name, j_status = ''draft'',
                 j_category = draft_category d, j_draft = stored, j_active_version = None, j_created_by = sm_member me,
                 j_updated = now\<rparr>]\<rparr>))))))"

abbreviation editable :: "journey_row \<Rightarrow> bool" where
  "editable j \<equiv> j_status j = ''draft'' \<or> j_status j = ''paused''"

definition update_journey ::
  "content_env \<Rightarrow> int \<Rightarrow> string \<Rightarrow> string \<Rightarrow> jsval \<Rightarrow> request \<Rightarrow> content_db \<Rightarrow> (content_db, string) reply" where
  "update_journey env now appId i body q db =
     content_guard env now [appId, i] q db (\<lambda>me.
       when_ok (assertApp appId me (cd_auth db)) db (\<lambda>_.
       when_ok (assertEditor me) db (\<lambda>_.
       when_ok (parse_body (journey_upsert (ce_uuid env) body)) db (\<lambda>(name, d).
       when_ok (write_jsonb env d) db (\<lambda>stored.
         if \<not> list_ex (\<lambda>j. journey_at i (sm_tenant me) appId j \<and> editable j) (journeys db) then (Inl (NotFound ''journey''), db)
         else if list_ex (\<lambda>j. j_app j = appId \<and> j_name j = name \<and> j_id j \<noteq> i) (journeys db) then (Inl (BadRequest ''name taken''), db)
         else (Inr (draft_revision env name d),
               db\<lparr>journeys := update_where (\<lambda>j. journey_at i (sm_tenant me) appId j \<and> editable j)
                 (\<lambda>j. j\<lparr>j_name := name, j_category := draft_category d, j_draft := stored, j_updated := now\<rparr>) (journeys db)\<rparr>))))))"

section \<open>Segments of a journey\<close>

definition compileSegment ::
  "content_env \<Rightarrow> string \<Rightarrow> string \<Rightarrow> string \<Rightarrow> string \<Rightarrow> content_db \<Rightarrow> http_error + compiled" where
  "compileSegment env tenantId appId segmentId category db =
     (case find (segment_at segmentId tenantId appId) (segments db) of
        None \<Rightarrow> Inl (BadRequest ''no segment'')
      | Some s \<Rightarrow>
          if sg_status s = ''broken'' then Inl (BadRequest ''broken segment'')
          else (case compile (ce_ns env) (dsl_of (sg_definition s)) tenantId appId
                       (if category = ''transactional'' then Transactional else Marketing) of
                  Inl _ \<Rightarrow> Inl (Internal ''CompileError'') | Inr c \<Rightarrow> Inr c))"

definition audienceCount ::
  "content_env \<Rightarrow> int \<Rightarrow> string \<Rightarrow> string \<Rightarrow> string \<Rightarrow> string \<Rightarrow> content_db \<Rightarrow> http_error + jsnum" where
  "audienceCount env now tenantId appId segmentId category db =
     (case compileSegment env tenantId appId segmentId category db of
        Inl e \<Rightarrow> Inl e
      | Inr c \<Rightarrow> (case ask_clickhouse env now ''SELECT uniqCombined(user_id) AS c FROM ('' c '')'' of
                   Inl e \<Rightarrow> Inl e | Inr rows \<Rightarrow> Inr (count_of env ''c'' rows)))"

definition AUDIENCE_INSERT :: string where
  "AUDIENCE_INSERT = ''INSERT INTO campaign_audiences (audience_ref, tenant_id, app_id, user_id, created_at) '' @
     ''SELECT {aref:UUID}, {tid:UUID}, {aid:UUID}, user_id, now64(3) FROM (''"

definition snapshotAudience ::
  "content_env \<Rightarrow> int \<Rightarrow> string \<Rightarrow> string \<Rightarrow> string \<Rightarrow> string \<Rightarrow> string \<Rightarrow> content_db \<Rightarrow> (content_db, string) reply" where
  "snapshotAudience env now audienceRef tenantId appId segmentId category db =
     when_ok (compileSegment env tenantId appId segmentId category db) db (\<lambda>c.
       case toClickHouse (AUDIENCE_INSERT @ fst c @ '')'', snd c) of
         Inl _ \<Rightarrow> (Inl (Internal ''placeholders''), db)
       | Inr (sql, params) \<Rightarrow>
           let command = (sql, params @ [(''aref'', Some (JStr audienceRef)), (''tid'', Some (JStr tenantId)), (''aid'', Some (JStr appId))])
           in if ce_command env now command then (Inr audienceRef, db\<lparr>audiences := audiences db @ [(audienceRef, command)]\<rparr>)
              else (Inl (Internal ''clickhouse''), db))"

definition wants_audience :: "entry_rule \<Rightarrow> string option" where
  "wants_audience e = (if entry_type e = ''blast'' \<and> entry_segment e \<noteq> Some [] then entry_segment e else None)"

section \<open>Validation and activation\<close>

definition validate_journey :: "content_env \<Rightarrow> int \<Rightarrow> string \<Rightarrow> string \<Rightarrow> request \<Rightarrow> content_db \<Rightarrow>
    (content_db, issue list \<times> jsnum option \<times> string) reply" where
  "validate_journey env now appId i q db =
     content_guard env now [appId, i] q db (\<lambda>me.
       case find (journey_at i (sm_tenant me) appId) (journeys db) of
         None \<Rightarrow> (Inl (NotFound ''journey''), db)
       | Some j \<Rightarrow>
           (let def = journey_of (j_draft j); issues = definitionIssues env (sm_tenant me) appId i db def;
                answer = (\<lambda>n. (Inr (issues, n, draft_revision env (j_name j) (j_draft j)), db))
            in if hasErrors issues then answer None
               else case entry def of
                 None \<Rightarrow> (Inl (Internal ''TypeError''), db)
               | Some e \<Rightarrow>
                   (case wants_audience e of
                      None \<Rightarrow> answer None
                    | Some s \<Rightarrow> when_ok (audienceCount env now (sm_tenant me) appId s (category_of def) db) db (\<lambda>n. answer (Some n)))))"

definition next_version :: "version_row list \<Rightarrow> nat" where
  "next_version vs = Suc (fold max (map v_version vs) 0)"

definition journeyEntry :: string where
  "journeyEntry = ''stream:journey.entry''"

definition entry_key :: "string \<Rightarrow> nat \<Rightarrow> string" where
  "entry_key i version = ''v2:entry:'' @ i @ '':'' @ nat_str version"

definition entry_payload :: "string \<Rightarrow> nat \<Rightarrow> string \<Rightarrow> jsval" where
  "entry_payload i version audienceRef =
     JObj [(''journey_id'', JStr i), (''version'', JNum (Num (of_nat version))), (''source'', JStr ''blast''), (''audience_ref'', JStr audienceRef)]"

text \<open>\<open>INSERT INTO journey_outbox ... ON CONFLICT DO NOTHING\<close>\<close>

definition enqueue_entry :: "string \<Rightarrow> string \<Rightarrow> string \<Rightarrow> jsval \<Rightarrow> outbox_entry list \<Rightarrow> outbox_entry list" where
  "enqueue_entry tenantId appId key payload box =
     (if list_ex (\<lambda>e. oe_tenant e = tenantId \<and> oe_app e = appId \<and> oe_key e = key) box then box
      else box @ [\<lparr>oe_tenant = tenantId, oe_app = appId, oe_stream = journeyEntry, oe_key = key, oe_payload = payload\<rparr>])"

text \<open>The writes of the transaction, from the snapshot of the definition to the entry job\<close>

definition publish_version :: "content_env \<Rightarrow> int \<Rightarrow> string \<Rightarrow> string \<Rightarrow> string \<Rightarrow> nat \<Rightarrow> jsval \<Rightarrow> string option \<Rightarrow> content_db \<Rightarrow> (content_db, unit) outcome" where
  "publish_version env now tenantId appId i version d audienceRef db =
     (case write_jsonb env d of
        Inl e \<Rightarrow> Inl e
      | Inr stored \<Rightarrow>
          (let db1 = db\<lparr>journey_versions := journey_versions db @ [\<lparr>v_journey = i, v_version = version, v_definition = stored\<rparr>],
                        journeys := update_where (journey_at i tenantId appId)
                          (\<lambda>j. j\<lparr>j_status := ''active'', j_active_version := Some version, j_updated := now\<rparr>) (journeys db)\<rparr>
           in case audienceRef of
                None \<Rightarrow> Inr ((), db1)
              | Some ref \<Rightarrow>
                  (case write_jsonb env (entry_payload i version ref) of
                     Inl e \<Rightarrow> Inl e
                   | Inr payload \<Rightarrow>
                       Inr ((), db1\<lparr>journey_outbox := enqueue_entry tenantId appId (entry_key i version) payload (journey_outbox db1)\<rparr>))))"

text \<open>The checks on the locked row, in the order of the code\<close>

definition activation_check :: "content_env \<Rightarrow> string \<Rightarrow> string \<Rightarrow> string \<Rightarrow> string option \<Rightarrow> content_db \<Rightarrow> http_error + journey_row \<times> entry_rule" where
  "activation_check env tenantId appId i given db =
     (case find (journey_at i tenantId appId) (journeys db) of
        None \<Rightarrow> Inl (NotFound ''journey'')
      | Some j \<Rightarrow>
          (let def = journey_of (j_draft j)
           in if \<not> editable j then Inl (Conflict ''not a draft'')
              else if (schema_version def = Some (Num 2) \<and> given = None) \<or>
                      (given \<noteq> None \<and> given \<noteq> Some (draft_revision env (j_name j) (j_draft j))) then Inl (Conflict ''draft changed'')
              else if hasErrors (definitionIssues env tenantId appId i db def) then Inl (BadRequest ''issues'')
              else (case entry def of None \<Rightarrow> Inl (Internal ''TypeError'') | Some e \<Rightarrow> Inr (j, e))))"

text \<open>The snapshot of the audience, then the writes: an error after the snapshot leaves its rows in ClickHouse.\<close>

definition launch ::
  "content_env \<Rightarrow> int \<Rightarrow> string \<Rightarrow> string \<Rightarrow> string \<Rightarrow> string \<Rightarrow> journey_row \<Rightarrow> entry_rule \<Rightarrow> content_db \<Rightarrow> (content_db, nat \<times> string \<times> string option) reply" where
  "launch env now newRef tenantId appId i j e db =
     (let version = next_version (versions_of tenantId appId i db);
          (snapshot, db1) = (case wants_audience e of
             None \<Rightarrow> (Inr None, db)
           | Some s \<Rightarrow> (case snapshotAudience env now newRef tenantId appId s (category_of (journey_of (j_draft j))) db of
                          (Inl err, db1) \<Rightarrow> (Inl err, db1) | (Inr ref, db1) \<Rightarrow> (Inr (Some ref), db1)))
      in when_ok snapshot db1 (\<lambda>audienceRef.
           case publish_version env now tenantId appId i version (j_draft j) audienceRef db1 of
             Inl err \<Rightarrow> (Inl err, db1) | Inr (_, db2) \<Rightarrow> (Inr (version, entry_type e, audienceRef), db2)))"

definition activate_journey ::
  "content_env \<Rightarrow> int \<Rightarrow> string \<Rightarrow> string \<Rightarrow> string \<Rightarrow> jsval \<Rightarrow> request \<Rightarrow> content_db \<Rightarrow> (content_db, nat \<times> string \<times> string option) reply" where
  "activate_journey env now newRef appId i body q db =
     content_guard env now [appId, i] q db (\<lambda>me.
       when_ok (assertEditor me) db (\<lambda>_.
       when_ok (assertApp appId me (cd_auth db)) db (\<lambda>_.
       when_ok (parse_body (activationSchema body)) db (\<lambda>given.
       when_ok (activation_check env (sm_tenant me) appId i given db) db (\<lambda>(j, e).
         launch env now newRef (sm_tenant me) appId i j e db)))))"

section \<open>Pausing and archiving\<close>

definition setStatus :: "int \<Rightarrow> string \<Rightarrow> string \<Rightarrow> session_member \<Rightarrow> string \<Rightarrow> string list \<Rightarrow> content_db \<Rightarrow> (content_db, unit) reply" where
  "setStatus now appId i me status from db =
     when_ok (assertApp appId me (cd_auth db)) db (\<lambda>_.
       if \<not> list_ex (\<lambda>j. journey_at i (sm_tenant me) appId j \<and> j_status j \<in> set from) (journeys db) then (Inl (Conflict ''status''), db)
       else (Inr (), db\<lparr>journeys := update_where (\<lambda>j. journey_at i (sm_tenant me) appId j \<and> j_status j \<in> set from)
               (\<lambda>j. j\<lparr>j_status := status, j_updated := now\<rparr>) (journeys db)\<rparr>))"

definition pause_journey :: "content_env \<Rightarrow> int \<Rightarrow> string \<Rightarrow> string \<Rightarrow> request \<Rightarrow> content_db \<Rightarrow> (content_db, unit) reply" where
  "pause_journey env now appId i q db =
     content_guard env now [appId, i] q db (\<lambda>me.
       when_ok (assertEditor me) db (\<lambda>_. setStatus now appId i me ''paused'' [''active''] db))"

abbreviation state_at :: "string \<Rightarrow> string \<Rightarrow> string \<Rightarrow> state_row \<Rightarrow> bool" where
  "state_at i tenantId appId s \<equiv> js_journey s = i \<and> js_tenant s = tenantId \<and> js_app s = appId"

abbreviation execution_at :: "string \<Rightarrow> string \<Rightarrow> string \<Rightarrow> execution_row \<Rightarrow> bool" where
  "execution_at i tenantId appId x \<equiv> x_journey x = i \<and> x_tenant x = tenantId \<and> x_app x = appId"

definition LIVE_STATES :: "string list" where
  "LIVE_STATES = [''active'', ''waiting'', ''claimed'']"

definition LIVE_EXECUTIONS :: "string list" where
  "LIVE_EXECUTIONS = [''arrived'', ''waiting'', ''retrying'']"

definition archive_journey :: "content_env \<Rightarrow> int \<Rightarrow> string \<Rightarrow> string \<Rightarrow> request \<Rightarrow> content_db \<Rightarrow> (content_db, unit) reply" where
  "archive_journey env now appId i q db =
     content_guard env now [appId, i] q db (\<lambda>me.
       when_ok (assertEditor me) db (\<lambda>_.
       when_ok (assertApp appId me (cd_auth db)) db (\<lambda>_.
         if \<not> list_ex (journey_at i (sm_tenant me) appId) (journeys db) then (Inl (NotFound ''journey''), db)
         else (Inr (), db\<lparr>
           journeys := update_where (journey_at i (sm_tenant me) appId) (\<lambda>j. j\<lparr>j_status := ''archived'', j_updated := now\<rparr>) (journeys db),
           journey_states := update_where (\<lambda>s. state_at i (sm_tenant me) appId s \<and> js_status s \<in> set LIVE_STATES)
             (\<lambda>s. s\<lparr>js_status := ''exited'', js_claim_token := None, js_claimed_by := None, js_claimed_at := None, js_next_wake := None,
                    js_updated := now\<rparr>) (journey_states db),
           node_executions := update_where (\<lambda>x. execution_at i (sm_tenant me) appId x \<and> x_status x \<in> set LIVE_EXECUTIONS)
             (\<lambda>x. x\<lparr>x_status := ''exited'', x_resolved_at := Some now, x_updated := now\<rparr>) (node_executions db)\<rparr>))))"

section \<open>Effects of the journey handlers\<close>

lemma create_journey_errs: "errs_unchanged (create_journey env now n a b q db) db"
  unfolding create_journey_def by (intro handler_errs) (auto intro!: handler_errs)

lemma update_journey_errs: "errs_unchanged (update_journey env now a i b q db) db"
  unfolding update_journey_def by (intro handler_errs) (auto intro!: handler_errs)

lemma pause_journey_errs: "errs_unchanged (pause_journey env now a i q db) db"
  unfolding pause_journey_def setStatus_def by (intro handler_errs) auto

lemma archive_journey_errs: "errs_unchanged (archive_journey env now a i q db) db"
  unfolding archive_journey_def by (intro handler_errs) auto

lemma validate_journey_state: "snd (validate_journey env now a i q db) = db"
  unfolding validate_journey_def Let_def content_guard_def when_ok_def by (simp split: sum.split option.split)

lemma create_journey_Inr:
  "create_journey env now n a b q db = (Inr y, d) \<Longrightarrow>
   \<exists>me name df w. caller env now q db me \<and> assertEditor me = Inr () \<and> journey_upsert (ce_uuid env) b = Some (name, df) \<and>
     write_jsonb env df = Inr w \<and> n \<notin> j_id ` set (journeys db) \<and> y = (n, draft_revision env name df) \<and>
     d = db\<lparr>journeys := journeys db @ [\<lparr>j_id = n, j_tenant = sm_tenant me, j_app = a, j_name = name, j_status = ''draft'',
                 j_category = draft_category df, j_draft = w, j_active_version = None, j_created_by = sm_member me,
                 j_updated = now\<rparr>]\<rparr>"
  by (auto simp: create_journey_def handler_Inr split: if_splits)

lemma update_journey_Inr:
  "update_journey env now a i b q db = (Inr y, d) \<Longrightarrow>
   \<exists>me name df w. caller env now q db me \<and> assertEditor me = Inr () \<and> journey_upsert (ce_uuid env) b = Some (name, df) \<and>
     write_jsonb env df = Inr w \<and> y = draft_revision env name df \<and>
     list_ex (\<lambda>j. journey_at i (sm_tenant me) a j \<and> editable j) (journeys db) \<and>
     d = db\<lparr>journeys := update_where (\<lambda>j. journey_at i (sm_tenant me) a j \<and> editable j)
                 (\<lambda>j. j\<lparr>j_name := name, j_category := draft_category df, j_draft := w, j_updated := now\<rparr>) (journeys db)\<rparr>"
  by (auto simp: update_journey_def handler_Inr split: if_splits)

lemma pause_journey_Inr:
  "pause_journey env now a i q db = (Inr y, d) \<Longrightarrow>
   \<exists>me. caller env now q db me \<and> assertEditor me = Inr () \<and>
     d = db\<lparr>journeys := update_where (\<lambda>j. journey_at i (sm_tenant me) a j \<and> j_status j = ''active'')
               (\<lambda>j. j\<lparr>j_status := ''paused'', j_updated := now\<rparr>) (journeys db)\<rparr>"
  by (auto simp: pause_journey_def setStatus_def handler_Inr split: if_splits)

lemma archive_journey_Inr:
  "archive_journey env now a i q db = (Inr y, d) \<Longrightarrow>
   \<exists>me. caller env now q db me \<and> assertEditor me = Inr () \<and> list_ex (journey_at i (sm_tenant me) a) (journeys db) \<and>
     d = db\<lparr>
           journeys := update_where (journey_at i (sm_tenant me) a) (\<lambda>j. j\<lparr>j_status := ''archived'', j_updated := now\<rparr>) (journeys db),
           journey_states := update_where (\<lambda>s. state_at i (sm_tenant me) a s \<and> js_status s \<in> set LIVE_STATES)
             (\<lambda>s. s\<lparr>js_status := ''exited'', js_claim_token := None, js_claimed_by := None, js_claimed_at := None, js_next_wake := None,
                    js_updated := now\<rparr>) (journey_states db),
           node_executions := update_where (\<lambda>x. execution_at i (sm_tenant me) a x \<and> x_status x \<in> set LIVE_EXECUTIONS)
             (\<lambda>x. x\<lparr>x_status := ''exited'', x_resolved_at := Some now, x_updated := now\<rparr>) (node_executions db)\<rparr>"
  by (auto simp: archive_journey_def handler_Inr split: if_splits)

text \<open>Activation: what ClickHouse keeps of a failed attempt, and the writes of a successful one\<close>

definition audiences_grow :: "content_db \<Rightarrow> content_db \<Rightarrow> bool" where
  "audiences_grow db d \<longleftrightarrow> (\<exists>xs. d = db\<lparr>audiences := audiences db @ xs\<rparr>)"

lemma audiences_grow_refl [simp]: "audiences_grow db db"
  unfolding audiences_grow_def by (rule exI [of _ "[]"]) simp

lemma audiences_grow_add [simp]: "audiences_grow db (db\<lparr>audiences := audiences db @ xs\<rparr>)"
  unfolding audiences_grow_def by blast

lemma snapshot_grows: "snapshotAudience env now r t a s c db = (x, d) \<Longrightarrow> audiences_grow db d"
  unfolding snapshotAudience_def when_ok_def Let_def by (auto split: sum.splits if_splits)

lemma snapshot_Inr:
  assumes "snapshotAudience env now r t a s c db = (Inr ref, d)"
  shows "ref = r" "r \<in> fst ` set (audiences d)"
proof -
  obtain q where q: "compileSegment env t a s c db = Inr q" using assms by (auto simp: snapshotAudience_def when_ok_Inr)
  then obtain sql ps where "toClickHouse (AUDIENCE_INSERT @ fst q @ '')'', snd q) = Inr (sql, ps)"
    using assms by (cases "toClickHouse (AUDIENCE_INSERT @ fst q @ '')'', snd q)") (auto simp: snapshotAudience_def when_ok_def)
  then show "ref = r" "r \<in> fst ` set (audiences d)"
    using assms q by (auto simp: snapshotAudience_def when_ok_def Let_def split: if_splits)
qed

lemma launch_error: "launch env now r t a i j e db = (Inl err, d) \<Longrightarrow> audiences_grow db d"
  unfolding launch_def Let_def
  by (cases "wants_audience e") (auto simp: when_ok_def split: sum.splits prod.splits dest: snapshot_grows)

lemma launch_success:
  assumes "launch env now r t a i j e db = (Inr (ver, ty, ref), d)"
  shows "\<exists>db1. ver = next_version (versions_of t a i db) \<and> publish_version env now t a i ver (j_draft j) ref db1 = Inr ((), d) \<and> audiences_grow db db1 \<and>
    (wants_audience e = None \<longleftrightarrow> ref = None) \<and> (\<forall>x. ref = Some x \<longrightarrow> x \<in> fst ` set (audiences db1))"
proof (cases "wants_audience e")
  case None
  then show ?thesis using assms by (intro exI [of _ db]) (auto simp: launch_def Let_def when_ok_def split: sum.splits)
next
  case (Some s)
  let ?snap = "snapshotAudience env now r t a s (category_of (journey_of (j_draft j))) db"
  obtain x db1 where snap: "?snap = (Inr x, db1)" using assms Some by (cases ?snap; cases "fst ?snap") (auto simp: launch_def Let_def when_ok_def)
  show ?thesis using assms Some snap snapshot_Inr [OF snap] snapshot_grows [OF snap]
    by (intro exI [of _ db1]) (auto simp: launch_def Let_def when_ok_def split: sum.splits)
qed

lemma activate_journey_Inl: "activate_journey env now r a i b q db = (Inl e, d) \<Longrightarrow> audiences_grow db d"
  unfolding activate_journey_def
  by (drule content_guard_Inl) (auto simp: when_ok_Inl dest: launch_error)

lemma activate_journey_Inr:
  "activate_journey env now r a i b q db = (Inr y, d) \<Longrightarrow>
   \<exists>me given j e. caller env now q db me \<and> assertEditor me = Inr () \<and> activationSchema b = Some given \<and>
     activation_check env (sm_tenant me) a i given db = Inr (j, e) \<and> launch env now r (sm_tenant me) a i j e db = (Inr y, d)"
  by (auto simp: activate_journey_def handler_Inr)

end
