(* ===== verification/Content_Safety.thy ===== *)
theory Content_Safety
  imports Journey_Admin
begin

text \<open>
  Every sequence of requests to the segment and journey APIs: the versions of a journey, the entry jobs of its activations, the definitions
  that are stored and the separation of the tenants.
\<close>

section \<open>Runs\<close>

text \<open>\<open>Elsewhere\<close>: the sign-in tables, and the customers that the journey workers move, change between two requests.\<close>

datatype content_op =
    CreateSegment int string string jsval request
  | UpdateSegment int string string jsval request
  | RemoveSegment int string string request
  | PreviewSegment int string jsval request
  | CreateJourney int string string jsval request
  | UpdateJourney int string string jsval request
  | ValidateJourney int string string request
  | ActivateJourney int string string string jsval request
  | PauseJourney int string string request
  | ArchiveJourney int string string request
  | Elsewhere auth_db "state_row list" "execution_row list"

fun content_step :: "content_env \<Rightarrow> content_op \<Rightarrow> content_db \<Rightarrow> content_db" where
  "content_step env (CreateSegment now i a b q) db = snd (create_segment env now i a b q db)"
| "content_step env (UpdateSegment now a i b q) db = snd (update_segment env now a i b q db)"
| "content_step env (RemoveSegment now a i q) db = snd (remove_segment env now a i q db)"
| "content_step env (PreviewSegment now a b q) db = snd (preview_segment env now a b q db)"
| "content_step env (CreateJourney now i a b q) db = snd (create_journey env now i a b q db)"
| "content_step env (UpdateJourney now a i b q) db = snd (update_journey env now a i b q db)"
| "content_step env (ValidateJourney now a i q) db = snd (validate_journey env now a i q db)"
| "content_step env (ActivateJourney now r a i b q) db = snd (activate_journey env now r a i b q db)"
| "content_step env (PauseJourney now a i q) db = snd (pause_journey env now a i q db)"
| "content_step env (ArchiveJourney now a i q) db = snd (archive_journey env now a i q db)"
| "content_step env (Elsewhere auth ss xs) db = db\<lparr>cd_auth := auth, journey_states := ss, node_executions := xs\<rparr>"

definition fresh_db :: "auth_db \<Rightarrow> content_db" where
  "fresh_db auth = \<lparr>cd_auth = auth, segments = [], journeys = [], journey_versions = [], journey_outbox = [], journey_states = [],
     node_executions = [], audiences = [], preview_cache = []\<rparr>"

abbreviation content_run :: "content_env \<Rightarrow> auth_db \<Rightarrow> content_op list \<Rightarrow> content_db" where
  "content_run env auth ops \<equiv> fold (content_step env) ops (fresh_db auth)"

section \<open>The tables of journeys\<close>

abbreviation rows_of :: "string \<Rightarrow> version_row list \<Rightarrow> version_row list" where
  "rows_of i vs \<equiv> filter (\<lambda>v. v_journey v = i) vs"

definition row_ok :: "content_env \<Rightarrow> journey_row \<Rightarrow> version_row list \<Rightarrow> bool" where
  "row_ok env j vs \<longleftrightarrow> stored_value env (j_draft j) \<and> map v_version vs = [1..<Suc (length vs)] \<and>
     j_active_version j = (if vs = [] then None else Some (length vs)) \<and>
     activation_history (map (\<lambda>v. journey_of (v_definition v)) vs) \<and>
     (j_status j = ''draft'' \<and> vs = [] \<or> (j_status j = ''active'' \<or> j_status j = ''paused'') \<and> vs \<noteq> [] \<or> j_status j = ''archived'')"

definition blast_version :: "version_row \<Rightarrow> bool" where
  "blast_version v \<longleftrightarrow> (case entry (journey_of (v_definition v)) of None \<Rightarrow> False | Some e \<Rightarrow> wants_audience e \<noteq> None)"

definition entry_for :: "content_env \<Rightarrow> content_db \<Rightarrow> version_row \<Rightarrow> outbox_entry \<Rightarrow> bool" where
  "entry_for env db v e \<longleftrightarrow> oe_key e = entry_key (v_journey v) (v_version v) \<and> oe_stream e = journeyEntry \<and>
     (\<exists>j \<in> set (journeys db). j_id j = v_journey v \<and> oe_tenant e = j_tenant j \<and> oe_app e = j_app j) \<and>
     (\<exists>ref \<in> fst ` set (audiences db). write_jsonb env (entry_payload (v_journey v) (v_version v) ref) = Inr (oe_payload e))"

definition content_inv :: "content_env \<Rightarrow> content_db \<Rightarrow> bool" where
  "content_inv env db \<longleftrightarrow> distinct (map j_id (journeys db)) \<and> v_journey ` set (journey_versions db) \<subseteq> j_id ` set (journeys db) \<and>
     (\<forall>j \<in> set (journeys db). row_ok env j (rows_of (j_id j) (journey_versions db))) \<and>
     list_all2 (entry_for env db) (filter blast_version (journey_versions db)) (journey_outbox db)"

lemma content_inv_fresh: "content_inv env (fresh_db auth)"
  by (simp add: content_inv_def fresh_db_def)

text \<open>Only the tables of journeys matter.\<close>

lemma content_inv_frame:
  assumes "content_inv env db" "journeys db' = journeys db" "journey_versions db' = journey_versions db" "journey_outbox db' = journey_outbox db"
    "set (audiences db) \<subseteq> set (audiences db')"
  shows "content_inv env db'"
proof -
  have "entry_for env db' v e" if "entry_for env db v e" for v e using that assms(2,5) unfolding entry_for_def by auto
  then show ?thesis using assms unfolding content_inv_def by (auto elim: list_all2_mono)
qed

lemma row_change:
  assumes inv: "content_inv env db" and keep: "\<And>j. j_id (f j) = j_id j \<and> j_tenant (f j) = j_tenant j \<and> j_app (f j) = j_app j"
    and ok: "\<And>j. j \<in> set (journeys db) \<Longrightarrow> p j \<Longrightarrow> row_ok env j (rows_of (j_id j) (journey_versions db)) \<Longrightarrow>
      row_ok env (f j) (rows_of (j_id j) (journey_versions db))"
    and tables: "journeys db' = update_where p f (journeys db)" "journey_versions db' = journey_versions db"
      "journey_outbox db' = journey_outbox db" "audiences db' = audiences db"
  shows "content_inv env db'"
proof -
  have ids: "map j_id (journeys db') = map j_id (journeys db)" using keep unfolding tables(1) by (intro map_update_where) simp
  then have same: "j_id ` set (journeys db') = j_id ` set (journeys db)" by (metis list.set_map)
  have "entry_for env db' v e" if e: "entry_for env db v e" for v e
  proof -
    obtain j where j: "j \<in> set (journeys db)" "j_id j = v_journey v" "oe_tenant e = j_tenant j" "oe_app e = j_app j"
      using e unfolding entry_for_def by blast
    have "(if p j then f j else j) \<in> set (journeys db')" unfolding tables(1) using j(1) by (rule update_whereI)
    then show ?thesis using e j keep [of j] unfolding entry_for_def tables(4) by (metis (no_types, lifting))
  qed
  moreover have "row_ok env j (rows_of (j_id j) (journey_versions db'))" if "j \<in> set (journeys db')" for j
    using that inv ok keep unfolding tables(1,2) content_inv_def by (auto elim!: in_update_whereE)
  ultimately show ?thesis using inv unfolding content_inv_def ids same tables(2,3) by (auto elim: list_all2_mono)
qed

section \<open>Requests keep the tables consistent\<close>

lemma content_inv_segments: "content_inv env db \<Longrightarrow> content_inv env (db\<lparr>segments := ss\<rparr>)"
  by (erule content_inv_frame) simp_all

lemma create_segment_inv: "content_inv env db \<Longrightarrow> content_inv env (snd (create_segment env now n a b q db))"
  by (rule handler_cases [OF create_segment_errs]) (auto dest!: create_segment_Inr intro: content_inv_segments)

lemma update_segment_inv: "content_inv env db \<Longrightarrow> content_inv env (snd (update_segment env now a n b q db))"
  by (rule handler_cases [OF update_segment_errs]) (auto dest!: update_segment_Inr intro: content_inv_segments)

lemma remove_segment_inv: "content_inv env db \<Longrightarrow> content_inv env (snd (remove_segment env now a n q db))"
  by (rule handler_cases [OF remove_segment_errs]) (auto dest!: remove_segment_Inr intro: content_inv_segments)

lemma preview_segment_inv:
  assumes "content_inv env db"
  shows "content_inv env (snd (preview_segment env now a b q db))"
proof -
  from cache_onlyE [OF preview_segment_effect] obtain c where "snd (preview_segment env now a b q db) = db\<lparr>preview_cache := c\<rparr>" by blast
  then show ?thesis by (simp add: content_inv_frame [OF assms])
qed

lemma content_inv_new:
  assumes inv: "content_inv env db"
    and j: "j_id j \<notin> j_id ` set (journeys db)" "stored_value env (j_draft j)" "j_active_version j = None" "j_status j = ''draft''"
  shows "content_inv env (db\<lparr>journeys := journeys db @ [j]\<rparr>)"
proof -
  have "v_journey v \<noteq> j_id j" if "v \<in> set (journey_versions db)" for v using inv j(1) that unfolding content_inv_def by (metis imageI subsetD)
  then have none: "rows_of (j_id j) (journey_versions db) = []" by (simp add: filter_empty_conv)
  have "entry_for env (db\<lparr>journeys := journeys db @ [j]\<rparr>) v e" if "entry_for env db v e" for v e using that unfolding entry_for_def by auto
  moreover have "row_ok env j []" using j by (simp add: row_ok_def activation_history_def)
  ultimately show ?thesis using inv j(1) none unfolding content_inv_def by (auto elim: list_all2_mono)
qed

lemma create_journey_inv:
  assumes law: "jsonb_law env" and inv: "content_inv env db"
  shows "content_inv env (snd (create_journey env now n a b q db))"
proof (rule handler_cases [OF create_journey_errs])
  fix y d assume "create_journey env now n a b q db = (Inr y, d)"
  from create_journey_Inr [OF this] obtain me :: session_member and name df w where d: "write_jsonb env df = Inr w" "n \<notin> j_id ` set (journeys db)"
    "d = db\<lparr>journeys := journeys db @ [\<lparr>j_id = n, j_tenant = sm_tenant me, j_app = a, j_name = name, j_status = ''draft'',
                 j_category = draft_category df, j_draft = w, j_active_version = None, j_created_by = sm_member me,
                 j_updated = now\<rparr>]\<rparr>" by blast
  have "stored_value env w" using law d(1) by (rule write_jsonb_stored)
  then show "content_inv env d" unfolding d(3) using d(2) by (intro content_inv_new [OF inv]) simp_all
qed (rule inv)

lemma update_journey_inv:
  assumes law: "jsonb_law env" and inv: "content_inv env db"
  shows "content_inv env (snd (update_journey env now a i b q db))"
proof (rule handler_cases [OF update_journey_errs])
  fix y d assume "update_journey env now a i b q db = (Inr y, d)"
  from update_journey_Inr [OF this] obtain me :: session_member and name df w where d: "write_jsonb env df = Inr w"
    "d = db\<lparr>journeys := update_where (\<lambda>j. journey_at i (sm_tenant me) a j \<and> editable j)
                 (\<lambda>j. j\<lparr>j_name := name, j_category := draft_category df, j_draft := w, j_updated := now\<rparr>) (journeys db)\<rparr>"
    by blast
  have "stored_value env w" using law d(1) by (rule write_jsonb_stored)
  then show "content_inv env d" unfolding d(2) by (intro row_change [OF inv]) (auto simp: row_ok_def)
qed (rule inv)

lemma pause_journey_inv:
  assumes inv: "content_inv env db"
  shows "content_inv env (snd (pause_journey env now a i q db))"
proof (rule handler_cases [OF pause_journey_errs])
  fix y d assume "pause_journey env now a i q db = (Inr y, d)"
  from pause_journey_Inr [OF this] obtain me :: session_member where d: "d = db\<lparr>journeys := update_where (\<lambda>j. journey_at i (sm_tenant me) a j \<and> j_status j = ''active'')
               (\<lambda>j. j\<lparr>j_status := ''paused'', j_updated := now\<rparr>) (journeys db)\<rparr>" by blast
  show "content_inv env d" unfolding d by (intro row_change [OF inv]) (auto simp: row_ok_def)
qed (rule inv)

lemma archive_journey_inv:
  assumes inv: "content_inv env db"
  shows "content_inv env (snd (archive_journey env now a i q db))"
proof (rule handler_cases [OF archive_journey_errs])
  fix y d assume "archive_journey env now a i q db = (Inr y, d)"
  from archive_journey_Inr [OF this] obtain t ss xs where d: "d = db\<lparr>journeys := update_where (journey_at i t a) (\<lambda>j. j\<lparr>j_status := ''archived'', j_updated := now\<rparr>) (journeys db),
      journey_states := ss, node_executions := xs\<rparr>" by blast
  show "content_inv env d" unfolding d by (intro row_change [OF inv]) (auto simp: row_ok_def)
qed (rule inv)

section \<open>Activation\<close>

lemma activation_history_snoc:
  assumes "activation_history ds" "\<not> hasErrors (validateJourney d)" "validatePublishedABNodes d (collectPublishedABNodes ds) = []"
  shows "activation_history (ds @ [d])"
  using assms by (auto simp: activation_history_def nth_append less_Suc_eq)

lemma hasErrors_published: "\<not> hasErrors (validatePublishedABNodes d pub) \<Longrightarrow> validatePublishedABNodes d pub = []"
proof -
  have "i_level x = LevelError" if "x \<in> set (validatePublishedABNodes d pub)" for x
    using that by (auto simp: validatePublishedABNodes_def set_each_indexed published_issue_def
        split: node_body.splits option.splits if_splits)
  then show "\<not> hasErrors (validatePublishedABNodes d pub) \<Longrightarrow> validatePublishedABNodes d pub = []"
    by (cases "validatePublishedABNodes d pub") (auto simp: hasErrors_def list_ex_iff)
qed

lemma definitionIssues_ok:
  assumes "\<not> hasErrors (definitionIssues env t a i db def)"
  shows "\<not> hasErrors (validateJourney def)" "validatePublishedABNodes def (publishedABNodes t a i db) = []"
    "schema_version def = Some (Num 2) \<Longrightarrow> ce_graph_v2 env"
  using assms by (auto simp: definitionIssues_def hasErrors_append intro: hasErrors_published)
    (simp add: hasErrors_def split: if_splits)

lemma activation_checkE:
  assumes "activation_check env t a i given db = Inr (j, e)"
  shows "j \<in> set (journeys db)" "journey_at i t a j" "editable j" "entry (journey_of (j_draft j)) = Some e"
    "\<not> hasErrors (definitionIssues env t a i db (journey_of (j_draft j)))"
    "given \<noteq> None \<Longrightarrow> given = Some (draft_revision env (j_name j) (j_draft j))"
    "schema_version (journey_of (j_draft j)) = Some (Num 2) \<Longrightarrow> given \<noteq> None"
  using assms by (auto simp: activation_check_def Let_def split: option.splits if_splits dest!: find_SomeD)

lemma fold_max_upt: "fold max [1..<Suc n] 0 = n"
  by (induction n) (auto simp: max_def)

lemma history_reads:
  assumes "content_inv env db" "j \<in> set (journeys db)" "journey_at i t a j"
  shows "versions_of t a i db = rows_of i (journey_versions db)"
    "next_version (versions_of t a i db) = Suc (length (rows_of i (journey_versions db)))"
    "publishedABNodes t a i db = collectPublishedABNodes (map (\<lambda>v. journey_of (v_definition v)) (rows_of i (journey_versions db)))"
proof -
  show vs: "versions_of t a i db = rows_of i (journey_versions db)" using assms(2,3) by (auto simp: versions_of_def list_ex_iff)
  have n: "map v_version (rows_of i (journey_versions db)) = [1..<Suc (length (rows_of i (journey_versions db)))]"
    using assms unfolding content_inv_def row_ok_def by blast
  then show "next_version (versions_of t a i db) = Suc (length (rows_of i (journey_versions db)))"
    by (simp only: vs next_version_def fold_max_upt)
  have "sorted (map v_version (rows_of i (journey_versions db)))" unfolding n by (rule sorted_upt)
  then show "publishedABNodes t a i db = collectPublishedABNodes (map (\<lambda>v. journey_of (v_definition v)) (rows_of i (journey_versions db)))"
    by (simp add: publishedABNodes_def vs sort_key_id_if_sorted)
qed

lemma nat_str_colon: "CHR '':'' \<notin> set (nat_str n)"
proof (induction n rule: nat_str.induct)
  case (1 n)
  have digit: "CHR '':'' \<noteq> char_of (48 + d :: nat)" if "d < 10" for d
  proof
    assume "CHR '':'' = char_of (48 + d)"
    then have "of_char CHR '':'' = (of_char (char_of (48 + d :: nat) :: char) :: nat)" by simp
    then show False using that by simp
  qed
  have "CHR '':'' \<noteq> char_of (48 + n mod 10)" "n < 10 \<Longrightarrow> CHR '':'' \<noteq> char_of (48 + n)" by (rule digit, simp)+
  then show ?case using 1 by (subst nat_str.simps) auto
qed

lemma entry_key_inject: "entry_key i m = entry_key k n \<longleftrightarrow> i = k \<and> m = n"
proof
  assume "entry_key i m = entry_key k n"
  then have "i @ '':'' @ nat_str m = k @ '':'' @ nat_str n" unfolding entry_key_def by simp
  then have "rev (i @ '':'' @ nat_str m) = rev (k @ '':'' @ nat_str n)" by (rule arg_cong)
  then have eq: "rev (nat_str m) @ CHR '':'' # rev i = rev (nat_str n) @ CHR '':'' # rev k" by simp
  have "rev (nat_str m) = rev (nat_str n)"
    using arg_cong [OF eq, of "takeWhile (\<lambda>c. c \<noteq> CHR '':'')"] nat_str_colon [of m] nat_str_colon [of n]
    by (subst (asm) (1 2) takeWhile_append2) auto
  then show "i = k \<and> m = n" using eq by auto
qed simp

text \<open>The writes of a successful activation\<close>

lemma publish_effect:
  assumes "publish_version env now t a i ver w ref db = Inr ((), d)" "stored_value env w"
  shows "\<exists>box. d = db\<lparr>journey_versions := journey_versions db @ [\<lparr>v_journey = i, v_version = ver, v_definition = w\<rparr>],
      journeys := update_where (journey_at i t a) (\<lambda>j. j\<lparr>j_status := ''active'', j_active_version := Some ver, j_updated := now\<rparr>) (journeys db),
      journey_outbox := box\<rparr> \<and>
    (case ref of None \<Rightarrow> box = journey_outbox db
     | Some r \<Rightarrow> (\<exists>payload. write_jsonb env (entry_payload i ver r) = Inr payload \<and> box = enqueue_entry t a (entry_key i ver) payload (journey_outbox db)))"
  using assms(1) by (cases ref) (auto simp: publish_version_def write_stored [OF assms(2)] Let_def split: sum.splits)

lemma list_all2_set2: "list_all2 R xs ys \<Longrightarrow> y \<in> set ys \<Longrightarrow> \<exists>x \<in> set xs. R x y"
  by (induction rule: list_all2_induct) auto

lemma entry_for_later:
  assumes "entry_for env db v e" "set (audiences db) \<subseteq> set (audiences d)"
    "journeys d = update_where (journey_at i t a) f (journeys db)" "\<And>j. j_id (f j) = j_id j \<and> j_tenant (f j) = j_tenant j \<and> j_app (f j) = j_app j"
  shows "entry_for env d v e"
proof -
  obtain j where j: "j \<in> set (journeys db)" "j_id j = v_journey v" "oe_tenant e = j_tenant j" "oe_app e = j_app j"
    using assms(1) unfolding entry_for_def by blast
  have "(if journey_at i t a j then f j else j) \<in> set (journeys d)" unfolding assms(3) using j(1) by (rule update_whereI)
  moreover have "j_id (if journey_at i t a j then f j else j) = j_id j" "j_tenant (if journey_at i t a j then f j else j) = j_tenant j"
    "j_app (if journey_at i t a j then f j else j) = j_app j" using assms(4) [of j] by simp_all
  ultimately have "\<exists>j \<in> set (journeys d). j_id j = v_journey v \<and> oe_tenant e = j_tenant j \<and> oe_app e = j_app j" using j by auto
  then show ?thesis using assms(1,2) unfolding entry_for_def by auto
qed

text \<open>The entry job of a new version is new.\<close>

lemma enqueue_new:
  assumes "content_inv env db" "ver = Suc (length (rows_of i (journey_versions db)))"
  shows "enqueue_entry t a (entry_key i ver) payload (journey_outbox db) =
    journey_outbox db @ [\<lparr>oe_tenant = t, oe_app = a, oe_stream = journeyEntry, oe_key = entry_key i ver, oe_payload = payload\<rparr>]"
proof -
  have "oe_key e \<noteq> entry_key i ver" if "e \<in> set (journey_outbox db)" for e
  proof
    assume eq: "oe_key e = entry_key i ver"
    have all: "list_all2 (entry_for env db) (filter blast_version (journey_versions db)) (journey_outbox db)"
      using assms(1) by (simp add: content_inv_def)
    from list_all2_set2 [OF all that] obtain v where v: "v \<in> set (journey_versions db)" "entry_for env db v e" by auto
    then have own: "v_journey v = i" "v_version v = ver" using eq by (simp_all add: entry_for_def entry_key_inject)
    then obtain j where "j \<in> set (journeys db)" "j_id j = i" using v assms(1) unfolding content_inv_def by (metis imageE imageI subsetD)
    then have "map v_version (rows_of i (journey_versions db)) = [1..<ver]" using assms unfolding content_inv_def row_ok_def by metis
    moreover have "ver \<in> set (map v_version (rows_of i (journey_versions db)))" using v(1) own by auto
    ultimately show False by (metis atLeastLessThan_iff less_irrefl set_upt)
  qed
  then show ?thesis by (auto simp: enqueue_entry_def list_ex_iff)
qed

text \<open>The tables after an activation\<close>

definition active_row :: "int \<Rightarrow> nat \<Rightarrow> journey_row \<Rightarrow> journey_row" where
  "active_row now ver j = j\<lparr>j_status := ''active'', j_active_version := Some ver, j_updated := now\<rparr>"

lemma active_row_keeps [simp]: "j_id (active_row now ver k) = j_id k" "j_tenant (active_row now ver k) = j_tenant k" "j_app (active_row now ver k) = j_app k"
  by (simp_all add: active_row_def)

definition activated :: "content_env \<Rightarrow> int \<Rightarrow> string \<Rightarrow> string \<Rightarrow> string \<Rightarrow> nat \<Rightarrow> journey_row \<Rightarrow> entry_rule \<Rightarrow> outbox_entry list \<Rightarrow> content_db \<Rightarrow> content_db \<Rightarrow> bool" where
  "activated env now t a i ver j e box db d \<longleftrightarrow> content_inv env db \<and> j \<in> set (journeys db) \<and> journey_at i t a j \<and>
     entry (journey_of (j_draft j)) = Some e \<and> \<not> hasErrors (definitionIssues env t a i db (journey_of (j_draft j))) \<and>
     ver = Suc (length (rows_of i (journey_versions db))) \<and>
     d = db\<lparr>journey_versions := journey_versions db @ [\<lparr>v_journey = i, v_version = ver, v_definition = j_draft j\<rparr>],
       journeys := update_where (journey_at i t a) (active_row now ver) (journeys db), journey_outbox := box\<rparr>"

lemma activatedD:
  assumes "activated env now t a i ver j e box db d"
  shows "content_inv env db" "j \<in> set (journeys db)" "journey_at i t a j" "entry (journey_of (j_draft j)) = Some e"
    "\<not> hasErrors (definitionIssues env t a i db (journey_of (j_draft j)))" "ver = Suc (length (rows_of i (journey_versions db)))"
    "d = db\<lparr>journey_versions := journey_versions db @ [\<lparr>v_journey = i, v_version = ver, v_definition = j_draft j\<rparr>],
       journeys := update_where (journey_at i t a) (active_row now ver) (journeys db), journey_outbox := box\<rparr>"
  using assms unfolding activated_def by blast+

lemma activated_own_row:
  assumes "activated env now t a i ver j e box db d" "k \<in> set (journeys db)" "j_id k = i"
  shows "k = j"
  using activatedD(1-3) [OF assms(1)] assms(2,3) unfolding content_inv_def by (auto simp: distinct_map dest: inj_onD)

lemma activated_row_ok:
  assumes act: "activated env now t a i ver j e box db d"
  shows "row_ok env (active_row now ver j) (rows_of i (journey_versions d))"
proof -
  let ?vs = "rows_of i (journey_versions db)"
  note inv = activatedD(1) [OF act] and row = activatedD(2,3) [OF act] and ver = activatedD(6) [OF act]
  have old: "row_ok env j ?vs" using inv row unfolding content_inv_def by blast
  note reads = history_reads [OF inv row] and issues = definitionIssues_ok [OF activatedD(5) [OF act]]
  have "activation_history (map (\<lambda>v. journey_of (v_definition v)) ?vs @ [journey_of (j_draft j)])"
    using old issues(1,2) unfolding reads(3) row_ok_def by (intro activation_history_snoc) auto
  moreover have "map v_version ?vs @ [ver] = [1..<Suc (Suc (length ?vs))]" using old unfolding row_ok_def ver by simp
  ultimately show ?thesis using old unfolding row_ok_def activatedD(7) [OF act] active_row_def by (simp add: ver)
qed

lemma activated_rows:
  assumes act: "activated env now t a i ver j e box db d" and "k \<in> set (journeys d)"
  shows "row_ok env k (rows_of (j_id k) (journey_versions d))"
proof -
  note d = activatedD(7) [OF act]
  from assms(2) obtain k0 where k0: "k0 \<in> set (journeys db)" "k = (if journey_at i t a k0 then active_row now ver k0 else k0)"
    unfolding d by (auto elim!: in_update_whereE)
  show ?thesis
  proof (cases "j_id k0 = i")
    case True
    then have "k0 = j" using activated_own_row [OF act k0(1)] by simp
    then show ?thesis using k0(2) activatedD(3) [OF act] activated_row_ok [OF act] by simp
  next
    case False
    then show ?thesis using k0 activatedD(1) [OF act] unfolding content_inv_def d by auto
  qed
qed

lemma activated_new_entry:
  assumes act: "activated env now t a i ver j e box db d"
    and "r \<in> fst ` set (audiences db)" "write_jsonb env (entry_payload i ver r) = Inr payload"
  shows "entry_for env d \<lparr>v_journey = i, v_version = ver, v_definition = j_draft j\<rparr>
    \<lparr>oe_tenant = t, oe_app = a, oe_stream = journeyEntry, oe_key = entry_key i ver, oe_payload = payload\<rparr>"
proof -
  note row = activatedD(2,3) [OF act] and d = activatedD(7) [OF act]
  have "active_row now ver j \<in> set (journeys d)" using update_whereI [OF row(1), of "journey_at i t a" "active_row now ver"] row(2) by (simp add: d)
  then show ?thesis using assms(2,3) row(2) unfolding entry_for_def by (auto simp: d intro!: bexI [of _ "active_row now ver j"])
qed

lemma activated_inv:
  assumes act: "activated env now t a i ver j e box db d"
    and "case ref of None \<Rightarrow> box = journey_outbox db | Some r \<Rightarrow> r \<in> fst ` set (audiences db) \<and>
      (\<exists>payload. write_jsonb env (entry_payload i ver r) = Inr payload \<and> box = enqueue_entry t a (entry_key i ver) payload (journey_outbox db))"
    and "wants_audience e = None \<longleftrightarrow> ref = None"
  shows "content_inv env d"
proof -
  note inv = activatedD(1) [OF act] and d = activatedD(7) [OF act]
  have keep: "entry_for env d v x" if "entry_for env db v x" for v x
    using that by (rule entry_for_later [of _ _ _ _ _ i t a "active_row now ver"]) (simp_all add: d)
  have "list_all2 (entry_for env db) (filter blast_version (journey_versions db)) (journey_outbox db)" using inv by (simp add: content_inv_def)
  then have old: "list_all2 (entry_for env d) (filter blast_version (journey_versions db)) (journey_outbox db)"
    by (rule list_all2_mono) (rule keep)
  have new: "blast_version \<lparr>v_journey = i, v_version = ver, v_definition = j_draft j\<rparr> \<longleftrightarrow> wants_audience e \<noteq> None"
    by (simp add: blast_version_def activatedD(4) [OF act])
  have jobs: "list_all2 (entry_for env d) (filter blast_version (journey_versions d)) (journey_outbox d)"
    using assms(2,3) old new activated_new_entry [OF act]
    by (cases ref) (auto simp: d enqueue_new [OF inv activatedD(6) [OF act]] intro: list_all2_appendI)
  have ids: "map j_id (journeys d) = map j_id (journeys db)" by (simp add: d map_update_where)
  then have "j_id ` set (journeys d) = j_id ` set (journeys db)" by (metis list.set_map)
  then have "v_journey ` set (journey_versions d) \<subseteq> j_id ` set (journeys d)"
    using inv activatedD(2,3) [OF act] unfolding content_inv_def by (auto simp: d)
  then show ?thesis using inv jobs activated_rows [OF act] unfolding content_inv_def ids by blast
qed

lemma launch_activates:
  assumes inv: "content_inv env db" and chk: "activation_check env t a i given db = Inr (j, e)"
    and run: "launch env now r t a i j e db = (Inr (ver, ty, ref), d)"
  shows "\<exists>db1 box. audiences_grow db db1 \<and> activated env now t a i ver j e box db1 d \<and> (wants_audience e = None \<longleftrightarrow> ref = None) \<and>
    (case ref of None \<Rightarrow> box = journey_outbox db1 | Some r \<Rightarrow> r \<in> fst ` set (audiences db1) \<and>
      (\<exists>payload. write_jsonb env (entry_payload i ver r) = Inr payload \<and> box = enqueue_entry t a (entry_key i ver) payload (journey_outbox db1)))"
proof -
  from launch_success [OF run] obtain db1 where db1: "ver = next_version (versions_of t a i db)"
    "publish_version env now t a i ver (j_draft j) ref db1 = Inr ((), d)" "audiences_grow db db1"
    "wants_audience e = None \<longleftrightarrow> ref = None" "\<forall>x. ref = Some x \<longrightarrow> x \<in> fst ` set (audiences db1)"
    by (elim exE conjE) (rule that)
  note c = activation_checkE [OF chk]
  obtain xs where xs: "db1 = db\<lparr>audiences := audiences db @ xs\<rparr>" using db1(3) by (auto simp: audiences_grow_def)
  have "stored_value env (j_draft j)" using inv c(1) unfolding content_inv_def row_ok_def by blast
  from publish_effect [OF db1(2) this] obtain box where box: "d = db1\<lparr>journey_versions := journey_versions db1 @ [\<lparr>v_journey = i, v_version = ver, v_definition = j_draft j\<rparr>],
      journeys := update_where (journey_at i t a) (\<lambda>j. j\<lparr>j_status := ''active'', j_active_version := Some ver, j_updated := now\<rparr>) (journeys db1),
      journey_outbox := box\<rparr>"
    "case ref of None \<Rightarrow> box = journey_outbox db1
     | Some r \<Rightarrow> (\<exists>payload. write_jsonb env (entry_payload i ver r) = Inr payload \<and> box = enqueue_entry t a (entry_key i ver) payload (journey_outbox db1))"
    by (elim exE conjE) (rule that)
  have "content_inv env db1" using inv by (rule content_inv_frame) (auto simp: xs)
  moreover have "\<not> hasErrors (definitionIssues env t a i db1 (journey_of (j_draft j)))"
  proof -
    have "publishedABNodes t a i db1 = publishedABNodes t a i db" by (simp add: xs publishedABNodes_def versions_of_def)
    then show ?thesis using c(5) unfolding definitionIssues_def by simp
  qed
  ultimately have "activated env now t a i ver j e box db1 d"
    using c(1,2,4) box(1) db1(1) history_reads(2) [OF inv c(1,2)] unfolding activated_def active_row_def by (auto simp: xs)
  then show ?thesis using db1(3-5) box(2) by (intro exI [of _ db1] exI [of _ box]) (auto split: option.splits)
qed

lemma activate_journey_inv:
  assumes inv: "content_inv env db"
  shows "content_inv env (snd (activate_journey env now r a i b q db))"
proof (cases "activate_journey env now r a i b q db")
  case (Pair x d)
  show ?thesis
  proof (cases x)
    case (Inl e)
    then obtain xs where "d = db\<lparr>audiences := audiences db @ xs\<rparr>" using activate_journey_Inl [OF Pair [unfolded Inl]] unfolding audiences_grow_def by blast
    then show ?thesis using inv Pair by (auto intro: content_inv_frame)
  next
    case (Inr y)
    obtain ver ty ref where y: "y = (ver, ty, ref)" by (cases y)
    from activate_journey_Inr [OF Pair [unfolded Inr y]] obtain me :: session_member and given j e where
      chk: "activation_check env (sm_tenant me) a i given db = Inr (j, e)" "launch env now r (sm_tenant me) a i j e db = (Inr (ver, ty, ref), d)" by blast
    from launch_activates [OF inv this] show ?thesis using Pair by (auto intro: activated_inv)
  qed
qed

text \<open>Every request keeps the tables of journeys consistent.\<close>

lemma content_step_inv: "jsonb_law env \<Longrightarrow> content_inv env db \<Longrightarrow> content_inv env (content_step env op db)"
  by (cases op)
    (simp_all add: create_segment_inv update_segment_inv remove_segment_inv preview_segment_inv create_journey_inv update_journey_inv
      validate_journey_state activate_journey_inv pause_journey_inv archive_journey_inv content_inv_frame)

end
