(* ===== verification/Content_Properties.thy ===== *)
theory Content_Properties
  imports Content_Safety "HOL-Library.List_Lexorder" "HOL-Library.Char_ord"
begin

text \<open>
  What the segment and journey APIs guarantee over any sequence of requests: published versions, entry jobs, revisions, archiving, compiled
  segments and the separation of tenants. \<open>jsonb_law\<close> states what is relied on of a \<open>jsonb\<close> column.
\<close>

section \<open>Versions\<close>

interpretation content_runs: invariant_system "content_step env" "\<lambda>db. jsonb_law env \<longrightarrow> content_inv env db" for env
  by unfold_locales (blast intro: content_step_inv)

lemma content_run_inv: "jsonb_law env \<Longrightarrow> content_inv env (content_run env auth ops)"
  using content_runs.run_inv [of env "fresh_db auth" ops] content_inv_fresh by blast

text \<open>
  C12: after any sequence of requests the published versions of a journey are numbered from 1 without gaps, the active version is the last one,
  an active or paused journey has one, every published definition passes the validation, and an A/B node keeps the ids, the order and the
  weights of its variants in all of them.
\<close>

theorem published_versions_sound:
  assumes "jsonb_law env" and "j \<in> set (journeys (content_run env auth ops))"
    and "vs = filter (\<lambda>v. v_journey v = j_id j) (journey_versions (content_run env auth ops))"
  shows "map v_version vs = [1..<Suc (length vs)]
    \<and> j_active_version j = (if vs = [] then None else Some (length vs))
    \<and> (j_status j \<in> {''active'', ''paused''} \<longrightarrow> vs \<noteq> [])
    \<and> (\<forall>v \<in> set vs. \<not> hasErrors (validateJourney (journey_of (v_definition v))))
    \<and> (\<forall>v \<in> set vs. \<forall>v' \<in> set vs. \<forall>i xs ys. (i, xs) \<in> ab_nodes (journey_of (v_definition v)) \<longrightarrow>
         (i, ys) \<in> ab_nodes (journey_of (v_definition v')) \<longrightarrow> allocation xs = allocation ys)"
proof -
  have ok: "row_ok env j vs" using content_run_inv [OF assms(1)] assms(2) unfolding assms(3) content_inv_def by blast
  let ?ds = "map (\<lambda>v. journey_of (v_definition v)) vs"
  have hist: "activation_history ?ds" using ok by (simp add: row_ok_def)
  have "\<not> hasErrors (validateJourney (journey_of (v_definition v)))" if "v \<in> set vs" for v
    using hist that by (auto simp: activation_history_def in_set_conv_nth)
  moreover have "allocation xs = allocation ys"
    if v: "v \<in> set vs" "v' \<in> set vs" and ab: "(i, xs) \<in> ab_nodes (journey_of (v_definition v))" "(i, ys) \<in> ab_nodes (journey_of (v_definition v'))"
    for v v' i xs ys
  proof -
    obtain k k' where k: "k < length ?ds" "?ds ! k = journey_of (v_definition v)" "k' < length ?ds" "?ds ! k' = journey_of (v_definition v')"
      using v by (auto simp: in_set_conv_nth)
    show ?thesis using history_allocation [OF hist k(1), of i xs] history_allocation [OF hist k(3), of i ys] ab unfolding k(2,4) by auto
  qed
  moreover have "j_status j \<in> {''active'', ''paused''} \<longrightarrow> vs \<noteq> []" using ok by (auto simp: row_ok_def)
  ultimately show ?thesis using ok unfolding row_ok_def by blast
qed

section \<open>Entry jobs\<close>




section \<open>Revisions\<close>


lemma activate_publishes:
  assumes inv: "content_inv env db" and run: "activate_journey env now r a i b q db = (Inr (ver, ty, ref), d)" and b: "activationSchema b = Some (Some rv)"
  shows "\<exists>j \<in> set (journeys db). j_id j = i \<and> rv = draft_revision env (j_name j) (j_draft j) \<and>
    \<lparr>v_journey = i, v_version = ver, v_definition = j_draft j\<rparr> \<in> set (journey_versions d)"
proof -
  from activate_journey_Inr [OF run] obtain me :: session_member and given j e where
    chk: "activationSchema b = Some given" "activation_check env (sm_tenant me) a i given db = Inr (j, e)"
      "launch env now r (sm_tenant me) a i j e db = (Inr (ver, ty, ref), d)" by blast
  obtain db1 box where act: "activated env now (sm_tenant me) a i ver j e box db1 d" using launch_activates [OF inv chk(2,3)] by blast
  then have "\<lparr>v_journey = i, v_version = ver, v_definition = j_draft j\<rparr> \<in> set (journey_versions d)" unfolding activatedD(7) [OF act] by simp
  then show ?thesis using activation_checkE(1,2,6) [OF chk(2)] chk(1) b by auto
qed

text \<open>
  C14: an activation that names the revision of a reviewed draft publishes that draft. Whatever other requests changed in between, a successful activation
  stores a definition whose canonical text, with the name of the journey, is the text that was reviewed, unless SHA-256 gives another text the same digest.
\<close>

theorem activation_publishes_reviewed:
  assumes "jsonb_law env" and "db = content_run env auth ops"
    and "activate_journey env now r a i (JObj [(''revision'', JStr (draft_revision env name df))]) q db = (Inr (ver, ty, ref), d)"
    and "\<forall>x. ce_sha env x = draft_revision env name df \<longrightarrow> x = draft_text (ce_ns env) (ce_le env) name df"
  shows "\<exists>j \<in> set (journeys db). \<exists>v \<in> set (journey_versions d). j_id j = i \<and> v_journey v = i \<and> v_version v = ver \<and>
    draft_text (ce_ns env) (ce_le env) (j_name j) (v_definition v) = draft_text (ce_ns env) (ce_le env) name df"
proof -
  have "content_inv env db" using content_run_inv [OF assms(1)] assms(2) by simp
  have given: "\<exists>rv. activationSchema (JObj [(''revision'', JStr (draft_revision env name df))]) = Some (Some rv) \<and> rv = draft_revision env name df"
    using activate_journey_Inr [OF assms(3)] by (auto simp: activationSchema_def split: if_splits)
  then obtain j where j: "j \<in> set (journeys db)" "j_id j = i" "draft_revision env name df = draft_revision env (j_name j) (j_draft j)"
    "\<lparr>v_journey = i, v_version = ver, v_definition = j_draft j\<rparr> \<in> set (journey_versions d)"
    using activate_publishes [OF \<open>content_inv env db\<close> assms(3)] by blast
  have "draft_text (ce_ns env) (ce_le env) (j_name j) (j_draft j) = draft_text (ce_ns env) (ce_le env) name df"
    using assms(4) j(3) by (metis draftRevision_def draft_revision_def)
  then show ?thesis using j(1,2,4)
    by (intro bexI [of _ j] bexI [of _ "\<lparr>v_journey = i, v_version = ver, v_definition = j_draft j\<rparr>"]) simp_all
qed


section \<open>Archiving\<close>

definition frozen :: "string \<Rightarrow> version_row list \<Rightarrow> content_db \<Rightarrow> bool" where
  "frozen i vs db \<longleftrightarrow> (\<exists>j \<in> set (journeys db). j_id j = i \<and> j_status j = ''archived'') \<and> rows_of i (journey_versions db) = vs"

lemma frozen_update:
  assumes "frozen i vs db" "journeys d = update_where p f (journeys db)" "rows_of i (journey_versions d) = vs" "\<And>j. j_id (f j) = j_id j"
    and "\<And>j. j \<in> set (journeys db) \<Longrightarrow> j_id j = i \<Longrightarrow> j_status j = ''archived'' \<Longrightarrow> p j \<Longrightarrow> j_status (f j) = ''archived''"
  shows "frozen i vs d"
proof -
  obtain j where j: "j \<in> set (journeys db)" "j_id j = i" "j_status j = ''archived''" using assms(1) by (auto simp: frozen_def)
  have "(if p j then f j else j) \<in> set (journeys d)" unfolding assms(2) using j(1) by (rule update_whereI)
  moreover have "j_id (if p j then f j else j) = i" "j_status (if p j then f j else j) = ''archived''" using j assms(4,5) by simp_all
  ultimately show ?thesis using assms(3) unfolding frozen_def by blast
qed

lemma frozen_update_rows:
  assumes "frozen i vs db" "\<And>j. j_id (f j) = j_id j" "\<And>j. j_status j = ''archived'' \<Longrightarrow> p j \<Longrightarrow> j_status (f j) = ''archived''"
  shows "frozen i vs (db\<lparr>journeys := update_where p f (journeys db)\<rparr>)"
  by (rule frozen_update [OF assms(1), of _ p f]) (use assms in \<open>auto simp: frozen_def\<close>)

lemma frozen_same: "frozen i vs db \<Longrightarrow> set (journeys db) \<subseteq> set (journeys d) \<Longrightarrow> journey_versions d = journey_versions db \<Longrightarrow> frozen i vs d"
  by (auto simp: frozen_def)

lemma frozen_activate:
  assumes inv: "content_inv env db" and fr: "frozen i vs db"
  shows "frozen i vs (snd (activate_journey env now r a k b q db))"
proof (cases "activate_journey env now r a k b q db")
  case (Pair x d)
  show ?thesis
  proof (cases x)
    case (Inl e)
    then obtain xs where "d = db\<lparr>audiences := audiences db @ xs\<rparr>" using activate_journey_Inl [OF Pair [unfolded Inl]] unfolding audiences_grow_def by blast
    then show ?thesis using fr Pair by (simp add: frozen_def)
  next
    case (Inr y)
    obtain ver ty ref where y: "y = (ver, ty, ref)" by (cases y)
    from activate_journey_Inr [OF Pair [unfolded Inr y]] obtain me :: session_member and given j e where
      chk: "activation_check env (sm_tenant me) a k given db = Inr (j, e)" "launch env now r (sm_tenant me) a k j e db = (Inr (ver, ty, ref), d)" by blast
    from launch_activates [OF inv this] obtain db1 box where grow: "audiences_grow db db1" and act: "activated env now (sm_tenant me) a k ver j e box db1 d" by blast
    obtain xs where xs: "db1 = db\<lparr>audiences := audiences db @ xs\<rparr>" using grow unfolding audiences_grow_def by blast
    have other: "k \<noteq> i"
    proof
      assume "k = i"
      moreover obtain j0 where "j0 \<in> set (journeys db)" "j_id j0 = i" "j_status j0 = ''archived''" using fr by (auto simp: frozen_def)
      ultimately show False using activated_own_row [OF act, of j0] activation_checkE(3) [OF chk(1)] by (auto simp: xs)
    qed
    note d = activatedD(7) [OF act]
    have "frozen i vs d"
      by (rule frozen_update [OF fr, of d "journey_at k (sm_tenant me) a" "active_row now ver"])
        (use other fr in \<open>auto simp: d xs frozen_def\<close>)
    then show ?thesis using Pair by simp
  qed
qed

lemma frozen_update_journey: "frozen i vs db \<Longrightarrow> frozen i vs (snd (update_journey env now a k b q db))"
proof (rule handler_cases [OF update_journey_errs])
  fix y d assume fr: "frozen i vs db" and "update_journey env now a k b q db = (Inr y, d)"
  from update_journey_Inr [OF this(2)] obtain me :: session_member and name df w where
    d: "d = db\<lparr>journeys := update_where (\<lambda>j. journey_at k (sm_tenant me) a j \<and> editable j)
                 (\<lambda>j. j\<lparr>j_name := name, j_category := draft_category df, j_draft := w, j_updated := now\<rparr>) (journeys db)\<rparr>" by blast
  show "frozen i vs d" unfolding d by (rule frozen_update_rows [OF fr]) auto
qed

lemma frozen_pause_journey: "frozen i vs db \<Longrightarrow> frozen i vs (snd (pause_journey env now a k q db))"
proof (rule handler_cases [OF pause_journey_errs])
  fix y d assume fr: "frozen i vs db" and "pause_journey env now a k q db = (Inr y, d)"
  from pause_journey_Inr [OF this(2)] obtain me :: session_member where
    d: "d = db\<lparr>journeys := update_where (\<lambda>j. journey_at k (sm_tenant me) a j \<and> j_status j = ''active'')
               (\<lambda>j. j\<lparr>j_status := ''paused'', j_updated := now\<rparr>) (journeys db)\<rparr>" by blast
  show "frozen i vs d" unfolding d by (rule frozen_update_rows [OF fr]) auto
qed

lemma frozen_archive_journey: "frozen i vs db \<Longrightarrow> frozen i vs (snd (archive_journey env now a k q db))"
proof (rule handler_cases [OF archive_journey_errs])
  fix y d assume fr: "frozen i vs db" and "archive_journey env now a k q db = (Inr y, d)"
  from archive_journey_Inr [OF this(2)] obtain t ss xs where
    d: "d = db\<lparr>journeys := update_where (journey_at k t a) (\<lambda>j. j\<lparr>j_status := ''archived'', j_updated := now\<rparr>) (journeys db),
      journey_states := ss, node_executions := xs\<rparr>" by blast
  show "frozen i vs d" unfolding d
    by (rule frozen_same [OF frozen_update_rows [OF fr, of "\<lambda>j. j\<lparr>j_status := ''archived'', j_updated := now\<rparr>" "journey_at k t a"]]) auto
qed

lemma frozen_other:
  assumes "frozen i vs db"
  shows "frozen i vs (snd (create_segment env now n a b q db))" "frozen i vs (snd (update_segment env now a n b q db))"
    "frozen i vs (snd (remove_segment env now a n q db))" "frozen i vs (snd (preview_segment env now a b q db))"
    "frozen i vs (snd (create_journey env now n a b q db))"
proof -
  show "frozen i vs (snd (create_segment env now n a b q db))"
    by (rule handler_cases [OF create_segment_errs]) (auto dest!: create_segment_Inr intro: frozen_same [OF assms] assms)
  show "frozen i vs (snd (update_segment env now a n b q db))"
    by (rule handler_cases [OF update_segment_errs]) (auto dest!: update_segment_Inr intro: frozen_same [OF assms] assms)
  show "frozen i vs (snd (remove_segment env now a n q db))"
    by (rule handler_cases [OF remove_segment_errs]) (auto dest!: remove_segment_Inr intro: frozen_same [OF assms] assms)
  show "frozen i vs (snd (preview_segment env now a b q db))"
    using cache_onlyE [OF preview_segment_effect [of db env now a b q]] by (auto intro: frozen_same [OF assms])
  show "frozen i vs (snd (create_journey env now n a b q db))"
    by (rule handler_cases [OF create_journey_errs]) (auto dest!: create_journey_Inr intro: frozen_same [OF assms] assms)
qed

lemma frozen_step: "content_inv env db \<Longrightarrow> frozen i vs db \<Longrightarrow> frozen i vs (content_step env op db)"
  by (cases op) (simp_all add: frozen_other frozen_update_journey frozen_pause_journey frozen_archive_journey frozen_activate
      validate_journey_state frozen_same)

interpretation frozen_runs: invariant_system "content_step env" "\<lambda>db. jsonb_law env \<longrightarrow> content_inv env db \<and> frozen i vs db" for env i vs
  by unfold_locales (blast intro: content_step_inv frozen_step)

text \<open>
  Archiving is final. When it succeeds, no customer of the journey is left in a live state and no node execution is
  open; and whatever requests follow, the journey stays archived and gets no further version.
\<close>

theorem archive_is_final:
  assumes "jsonb_law env" and "archive_journey env now a i q (content_run env auth ops) = (Inr (), d)"
  shows "(\<exists>t. (\<forall>s \<in> set (journey_states d). js_journey s = i \<and> js_tenant s = t \<and> js_app s = a \<longrightarrow> js_status s \<notin> set LIVE_STATES) \<and>
        (\<forall>x \<in> set (node_executions d). x_journey x = i \<and> x_tenant x = t \<and> x_app x = a \<longrightarrow> x_status x \<notin> set LIVE_EXECUTIONS) \<and>
        (\<exists>j \<in> set (journeys d). j_id j = i \<and> j_tenant j = t))
    \<and> (\<forall>more. \<exists>j \<in> set (journeys (fold (content_step env) more d)). j_id j = i \<and> j_status j = ''archived'' \<and>
        filter (\<lambda>v. v_journey v = i) (journey_versions (fold (content_step env) more d)) = filter (\<lambda>v. v_journey v = i) (journey_versions d))"
proof -
  let ?db = "content_run env auth ops"
  from archive_journey_Inr [OF assms(2)] obtain me :: session_member where
    ex: "list_ex (journey_at i (sm_tenant me) a) (journeys ?db)" and
    d: "d = ?db\<lparr>
           journeys := update_where (journey_at i (sm_tenant me) a) (\<lambda>j. j\<lparr>j_status := ''archived'', j_updated := now\<rparr>) (journeys ?db),
           journey_states := update_where (\<lambda>s. state_at i (sm_tenant me) a s \<and> js_status s \<in> set LIVE_STATES)
             (\<lambda>s. s\<lparr>js_status := ''exited'', js_claim_token := None, js_claimed_by := None, js_claimed_at := None, js_next_wake := None,
                    js_updated := now\<rparr>) (journey_states ?db),
           node_executions := update_where (\<lambda>x. execution_at i (sm_tenant me) a x \<and> x_status x \<in> set LIVE_EXECUTIONS)
             (\<lambda>x. x\<lparr>x_status := ''exited'', x_resolved_at := Some now, x_updated := now\<rparr>) (node_executions ?db)\<rparr>" by blast
  obtain j where j: "j \<in> set (journeys ?db)" "journey_at i (sm_tenant me) a j" using ex by (auto simp: list_ex_iff)
  have row: "j\<lparr>j_status := ''archived'', j_updated := now\<rparr> \<in> set (journeys d)"
    using update_whereI [OF j(1), of "journey_at i (sm_tenant me) a" "\<lambda>j. j\<lparr>j_status := ''archived'', j_updated := now\<rparr>"] j(2) by (simp add: d)
  then have "frozen i (rows_of i (journey_versions d)) d" using j(2) unfolding frozen_def by (auto intro!: bexI [OF _ row])
  moreover have "content_inv env d" using archive_journey_inv [OF content_run_inv [OF assms(1), where auth = auth and ops = ops], of now a i q] assms(2) by simp
  ultimately have "frozen i (rows_of i (journey_versions d)) (fold (content_step env) more d)" for more
    using frozen_runs.run_inv [where env = env and i = i and vs = "rows_of i (journey_versions d)" and s = d and ops = more] assms(1) by blast
  moreover have "js_status s \<notin> set LIVE_STATES" if "s \<in> set (journey_states d)" "state_at i (sm_tenant me) a s" for s
    using that by (auto simp: d LIVE_STATES_def elim!: in_update_whereE split: if_splits)
  moreover have "x_status x \<notin> set LIVE_EXECUTIONS" if "x \<in> set (node_executions d)" "execution_at i (sm_tenant me) a x" for x
    using that by (auto simp: d LIVE_EXECUTIONS_def elim!: in_update_whereE split: if_splits)
  ultimately show ?thesis using row j(2) unfolding frozen_def by (intro conjI exI [of _ "sm_tenant me"]) (auto intro!: bexI [OF _ row])
qed

section \<open>Stored segments\<close>














lemma wrapped_query_ok:
  assumes "compile ns dsl t a cat = Inr c" "CHR ''?'' \<notin> set pre" "CHR ''?'' \<notin> set post"
  shows "\<exists>q. toClickHouse (pre @ fst c @ post, snd c) = Inr q"
  using compiled_params_bound [of ns dsl t a cat "fst c" "snd c" pre post] assms by auto

section \<open>Tenants\<close>

record tenant_rows =
  tr_segments :: "segment_row list"
  tr_journeys :: "journey_row list"
  tr_versions :: "version_row list"
  tr_outbox :: "outbox_entry list"
  tr_states :: "state_row list"
  tr_executions :: "execution_row list"

definition tenant_view :: "string \<Rightarrow> content_db \<Rightarrow> tenant_rows" where
  "tenant_view t db =
     (let js = filter (\<lambda>j. j_tenant j = t) (journeys db)
      in \<lparr>tr_segments = filter (\<lambda>s. sg_tenant s = t) (segments db), tr_journeys = js,
          tr_versions = filter (\<lambda>v. v_journey v \<in> j_id ` set js) (journey_versions db),
          tr_outbox = filter (\<lambda>e. oe_tenant e = t) (journey_outbox db),
          tr_states = filter (\<lambda>s. js_tenant s = t) (journey_states db),
          tr_executions = filter (\<lambda>x. x_tenant x = t) (node_executions db)\<rparr>)"

fun op_caller :: "content_op \<Rightarrow> (int \<times> request) option" where
  "op_caller (CreateSegment now i a b q) = Some (now, q)"
| "op_caller (UpdateSegment now a i b q) = Some (now, q)"
| "op_caller (RemoveSegment now a i q) = Some (now, q)"
| "op_caller (PreviewSegment now a b q) = Some (now, q)"
| "op_caller (CreateJourney now i a b q) = Some (now, q)"
| "op_caller (UpdateJourney now a i b q) = Some (now, q)"
| "op_caller (ValidateJourney now a i q) = Some (now, q)"
| "op_caller (ActivateJourney now r a i b q) = Some (now, q)"
| "op_caller (PauseJourney now a i q) = Some (now, q)"
| "op_caller (ArchiveJourney now a i q) = Some (now, q)"
| "op_caller (Elsewhere auth ss xs) = None"

lemma filter_weaker: "(\<And>r. P r \<Longrightarrow> Q r) \<Longrightarrow> filter P (filter Q rows) = filter P rows"
  by (induction rows) auto

lemma tenant_view_segments: "filter (\<lambda>s. sg_tenant s = t) ss = filter (\<lambda>s. sg_tenant s = t) (segments db) \<Longrightarrow> tenant_view t (db\<lparr>segments := ss\<rparr>) = tenant_view t db"
  by (simp add: tenant_view_def)

lemma tenant_view_journeys: "filter (\<lambda>j. j_tenant j = t) js = filter (\<lambda>j. j_tenant j = t) (journeys db) \<Longrightarrow> tenant_view t (db\<lparr>journeys := js\<rparr>) = tenant_view t db"
  by (simp add: tenant_view_def Let_def)

lemma local_segments:
  assumes "caller env now q db me" "sm_tenant me \<noteq> t"
  shows "tenant_view t (snd (create_segment env now n a b q db)) = tenant_view t db"
    "tenant_view t (snd (update_segment env now a n b q db)) = tenant_view t db"
    "tenant_view t (snd (remove_segment env now a n q db)) = tenant_view t db"
    "tenant_view t (snd (preview_segment env now a b q db)) = tenant_view t db"
proof -
  show "tenant_view t (snd (create_segment env now n a b q db)) = tenant_view t db"
    by (rule handler_cases [OF create_segment_errs])
      (use assms in \<open>auto dest!: create_segment_Inr intro!: tenant_view_segments\<close>)
  show "tenant_view t (snd (update_segment env now a n b q db)) = tenant_view t db"
    by (rule handler_cases [OF update_segment_errs])
      (use assms in \<open>auto dest!: update_segment_Inr intro!: tenant_view_segments filter_update_where\<close>)
  show "tenant_view t (snd (remove_segment env now a n q db)) = tenant_view t db"
    by (rule handler_cases [OF remove_segment_errs])
      (use assms in \<open>auto dest!: remove_segment_Inr intro!: tenant_view_segments filter_weaker simp del: filter_filter\<close>)
  show "tenant_view t (snd (preview_segment env now a b q db)) = tenant_view t db"
    using cache_onlyE [OF preview_segment_effect [of db env now a b q]] by (auto simp: tenant_view_def)
qed

lemma local_journeys:
  assumes "caller env now q db me" "sm_tenant me \<noteq> t"
  shows "tenant_view t (snd (create_journey env now n a b q db)) = tenant_view t db"
    "tenant_view t (snd (update_journey env now a i b q db)) = tenant_view t db"
    "tenant_view t (snd (pause_journey env now a i q db)) = tenant_view t db"
proof -
  show "tenant_view t (snd (create_journey env now n a b q db)) = tenant_view t db"
    by (rule handler_cases [OF create_journey_errs])
      (use assms in \<open>auto dest!: create_journey_Inr intro!: tenant_view_journeys\<close>)
  show "tenant_view t (snd (update_journey env now a i b q db)) = tenant_view t db"
    by (rule handler_cases [OF update_journey_errs])
      (use assms in \<open>auto dest!: update_journey_Inr intro!: tenant_view_journeys filter_update_where\<close>)
  show "tenant_view t (snd (pause_journey env now a i q db)) = tenant_view t db"
    by (rule handler_cases [OF pause_journey_errs])
      (use assms in \<open>auto dest!: pause_journey_Inr intro!: tenant_view_journeys filter_update_where\<close>)
qed

lemma local_archive:
  assumes "caller env now q db me" "sm_tenant me \<noteq> t"
  shows "tenant_view t (snd (archive_journey env now a i q db)) = tenant_view t db"
proof (rule handler_cases [OF archive_journey_errs])
  fix y d assume "archive_journey env now a i q db = (Inr y, d)"
  from archive_journey_Inr [OF this] obtain f g h ps px where d: "d = db\<lparr>
      journeys := update_where (journey_at i (sm_tenant me) a) f (journeys db), journey_states := update_where ps g (journey_states db),
      node_executions := update_where px h (node_executions db)\<rparr>"
    and keep: "\<And>j. j_tenant (f j) = j_tenant j" "\<And>s. js_tenant (g s) = js_tenant s" "\<And>x. x_tenant (h x) = x_tenant x"
      "\<And>s. ps s \<Longrightarrow> js_tenant s = sm_tenant me" "\<And>x. px x \<Longrightarrow> x_tenant x = sm_tenant me"
    using assms(1) by auto
  have "filter (\<lambda>j. j_tenant j = t) (journeys d) = filter (\<lambda>j. j_tenant j = t) (journeys db)"
    "filter (\<lambda>s. js_tenant s = t) (journey_states d) = filter (\<lambda>s. js_tenant s = t) (journey_states db)"
    "filter (\<lambda>x. x_tenant x = t) (node_executions d) = filter (\<lambda>x. x_tenant x = t) (node_executions db)"
    unfolding d using assms(2) keep by (auto intro!: filter_update_where)
  then show "tenant_view t d = tenant_view t db" by (simp add: tenant_view_def d)
qed simp

lemma local_activate:
  assumes inv: "content_inv env db" and me: "caller env now q db me" "sm_tenant me \<noteq> t"
  shows "tenant_view t (snd (activate_journey env now r a i b q db)) = tenant_view t db"
proof (cases "activate_journey env now r a i b q db")
  case (Pair x d)
  show ?thesis
  proof (cases x)
    case (Inl e)
    then show ?thesis using activate_journey_Inl [OF Pair [unfolded Inl]] Pair by (auto simp: audiences_grow_def tenant_view_def)
  next
    case (Inr y)
    obtain ver ty ref where y: "y = (ver, ty, ref)" by (cases y)
    from activate_journey_Inr [OF Pair [unfolded Inr y]] me(1) obtain given j e where
      chk: "activation_check env (sm_tenant me) a i given db = Inr (j, e)" "launch env now r (sm_tenant me) a i j e db = (Inr (ver, ty, ref), d)" by auto
    from launch_activates [OF inv this] obtain db1 box where grow: "audiences_grow db db1" and act: "activated env now (sm_tenant me) a i ver j e box db1 d"
      and box: "case ref of None \<Rightarrow> box = journey_outbox db1 | Some r \<Rightarrow> r \<in> fst ` set (audiences db1) \<and>
        (\<exists>payload. write_jsonb env (entry_payload i ver r) = Inr payload \<and> box = enqueue_entry (sm_tenant me) a (entry_key i ver) payload (journey_outbox db1))"
      by blast
    note d = activatedD(7) [OF act]
    have js: "filter (\<lambda>j. j_tenant j = t) (journeys d) = filter (\<lambda>j. j_tenant j = t) (journeys db1)"
      unfolding d using me(2) by (auto intro!: filter_update_where)
    have "i \<notin> j_id ` set (filter (\<lambda>j. j_tenant j = t) (journeys db1))"
      using activated_own_row [OF act] activatedD(3) [OF act] me(2) by auto
    moreover have "filter (\<lambda>x. oe_tenant x = t) box = filter (\<lambda>x. oe_tenant x = t) (journey_outbox db1)"
      using box me(2) by (auto simp: enqueue_entry_def split: option.splits)
    ultimately have "tenant_view t d = tenant_view t db1" using js by (simp add: tenant_view_def d)
    moreover have "tenant_view t db1 = tenant_view t db" using grow by (auto simp: audiences_grow_def tenant_view_def)
    ultimately show ?thesis using Pair by simp
  qed
qed

text \<open>
  C17: a request to the segment and journey APIs changes nothing of another tenant: neither its segments, journeys, published versions and entry jobs nor the states and
  node executions of its customers.
\<close>

theorem content_requests_tenant_local:
  assumes "jsonb_law env" and "db = content_run env auth ops" and "op_caller op = Some (now, q)"
    and "SessionGuard (ce_sha env) now (q_cookie q) (q_url q) (cd_auth db) = Inr me" and "sm_tenant me \<noteq> t"
  shows "tenant_view t (content_step env op db) = tenant_view t db"
proof -
  have "content_inv env db" using content_run_inv [OF assms(1)] assms(2) by simp
  with assms(3-5) show ?thesis
    by (cases op) (auto simp: local_segments local_journeys local_archive local_activate validate_journey_state)
qed

section \<open>Concrete instances\<close>

definition sample_auth2 :: auth_db where
  "sample_auth2 = sample_auth\<lparr>apps := [\<lparr>a_id = ''app'', a_tenant = ''t1'', a_name = ''App'', a_timezone = None\<rparr>]\<rparr>"

definition sample_draft :: jsval where
  "sample_draft = JObj
     [(''entry'', JObj [(''type'', JStr ''blast''), (''segment_id'', JStr ''s1'')]),
      (''nodes'', JArr [JObj [(''type'', JStr ''message''), (''push'', JObj [(''title'', JStr ''Hi''), (''body'', JStr ''you'')])]]),
      (''exit'', JObj []), (''settings'', JObj [(''category'', JStr ''marketing''), (''reentry'', JStr ''never'')])]"

definition sample_upsert :: jsval where
  "sample_upsert = JObj [(''name'', JStr ''J''), (''definition'', sample_draft)]"

definition sample_segment :: jsval where
  "sample_segment = JObj [(''name'', JStr ''S''), (''definition'', sample_condition)]"

definition sample_content :: "(string \<Rightarrow> string) \<Rightarrow> content_env" where
  "sample_content sha = \<lparr>ce_sha = sha, ce_uuid = (\<lambda>_. True), ce_ns = (\<lambda>_. ''1''), ce_le = (\<le>), ce_number = (\<lambda>_. Num 5),
     ce_jsonb = Some, ce_graph_v2 = True, ce_query = (\<lambda>_ _. Some [JObj [(''c'', JStr ''5'')]]), ce_command = (\<lambda>_ _. True)\<rparr>"

definition sample_saves :: "content_op list" where
  "sample_saves =
     [CreateSegment 5 ''s1'' ''app'' sample_segment (sample_request ''o1''),
      CreateJourney 6 ''j1'' ''app'' sample_upsert (sample_request ''o1'')]"

definition sample_row1 :: journey_row where
  "sample_row1 = \<lparr>j_id = ''j1'', j_tenant = ''t1'', j_app = ''app'', j_name = ''J'', j_status = ''draft'',
     j_category = ''marketing'', j_draft = sample_draft, j_active_version = None, j_created_by = ''o1'', j_updated = 6\<rparr>"

definition sample_saved :: content_db where
  "sample_saved = (fresh_db sample_auth2)\<lparr>segments := [\<lparr>sg_id = ''s1'', sg_tenant = ''t1'', sg_app = ''app'', sg_name = ''S'',
       sg_definition = sample_condition, sg_status = ''active'', sg_detail = None, sg_last_count = None, sg_last_evaluated = None,
       sg_created_by = ''o1'', sg_updated = 5\<rparr>], journeys := [sample_row1]\<rparr>"

definition sample_me :: session_member where
  "sample_me = \<lparr>sm_member = ''o1'', sm_tenant = ''t1'', sm_email = ''o1@x.io'', sm_name = ''o1'', sm_role = ''owner'',
        sm_totp_enabled = False, sm_requires_2fa = False\<rparr>"

lemma sample_content_law: "jsonb_law (sample_content sha)"
  by (simp add: jsonb_law_def sample_content_def same_json.same)

lemma sample_guard:
  assumes "sha ''tok-o1'' = ''tok-o1''" "now \<in> {5, 6, 7, 8}"
  shows "SessionGuard sha now (Some ''tok-o1'') ''/v1/members'' sample_auth2 = Inr sample_me"
  using assms by (auto simp: SessionGuard_def session_resolve_def session_live_def sample_auth2_def sample_auth_def sample_session_def
      sample_member_def new_member_def sample_me_def)

lemma sample_texts: "trim ''J'' = ''J''" "utf16_length ''J'' = 1" "trim ''Hi'' \<noteq> []" "trim ''you'' \<noteq> []"
  "z_text 0 256 (JStr ''Hi'') = Some (JStr ''Hi'')" "z_text 0 2048 (JStr ''you'') = Some (JStr ''you'')"
  by code_simp+

lemma sample_upsert_parsed: "journey_upsert (\<lambda>_. True) sample_upsert = Some (''J'', sample_draft)"
  unfolding journey_upsert_def sample_upsert_def sample_draft_def definitionSchema_def
  by (simp add: sample_texts z_object_def extra_keys_def z_enum_def z_uuid_def z_list_def nodeSchema_def messageSchema_def
     reentrySchema_def versionSchema_def definition_refined_def node_type_def channel_count_def)

lemma sample_facts:
  "segment_upsert sample_segment = Some (''S'', sample_condition)" "assertCompiles (\<lambda>_. ''1'') sample_condition ''t1'' ''app'' = Inr ()"
  "to_json sample_condition = sample_condition" "to_json sample_draft = sample_draft"
  "assertApp ''app'' sample_me sample_auth2 = Inr ()" "assertEditor sample_me = Inr ()" "draft_category sample_draft = ''marketing''"
  "sample_request ''o1'' = \<lparr>q_cookie = Some ''tok-o1'', q_url = ''/v1/members'', q_ip = None, q_user_agent = None, q_body = JObj [(''role'', JStr ''viewer'')]\<rparr>"
  by code_simp+

lemma sample_saved_run:
  assumes sha: "sha ''tok-o1'' = ''tok-o1''"
  shows "content_run (sample_content sha) sample_auth2 sample_saves = sample_saved"
proof -
  have guard: "SessionGuard sha 5 (Some ''tok-o1'') ''/v1/members'' sample_auth2 = Inr sample_me"
    "SessionGuard sha 6 (Some ''tok-o1'') ''/v1/members'' sample_auth2 = Inr sample_me" by (rule sample_guard; simp add: sha)+
  have me: "sm_tenant sample_me = ''t1''" "sm_member sample_me = ''o1''" by (simp_all add: sample_me_def)
  show ?thesis
    by (simp add: sample_saves_def create_segment_def create_journey_def content_guard_def when_ok_def fresh_db_def guard sample_facts
        sample_upsert_parsed parse_body_def write_jsonb_def sample_saved_def sample_content_def sample_row1_def me)
qed

definition sample_entry :: entry_rule where
  "sample_entry = \<lparr>entry_type = ''blast'', entry_segment = Some ''s1'', entry_trigger = None\<rparr>"

lemma sample_draft_journey: "journey_of sample_draft = \<lparr>schema_version = None, entry = Some sample_entry,
      nodes = [\<lparr>n_id = None, n_body = Message (Some \<lparr>push_title = ''Hi'', push_body = ''you'', push_image_url = None, push_deep_link = None\<rparr>) None None\<rparr>],
      start_node_id = None, edges = None, conversion_event = None, category_of = ''marketing'', reentry_of = Never\<rparr>"
  by code_simp

lemma sample_issues: "\<not> hasErrors (definitionIssues env t a i sample_saved (journey_of sample_draft))"
proof -
  have "\<not> hasErrors (validateJourney (journey_of sample_draft))" unfolding sample_draft_journey
    by (simp add: validateJourney_errors journey_ok_def reentry_ok_def entry_ok_def is_message_def v1_node_def node_ok_def message_ok_def
        messageChannel_def sample_texts sample_entry_def)
  then show ?thesis
    by (simp add: definitionIssues_def hasErrors_append)
       (simp add: sample_draft_journey validatePublishedABNodes_def each_indexed_def published_issue_def hasErrors_def)
qed

lemma sample_check:
  "given = None \<or> given = Some (draft_revision env ''J'' sample_draft) \<Longrightarrow>
   activation_check env ''t1'' ''app'' ''j1'' given sample_saved = Inr (sample_row1, sample_entry)"
  using sample_issues [of env "''t1''" "''app''" "''j1''"]
  by (auto simp: activation_check_def Let_def sample_saved_def sample_row1_def sample_draft_journey)

definition sample_command :: clickhouse where
  "sample_command =
     (case compile (\<lambda>_. ''1'') (dsl_of sample_condition) ''t1'' ''app'' Marketing of
        Inl _ \<Rightarrow> ([], [])
      | Inr c \<Rightarrow> (case toClickHouse (AUDIENCE_INSERT @ fst c @ '')'', snd c) of
          Inl _ \<Rightarrow> ([], [])
        | Inr (sql, ps) \<Rightarrow> (sql, ps @ [(''aref'', Some (JStr ''r1'')), (''tid'', Some (JStr ''t1'')), (''aid'', Some (JStr ''app''))])))"

definition sample_published :: content_db where
  "sample_published = sample_saved\<lparr>journeys := [active_row 7 1 sample_row1],
     journey_versions := [\<lparr>v_journey = ''j1'', v_version = 1, v_definition = sample_draft\<rparr>],
     journey_outbox := [\<lparr>oe_tenant = ''t1'', oe_app = ''app'', oe_stream = journeyEntry, oe_key = entry_key ''j1'' 1,
       oe_payload = entry_payload ''j1'' 1 ''r1''\<rparr>], audiences := [(''r1'', sample_command)]\<rparr>"

lemma sample_snapshot:
  "snapshotAudience (sample_content sha) 7 ''r1'' ''t1'' ''app'' ''s1'' ''marketing'' sample_saved =
   (Inr ''r1'', sample_saved\<lparr>audiences := [(''r1'', sample_command)]\<rparr>)"
proof -
  have "\<not> isl (compile (\<lambda>_. ''1'') (dsl_of sample_condition) ''t1'' ''app'' Marketing)" by code_simp
  then obtain c where c: "compile (\<lambda>_. ''1'') (dsl_of sample_condition) ''t1'' ''app'' Marketing = Inr c"
    by (cases "compile (\<lambda>_. ''1'') (dsl_of sample_condition) ''t1'' ''app'' Marketing") auto
  have "CHR ''?'' \<notin> set AUDIENCE_INSERT" by (simp add: AUDIENCE_INSERT_def)
  then obtain sql ps where q: "toClickHouse (AUDIENCE_INSERT @ fst c @ '')'', snd c) = Inr (sql, ps)"
    using wrapped_query_ok [OF c, of AUDIENCE_INSERT "'')''"] by auto
  have "compileSegment (sample_content sha) ''t1'' ''app'' ''s1'' ''marketing'' sample_saved = Inr c"
    using c by (simp add: compileSegment_def sample_saved_def sample_content_def)
  then show ?thesis
    by (simp add: snapshotAudience_def when_ok_def q c sample_command_def) (simp add: sample_content_def sample_saved_def fresh_db_def)
qed

lemma sample_launch:
  "launch (sample_content sha) 7 ''r1'' ''t1'' ''app'' ''j1'' sample_row1 sample_entry sample_saved = (Inr (1, ''blast'', Some ''r1''), sample_published)"
proof -
  have version: "next_version (versions_of ''t1'' ''app'' ''j1'' sample_saved) = 1"
    by (simp add: next_version_def versions_of_def sample_saved_def fresh_db_def)
  have draft: "j_draft sample_row1 = sample_draft" "category_of (journey_of sample_draft) = ''marketing''" "wants_audience sample_entry = Some ''s1''"
    "entry_type sample_entry = ''blast''"
    by (simp_all add: sample_row1_def sample_draft_journey wants_audience_def sample_entry_def)
  have json: "write_jsonb (sample_content sha) sample_draft = Inr sample_draft"
    "write_jsonb (sample_content sha) (entry_payload ''j1'' 1 ''r1'') = Inr (entry_payload ''j1'' 1 ''r1'')"
    by (simp_all add: write_jsonb_def sample_content_def sample_facts entry_payload_def)
  show ?thesis
    by (simp add: launch_def version draft sample_snapshot when_ok_def publish_version_def json Let_def del: One_nat_def)
       (simp add: sample_published_def sample_saved_def fresh_db_def update_where_def active_row_def sample_row1_def enqueue_entry_def)
qed

lemma sample_activate:
  assumes sha: "sha ''tok-o1'' = ''tok-o1''" and "activationSchema body = Some given"
    and "given = None \<or> given = Some (draft_revision (sample_content sha) ''J'' sample_draft)"
  shows "activate_journey (sample_content sha) 7 ''r1'' ''app'' ''j1'' body (sample_request ''o1'') sample_saved =
    (Inr (1, ''blast'', Some ''r1''), sample_published)"
proof -
  have guard: "SessionGuard sha 7 (Some ''tok-o1'') ''/v1/members'' sample_auth2 = Inr sample_me" by (rule sample_guard) (simp_all add: sha)
  have auth: "cd_auth sample_saved = sample_auth2" "sm_tenant sample_me = ''t1''" by (simp_all add: sample_saved_def fresh_db_def sample_me_def)
  have env: "ce_sha (sample_content sha) = sha" "ce_uuid (sample_content sha) = (\<lambda>_. True)" by (simp_all add: sample_content_def)
  show ?thesis
    by (simp add: activate_journey_def content_guard_def when_ok_def guard sample_facts parse_body_def auth env assms(2)
        sample_check [OF assms(3)] sample_launch)
qed

abbreviation plain_content :: content_env where
  "plain_content \<equiv> sample_content (\<lambda>s. s)"

definition sample_run2 :: "content_op list" where
  "sample_run2 = sample_saves @ [ActivateJourney 7 ''r1'' ''app'' ''j1'' (JObj []) (sample_request ''o1'')]"

lemma sample_run2_db: "content_run plain_content sample_auth2 sample_run2 = sample_published"
proof -
  have "activate_journey plain_content 7 ''r1'' ''app'' ''j1'' (JObj []) (sample_request ''o1'') sample_saved = (Inr (1, ''blast'', Some ''r1''), sample_published)"
    by (rule sample_activate [of _ _ None]) (simp_all add: activationSchema_def)
  then show ?thesis by (simp add: sample_run2_def sample_saved_run)
qed

lemma published_versions_sound_witness:
  "j_active_version (active_row 7 1 sample_row1) = Some 1 \<and> \<not> hasErrors (validateJourney (journey_of sample_draft))"
proof -
  have "active_row 7 1 sample_row1 \<in> set (journeys (content_run plain_content sample_auth2 sample_run2))"
    "filter (\<lambda>v. v_journey v = j_id (active_row 7 1 sample_row1)) (journey_versions (content_run plain_content sample_auth2 sample_run2)) =
     [\<lparr>v_journey = ''j1'', v_version = 1, v_definition = sample_draft\<rparr>]"
    by (simp_all add: sample_run2_db) (simp_all add: sample_published_def sample_row1_def)
  from published_versions_sound [OF sample_content_law this(1) this(2) [symmetric]] show ?thesis by simp
qed


text \<open>A digest of the form that an activation accepts\<close>

definition sample_digest :: string where
  "sample_digest = replicate 64 CHR ''a''"

definition sample_sha :: "string \<Rightarrow> string" where
  "sample_sha s = (if s = draft_text (\<lambda>_. ''1'') (\<le>) ''J'' sample_draft then sample_digest else if s = sample_digest then [] else s)"

lemma sample_sha_facts:
  "sample_sha ''tok-o1'' = ''tok-o1''" "draft_revision (sample_content sample_sha) ''J'' sample_draft = sample_digest"
  "activationSchema (JObj [(''revision'', JStr sample_digest)]) = Some (Some sample_digest)"
  by code_simp+

lemma activation_publishes_reviewed_witness:
  "\<exists>v \<in> set (journey_versions sample_published).
     draft_text (\<lambda>_. ''1'') (\<le>) ''J'' (v_definition v) = draft_text (\<lambda>_. ''1'') (\<le>) ''J'' sample_draft"
proof -
  let ?env = "sample_content sample_sha"
  have act: "activate_journey ?env 7 ''r1'' ''app'' ''j1'' (JObj [(''revision'', JStr (draft_revision ?env ''J'' sample_draft))])
      (sample_request ''o1'') sample_saved = (Inr (1, ''blast'', Some ''r1''), sample_published)"
    unfolding sample_sha_facts(2)
    by (rule sample_activate [where sha = sample_sha, OF sample_sha_facts(1,3)]) (simp add: sample_sha_facts(2))
  have "\<forall>x. ce_sha ?env x = draft_revision ?env ''J'' sample_draft \<longrightarrow> x = draft_text (ce_ns ?env) (ce_le ?env) ''J'' sample_draft"
    unfolding sample_sha_facts(2) by (auto simp: sample_content_def sample_sha_def sample_digest_def split: if_splits)
  from activation_publishes_reviewed [OF sample_content_law sample_saved_run [where sha = sample_sha, OF sample_sha_facts(1), symmetric] act this]
  show ?thesis by (simp add: sample_saved_def sample_row1_def sample_content_def) blast
qed


lemma sample_archive:
  "\<exists>d. archive_journey plain_content 8 ''app'' ''j1'' (sample_request ''o1'') (content_run plain_content sample_auth2 sample_run2) = (Inr (), d)"
proof -
  have guard: "SessionGuard (\<lambda>s. s) 8 (Some ''tok-o1'') ''/v1/members'' sample_auth2 = Inr sample_me" by (rule sample_guard) simp_all
  have auth: "cd_auth sample_published = sample_auth2" "sm_tenant sample_me = ''t1''" by (simp_all add: sample_published_def sample_saved_def fresh_db_def sample_me_def)
  have env: "ce_sha plain_content = (\<lambda>s. s)" "ce_uuid plain_content = (\<lambda>_. True)" by (simp_all add: sample_content_def)
  have "list_ex (journey_at ''j1'' ''t1'' ''app'') (journeys sample_published)" by (simp add: sample_published_def sample_row1_def)
  then show ?thesis by (simp add: sample_run2_db archive_journey_def content_guard_def when_ok_def guard sample_facts auth env)
qed

lemma archive_is_final_witness:
  "\<exists>d. archive_journey plain_content 8 ''app'' ''j1'' (sample_request ''o1'') (content_run plain_content sample_auth2 sample_run2) = (Inr (), d) \<and>
    (\<exists>j \<in> set (journeys (content_step plain_content (ActivateJourney 9 ''r2'' ''app'' ''j1'' (JObj []) (sample_request ''o1'')) d)).
       j_id j = ''j1'' \<and> j_status j = ''archived'')"
proof -
  obtain d where d: "archive_journey plain_content 8 ''app'' ''j1'' (sample_request ''o1'') (content_run plain_content sample_auth2 sample_run2) = (Inr (), d)"
    using sample_archive by blast
  from archive_is_final [OF sample_content_law d] have
    "\<exists>j \<in> set (journeys (fold (content_step plain_content) [ActivateJourney 9 ''r2'' ''app'' ''j1'' (JObj []) (sample_request ''o1'')] d)).
       j_id j = ''j1'' \<and> j_status j = ''archived''" by blast
  then show ?thesis using d by auto
qed


lemma content_requests_tenant_local_witness:
  "tenant_view ''t2'' (content_step plain_content (ArchiveJourney 8 ''app'' ''j1'' (sample_request ''o1'')) sample_published) = tenant_view ''t2'' sample_published"
proof (rule content_requests_tenant_local [OF sample_content_law sample_run2_db [symmetric], where me = sample_me])
  show "op_caller (ArchiveJourney 8 ''app'' ''j1'' (sample_request ''o1'')) = Some (8, sample_request ''o1'')" by simp
  have "SessionGuard (\<lambda>s. s) 8 (Some ''tok-o1'') ''/v1/members'' sample_auth2 = Inr sample_me" by (rule sample_guard) simp_all
  then show "SessionGuard (ce_sha plain_content) 8 (q_cookie (sample_request ''o1'')) (q_url (sample_request ''o1'')) (cd_auth sample_published) = Inr sample_me"
    by (simp add: sample_facts sample_published_def sample_saved_def fresh_db_def sample_content_def)
  show "sm_tenant sample_me \<noteq> ''t2''" by (simp add: sample_me_def)
qed

text \<open>
  A number beyond the range of a double is read as \<open>Infinity\<close>, accepted and written to the column as \<open>null\<close>: the stored segment no longer compiles.
\<close>

definition sample_overflow :: jsval where
  "sample_overflow = JObj [(''version'', JNum (Num 1)), (''operator'', JStr ''AND''), (''groups'', JArr [JObj
     [(''operator'', JStr ''AND''), (''conditions'', JArr
        [JObj [(''type'', JStr ''attribute''), (''key'', JStr ''ltv''), (''op'', JStr ''gt''), (''value'', JNum PosInf)]])]])]"

theorem overflowing_segment_breaks:
  "\<exists>d. create_segment plain_content 5 ''s1'' ''app'' (JObj [(''name'', JStr ''S''), (''definition'', sample_overflow)]) (sample_request ''o1'') (fresh_db sample_auth2) =
      (Inr ''s1'', d) \<and>
    (\<exists>s \<in> set (segments d). isl (compile (\<lambda>_. ''1'') (dsl_of (sg_definition s)) ''t1'' ''app'' Marketing))"
proof -
  have guard: "SessionGuard (\<lambda>s. s) 5 (Some ''tok-o1'') ''/v1/members'' sample_auth2 = Inr sample_me" by (rule sample_guard) simp_all
  have facts: "segment_upsert (JObj [(''name'', JStr ''S''), (''definition'', sample_overflow)]) = Some (''S'', sample_overflow)"
    "assertCompiles (\<lambda>_. ''1'') sample_overflow ''t1'' ''app'' = Inr ()"
    "isl (compile (\<lambda>_. ''1'') (dsl_of (to_json sample_overflow)) ''t1'' ''app'' Marketing)" by code_simp+
  have me: "sm_tenant sample_me = ''t1''" by (simp add: sample_me_def)
  show ?thesis
    by (simp add: create_segment_def content_guard_def when_ok_def fresh_db_def guard sample_facts facts parse_body_def write_jsonb_def sample_content_def me)
qed

end
