(* ===== verification/Rate_Limit.thy ===== *)
theory Rate_Limit
  imports Api_Keys
begin

text \<open>
  The token-bucket rate limiter (\<open>rate-limit/rate-limit.service.ts\<close>, \<open>rate-limit/rate-limit.guard.ts\<close>): the Lua script
  on one Redis hash, the check over the tenant, key and device layers and the guard. Numbers of the script are rationals;
  times are milliseconds. A key that Redis has expired is read as missing.
\<close>

section \<open>The bucket script\<close>

record bucket =
  bk_tokens :: rat
  bk_ts :: int
  bk_expires :: int

type_synonym redis = "string \<Rightarrow> bucket option"

record bucket_reply =
  br_allowed :: bool
  br_remaining :: int
  br_retry_ms :: int

definition live_bucket :: "int \<Rightarrow> bucket option \<Rightarrow> bucket option" where
  "live_bucket now b = (case b of None \<Rightarrow> None | Some e \<Rightarrow> if bk_expires e \<le> now then None else Some e)"

definition refilled :: "rat \<Rightarrow> rat \<Rightarrow> int \<Rightarrow> bucket option \<Rightarrow> rat" where
  "refilled rate burst now b =
     (case live_bucket now b of
        None \<Rightarrow> min burst (burst + of_int (now - now) / 1000 * rate)
      | Some e \<Rightarrow> min burst (bk_tokens e + of_int (now - bk_ts e) / 1000 * rate))"

definition ttl_ms :: "rat \<Rightarrow> rat \<Rightarrow> int" where
  "ttl_ms rate burst = max 60000 \<lceil>burst / rate * 2000\<rceil>"

definition token_bucket :: "rat \<Rightarrow> rat \<Rightarrow> int \<Rightarrow> rat \<Rightarrow> bucket option \<Rightarrow> bucket_reply \<times> bucket" where
  "token_bucket rate burst now cost b =
     (let tokens = refilled rate burst now b;
          allowed = (cost \<le> tokens);
          rest = (if allowed then tokens - cost else tokens);
          retry = (if allowed then 0 else \<lceil>(cost - tokens) / rate * 1000\<rceil>)
      in (\<lparr>br_allowed = allowed, br_remaining = \<lfloor>rest\<rfloor>, br_retry_ms = retry\<rparr>,
          \<lparr>bk_tokens = rest, bk_ts = now, bk_expires = now + ttl_ms rate burst\<rparr>))"

section \<open>Layers\<close>

record layer_config =
  l_name :: string
  l_key :: string
  l_rps :: rat
  l_burst :: rat

record decision =
  d_allowed :: bool
  d_limit :: rat
  d_remaining :: int
  d_retry_after :: int
  d_layer :: string

definition layer_key :: "layer_config \<Rightarrow> string" where
  "layer_key l = ''rl:'' @ l_key l"

fun check_layers :: "int \<Rightarrow> layer_config list \<Rightarrow> decision option \<Rightarrow> redis \<Rightarrow> decision option \<times> redis" where
  "check_layers now [] tightest r = (tightest, r)"
| "check_layers now (l # ls) tightest r =
     (let (reply, b) = token_bucket (l_rps l) (l_burst l) now 1 (r (layer_key l));
          r' = r(layer_key l \<mapsto> b);
          d = \<lparr>d_allowed = br_allowed reply, d_limit = l_rps l, d_remaining = br_remaining reply,
               d_retry_after = max 1 \<lceil>(of_int (br_retry_ms reply) :: rat) / 1000\<rceil>, d_layer = l_name l\<rparr>
      in if \<not> br_allowed reply then (Some d, r')
         else check_layers now ls
           (case tightest of None \<Rightarrow> Some d | Some t \<Rightarrow> if br_remaining reply < d_remaining t then Some d else Some t) r')"

definition check :: "int \<Rightarrow> layer_config list \<Rightarrow> redis \<Rightarrow> decision \<times> redis" where
  "check now ls r =
     (let (d, r') = check_layers now ls None r
      in (case d of None \<Rightarrow> \<lparr>d_allowed = True, d_limit = 0, d_remaining = 0, d_retry_after = 0, d_layer = ''none''\<rparr> | Some d \<Rightarrow> d, r'))"

section \<open>Guard\<close>

text \<open>A limit from the environment: \<open>Number(v)\<close> if it is finite and positive, else the default\<close>

definition limit_or :: "rat \<Rightarrow> jsnum \<Rightarrow> rat" where
  "limit_or d v = (case v of Num x \<Rightarrow> if 0 < x then x else d | _ \<Rightarrow> d)"

record limits =
  tenantRps :: rat
  keyRps :: rat
  deviceRps :: rat

definition limits_of :: "jsnum \<Rightarrow> jsnum \<Rightarrow> jsnum \<Rightarrow> limits" where
  "limits_of t k d = \<lparr>tenantRps = limit_or 1000 t, keyRps = limit_or 500 k, deviceRps = limit_or 20 d\<rparr>"

definition body_device :: "jsval \<Rightarrow> string option" where
  "body_device b =
     (case js_get b ''device'' of
        Some dv \<Rightarrow> (case js_get dv ''device_id'' of Some (JStr s) \<Rightarrow> if s = [] then None else Some s | _ \<Rightarrow> None)
      | None \<Rightarrow> None)"

definition layers_for :: "limits \<Rightarrow> resolved_key \<Rightarrow> jsval \<Rightarrow> layer_config list" where
  "layers_for cfg k body =
     [\<lparr>l_name = ''tenant'', l_key = ''t:'' @ rk_tenant k, l_rps = tenantRps cfg, l_burst = tenantRps cfg * 2\<rparr>,
      \<lparr>l_name = ''key'', l_key = ''k:'' @ rk_id k, l_rps = keyRps cfg, l_burst = keyRps cfg * 2\<rparr>] @
     (case body_device body of
        Some d \<Rightarrow> if rk_kind k = Sdk
          then [\<lparr>l_name = ''device'', l_key = ''d:'' @ d, l_rps = deviceRps cfg, l_burst = deviceRps cfg * 2\<rparr>] else []
      | None \<Rightarrow> [])"

definition RateLimitGuard ::
  "int \<Rightarrow> limits \<Rightarrow> resolved_key option \<Rightarrow> jsval \<Rightarrow> redis \<Rightarrow> (redis, unit) reply" where
  "RateLimitGuard now cfg key body r =
     (case key of
        None \<Rightarrow> (Inr (), r)
      | Some k \<Rightarrow>
          (let (d, r') = check now (layers_for cfg k body) r
           in (if d_allowed d then Inr () else Inl (TooManyRequests (d_layer d)), r')))"

section \<open>Bounds\<close>

definition bucket_ok :: "rat \<Rightarrow> rat \<Rightarrow> bucket option \<Rightarrow> bool" where
  "bucket_ok rate burst b \<longleftrightarrow>
     (case b of None \<Rightarrow> True
      | Some e \<Rightarrow> 0 \<le> bk_tokens e \<and> bk_tokens e \<le> burst \<and> bk_expires e = bk_ts e + ttl_ms rate burst)"

lemma refilled_bounds:
  assumes "0 < rate" "0 < burst" "bucket_ok rate burst b" "case b of None \<Rightarrow> True | Some e \<Rightarrow> bk_ts e \<le> now"
  shows "0 \<le> refilled rate burst now b" "refilled rate burst now b \<le> burst"
proof -
  have "0 \<le> bk_tokens e + of_int (now - bk_ts e) / 1000 * rate" if "b = Some e" for e
    using assms that by (intro add_nonneg_nonneg mult_nonneg_nonneg divide_nonneg_nonneg) (auto simp: bucket_ok_def)
  then show "0 \<le> refilled rate burst now b" using assms(2)
    by (auto simp: refilled_def live_bucket_def split: option.splits)
  show "refilled rate burst now b \<le> burst" by (auto simp: refilled_def split: option.splits)
qed

text \<open>Expiry is invisible: by then the bucket is full again.\<close>

lemma expired_full:
  assumes "0 < rate" "0 < burst" "bucket_ok rate burst (Some e)" "bk_expires e \<le> now"
  shows "burst \<le> bk_tokens e + of_int (now - bk_ts e) / 1000 * rate"
proof -
  have "burst / rate * 2000 \<le> of_int (ttl_ms rate burst)" by (simp add: ttl_ms_def) linarith
  also have "\<dots> \<le> of_int (now - bk_ts e)" using assms(3,4) by (simp add: bucket_ok_def)
  finally have "burst / rate * 2000 \<le> of_int (now - bk_ts e)" .
  then have "burst / rate * 2000 * rate \<le> of_int (now - bk_ts e) * rate" using assms(1) by (intro mult_right_mono) auto
  then have "burst * 2000 \<le> of_int (now - bk_ts e) * rate" using assms(1) by simp
  then show ?thesis using assms by (simp add: bucket_ok_def)
qed

lemma refilled_eq:
  assumes "0 < rate" "0 < burst" "bucket_ok rate burst b"
  shows "refilled rate burst now b =
    (case b of None \<Rightarrow> burst | Some e \<Rightarrow> min burst (bk_tokens e + of_int (now - bk_ts e) / 1000 * rate))"
  using assms expired_full [OF assms(1,2)]
  by (auto simp: refilled_def live_bucket_def min_def split: option.splits)

text \<open>One bucket as a component: a request at time \<open>now\<close>, and its cost 1 when it is let through\<close>

definition bucket_step :: "rat \<Rightarrow> rat \<Rightarrow> int \<Rightarrow> bucket option \<Rightarrow> bucket option" where
  "bucket_step rate burst now b = Some (snd (token_bucket rate burst now 1 b))"

definition bucket_cost :: "rat \<Rightarrow> rat \<Rightarrow> int \<Rightarrow> bucket option \<Rightarrow> rat" where
  "bucket_cost rate burst now b = (if br_allowed (fst (token_bucket rate burst now 1 b)) then 1 else 0)"

definition bucket_admissible :: "int \<Rightarrow> int \<Rightarrow> int \<Rightarrow> bucket option \<Rightarrow> bool" where
  "bucket_admissible t0 t1 now b \<longleftrightarrow> t0 \<le> now \<and> now \<le> t1 \<and> (case b of None \<Rightarrow> True | Some e \<Rightarrow> bk_ts e \<le> now)"

definition bucket_budget :: "rat \<Rightarrow> rat \<Rightarrow> int \<Rightarrow> int \<Rightarrow> bucket option \<Rightarrow> rat" where
  "bucket_budget rate burst t0 t1 b =
     (case b of None \<Rightarrow> burst + of_int (t1 - t0) / 1000 * rate
      | Some e \<Rightarrow> bk_tokens e + of_int (t1 - bk_ts e) / 1000 * rate)"

definition bucket_inv :: "rat \<Rightarrow> rat \<Rightarrow> int \<Rightarrow> int \<Rightarrow> bucket option \<Rightarrow> bool" where
  "bucket_inv rate burst t0 t1 b \<longleftrightarrow> 0 < rate \<and> 0 < burst \<and> bucket_ok rate burst b \<and> t0 \<le> t1 \<and> (case b of None \<Rightarrow> True | Some e \<Rightarrow> bk_ts e \<le> t1)"

lemma token_bucket_rest:
  "bk_tokens (snd (token_bucket rate burst now 1 b)) = refilled rate burst now b - bucket_cost rate burst now b"
  "bk_ts (snd (token_bucket rate burst now 1 b)) = now"
  "bk_expires (snd (token_bucket rate burst now 1 b)) = now + ttl_ms rate burst"
  by (simp_all add: token_bucket_def bucket_cost_def Let_def)

lemma bucket_cost_le: "0 \<le> refilled rate burst now b \<Longrightarrow> bucket_cost rate burst now b \<le> refilled rate burst now b"
  "0 \<le> bucket_cost rate burst now b"
  by (auto simp: bucket_cost_def token_bucket_def Let_def)

lemma bucket_step_ok:
  assumes "0 < rate" "0 < burst" "bucket_ok rate burst b" "bucket_admissible t0 t1 now b"
  shows "bucket_ok rate burst (bucket_step rate burst now b)"
proof -
  have r: "0 \<le> refilled rate burst now b" "refilled rate burst now b \<le> burst"
    using refilled_bounds [OF assms(1-3)] assms(4) by (auto simp: bucket_admissible_def)
  show ?thesis
    using r bucket_cost_le [of rate burst now b] by (simp add: bucket_step_def bucket_ok_def token_bucket_rest)
qed

lemma bucket_pay:
  assumes rb: "0 < rate" "0 < burst" and inv: "bucket_inv rate burst t0 t1 b" and ok: "bucket_admissible t0 t1 now b"
  shows "bucket_cost rate burst now b + bucket_budget rate burst t0 t1 (bucket_step rate burst now b) \<le> bucket_budget rate burst t0 t1 b"
proof -
  have after: "bucket_cost rate burst now b + bucket_budget rate burst t0 t1 (bucket_step rate burst now b) =
      refilled rate burst now b + of_int (t1 - now) / 1000 * rate"
    by (simp add: bucket_step_def bucket_budget_def token_bucket_rest)
  have "refilled rate burst now b + of_int (t1 - now) / 1000 * rate \<le> bucket_budget rate burst t0 t1 b"
  proof (cases b)
    case None
    have "(of_int (t1 - now) :: rat) \<le> of_int (t1 - t0)" using ok by (simp add: bucket_admissible_def)
    then have "of_int (t1 - now) / 1000 * rate \<le> of_int (t1 - t0) / 1000 * rate"
      using rb by (intro mult_right_mono divide_right_mono) auto
    then show ?thesis using None rb by (simp add: refilled_eq bucket_ok_def bucket_budget_def)
  next
    case (Some e)
    have "refilled rate burst now b \<le> bk_tokens e + of_int (now - bk_ts e) / 1000 * rate"
      using inv Some rb refilled_eq [of rate burst b now] by (auto simp: bucket_inv_def)
    then show ?thesis using Some by (simp add: bucket_budget_def algebra_simps diff_divide_distrib)
  qed
  then show ?thesis using after by simp
qed

lemma bucket_budget_nonneg:
  assumes "0 < rate" "0 < burst" "bucket_inv rate burst t0 t1 b"
  shows "0 \<le> bucket_budget rate burst t0 t1 b"
  using assms by (auto simp: bucket_budget_def bucket_inv_def bucket_ok_def split: option.splits)

interpretation bucket: budget_system "bucket_step rate burst" "bucket_cost rate burst"
  "bucket_budget rate burst t0 t1" "bucket_admissible t0 t1" "bucket_inv rate burst t0 t1"
  for rate burst t0 t1
proof (unfold_locales, goal_cases)
  case (1 s r)
  then show ?case by (intro bucket_pay) (auto simp: bucket_inv_def)
next
  case (2 s r)
  then show ?case
    using bucket_step_ok [of "rate" "burst" s t0 t1 r]
    by (auto simp: bucket_inv_def bucket_admissible_def bucket_step_def token_bucket_rest)
next
  case (3 s)
  then show ?case by (intro bucket_budget_nonneg) (auto simp: bucket_inv_def)
qed


section \<open>Properties\<close>

text \<open>
  C18: the limiter admits no more than it promises. In any time window, whatever the bucket contained before and however many
  requests arrive, the number of admitted requests is at most the burst plus the refill of the window.
\<close>

theorem admitted_bounded:
  assumes "0 < rate" and "0 < burst" and "bucket_ok rate burst b" and "t0 \<le> t1"
    and "run_ok (bucket_step rate burst) (bucket_admissible t0 t1) nows b"
  shows "spent (bucket_step rate burst) (bucket_cost rate burst) nows b \<le> burst + of_int (t1 - t0) / 1000 * rate"
proof (cases nows)
  case Nil
  then show ?thesis using assms by simp
next
  case (Cons now rest)
  let ?b = "bucket_step rate burst now b"
  have adm: "bucket_admissible t0 t1 now b" and run: "run_ok (bucket_step rate burst) (bucket_admissible t0 t1) rest ?b"
    using assms(5) Cons by auto
  have "bucket_inv rate burst t0 t1 ?b"
    using bucket_step_ok [OF assms(1-3) adm] assms(1,2,4) adm
    by (simp add: bucket_inv_def bucket_step_def token_bucket_rest bucket_admissible_def)
  then have "spent (bucket_step rate burst) (bucket_cost rate burst) rest ?b \<le> bucket_budget rate burst t0 t1 ?b"
    using run by (rule bucket.spent_bounded)
  also have "\<dots> = refilled rate burst now b - bucket_cost rate burst now b + of_int (t1 - now) / 1000 * rate"
    by (simp add: bucket_step_def bucket_budget_def token_bucket_rest)
  finally have "spent (bucket_step rate burst) (bucket_cost rate burst) nows b \<le> refilled rate burst now b + of_int (t1 - now) / 1000 * rate"
    using Cons by simp
  also have "\<dots> \<le> burst + of_int (t1 - t0) / 1000 * rate"
  proof (rule add_mono)
    show "refilled rate burst now b \<le> burst" by (auto simp: refilled_def split: option.splits)
    have "(of_int (t1 - now) :: rat) \<le> of_int (t1 - t0)" using adm by (simp add: bucket_admissible_def)
    then show "of_int (t1 - now) / 1000 * rate \<le> of_int (t1 - t0) / 1000 * rate"
      using assms(1) by (intro mult_right_mono divide_right_mono) auto
  qed
  finally show ?thesis .
qed


text \<open>
  A configured rate below one half blocks its layer for good. The burst is twice the rate; when that is less than one token no
  request is ever admitted, however long the client waits.
\<close>

theorem fractional_rate_blocks:
  assumes "rps < 1 / 2"
  shows "\<not> br_allowed (fst (token_bucket rps (rps * 2) now 1 b))"
proof -
  have "refilled rps (rps * 2) now b \<le> rps * 2" by (auto simp: refilled_def split: option.splits)
  then show ?thesis using assms by (simp add: token_bucket_def Let_def)
qed

section \<open>Concrete instances\<close>

lemma admitted_bounded_witness:
  "spent (bucket_step 1 2) (bucket_cost 1 2) [0, 0, 0, 1000, 1000] None \<le> (3 :: rat)"
  using admitted_bounded [of 1 2 None 0 1000 "[0, 0, 0, 1000, 1000]"]
  by (simp add: bucket_ok_def bucket_admissible_def bucket_step_def token_bucket_rest)


lemma fractional_rate_blocks_witness: "\<not> br_allowed (fst (token_bucket (2 / 5) (2 / 5 * 2) 123456 1 None))"
  by (rule fractional_rate_blocks) simp

end
