(* ===== verification/Totp_Codes.thy ===== *)
theory Totp_Codes
  imports Auth_Store "HOL-Library.Word"
begin

text \<open>
  One-time codes (\<open>auth/totp.ts\<close>) and the storage format of secrets (\<open>crypto/envelope.ts\<close>, and \<open>packEnvelope\<close> of
  \<open>auth/totp.service.ts\<close>). Buffers are strings of bytes, JavaScript's 32-bit integers are \<open>32 word\<close>s. HMAC-SHA1, AES-256-GCM,
  Argon2id and the Unicode tables behind \<open>toUpperCase\<close> are functions of the record \<open>crypto\<close>; random bytes are arguments.
\<close>

unbundle bit_operations_syntax

record crypto =
  cr_hmac :: "string \<Rightarrow> string \<Rightarrow> string"
  cr_gcm_enc :: "string \<Rightarrow> string \<Rightarrow> string \<Rightarrow> string \<times> string"
  cr_gcm_dec :: "string \<Rightarrow> string \<Rightarrow> string \<Rightarrow> string \<Rightarrow> string option"
  cr_b64 :: "string \<Rightarrow> string"
  cr_unb64 :: "string \<Rightarrow> string"
  cr_sha :: "string \<Rightarrow> string"
  cr_verify :: "string \<Rightarrow> string \<Rightarrow> bool"
  cr_upper :: "string \<Rightarrow> string"
  cr_master :: string

section \<open>Base32\<close>

definition TOTP_PERIOD :: int where "TOTP_PERIOD = 30"
definition TOTP_DIGITS :: nat where "TOTP_DIGITS = 6"
definition TOTP_WINDOW :: int where "TOTP_WINDOW = 1"

definition B32 :: string where
  "B32 = ''ABCDEFGHIJKLMNOPQRSTUVWXYZ234567''"

definition byte_word :: "char \<Rightarrow> 32 word" where
  "byte_word c = word_of_nat (of_char c)"

text \<open>The inner \<open>while (bits >= 5)\<close>: the characters written and the remaining bits\<close>

fun b32_drain :: "32 word \<Rightarrow> nat \<Rightarrow> string \<times> nat" where
  "b32_drain v bits =
     (if bits < 5 then ([], bits)
      else let (out, b) = b32_drain v (bits - 5)
           in (B32 ! unat (drop_bit (bits - 5) v AND 31) # out, b))"

declare b32_drain.simps [simp del]

fun b32_loop :: "string \<Rightarrow> 32 word \<Rightarrow> nat \<Rightarrow> string \<Rightarrow> 32 word \<times> nat \<times> string" where
  "b32_loop [] v bits out = (v, bits, out)"
| "b32_loop (c # cs) v bits out =
     (let v' = push_bit 8 v OR byte_word c; (o1, b) = b32_drain v' (bits + 8)
      in b32_loop cs v' b (out @ o1))"

definition base32Encode :: "string \<Rightarrow> string" where
  "base32Encode buf =
     (let (v, bits, out) = b32_loop buf 0 0 []
      in if 0 < bits then out @ [B32 ! unat (push_bit (5 - bits) v AND 31)] else out)"

text \<open>RFC 4648: the bytes are one big-endian number, padded with zero bits to a multiple of five and written in base 32.\<close>

definition be_value :: "string \<Rightarrow> nat" where
  "be_value s = foldl (\<lambda>n c. n * 256 + of_char c) 0 s"

definition base32_digits :: "string \<Rightarrow> nat" where
  "base32_digits buf = (8 * length buf + 4) div 5"

definition base32_reference :: "string \<Rightarrow> string" where
  "base32_reference buf =
     (let L = base32_digits buf; N = be_value buf * 2 ^ (5 * L - 8 * length buf)
      in map (\<lambda>i. B32 ! (N div 32 ^ (L - 1 - i) mod 32)) [0..<L])"

section \<open>HOTP and TOTP\<close>

text \<open>\<open>Buffer.writeUInt32BE\<close>\<close>

definition be32 :: "nat \<Rightarrow> string" where
  "be32 n = map char_of [n div 16777216 mod 256, n div 65536 mod 256, n div 256 mod 256, n mod 256]"

text \<open>\<open>h[i]\<close>, and \<open>undefined & mask\<close> is 0\<close>

definition byte_at :: "string \<Rightarrow> nat \<Rightarrow> 32 word" where
  "byte_at h i = (if i < length h then byte_word (h ! i) else 0)"

definition dynamic_truncation :: "string \<Rightarrow> nat" where
  "dynamic_truncation h =
     (let offset = unat (byte_at h (length h - 1) AND 15)
      in unat (push_bit 24 (byte_at h offset AND 127) OR push_bit 16 (byte_at h (offset + 1) AND 255) OR
               push_bit 8 (byte_at h (offset + 2) AND 255) OR (byte_at h (offset + 3) AND 255)))"

definition pad_start :: "nat \<Rightarrow> string \<Rightarrow> string" where
  "pad_start n s = replicate (n - length s) CHR ''0'' @ s"

definition hotp :: "crypto \<Rightarrow> string \<Rightarrow> int \<Rightarrow> nat \<Rightarrow> string" where
  "hotp cr secret counter digits =
     (let buf = be32 (nat (counter div 4294967296)) @ be32 (nat (counter mod 4294967296));
          h = cr_hmac cr secret buf
      in pad_start digits (nat_str (dynamic_truncation h mod 10 ^ digits)))"

definition counterAt :: "int \<Rightarrow> int" where
  "counterAt epochMs = epochMs div (1000 * TOTP_PERIOD)"

definition totpAt :: "crypto \<Rightarrow> string \<Rightarrow> int \<Rightarrow> string" where
  "totpAt cr secret epochMs = hotp cr secret (counterAt epochMs) TOTP_DIGITS"

definition is_digit_char :: "char \<Rightarrow> bool" where
  "is_digit_char c \<longleftrightarrow> 48 \<le> (of_char c :: nat) \<and> (of_char c :: nat) \<le> 57"

text \<open>\<open>token.replace(/\s/g, "")\<close>\<close>

function remove_seqs :: "string list \<Rightarrow> string \<Rightarrow> string" where
  "remove_seqs ws [] = []"
| "remove_seqs ws (c # s) =
     (case find (\<lambda>w. w \<noteq> [] \<and> prefix w (c # s)) ws of
        None \<Rightarrow> c # remove_seqs ws s
      | Some w \<Rightarrow> remove_seqs ws (drop (length w) (c # s)))"
  by pat_completeness auto
termination
  by (relation "measure (\<lambda>(ws, s). length s)") (auto dest!: find_SomeD simp: Suc_le_eq)

text \<open>The candidate steps \<open>base - window .. base + window\<close>, in order\<close>

fun totp_scan :: "crypto \<Rightarrow> string \<Rightarrow> string \<Rightarrow> nat \<Rightarrow> int \<Rightarrow> int list \<Rightarrow> int option" where
  "totp_scan cr secret clean digits after_c [] = None"
| "totp_scan cr secret clean digits after_c (c # cs) =
     (if c \<le> after_c then totp_scan cr secret clean digits after_c cs
      else if hotp cr secret c digits = clean then Some c
      else totp_scan cr secret clean digits after_c cs)"

text \<open>\<open>verifyTotp\<close>: the matching step, or \<^const>\<open>None\<close> for \<open>{ ok: false }\<close>\<close>

definition verifyTotp :: "crypto \<Rightarrow> string \<Rightarrow> string \<Rightarrow> int \<Rightarrow> int \<Rightarrow> int option" where
  "verifyTotp cr secret token epochMs after_c =
     (let clean = remove_seqs js_ws token
      in if length clean \<noteq> TOTP_DIGITS \<or> \<not> list_all is_digit_char clean then None
         else let base = counterAt epochMs
              in totp_scan cr secret clean TOTP_DIGITS after_c [base - TOTP_WINDOW..base + TOTP_WINDOW])"

section \<open>Backup codes and the enrolment URI\<close>

definition backup_code :: "string \<Rightarrow> string" where
  "backup_code random7 = (let raw = take 10 (base32Encode random7) in take 5 raw @ ''-'' @ drop 5 raw)"

definition generateBackupCodes :: "string list \<Rightarrow> string list" where
  "generateBackupCodes randoms = map backup_code randoms"

definition normalizeBackupCode :: "crypto \<Rightarrow> string \<Rightarrow> string" where
  "normalizeBackupCode cr code = cr_upper cr (remove_seqs (''-'' # js_ws) code)"

definition hex_digit :: "nat \<Rightarrow> char" where
  "hex_digit n = ''0123456789ABCDEF'' ! n"

definition percent :: "char \<Rightarrow> string" where
  "percent c = [CHR ''%'', hex_digit (of_char c div 16), hex_digit (of_char c mod 16)]"

definition is_alnum :: "char \<Rightarrow> bool" where
  "is_alnum c \<longleftrightarrow> is_digit_char c \<or> (65 \<le> (of_char c :: nat) \<and> (of_char c :: nat) \<le> 90) \<or> (97 \<le> (of_char c :: nat) \<and> (of_char c :: nat) \<le> 122)"

definition encodeURIComponent :: "string \<Rightarrow> string" where
  "encodeURIComponent s =
     concat (map (\<lambda>c. if is_alnum c \<or> c \<in> set ''-_.!~*()'' \<or> c = CHR 0x27 then [c] else percent c) s)"

definition form_encode :: "string \<Rightarrow> string" where
  "form_encode s =
     concat (map (\<lambda>c. if is_alnum c \<or> c \<in> set ''*-._'' then [c] else if c = CHR '' '' then ''+'' else percent c) s)"

definition otpauthUri :: "string \<Rightarrow> string \<Rightarrow> string" where
  "otpauthUri accountLabel secretBase32 =
     (let issuer = ''NudgeOn'';
          pair = (\<lambda>k v. form_encode k @ ''='' @ form_encode v)
      in ''otpauth://totp/'' @ encodeURIComponent (issuer @ '':'' @ accountLabel) @ ''?'' @
         join ''&'' [pair ''secret'' secretBase32, pair ''issuer'' issuer, pair ''algorithm'' ''SHA1'',
                     pair ''digits'' (nat_str TOTP_DIGITS), pair ''period'' (nat_str (nat TOTP_PERIOD))])"

section \<open>Envelopes\<close>

record envelope =
  ev_ciphertext :: string
  ev_dek_wrapped :: string

definition seal :: "crypto \<Rightarrow> string \<Rightarrow> string \<Rightarrow> string \<Rightarrow> string" where
  "seal cr key nonce plaintext = (let (body, tag) = cr_gcm_enc cr key nonce plaintext in nonce @ body @ tag)"

definition open_sealed :: "crypto \<Rightarrow> string \<Rightarrow> string \<Rightarrow> string option" where
  "open_sealed cr key sealed =
     (let nonce = take 12 sealed;
          tag = drop (length sealed - 16) sealed;
          body = drop 12 (take (length sealed - 16) sealed)
      in cr_gcm_dec cr key nonce body tag)"

definition encryptEnvelope :: "crypto \<Rightarrow> string \<Rightarrow> string \<Rightarrow> string \<Rightarrow> string \<Rightarrow> string \<Rightarrow> envelope" where
  "encryptEnvelope cr dek nonce1 nonce2 masterKey plaintext =
     \<lparr>ev_ciphertext = seal cr dek nonce1 plaintext, ev_dek_wrapped = seal cr masterKey nonce2 dek\<rparr>"

definition decryptEnvelope :: "crypto \<Rightarrow> string \<Rightarrow> envelope \<Rightarrow> string option" where
  "decryptEnvelope cr masterKey env =
     Option.bind (open_sealed cr masterKey (ev_dek_wrapped env)) (\<lambda>dek. open_sealed cr dek (ev_ciphertext env))"

definition packEnvelope :: "envelope \<Rightarrow> string" where
  "packEnvelope env = be32 (length (ev_ciphertext env)) @ ev_ciphertext env @ ev_dek_wrapped env"

definition unpackEnvelope :: "string \<Rightarrow> envelope" where
  "unpackEnvelope buf =
     (let n = be_value (take 4 buf)
      in \<lparr>ev_ciphertext = take n (drop 4 buf), ev_dek_wrapped = drop (4 + n) buf\<rparr>)"

definition decryptSecret :: "crypto \<Rightarrow> string \<Rightarrow> string option" where
  "decryptSecret cr buf = map_option (cr_unb64 cr) (decryptEnvelope cr (cr_master cr) (unpackEnvelope buf))"

definition sealSecret :: "crypto \<Rightarrow> string \<Rightarrow> string \<Rightarrow> string \<Rightarrow> string \<Rightarrow> string" where
  "sealSecret cr dek nonce1 nonce2 secret =
     packEnvelope (encryptEnvelope cr dek nonce1 nonce2 (cr_master cr) (cr_b64 cr secret))"


section \<open>Base32 is RFC 4648\<close>

lemma unat_window: "k + 5 \<le> 32 \<Longrightarrow> unat (drop_bit k (word_of_nat N :: 32 word) AND 31) = N div 2 ^ k mod 32"
proof -
  assume k: "k + 5 \<le> 32"
  have "(drop_bit k (word_of_nat N :: 32 word) AND 31) = take_bit 5 (drop_bit k (word_of_nat N))"
    using take_bit_eq_mask [of 5 "drop_bit k (word_of_nat N :: 32 word)"] by (simp add: mask_eq_exp_minus_1)
  then have "unat (drop_bit k (word_of_nat N :: 32 word) AND 31) = take_bit 5 (drop_bit k N)"
    using k by (simp add: unsigned_take_bit_eq unsigned_drop_bit_eq unsigned_of_nat drop_bit_take_bit min_absorb1)
  also have "\<dots> = N div 2 ^ k mod 32" by (simp add: take_bit_eq_mod drop_bit_eq_div)
  finally show ?thesis .
qed

lemma of_char_less [simp]: "(of_char c :: nat) < 256"
  using of_char_of [of "of_char c :: nat"] nat_of_char_less_256 by simp

lemma shift_in: "push_bit 8 (word_of_nat N :: 32 word) OR byte_word c = word_of_nat (N * 256 + of_char c)"
proof -
  have "push_bit 8 (word_of_nat N :: 32 word) AND byte_word c = 0"
  proof (rule bit_word_eqI)
    fix n
    show "bit (push_bit 8 (word_of_nat N :: 32 word) AND byte_word c) n = bit (0 :: 32 word) n"
    proof (cases "n < 8")
      case False
      have "(256 :: nat) \<le> 2 ^ n" using False power_increasing [of 8 n "2 :: nat"] by simp
      with of_char_less have "(of_char c :: nat) < 2 ^ n" by (rule less_le_trans)
      then have "\<not> bit (of_char c :: nat) n" by (simp add: bit_iff_odd)
      then show ?thesis by (simp add: byte_word_def bit_simps)
    qed (simp add: bit_simps)
  qed
  then have "push_bit 8 (word_of_nat N :: 32 word) OR byte_word c = push_bit 8 (word_of_nat N) + byte_word c"
    by (simp add: disjunctive_add_eq_or)
  also have "\<dots> = word_of_nat (N * 256 + of_char c)"
    by (simp add: push_bit_eq_mult byte_word_def mult.commute)
  finally show ?thesis .
qed

definition b32_chars :: "nat \<Rightarrow> nat \<Rightarrow> string" where
  "b32_chars N n = map (\<lambda>i. B32 ! (N div 2 ^ (n - 5 * (i + 1)) mod 32)) [0..<n div 5]"

lemma b32_drain_eq: "bits \<le> 32 \<Longrightarrow> b32_drain (word_of_nat N) bits = (b32_chars N bits, bits mod 5)"
proof (induction bits rule: less_induct)
  case (less bits)
  show ?case
  proof (cases "bits < 5")
    case True
    then show ?thesis by (simp add: b32_drain.simps b32_chars_def)
  next
    case False
    then have q: "bits div 5 = Suc ((bits - 5) div 5)" "bits mod 5 = (bits - 5) mod 5" by (auto simp: le_div_geq le_mod_geq)
    have tail: "map (\<lambda>i. B32 ! (N div 2 ^ (bits - 5 * (i + 1)) mod 32)) [1..<Suc k] =
        map (\<lambda>i. B32 ! (N div 2 ^ (bits - 5 - 5 * (i + 1)) mod 32)) [0..<k]" for k
      by (rule nth_equalityI) (simp_all add: algebra_simps del: upt_Suc)
    have w: "unat (drop_bit (bits - 5) (word_of_nat N :: 32 word) AND 31) = N div 2 ^ (bits - 5) mod 32"
      using less.prems False by (intro unat_window) simp
    have "b32_drain (word_of_nat N) bits =
        (B32 ! (N div 2 ^ (bits - 5) mod 32) # b32_chars N (bits - 5), (bits - 5) mod 5)"
      using less.IH [of "bits - 5"] less.prems False w by (subst b32_drain.simps) simp
    moreover have "b32_chars N bits = B32 ! (N div 2 ^ (bits - 5) mod 32) # b32_chars N (bits - 5)"
      unfolding b32_chars_def q(1) by (subst upt_conv_Cons) (use tail [of "(bits - 5) div 5"] in \<open>simp_all del: upt_Suc\<close>)
    ultimately show ?thesis using q(2) by simp
  qed
qed

lemma div_exp8: "(x :: nat) div 2 ^ (8 + k) = x div 256 div 2 ^ k"
  by (simp add: power_add div_mult2_eq)

lemma b32_chars_shift:
  assumes "b < 256"
  shows "b32_chars (N * 256 + b) (n + 8) = b32_chars N n @ b32_chars (N * 256 + b) (n mod 5 + 8)"
proof -
  let ?f = "\<lambda>m i. B32 ! ((N * 256 + b) div 2 ^ (m - 5 * (i + 1)) mod 32)"
  have len: "(n + 8) div 5 = n div 5 + (n mod 5 + 8) div 5" by presburger
  have low: "?f (n + 8) i = B32 ! (N div 2 ^ (n - 5 * (i + 1)) mod 32)" if "i < n div 5" for i
  proof -
    have "5 * (i + 1) \<le> 5 * (n div 5)" "5 * (n div 5) \<le> n" using that by simp_all
    then have "5 * (i + 1) \<le> n" by linarith
    then have "n + 8 - 5 * (i + 1) = 8 + (n - 5 * (i + 1))" by linarith
    then have "(N * 256 + b) div 2 ^ (n + 8 - 5 * (i + 1)) = (N * 256 + b) div 256 div 2 ^ (n - 5 * (i + 1))"
      by (simp only: div_exp8)
    moreover have "(N * 256 + b) div 256 = N" using assms by simp
    ultimately show ?thesis by (simp only:)
  qed
  have high: "?f (n + 8) (n div 5 + i) = ?f (n mod 5 + 8) i" for i
  proof -
    have "m + r + 8 - (m + 5 * (i + 1)) = r + 8 - 5 * (i + 1)" for m r :: nat by simp
    from this [of "5 * (n div 5)" "n mod 5"] have "n + 8 - 5 * (n div 5 + i + 1) = n mod 5 + 8 - 5 * (i + 1)"
      by (simp only: mult_div_mod_eq distrib_left add.assoc)
    then show ?thesis by (simp only:)
  qed
  have "b32_chars (N * 256 + b) (n + 8) = map (?f (n + 8)) [0..<n div 5] @ map (?f (n + 8)) [n div 5..<n div 5 + (n mod 5 + 8) div 5]"
    unfolding b32_chars_def len by (simp only: upt_add_eq_append [OF le0] map_append)
  also have "map (?f (n + 8)) [0..<n div 5] = b32_chars N n"
    unfolding b32_chars_def using low by simp
  also have "map (?f (n + 8)) [n div 5..<n div 5 + (n mod 5 + 8) div 5] = map (\<lambda>i. ?f (n + 8) (n div 5 + i)) [0..<(n mod 5 + 8) div 5]"
    by (rule nth_equalityI) simp_all
  also have "\<dots> = b32_chars (N * 256 + b) (n mod 5 + 8)"
    unfolding b32_chars_def high by simp
  finally show ?thesis .
qed

lemma b32_loop_eq:
  "b32_loop cs (word_of_nat N) (n mod 5) (b32_chars N n) =
     (let N' = foldl (\<lambda>n c. n * 256 + of_char c) N cs; n' = n + 8 * length cs
      in (word_of_nat N', n' mod 5, b32_chars N' n'))"
proof (induction cs arbitrary: N n)
  case (Cons c cs)
  let ?N = "N * 256 + of_char c :: nat"
  have m: "n mod 5 < 5" by simp
  have "b32_drain (word_of_nat ?N) (n mod 5 + 8) = (b32_chars ?N (n mod 5 + 8), (n mod 5 + 8) mod 5)"
    using m by (intro b32_drain_eq) linarith
  moreover have "(n mod 5 + 8) mod 5 = (n + 8) mod 5" by presburger
  moreover have "b32_chars N n @ b32_chars ?N (n mod 5 + 8) = b32_chars ?N (n + 8)"
    by (rule b32_chars_shift [symmetric]) simp
  ultimately have "b32_loop (c # cs) (word_of_nat N) (n mod 5) (b32_chars N n) =
      b32_loop cs (word_of_nat ?N) ((n + 8) mod 5) (b32_chars ?N (n + 8))"
    by (simp add: shift_in Let_def)
  then show ?case using Cons.IH [of ?N "n + 8"] by (simp add: Let_def add.assoc add.left_commute)
qed simp

lemma last_digit: "r < 5 \<Longrightarrow> unat (push_bit r (word_of_nat N :: 32 word) AND 31) = N * 2 ^ r mod 32"
proof -
  have "push_bit r (word_of_nat N :: 32 word) = drop_bit 0 (word_of_nat (N * 2 ^ r))"
    by (simp add: push_bit_eq_mult mult.commute)
  then show ?thesis using unat_window [of 0 "N * 2 ^ r"] by simp
qed

lemma reference_split:
  assumes "n = 8 * length buf" "N = be_value buf"
  shows "base32_reference buf =
    b32_chars N n @ (if 0 < n mod 5 then [B32 ! (N * 2 ^ (5 - n mod 5) mod 32)] else [])"
proof (cases "n mod 5 = 0")
  case True
  then have L: "base32_digits buf = n div 5" "5 * (n div 5) = n" using assms(1) by (simp_all add: base32_digits_def) presburger+
  have "32 ^ (n div 5 - 1 - i) = (2 :: nat) ^ (n - 5 * (i + 1))" if "i < n div 5" for i
  proof -
    have "n - 5 * (i + 1) = 5 * (n div 5 - 1 - i)" using L(2) that by simp
    then show ?thesis by (simp add: power_mult)
  qed
  then show ?thesis using True L assms by (simp add: base32_reference_def Let_def b32_chars_def)
next
  case False
  let ?p = "5 - n mod 5"
  have L: "base32_digits buf = Suc (n div 5)" "5 * Suc (n div 5) - n = ?p"
    using False assms(1) by (simp_all add: base32_digits_def) presburger+
  have "N * 2 ^ ?p div 32 ^ (n div 5 - i) mod 32 = N div 2 ^ (n - 5 * (i + 1)) mod 32" if i: "i < n div 5" for i
  proof -
    obtain d where d: "n div 5 = i + 1 + d" using i by (auto simp: less_iff_Suc_add)
    have "5 * (i + 1 + d) + n mod 5 = n" using d by (metis mult_div_mod_eq)
    moreover have "5 * (i + 1 + d) + r - 5 * (i + 1) = 5 * d + r" for r :: nat by simp
    ultimately have "n - 5 * (i + 1) = 5 * d + n mod 5" by metis
    then have "5 * (n div 5 - i) = ?p + (n - 5 * (i + 1))" using d by simp
    moreover have "(32 :: nat) ^ (n div 5 - i) = 2 ^ (5 * (n div 5 - i))" by (simp add: power_mult)
    ultimately have "(32 :: nat) ^ (n div 5 - i) = 2 ^ ?p * 2 ^ (n - 5 * (i + 1))" by (simp only: power_add)
    then show ?thesis by (simp add: div_mult2_eq mult.commute)
  qed
  then show ?thesis using False L assms by (simp add: base32_reference_def Let_def b32_chars_def)
qed

lemma base32Encode_reference: "base32Encode buf = base32_reference buf"
proof -
  let ?n = "8 * length buf"
  have "b32_loop buf 0 0 [] = (word_of_nat (be_value buf), ?n mod 5, b32_chars (be_value buf) ?n)"
    using b32_loop_eq [of buf 0 0] by (simp add: be_value_def b32_chars_def Let_def)
  then show ?thesis
    using last_digit [of "5 - ?n mod 5" "be_value buf"] reference_split [of ?n buf "be_value buf"]
    by (auto simp: base32Encode_def)
qed


section \<open>Codes\<close>

lemma digit_char: "d < 10 \<Longrightarrow> is_digit_char (char_of (48 + d :: nat))"
  by (simp add: is_digit_char_def)

lemma nat_str_digits: "list_all is_digit_char (nat_str n)"
proof (induction n rule: nat_str.induct)
  case (1 n)
  then show ?case
    using digit_char [of n] digit_char [of "n mod 10"] by (subst nat_str.simps) simp
qed

lemma hotp_format:
  assumes "digits \<noteq> 0"
  shows "length (hotp cr secret c digits) = digits" "list_all is_digit_char (hotp cr secret c digits)"
proof -
  obtain k where k: "digits = Suc k" using assms by (cases digits) auto
  have "length (nat_str (x mod 10 ^ Suc k)) \<le> Suc k" for x :: nat
    by (rule length_nat_str) simp
  then show "length (hotp cr secret c digits) = digits"
    unfolding k hotp_def Let_def pad_start_def by (simp add: le_add_diff_inverse2 del: power_Suc)
  have "is_digit_char CHR ''0''" by (simp add: is_digit_char_def)
  then show "list_all is_digit_char (hotp cr secret c digits)"
    using nat_str_digits unfolding hotp_def Let_def pad_start_def
    by (simp add: list_all_iff set_replicate_conv_if)
qed

lemma remove_seqs_id:
  "list_all (\<lambda>c. \<forall>w \<in> set ws. w = [] \<or> hd w \<noteq> c) s \<Longrightarrow> remove_seqs ws s = s"
proof (induction s)
  case (Cons c s)
  have "find (\<lambda>w. w \<noteq> [] \<and> prefix w (c # s)) ws = None"
    using Cons.prems by (auto simp: find_None_iff prefix_Cons)
  then show ?case using Cons by simp
qed simp

lemma digits_no_ws: "list_all is_digit_char s \<Longrightarrow> remove_seqs js_ws s = s"
proof (rule remove_seqs_id)
  assume d: "list_all is_digit_char s"
  have "\<forall>w \<in> set js_ws. w = [] \<or> \<not> is_digit_char (hd w)" by code_simp
  then show "list_all (\<lambda>c. \<forall>w \<in> set js_ws. w = [] \<or> hd w \<noteq> c) s"
    using d unfolding list_all_iff by metis
qed

lemma totp_scan_SomeD:
  "totp_scan cr secret clean digits a cs = Some c \<Longrightarrow> c \<in> set cs \<and> a < c \<and> hotp cr secret c digits = clean"
  by (induction cs) (auto split: if_splits)

lemma totp_scan_complete:
  "c \<in> set cs \<Longrightarrow> a < c \<Longrightarrow> hotp cr secret c digits = clean \<Longrightarrow> totp_scan cr secret clean digits a cs \<noteq> None"
  by (induction cs) auto

lemma verifyTotp_SomeD:
  assumes "verifyTotp cr secret token now a = Some c"
  shows "a < c" "\<bar>c - counterAt now\<bar> \<le> 1" "hotp cr secret c TOTP_DIGITS = remove_seqs js_ws token"
proof -
  have "totp_scan cr secret (remove_seqs js_ws token) TOTP_DIGITS a [counterAt now - 1..counterAt now + 1] = Some c"
    using assms by (auto simp: verifyTotp_def Let_def TOTP_WINDOW_def split: if_splits)
  from totp_scan_SomeD [OF this]
  show "a < c" "\<bar>c - counterAt now\<bar> \<le> 1" "hotp cr secret c TOTP_DIGITS = remove_seqs js_ws token" by auto
qed

section \<open>Stored secrets\<close>

text \<open>
  What AES-256-GCM promises: decryption with the same key and nonce returns the plaintext, and the tag has 16 bytes.
\<close>

definition gcm_ok :: "crypto \<Rightarrow> bool" where
  "gcm_ok cr \<longleftrightarrow> (\<forall>k n p. length (snd (cr_gcm_enc cr k n p)) = 16 \<and>
     cr_gcm_dec cr k n (fst (cr_gcm_enc cr k n p)) (snd (cr_gcm_enc cr k n p)) = Some p)"

lemma open_seal:
  assumes "gcm_ok cr" "length nonce = 12"
  shows "open_sealed cr key (seal cr key nonce p) = Some p"
  using assms by (simp add: open_sealed_def seal_def gcm_ok_def split_beta Let_def)

lemma be_value_be32: "n < 4294967296 \<Longrightarrow> be_value (be32 n) = n"
proof -
  assume n: "n < 4294967296"
  have "((n div 16777216 mod 256 * 256 + n div 65536 mod 256) * 256 + n div 256 mod 256) * 256 + n mod 256 = n"
  proof -
    have a: "x div 256 * 256 + x mod 256 = x" for x :: nat by simp
    have d: "n div 65536 = n div 256 div 256" "n div 16777216 = n div 256 div 256 div 256" by (simp_all add: div_mult2_eq)
    have "n div 256 div 256 div 256 < 256" using n by (simp add: div_mult2_eq [symmetric] less_mult_imp_div_less)
    then have "n div 256 div 256 div 256 mod 256 = n div 256 div 256 div 256" by simp
    then show ?thesis unfolding d by (simp only: a)
  qed
  then show ?thesis by (simp only: be_value_def be32_def list.map foldl.simps of_char_of mod_mod_trivial mult_0 add_0)
qed

lemma length_be32 [simp]: "length (be32 n) = 4"
  by (simp add: be32_def)

lemma unpack_pack: "length (ev_ciphertext env) < 4294967296 \<Longrightarrow> unpackEnvelope (packEnvelope env) = env"
  by (cases env) (simp add: unpackEnvelope_def packEnvelope_def be_value_be32 Let_def)

section \<open>Properties\<close>

text \<open>
  C23: \<open>base32Encode\<close>, which shifts bytes through a 32-bit integer that overflows, computes the RFC 4648 encoding: the
  big-endian value of all bytes, padded with zero bits and written in base 32.
\<close>

theorem base32_is_rfc4648: "base32Encode buf = base32_reference buf"
  by (rule base32Encode_reference)

lemma sealed_secret_opens:
  assumes "gcm_ok cr" "cr_unb64 cr (cr_b64 cr secret) = secret" "length nonce1 = 12" "length nonce2 = 12"
    "length (seal cr dek nonce1 (cr_b64 cr secret)) < 4294967296"
  shows "decryptSecret cr (sealSecret cr dek nonce1 nonce2 secret) = Some secret"
  using assms
  by (simp add: decryptSecret_def sealSecret_def unpack_pack encryptEnvelope_def decryptEnvelope_def open_seal)

text \<open>
  a stored two-factor secret can be read back. Sealing, packing into one column, unpacking and opening with the same master
  key returns the secret, for any nonces and data key, as long as the length prefix is not exceeded.
\<close>

theorem secret_round_trip:
  assumes "gcm_ok cr" and "cr_unb64 cr (cr_b64 cr secret) = secret" and "length nonce1 = 12" and "length nonce2 = 12"
    and "length (seal cr dek nonce1 (cr_b64 cr secret)) < 4294967296"
  shows "decryptSecret cr (sealSecret cr dek nonce1 nonce2 secret) = Some secret"
  using assms by (rule sealed_secret_opens)

lemma shown_code_ok:
  assumes "\<bar>counterAt t - counterAt t'\<bar> \<le> 1" "a < counterAt t"
  shows "\<exists>c. verifyTotp cr secret (totpAt cr secret t) t' a = Some c \<and> a < c \<and> \<bar>c - counterAt t'\<bar> \<le> 1 \<and>
    hotp cr secret c TOTP_DIGITS = totpAt cr secret t"
proof -
  have d: "TOTP_DIGITS \<noteq> 0" by (simp add: TOTP_DIGITS_def)
  note f = hotp_format [OF d, of cr secret "counterAt t"]
  have "totp_scan cr secret (totpAt cr secret t) TOTP_DIGITS a [counterAt t' - TOTP_WINDOW..counterAt t' + TOTP_WINDOW] \<noteq> None"
    using assms by (intro totp_scan_complete [of "counterAt t"]) (auto simp: TOTP_WINDOW_def totpAt_def)
  then have "verifyTotp cr secret (totpAt cr secret t) t' a \<noteq> None"
    using f digits_no_ws [OF f(2)] by (simp add: verifyTotp_def totpAt_def Let_def)
  then obtain c where c: "verifyTotp cr secret (totpAt cr secret t) t' a = Some c" by blast
  then show ?thesis using verifyTotp_SomeD [OF c] digits_no_ws [OF f(2)] by (simp add: totpAt_def)
qed

text \<open>
  the code that an authenticator shows is accepted. A code computed for time \<open>t\<close> verifies at any time \<open>t'\<close> at most one step away,
  unless that step or a later one was used already; and every accepted code is the code of a fresh step in the window.
\<close>

theorem shown_code_accepted:
  assumes "\<bar>counterAt t - counterAt t'\<bar> \<le> 1" and "a < counterAt t"
  shows "\<exists>c. verifyTotp cr secret (totpAt cr secret t) t' a = Some c \<and> a < c \<and> \<bar>c - counterAt t'\<bar> \<le> 1 \<and>
    hotp cr secret c TOTP_DIGITS = totpAt cr secret t"
  using assms by (rule shown_code_ok)

section \<open>Concrete instances\<close>

definition toy_crypto :: crypto where
  "toy_crypto = \<lparr>cr_hmac = (\<lambda>k m. replicate 12 CHR 0x10 @ m), cr_gcm_enc = (\<lambda>k n p. (p, replicate 16 CHR ''t'')),
     cr_gcm_dec = (\<lambda>k n b t. Some b), cr_b64 = (\<lambda>s. s), cr_unb64 = (\<lambda>s. s), cr_sha = (\<lambda>s. s),
     cr_verify = (\<lambda>h p. h = p), cr_upper = (\<lambda>s. s), cr_master = ''master''\<rparr>"

lemma toy_gcm: "gcm_ok toy_crypto"
  by (simp add: gcm_ok_def toy_crypto_def)

lemma secret_round_trip_witness:
  "decryptSecret toy_crypto (sealSecret toy_crypto ''dek'' (replicate 12 CHR ''a'') (replicate 12 CHR ''b'') ''secret'') = Some ''secret''"
  by (rule secret_round_trip [OF toy_gcm]) (simp_all add: toy_crypto_def seal_def)

lemma shown_code_accepted_witness:
  "\<exists>c. verifyTotp toy_crypto ''s'' (totpAt toy_crypto ''s'' 60000) 95000 1 = Some c \<and> 1 < c \<and> \<bar>c - counterAt 95000\<bar> \<le> 1 \<and>
     hotp toy_crypto ''s'' c TOTP_DIGITS = totpAt toy_crypto ''s'' 60000"
  by (rule shown_code_accepted) (simp_all add: counterAt_def TOTP_PERIOD_def)

end
