(* ===== verification/Totp_Service.thy ===== *)
theory Totp_Service
  imports Members Totp_Codes
begin

text \<open>
  Two-factor authentication of members (\<open>auth/totp.service.ts\<close>, \<open>auth/totp.controller.ts\<close>): enrolment, verification at login with
  replay protection, lockout and backup codes, and removal. \<open>verifyForLogin\<close> runs in one transaction that locks the member
  row, so concurrent attempts are a sequence of such steps.
\<close>

definition MAX_FAILED :: int where "MAX_FAILED = 5"
definition LOCK_MINUTES :: int where "LOCK_MINUTES = 15"

definition set_by_id :: "string \<Rightarrow> (member_row \<Rightarrow> member_row) \<Rightarrow> auth_db \<Rightarrow> auth_db" where
  "set_by_id i f db = db\<lparr>members := update_where (\<lambda>m. m_id m = i) f (members db)\<rparr>"

definition member_by_id :: "string \<Rightarrow> auth_db \<Rightarrow> member_row option" where
  "member_by_id i db = find (\<lambda>m. m_id m = i) (members db)"

definition tenant_member :: "string \<Rightarrow> string \<Rightarrow> auth_db \<Rightarrow> member_row option" where
  "tenant_member t i db = find (\<lambda>m. m_tenant m = t \<and> m_id m = i) (members db)"

section \<open>Service\<close>

definition totp_status :: "string \<Rightarrow> string \<Rightarrow> auth_db \<Rightarrow> http_error + bool" where
  "totp_status tenantId memberId db =
     (case tenant_member tenantId memberId db of
        None \<Rightarrow> Inl (NotFound ''member'') | Some m \<Rightarrow> Inr (m_totp_enabled_at m \<noteq> None))"

definition startEnrollment ::
  "crypto \<Rightarrow> string \<Rightarrow> string \<Rightarrow> string \<Rightarrow> string \<Rightarrow> string \<Rightarrow> string \<Rightarrow> string \<Rightarrow> auth_db \<Rightarrow> (auth_db, string \<times> string) outcome" where
  "startEnrollment cr secret dek nonce1 nonce2 tenantId memberId email db =
     (case tenant_member tenantId memberId db of
        None \<Rightarrow> Inl (NotFound ''member'')
      | Some m \<Rightarrow>
          if m_totp_enabled_at m \<noteq> None then Inl (BadRequest ''already enabled'')
          else let b32 = base32Encode secret
               in Inr ((b32, otpauthUri email b32),
                    set_member tenantId memberId
                      (\<lambda>m. m\<lparr>m_totp_secret := Some (sealSecret cr dek nonce1 nonce2 secret), m_totp_enabled_at := None,
                             m_totp_last_counter := None, m_totp_failed := 0, m_totp_locked_until := None\<rparr>) db))"

text \<open>The rows inserted for the new codes: \<open>hashes\<close> are the ids and the Argon2id hashes of the normalised codes.\<close>

definition new_backup_rows :: "string \<Rightarrow> string \<Rightarrow> (string \<times> string) list \<Rightarrow> backup_code_row list" where
  "new_backup_rows tenantId memberId hashes =
     map (\<lambda>(i, hsh). \<lparr>b_id = i, b_tenant = tenantId, b_member = memberId, b_hash = hsh, b_used_at = None\<rparr>) hashes"

definition confirmEnrollment ::
  "crypto \<Rightarrow> int \<Rightarrow> string list \<Rightarrow> (string \<Rightarrow> string \<times> string) \<Rightarrow> string \<Rightarrow> string \<Rightarrow> string \<Rightarrow> auth_db \<Rightarrow> (auth_db, string list) outcome" where
  "confirmEnrollment cr now randoms hash_code tenantId memberId token db =
     (case tenant_member tenantId memberId db of
        None \<Rightarrow> Inl (BadRequest ''not started'')
      | Some m \<Rightarrow>
          (case m_totp_secret m of
             None \<Rightarrow> Inl (BadRequest ''not started'')
           | Some blob \<Rightarrow>
               if m_totp_enabled_at m \<noteq> None then Inl (BadRequest ''already enabled'')
               else (case decryptSecret cr blob of
                  None \<Rightarrow> Inl (Internal ''decrypt'')
                | Some secret \<Rightarrow>
                    (case verifyTotp cr secret token now (-1) of
                       None \<Rightarrow> Inl (BadRequest ''wrong code'')
                     | Some c \<Rightarrow>
                         (let codes = generateBackupCodes randoms;
                              db1 = set_member tenantId memberId
                                (\<lambda>m. m\<lparr>m_totp_enabled_at := Some now, m_totp_last_counter := Some c, m_totp_failed := 0,
                                       m_totp_locked_until := None\<rparr>) db;
                              rows = new_backup_rows tenantId memberId (map (\<lambda>x. hash_code (normalizeBackupCode cr x)) codes)
                          in Inr (codes, db1\<lparr>backup_codes := filter (\<lambda>b. b_member b \<noteq> memberId) (backup_codes db1) @ rows\<rparr>))))))"

text \<open>The backup code a token matches: the first unused row of the member\<close>

definition matching_code :: "crypto \<Rightarrow> string \<Rightarrow> string \<Rightarrow> auth_db \<Rightarrow> backup_code_row option" where
  "matching_code cr memberId token db =
     (let norm = normalizeBackupCode cr token
      in if utf16_length norm < 8 then None
         else find (\<lambda>b. cr_verify cr (b_hash b) norm)
                (filter (\<lambda>b. b_member b = memberId \<and> b_used_at b = None) (backup_codes db)))"

definition use_code :: "int \<Rightarrow> string \<Rightarrow> auth_db \<Rightarrow> auth_db" where
  "use_code now i db =
     db\<lparr>backup_codes := update_where (\<lambda>b. b_id b = i \<and> b_used_at b = None) (\<lambda>b. b\<lparr>b_used_at := Some now\<rparr>) (backup_codes db)\<rparr>"

definition tryBackupCode :: "crypto \<Rightarrow> int \<Rightarrow> string \<Rightarrow> string \<Rightarrow> auth_db \<Rightarrow> bool \<times> auth_db" where
  "tryBackupCode cr now memberId token db =
     (case matching_code cr memberId token db of
        None \<Rightarrow> (False, db)
      | Some r \<Rightarrow>
          (length (filter (\<lambda>b. b_id b = b_id r \<and> b_used_at b = None) (backup_codes db)) = 1, use_code now (b_id r) db))"

definition last_counter :: "member_row \<Rightarrow> int" where
  "last_counter m = (case m_totp_last_counter m of None \<Rightarrow> -1 | Some c \<Rightarrow> c)"

definition locked :: "int \<Rightarrow> member_row \<Rightarrow> bool" where
  "locked now m \<longleftrightarrow> (case m_totp_locked_until m of None \<Rightarrow> False | Some u \<Rightarrow> now < u)"

definition reset_failures :: "member_row \<Rightarrow> member_row" where
  "reset_failures m = m\<lparr>m_totp_failed := 0, m_totp_locked_until := None\<rparr>"

definition count_failure :: "int \<Rightarrow> member_row \<Rightarrow> member_row \<Rightarrow> member_row" where
  "count_failure now seen m =
     (if MAX_FAILED \<le> m_totp_failed seen + 1
      then m\<lparr>m_totp_failed := 0, m_totp_locked_until := Some (now + LOCK_MINUTES * 60000)\<rparr>
      else m\<lparr>m_totp_failed := m_totp_failed seen + 1\<rparr>)"

definition verifyForLogin :: "crypto \<Rightarrow> int \<Rightarrow> string \<Rightarrow> string \<Rightarrow> auth_db \<Rightarrow> (auth_db, bool) outcome" where
  "verifyForLogin cr now memberId token db =
     (case member_by_id memberId db of
        None \<Rightarrow> Inr (False, db)
      | Some m \<Rightarrow>
          (case m_totp_secret m of
             None \<Rightarrow> Inr (False, db)
           | Some blob \<Rightarrow>
               if m_totp_enabled_at m = None then Inr (False, db)
               else if locked now m then Inl (Unauthorized ''locked'')
               else (case decryptSecret cr blob of
                  None \<Rightarrow> Inl (Internal ''decrypt'')
                | Some secret \<Rightarrow>
                    (case verifyTotp cr secret token now (last_counter m) of
                       Some c \<Rightarrow> Inr (True, set_by_id memberId (\<lambda>m. reset_failures (m\<lparr>m_totp_last_counter := Some c\<rparr>)) db)
                     | None \<Rightarrow>
                         (let (hit, db1) = tryBackupCode cr now memberId token db
                          in if hit then Inr (True, set_by_id memberId reset_failures db1)
                             else Inr (False, set_by_id memberId (count_failure now m) db1))))))"

definition totp_clear :: "string \<Rightarrow> string \<Rightarrow> auth_db \<Rightarrow> auth_db" where
  "totp_clear tenantId memberId db =
     (let db1 = set_member tenantId memberId
        (\<lambda>m. m\<lparr>m_totp_secret := None, m_totp_enabled_at := None, m_totp_last_counter := None, m_totp_failed := 0,
               m_totp_locked_until := None\<rparr>) db
      in db1\<lparr>backup_codes := filter (\<lambda>b. b_member b \<noteq> memberId) (backup_codes db1)\<rparr>)"

definition totp_disable ::
  "crypto \<Rightarrow> int \<Rightarrow> string \<Rightarrow> string \<Rightarrow> string \<Rightarrow> string option \<Rightarrow> auth_db \<Rightarrow> (auth_db, unit) reply" where
  "totp_disable cr now tenantId memberId token currentToken db =
     (case verifyForLogin cr now memberId token db of
        Inl e \<Rightarrow> (Inl e, db)
      | Inr (False, db1) \<Rightarrow> (Inl (BadRequest ''wrong code''), db1)
      | Inr (True, db1) \<Rightarrow>
          (Inr (), snd (session_revoke_all (cr_sha cr) now tenantId memberId currentToken (totp_clear tenantId memberId db1))))"

definition resetForMember :: "crypto \<Rightarrow> int \<Rightarrow> string \<Rightarrow> string \<Rightarrow> auth_db \<Rightarrow> (auth_db, unit) outcome" where
  "resetForMember cr now actorTenantId targetMemberId db =
     (if tenant_member actorTenantId targetMemberId db = None then Inl (NotFound ''member'')
      else Inr ((), snd (session_revoke_all (cr_sha cr) now actorTenantId targetMemberId None
                      (totp_clear actorTenantId targetMemberId db))))"

section \<open>Controllers\<close>

definition parseCode :: "jsval \<Rightarrow> string option" where
  "parseCode body = z_string 6 20 (js_get body ''code'')"

definition totp_status_handler :: "crypto \<Rightarrow> int \<Rightarrow> request \<Rightarrow> auth_db \<Rightarrow> (auth_db, bool) reply" where
  "totp_status_handler cr now q db =
     guarded (cr_sha cr) now q None db (\<lambda>me. (totp_status (sm_tenant me) (sm_member me) db, db))"

definition totp_enroll_handler ::
  "crypto \<Rightarrow> int \<Rightarrow> string \<Rightarrow> string \<Rightarrow> string \<Rightarrow> string \<Rightarrow> request \<Rightarrow> auth_db \<Rightarrow> (auth_db, string \<times> string) reply" where
  "totp_enroll_handler cr now secret dek nonce1 nonce2 q db =
     guarded (cr_sha cr) now q None db (\<lambda>me.
       commit db (startEnrollment cr secret dek nonce1 nonce2 (sm_tenant me) (sm_member me) (sm_email me) db))"

definition totp_confirm_handler ::
  "crypto \<Rightarrow> int \<Rightarrow> string list \<Rightarrow> (string \<Rightarrow> string \<times> string) \<Rightarrow> request \<Rightarrow> auth_db \<Rightarrow> (auth_db, string list) reply" where
  "totp_confirm_handler cr now randoms hash_code q db =
     guarded (cr_sha cr) now q None db (\<lambda>me.
       case parseCode (q_body q) of
         None \<Rightarrow> (Inl (BadRequest ''body''), db)
       | Some code \<Rightarrow>
           (case confirmEnrollment cr now randoms hash_code (sm_tenant me) (sm_member me) code db of
              Inl e \<Rightarrow> (Inl e, db)
            | Inr (codes, db1) \<Rightarrow> (Inr codes, recordAs me (q_ip q) ''member.totp_enable'' (Some ''member'') (Some (sm_member me)) db1)))"

definition totp_disable_handler :: "crypto \<Rightarrow> int \<Rightarrow> request \<Rightarrow> auth_db \<Rightarrow> (auth_db, unit) reply" where
  "totp_disable_handler cr now q db =
     guarded (cr_sha cr) now q None db (\<lambda>me.
       case parseCode (q_body q) of
         None \<Rightarrow> (Inl (BadRequest ''body''), db)
       | Some code \<Rightarrow>
           (case totp_disable cr now (sm_tenant me) (sm_member me) code (q_cookie q) db of
              (Inl e, db1) \<Rightarrow> (Inl e, db1)
            | (Inr u, db1) \<Rightarrow> (Inr u, recordAs me (q_ip q) ''member.totp_disable'' (Some ''member'') (Some (sm_member me)) db1)))"

definition totp_reset_handler :: "crypto \<Rightarrow> (string \<Rightarrow> bool) \<Rightarrow> int \<Rightarrow> string \<Rightarrow> request \<Rightarrow> auth_db \<Rightarrow> (auth_db, unit) reply" where
  "totp_reset_handler cr is_uuid now memberId q db =
     guarded (cr_sha cr) now q (Some ''member:reset_2fa'') db (\<lambda>me.
       if \<not> is_uuid memberId then (Inl (BadRequest ''uuid''), db)
       else case resetForMember cr now (sm_tenant me) memberId db of
         Inl e \<Rightarrow> (Inl e, db)
       | Inr (u, db1) \<Rightarrow> (Inr u, recordAs me (q_ip q) ''member.totp_reset'' (Some ''member'') (Some memberId) db1))"

section \<open>Login attempts\<close>

lemma find_update_where:
  "(\<And>r. P (if p r then f r else r) \<longleftrightarrow> P r) \<Longrightarrow>
   find P (update_where p f rows) = map_option (\<lambda>r. if p r then f r else r) (find P rows)"
  by (induction rows) (auto simp: update_where_def)

lemma member_by_id_set:
  "(\<And>m. m_id (f m) = m_id m) \<Longrightarrow> member_by_id j (set_by_id i f db) = map_option (\<lambda>m. if m_id m = i then f m else m) (member_by_id j db)"
  by (auto simp: member_by_id_def set_by_id_def intro!: find_update_where)

lemma member_by_id_SomeD: "member_by_id i db = Some m \<Longrightarrow> m_id m = i \<and> m \<in> set (members db)"
  by (auto simp: member_by_id_def dest: find_SomeD)

lemma reset_failures_simps [simp]:
  "m_id (reset_failures m) = m_id m" "m_totp_last_counter (reset_failures m) = m_totp_last_counter m"
  "m_totp_failed (reset_failures m) = 0" "m_totp_locked_until (reset_failures m) = None"
  by (simp_all add: reset_failures_def)

lemma count_failure_simps [simp]:
  "m_id (count_failure now s m) = m_id m" "m_totp_last_counter (count_failure now s m) = m_totp_last_counter m"
  by (simp_all add: count_failure_def)

lemma members_use_code [simp]: "members (use_code now i db) = members db"
  by (simp add: use_code_def)

lemma members_tryBackupCode: "members (snd (tryBackupCode cr now i token db)) = members db"
  by (simp add: tryBackupCode_def split: option.split)

text \<open>One login attempt, and what it accepts\<close>

definition attempt :: "crypto \<Rightarrow> int \<times> string \<times> string \<Rightarrow> auth_db \<Rightarrow> auth_db" where
  "attempt cr r db = (case r of (now, i, token) \<Rightarrow> after db (verifyForLogin cr now i token db))"

definition accepted :: "crypto \<Rightarrow> int \<times> string \<times> string \<Rightarrow> auth_db \<Rightarrow> bool" where
  "accepted cr r db = (case r of (now, i, token) \<Rightarrow> (case verifyForLogin cr now i token db of Inr (b, _) \<Rightarrow> b | Inl _ \<Rightarrow> False))"

text \<open>The attempt gets as far as checking the token.\<close>

definition checks :: "crypto \<Rightarrow> int \<Rightarrow> string \<Rightarrow> auth_db \<Rightarrow> (member_row \<times> string) option" where
  "checks cr now i db =
     (case member_by_id i db of
        None \<Rightarrow> None
      | Some m \<Rightarrow>
          (case m_totp_secret m of
             None \<Rightarrow> None
           | Some blob \<Rightarrow> if m_totp_enabled_at m = None \<or> locked now m then None else map_option (Pair m) (decryptSecret cr blob)))"

lemma verifyForLogin_unchecked: "checks cr now i db = None \<Longrightarrow> attempt cr (now, i, token) db = db \<and> \<not> accepted cr (now, i, token) db"
  by (auto simp: checks_def attempt_def accepted_def verifyForLogin_def split: option.splits if_splits)

lemma verifyForLogin_checked:
  "checks cr now i db = Some (m, secret) \<Longrightarrow>
   verifyForLogin cr now i token db =
     (case verifyTotp cr secret token now (last_counter m) of
        Some c \<Rightarrow> Inr (True, set_by_id i (\<lambda>m. reset_failures (m\<lparr>m_totp_last_counter := Some c\<rparr>)) db)
      | None \<Rightarrow>
          (let (hit, db1) = tryBackupCode cr now i token db
           in if hit then Inr (True, set_by_id i reset_failures db1) else Inr (False, set_by_id i (count_failure now m) db1)))"
  by (auto simp: checks_def verifyForLogin_def split: option.splits if_splits)

lemma checks_SomeD:
  "checks cr now i db = Some (m, secret) \<Longrightarrow> member_by_id i db = Some m \<and> \<not> locked now m \<and> m_id m = i"
  by (auto simp: checks_def dest: member_by_id_SomeD split: option.splits if_splits)

text \<open>The step of the one-time code that an attempt spends\<close>

definition spends_step :: "crypto \<Rightarrow> int \<times> string \<times> string \<Rightarrow> auth_db \<Rightarrow> (string \<times> int) option" where
  "spends_step cr r db =
     (case r of (now, i, token) \<Rightarrow>
        (case checks cr now i db of
           None \<Rightarrow> None
         | Some (m, secret) \<Rightarrow> map_option (Pair i) (verifyTotp cr secret token now (last_counter m))))"

definition spent_steps :: "auth_db \<Rightarrow> (string \<times> int) set" where
  "spent_steps db = {(i, c). \<exists>m. member_by_id i db = Some m \<and> c \<le> last_counter m}"

text \<open>The backup code that an attempt spends\<close>

definition spends_code :: "crypto \<Rightarrow> int \<times> string \<times> string \<Rightarrow> auth_db \<Rightarrow> string option" where
  "spends_code cr r db =
     (case r of (now, i, token) \<Rightarrow>
        (case checks cr now i db of
           None \<Rightarrow> None
         | Some (m, secret) \<Rightarrow>
             (if verifyTotp cr secret token now (last_counter m) = None then map_option b_id (matching_code cr i token db) else None)))"

definition spent_codes :: "auth_db \<Rightarrow> string set" where
  "spent_codes db = {i. \<forall>b \<in> set (backup_codes db). b_id b = i \<longrightarrow> b_used_at b \<noteq> None}"

lemma tryBackupCode_id: "member_by_id j (snd (tryBackupCode cr now i token db)) = member_by_id j db"
  by (simp add: member_by_id_def members_tryBackupCode)

lemma attempt_members:
  assumes "checks cr now i db = Some (m, secret)"
  shows "member_by_id j (attempt cr (now, i, token) db) =
    map_option (\<lambda>x. if m_id x = i then
        (case verifyTotp cr secret token now (last_counter m) of
           Some c \<Rightarrow> reset_failures (x\<lparr>m_totp_last_counter := Some c\<rparr>)
         | None \<Rightarrow> if fst (tryBackupCode cr now i token db) then reset_failures x else count_failure now m x)
      else x) (member_by_id j db)"
  using verifyForLogin_checked [OF assms, of token]
  by (cases "verifyTotp cr secret token now (last_counter m)"; cases "fst (tryBackupCode cr now i token db)")
     (simp_all add: attempt_def Let_def split_beta member_by_id_set tryBackupCode_id cong: if_cong)

lemma attempt_last_counter:
  assumes "member_by_id j db = Some x"
  shows "\<exists>y. member_by_id j (attempt cr r db) = Some y \<and> last_counter x \<le> last_counter y"
proof -
  obtain now i token where r: "r = (now, i, token)" by (cases r)
  show ?thesis
  proof (cases "checks cr now i db")
    case None
    then show ?thesis using verifyForLogin_unchecked [OF None] assms r by simp
  next
    case (Some p)
    then obtain m secret where c: "checks cr now i db = Some (m, secret)" by (cases p) auto
    have "m_id x = i \<Longrightarrow> x = m" using checks_SomeD [OF c] assms member_by_id_SomeD [OF assms] by auto
    then show ?thesis
      using attempt_members [OF c, of j token] assms verifyTotp_SomeD(1) [of cr secret token now "last_counter m"] r
      by (auto simp: last_counter_def less_imp_le split: option.splits)
  qed
qed

lemma spends_stepE:
  assumes "spends_step cr r db = Some x"
  obtains now i token m secret c where "r = (now, i, token)" "checks cr now i db = Some (m, secret)"
    "verifyTotp cr secret token now (last_counter m) = Some c" "x = (i, c)"
  using assms by (auto simp: spends_step_def split: option.splits prod.splits)

lemma spends_codeE:
  assumes "spends_code cr r db = Some x"
  obtains now i token m secret b where "r = (now, i, token)" "checks cr now i db = Some (m, secret)"
    "verifyTotp cr secret token now (last_counter m) = None" "matching_code cr i token db = Some b" "x = b_id b"
  using assms by (auto simp: spends_code_def split: option.splits prod.splits if_splits)

interpretation replay: one_shot_system "attempt cr" "spends_step cr" spent_steps for cr
proof (unfold_locales, goal_cases)
  case (1 r db x)
  then show ?case
  proof (rule spends_stepE)
    fix now i token m secret c
    assume "checks cr now i db = Some (m, secret)" "verifyTotp cr secret token now (last_counter m) = Some c" "x = (i, c)"
    then show ?thesis using checks_SomeD verifyTotp_SomeD(1) by (fastforce simp: spent_steps_def)
  qed
next
  case (2 r db x)
  then show ?case
  proof (rule spends_stepE)
    fix now i token m secret c
    assume r: "r = (now, i, token)" "checks cr now i db = Some (m, secret)"
      "verifyTotp cr secret token now (last_counter m) = Some c" "x = (i, c)"
    then show ?thesis
      using attempt_members [OF r(2), of i token] checks_SomeD [OF r(2)]
      by (auto simp: spent_steps_def last_counter_def)
  qed
next
  case (3 x db r)
  then show ?case using attempt_last_counter [of _ db _ cr r] by (fastforce simp: spent_steps_def)
qed

lemma attempt_codes:
  "backup_codes (attempt cr (now, i, token) db) =
     (case spends_code cr (now, i, token) db of None \<Rightarrow> backup_codes db | Some c \<Rightarrow> backup_codes (use_code now c db))"
proof (cases "checks cr now i db")
  case None
  then show ?thesis using verifyForLogin_unchecked [OF None] by (simp add: spends_code_def)
next
  case (Some p)
  then obtain m secret where c: "checks cr now i db = Some (m, secret)" by (cases p) auto
  show ?thesis
    using verifyForLogin_checked [OF c, of token] c
    by (cases "verifyTotp cr secret token now (last_counter m)"; cases "matching_code cr i token db")
       (simp_all add: attempt_def spends_code_def tryBackupCode_def set_by_id_def Let_def)
qed

lemma backup_codes_use_code:
  "backup_codes (use_code now c db) =
     update_where (\<lambda>b. b_id b = c \<and> b_used_at b = None) (\<lambda>b. b\<lparr>b_used_at := Some now\<rparr>) (backup_codes db)"
  by (simp add: use_code_def)

lemma use_code_row:
  assumes "b \<in> set (backup_codes (use_code now c db))"
  obtains b0 where "b0 \<in> set (backup_codes db)" "b_id b = b_id b0"
    "b_used_at b = (if b_id b0 = c \<and> b_used_at b0 = None then Some now else b_used_at b0)"
proof -
  let ?p = "\<lambda>b. b_id b = c \<and> b_used_at b = None" and ?f = "\<lambda>b. b\<lparr>b_used_at := Some now\<rparr>"
  have "b \<in> set (update_where ?p ?f (backup_codes db))" using assms unfolding backup_codes_use_code .
  then obtain b0 where b0: "b0 \<in> set (backup_codes db)" "b = (if ?p b0 then ?f b0 else b0)" by (rule in_update_whereE)
  show thesis using that [OF b0(1)] b0(2) by (cases "?p b0") simp_all
qed

lemma use_code_spent:
  assumes "b \<in> set (backup_codes (use_code now c db))" "b_id b = c"
  shows "b_used_at b \<noteq> None"
  using assms(1) by (rule use_code_row) (use assms(2) in simp)

lemma use_code_mono:
  assumes "j \<in> spent_codes db" "b \<in> set (backup_codes (use_code now c db))" "b_id b = j"
  shows "b_used_at b \<noteq> None"
  using assms(2) by (rule use_code_row) (use assms(1,3) in \<open>auto simp: spent_codes_def\<close>)

interpretation backup: one_shot_system "attempt cr" "spends_code cr" spent_codes for cr
proof (unfold_locales, goal_cases)
  case (1 r db x)
  then show ?case
  proof (rule spends_codeE)
    fix now i token m secret b
    assume "matching_code cr i token db = Some b" "x = b_id b"
    then have "b \<in> set (backup_codes db)" "b_used_at b = None" "b_id b = x"
      by (auto simp: matching_code_def Let_def dest!: find_SomeD split: if_splits)
    then show ?thesis by (auto simp: spent_codes_def)
  qed
next
  case (2 r db x)
  obtain now i token where r: "r = (now, i, token)" by (cases r)
  show ?case using 2 attempt_codes [of cr now i token db] use_code_spent r by (auto simp: spent_codes_def)
next
  case (3 x db r)
  obtain now i token where r: "r = (now, i, token)" by (cases r)
  show ?case
    using 3 attempt_codes [of cr now i token db] use_code_mono [OF 3] r
    by (auto simp: spent_codes_def split: option.splits)
qed

section \<open>Lockout\<close>









section \<open>Properties\<close>

text \<open>
  C20: no replay of one-time codes. Once a login spent the code of a time step, no later attempt for the same member is
  granted on the code of that step or an earlier one, whatever attempts happen in between.
\<close>

theorem totp_code_never_reused:
  assumes "spends_step cr r db = Some (i, c)"
  shows "spends_step cr r' (fold (attempt cr) rs (attempt cr r db)) \<noteq> Some (i, c')  \<or> c < c'"
proof (cases "spends_step cr r' (fold (attempt cr) rs (attempt cr r db)) = Some (i, c')")
  case True
  have "(i, c) \<in> spent_steps (fold (attempt cr) rs (attempt cr r db))"
    using replay.takes_records [OF assms] by (rule replay.used_run)
  moreover have "(i, c') \<notin> spent_steps (fold (attempt cr) rs (attempt cr r db))" using replay.takes_fresh [OF True] .
  ultimately show ?thesis by (auto simp: spent_steps_def)
qed simp

text \<open>
  C22: a backup code works once. After an attempt spent it, no later attempt by anyone spends the same code.
\<close>

theorem backup_code_single_use:
  assumes "spends_code cr r db = Some c"
  shows "spends_code cr r' (fold (attempt cr) rs (attempt cr r db)) \<noteq> Some c"
  using assms by (rule backup.never_twice)


section \<open>Witnesses\<close>

definition sample_2fa :: auth_db where
  "sample_2fa = sample_auth
     \<lparr>members := [(sample_member ''o1'' ''owner'')
        \<lparr>m_totp_secret := Some (sealSecret toy_crypto ''dek'' (replicate 12 CHR ''a'') (replicate 12 CHR ''b'') ''s''), m_totp_enabled_at := Some 0\<rparr>],
      backup_codes := [\<lparr>b_id = ''c1'', b_tenant = ''t1'', b_member = ''o1'', b_hash = ''ABCD1234'', b_used_at = None\<rparr>]\<rparr>"

lemma sample_secret: "decryptSecret toy_crypto (sealSecret toy_crypto ''dek'' (replicate 12 CHR ''a'') (replicate 12 CHR ''b'') ''s'') = Some ''s''"
  by (rule sealed_secret_opens [OF toy_gcm]) (simp_all add: toy_crypto_def seal_def)

lemma sample_checks: "\<exists>m. checks toy_crypto now ''o1'' sample_2fa = Some (m, ''s'') \<and> last_counter m = -1"
  using sample_secret
  by (simp add: checks_def member_by_id_def sample_2fa_def sample_member_def new_member_def locked_def last_counter_def)

lemma totp_code_never_reused_witness:
  "\<exists>c. spends_step toy_crypto (60000, ''o1'', totpAt toy_crypto ''s'' 60000) sample_2fa = Some (''o1'', c) \<and>
     spends_step toy_crypto (61000, ''o1'', totpAt toy_crypto ''s'' 60000)
       (attempt toy_crypto (60000, ''o1'', totpAt toy_crypto ''s'' 60000) sample_2fa) \<noteq> Some (''o1'', c)"
proof -
  have "counterAt 60000 = 2" by (simp add: counterAt_def TOTP_PERIOD_def)
  then obtain c where "verifyTotp toy_crypto ''s'' (totpAt toy_crypto ''s'' 60000) 60000 (-1) = Some c"
    using shown_code_ok [of 60000 60000 "-1" toy_crypto "''s''"] by auto
  then have s: "spends_step toy_crypto (60000, ''o1'', totpAt toy_crypto ''s'' 60000) sample_2fa = Some (''o1'', c)"
    using sample_checks [of 60000] by (auto simp: spends_step_def)
  show ?thesis using s totp_code_never_reused [OF s, of "(61000, ''o1'', totpAt toy_crypto ''s'' 60000)" "[]" c] by auto
qed

lemma backup_token_no_totp: "verifyTotp cr secret ''ABCD-1234'' t a = None"
proof -
  have "length (remove_seqs js_ws ''ABCD-1234'') \<noteq> TOTP_DIGITS" by code_simp
  then show ?thesis by (simp add: verifyTotp_def)
qed

lemma backup_code_single_use_witness:
  "spends_code toy_crypto (60000, ''o1'', ''ABCD-1234'') sample_2fa = Some ''c1'' \<and>
   spends_code toy_crypto (61000, ''o1'', ''ABCD-1234'') (attempt toy_crypto (60000, ''o1'', ''ABCD-1234'') sample_2fa) \<noteq> Some ''c1''"
proof -
  have "normalizeBackupCode toy_crypto ''ABCD-1234'' = ''ABCD1234''" "\<not> utf16_length ''ABCD1234'' < 8" by code_simp+
  then have "map_option b_id (matching_code toy_crypto ''o1'' ''ABCD-1234'' sample_2fa) = Some ''c1''"
    by (simp add: matching_code_def Let_def sample_2fa_def toy_crypto_def)
  then have s: "spends_code toy_crypto (60000, ''o1'', ''ABCD-1234'') sample_2fa = Some ''c1''"
    using sample_checks [of 60000] by (auto simp: spends_code_def backup_token_no_totp)
  show ?thesis using s backup_code_single_use [OF s, of "(61000, ''o1'', ''ABCD-1234'')" "[]"] by simp
qed




end
