(* ===== verification/Login.thy ===== *)
theory Login
  imports Totp_Service Api_Keys
begin

text \<open>
  Sign-up, login, logout (\<open>auth/auth.service.ts\<close>, \<open>auth/auth.controller.ts\<close>) and the tenant settings
  (\<open>tenant/tenant.controller.ts\<close>). Argon2id, SHA-256 and AES are the fields of the \<^typ>\<open>crypto\<close> record; generated ids,
  key material and session tokens are arguments. Every reply keeps the state that was committed before an error.
\<close>

section \<open>Workspaces\<close>

record fresh_ids =
  f_tenant :: string
  f_member :: string
  f_app :: string
  f_key1 :: string
  f_key2 :: string
  f_raw1 :: string
  f_raw2 :: string

record signup_input =
  su_email :: string
  su_password :: string
  su_name :: string
  su_tenant_name :: string
  su_app_name :: string

record workspace =
  w_tenant :: string
  w_member :: string
  w_app :: string
  w_sdk_key :: string
  w_server_key :: string

text \<open>
  \<open>createWorkspace\<close>: the caller owns the transaction. A generated id that exists violates a primary key and fails
  the whole transaction.
\<close>

definition createWorkspace ::
  "crypto \<Rightarrow> (string \<Rightarrow> string) \<Rightarrow> (string \<Rightarrow> string) \<Rightarrow> fresh_ids \<Rightarrow> signup_input \<Rightarrow> auth_db \<Rightarrow> (auth_db, workspace) outcome" where
  "createWorkspace cr lower argon2 ids input db =
     (if list_ex (\<lambda>m. lower (m_email m) = lower (su_email input)) (members db) then Inl (Conflict ''email exists'')
      else if f_tenant ids \<in> set (map t_id (tenants db)) \<or> f_member ids \<in> set (map m_id (members db)) \<or>
              f_app ids \<in> set (map a_id (apps db)) then Inl (Internal ''unique_violation'')
      else
        let db1 = db\<lparr>tenants := tenants db @ [\<lparr>t_id = f_tenant ids, t_name = su_tenant_name input, t_require_2fa = False,
                       t_delete_requested_at = None, t_purge_after = None\<rparr>]\<rparr>
        in case insert_member lower
                  (new_member (f_member ids) (f_tenant ids) (lower (su_email input)) (argon2 (su_password input)) (su_name input) ''owner'') db1 of
             Inl e \<Rightarrow> Inl e
           | Inr db2 \<Rightarrow>
               (let db3 = db2\<lparr>apps := apps db2 @ [\<lparr>a_id = f_app ids, a_tenant = f_tenant ids, a_name = su_app_name input, a_timezone = None\<rparr>]\<rparr>
                in case (generateApiKey (cr_sha cr) Sdk (f_raw1 ids), generateApiKey (cr_sha cr) Server (f_raw2 ids)) of
                     ((key1, hash1, pre1), (key2, hash2, pre2)) \<Rightarrow>
                       (case insert_key (new_key_row (f_key1 ids) (f_tenant ids) (f_app ids) Sdk pre1 hash1) db3 of
                          Inl e \<Rightarrow> Inl e
                        | Inr db4 \<Rightarrow>
                            (case insert_key (new_key_row (f_key2 ids) (f_tenant ids) (f_app ids) Server pre2 hash2) db4 of
                               Inl e \<Rightarrow> Inl e
                             | Inr db5 \<Rightarrow> Inr (\<lparr>w_tenant = f_tenant ids, w_member = f_member ids, w_app = f_app ids,
                                               w_sdk_key = key1, w_server_key = key2\<rparr>, db5)))))"

definition signup ::
  "crypto \<Rightarrow> (string \<Rightarrow> string) \<Rightarrow> (string \<Rightarrow> string) \<Rightarrow> bool \<Rightarrow> fresh_ids \<Rightarrow> signup_input \<Rightarrow> auth_db \<Rightarrow> (auth_db, workspace) outcome" where
  "signup cr lower argon2 single_tenant ids input db =
     (if single_tenant then Inl (NotFound ''no signup'') else createWorkspace cr lower argon2 ids input db)"

section \<open>Login\<close>

definition DUMMY_HASH :: string where
  "DUMMY_HASH = ''$argon2id$v=19$m=65536,t=3,p=4$AAAAAAAAAAAAAAAAAAAAAA$AAAAAAAAAAAAAAAAAAAAAAAAAAAAAAAAAAAAAAAAAAA''"

record login_row =
  l_member :: string
  l_tenant :: string
  l_totp_enabled :: bool
  l_requires_2fa :: bool

text \<open>The row the login query finds: the active member of the address with its tenant\<close>

definition login_candidate :: "(string \<Rightarrow> string) \<Rightarrow> string \<Rightarrow> auth_db \<Rightarrow> (member_row \<times> tenant_row) option" where
  "login_candidate lower email db =
     (case find (\<lambda>m. lower (m_email m) = lower email \<and> m_status m = Active \<and> m_tenant m \<in> set (map t_id (tenants db))) (members db) of
        None \<Rightarrow> None
      | Some m \<Rightarrow> map_option (Pair m) (find (\<lambda>t. t_id t = m_tenant m) (tenants db)))"

definition verifyLogin :: "crypto \<Rightarrow> (string \<Rightarrow> string) \<Rightarrow> string \<Rightarrow> string \<Rightarrow> auth_db \<Rightarrow> http_error + login_row" where
  "verifyLogin cr lower email password db =
     (let row = login_candidate lower email db;
          hash = (case row of Some (m, _) \<Rightarrow> (case m_password_hash m of Some x \<Rightarrow> x | None \<Rightarrow> DUMMY_HASH) | None \<Rightarrow> DUMMY_HASH);
          ok = cr_verify cr hash password
      in case row of
           None \<Rightarrow> Inl (Unauthorized ''email or password'')
         | Some (m, t) \<Rightarrow>
             if \<not> ok then Inl (Unauthorized ''email or password'')
             else Inr \<lparr>l_member = m_id m, l_tenant = m_tenant m, l_totp_enabled = (m_totp_enabled_at m \<noteq> None), l_requires_2fa = t_require_2fa t\<rparr>)"

text \<open>\<open>z.string().min(1)\<close>\<close>

definition z_nonempty :: "jsval option \<Rightarrow> string option" where
  "z_nonempty v = (case v of Some (JStr s) \<Rightarrow> (if s \<noteq> [] then Some s else None) | _ \<Rightarrow> None)"

definition signupSchema :: "(string \<Rightarrow> bool) \<Rightarrow> jsval \<Rightarrow> signup_input option" where
  "signupSchema is_email b =
     (case (z_email is_email (js_get b ''email''), z_string 8 128 (js_get b ''password''), z_string 1 100 (js_get b ''name''),
            z_string 1 100 (js_get b ''tenant_name'')) of
        (Some e, Some p, Some n, Some t) \<Rightarrow>
          Some \<lparr>su_email = e, su_password = p, su_name = n, su_tenant_name = t, su_app_name = ''Default App''\<rparr>
      | _ \<Rightarrow> None)"

definition loginSchema :: "(string \<Rightarrow> bool) \<Rightarrow> jsval \<Rightarrow> (string \<times> string \<times> string option) option" where
  "loginSchema is_email b =
     (case (z_email is_email (js_get b ''email''), z_nonempty (js_get b ''password''), z_optional (z_string 6 20) (js_get b ''totp'')) of
        (Some e, Some p, Some t) \<Rightarrow> Some (e, p, t) | _ \<Rightarrow> None)"

text \<open>What \<open>issueSession\<close> puts into the cookie: the token and when it expires\<close>

type_synonym cookie = "string \<times> int"

definition issueSession ::
  "crypto \<Rightarrow> int \<Rightarrow> int \<Rightarrow> string \<Rightarrow> string \<Rightarrow> string \<Rightarrow> request \<Rightarrow> auth_db \<Rightarrow> (auth_db, cookie) outcome" where
  "issueSession cr ttl_hours now token tenantId memberId q db =
     session_create (cr_sha cr) ttl_hours now token tenantId memberId (q_ip q) (q_user_agent q) db"

datatype login_reply = TotpRequired | LoggedIn cookie | EnrollmentRequired cookie

definition signup_handler ::
  "crypto \<Rightarrow> (string \<Rightarrow> string) \<Rightarrow> (string \<Rightarrow> bool) \<Rightarrow> (string \<Rightarrow> string) \<Rightarrow> bool \<Rightarrow> int \<Rightarrow> int \<Rightarrow> string \<Rightarrow> fresh_ids \<Rightarrow> request \<Rightarrow> auth_db \<Rightarrow>
     (auth_db, workspace \<times> cookie) reply" where
  "signup_handler cr lower is_email argon2 single_tenant ttl_hours now token ids q db =
     (case signupSchema is_email (q_body q) of
        None \<Rightarrow> (Inl (BadRequest ''body''), db)
      | Some input \<Rightarrow>
          (case signup cr lower argon2 single_tenant ids input db of
             Inl e \<Rightarrow> (Inl e, db)
           | Inr (w, db1) \<Rightarrow>
               (case issueSession cr ttl_hours now token (w_tenant w) (w_member w) q db1 of
                  Inl e \<Rightarrow> (Inl e, db1) | Inr (ck, db2) \<Rightarrow> (Inr (w, ck), db2))))"

definition login_handler ::
  "crypto \<Rightarrow> (string \<Rightarrow> string) \<Rightarrow> (string \<Rightarrow> bool) \<Rightarrow> int \<Rightarrow> int \<Rightarrow> string \<Rightarrow> request \<Rightarrow> auth_db \<Rightarrow> (auth_db, login_reply) reply" where
  "login_handler cr lower is_email ttl_hours now token q db =
     (case loginSchema is_email (q_body q) of
        None \<Rightarrow> (Inl (BadRequest ''body''), db)
      | Some (email, password, totp) \<Rightarrow>
          (case verifyLogin cr lower email password db of
             Inl e \<Rightarrow> (Inl e, db)
           | Inr l \<Rightarrow>
               if l_totp_enabled l then
                 (case totp of
                    None \<Rightarrow> (Inr TotpRequired, db)
                  | Some code \<Rightarrow>
                      (case verifyForLogin cr now (l_member l) code db of
                         Inl e \<Rightarrow> (Inl e, db)
                       | Inr (ok, db1) \<Rightarrow>
                           if \<not> ok then (Inl (Unauthorized ''2fa code''), db1)
                           else (case issueSession cr ttl_hours now token (l_tenant l) (l_member l) q db1 of
                                   Inl e \<Rightarrow> (Inl e, db1) | Inr (ck, db2) \<Rightarrow> (Inr (LoggedIn ck), db2))))
               else (case issueSession cr ttl_hours now token (l_tenant l) (l_member l) q db of
                       Inl e \<Rightarrow> (Inl e, db)
                     | Inr (ck, db1) \<Rightarrow> (Inr (if l_requires_2fa l then EnrollmentRequired ck else LoggedIn ck), db1))))"

definition logout_handler :: "crypto \<Rightarrow> int \<Rightarrow> request \<Rightarrow> auth_db \<Rightarrow> auth_db" where
  "logout_handler cr now q db =
     (let token = (case q_cookie q of None \<Rightarrow> [] | Some t \<Rightarrow> t)
      in if token \<noteq> [] then session_revoke (cr_sha cr) now token db else db)"

definition me_handler :: "crypto \<Rightarrow> int \<Rightarrow> request \<Rightarrow> auth_db \<Rightarrow> http_error + (session_member \<times> string list)" where
  "me_handler cr now q db =
     (case session_resolve (cr_sha cr) now (case q_cookie q of None \<Rightarrow> [] | Some t \<Rightarrow> t) db of
        None \<Rightarrow> Inl (Unauthorized ''login required'')
      | Some m \<Rightarrow> Inr (m, permissionsForRole (sm_role m)))"

section \<open>Tenant settings\<close>

definition set_tenant :: "string \<Rightarrow> (tenant_row \<Rightarrow> tenant_row) \<Rightarrow> auth_db \<Rightarrow> auth_db" where
  "set_tenant tenantId f db = db\<lparr>tenants := update_where (\<lambda>t. t_id t = tenantId) f (tenants db)\<rparr>"

definition tenant_get :: "crypto \<Rightarrow> int \<Rightarrow> request \<Rightarrow> auth_db \<Rightarrow> (auth_db, tenant_row option) reply" where
  "tenant_get cr now q db =
     guarded (cr_sha cr) now q None db (\<lambda>me. (Inr (find (\<lambda>t. t_id t = sm_tenant me) (tenants db)), db))"

definition requestDeletion :: "crypto \<Rightarrow> int \<Rightarrow> request \<Rightarrow> auth_db \<Rightarrow> (auth_db, int option) reply" where
  "requestDeletion cr now q db =
     guarded (cr_sha cr) now q (Some ''tenant:delete'') db (\<lambda>me.
       let db1 = set_tenant (sm_tenant me)
             (\<lambda>t. t\<lparr>t_delete_requested_at := (case t_delete_requested_at t of None \<Rightarrow> Some now | Some x \<Rightarrow> Some x),
                    t_purge_after := (case t_purge_after t of None \<Rightarrow> Some (now + 7 * 86400000) | Some x \<Rightarrow> Some x)\<rparr>) db
       in (Inr (Option.bind (find (\<lambda>t. t_id t = sm_tenant me) (tenants db1)) t_purge_after),
           recordAs me (q_ip q) ''tenant.delete_requested'' (Some ''tenant'') (Some (sm_tenant me)) db1))"

definition tenant_restore :: "crypto \<Rightarrow> int \<Rightarrow> request \<Rightarrow> auth_db \<Rightarrow> (auth_db, unit) reply" where
  "tenant_restore cr now q db =
     guarded (cr_sha cr) now q (Some ''tenant:delete'') db (\<lambda>me.
       (Inr (), recordAs me (q_ip q) ''tenant.delete_cancelled'' (Some ''tenant'') (Some (sm_tenant me))
          (set_tenant (sm_tenant me) (\<lambda>t. t\<lparr>t_delete_requested_at := None, t_purge_after := None\<rparr>) db)))"

definition setSecurity :: "crypto \<Rightarrow> int \<Rightarrow> request \<Rightarrow> auth_db \<Rightarrow> (auth_db, bool) reply" where
  "setSecurity cr now q db =
     guarded (cr_sha cr) now q (Some ''team:write'') db (\<lambda>me.
       case js_get (q_body q) ''require_2fa'' of
         Some (JBool b) \<Rightarrow>
           (Inr b, recordAs me (q_ip q) ''tenant.require_2fa'' (Some ''tenant'') (Some (sm_tenant me))
              (set_tenant (sm_tenant me) (\<lambda>t. t\<lparr>t_require_2fa := b\<rparr>) db))
       | _ \<Rightarrow> (Inl (BadRequest ''body''), db))"

section \<open>Sessions issued at login\<close>

lemma session_create_resolve:
  assumes "session_create h ttl now tok t i ip ua db = Inr ((tok', ends), db')" "tok \<noteq> []" "now' < ends"
  shows "tok' = tok \<and> session_resolve h now' tok db' =
    (case find (\<lambda>m. m_id m = i \<and> m_status m = Active) (members db) of
       None \<Rightarrow> None
     | Some m \<Rightarrow> map_option (\<lambda>tt. \<lparr>sm_member = m_id m, sm_tenant = t, sm_email = m_email m, sm_name = m_name m, sm_role = m_role m,
         sm_totp_enabled = (m_totp_enabled_at m \<noteq> None), sm_requires_2fa = t_require_2fa tt\<rparr>) (find (\<lambda>tt. t_id tt = t) (tenants db)))"
proof -
  let ?new = "\<lparr>s_tenant = t, s_member = i, s_token_hash = h tok, s_ip = ip, s_user_agent = ua, s_expires_at = ends, s_revoked_at = None\<rparr>"
  have c: "h tok \<notin> set (map s_token_hash (sessions db))" "tok' = tok" "db' = db\<lparr>sessions := sessions db @ [?new]\<rparr>"
    using assms(1) by (auto simp: session_create_def Let_def split: if_splits)
  have none: "find (\<lambda>s. s_token_hash s = h tok \<and> session_live now' s) (sessions db) = None"
    using c(1) by (force simp: find_None_iff)
  have "find P (xs @ [y]) = (case find P xs of None \<Rightarrow> if P y then Some y else None | Some x \<Rightarrow> Some x)" for P and xs :: "session_row list" and y
    by (induction xs) auto
  then have "find (\<lambda>s. s_token_hash s = h tok \<and> session_live now' s) (sessions db') = Some ?new"
    using c(3) none assms(3) by (simp add: session_live_def)
  then show ?thesis using c(2,3) assms(2) by (auto simp: session_resolve_def split: option.split)
qed

lemma login_candidate_SomeD:
  "login_candidate lower email db = Some (m, t) \<Longrightarrow>
     m \<in> set (members db) \<and> m_status m = Active \<and> lower (m_email m) = lower email \<and> find (\<lambda>t. t_id t = m_tenant m) (tenants db) = Some t"
  by (auto simp: login_candidate_def dest!: find_SomeD split: option.splits)

definition login_hash :: "member_row \<Rightarrow> string" where
  "login_hash m = (case m_password_hash m of Some x \<Rightarrow> x | None \<Rightarrow> DUMMY_HASH)"

lemma verifyLogin_InrE:
  assumes "verifyLogin cr lower email password db = Inr l"
  obtains m t where "login_candidate lower email db = Some (m, t)" "cr_verify cr (login_hash m) password"
    "l = \<lparr>l_member = m_id m, l_tenant = m_tenant m, l_totp_enabled = (m_totp_enabled_at m \<noteq> None), l_requires_2fa = t_require_2fa t\<rparr>"
  using assms by (auto simp: verifyLogin_def login_hash_def Let_def split: option.splits if_splits)

text \<open>The three ways a login gets a cookie or is asked for the second factor\<close>

lemma login_InrE:
  assumes "login_handler cr lower is_email ttl now tok q db = (Inr r, db')"
  obtains email password totp m t where "loginSchema is_email (q_body q) = Some (email, password, totp)"
    "login_candidate lower email db = Some (m, t)" "cr_verify cr (login_hash m) password"
    "m_totp_enabled_at m \<noteq> None \<Longrightarrow> r = TotpRequired \<and> db' = db \<or>
       (\<exists>code db1 ck. totp = Some code \<and> verifyForLogin cr now (m_id m) code db = Inr (True, db1) \<and>
          issueSession cr ttl now tok (m_tenant m) (m_id m) q db1 = Inr (ck, db') \<and> r = LoggedIn ck)"
    "m_totp_enabled_at m = None \<Longrightarrow>
       \<exists>ck. issueSession cr ttl now tok (m_tenant m) (m_id m) q db = Inr (ck, db') \<and>
         r = (if t_require_2fa t then EnrollmentRequired ck else LoggedIn ck)"
proof -
  obtain email password totp where sc: "loginSchema is_email (q_body q) = Some (email, password, totp)"
    using assms by (auto simp: login_handler_def split: option.splits)
  obtain l where l: "verifyLogin cr lower email password db = Inr l"
    using assms sc by (cases "verifyLogin cr lower email password db") (auto simp: login_handler_def)
  obtain m t where mt: "login_candidate lower email db = Some (m, t)" "cr_verify cr (login_hash m) password"
    "l = \<lparr>l_member = m_id m, l_tenant = m_tenant m, l_totp_enabled = (m_totp_enabled_at m \<noteq> None), l_requires_2fa = t_require_2fa t\<rparr>"
    using l by (rule verifyLogin_InrE)
  show thesis
  proof (rule that [OF sc mt(1,2)])
    assume "m_totp_enabled_at m \<noteq> None"
    then show "r = TotpRequired \<and> db' = db \<or>
       (\<exists>code db1 ck. totp = Some code \<and> verifyForLogin cr now (m_id m) code db = Inr (True, db1) \<and>
          issueSession cr ttl now tok (m_tenant m) (m_id m) q db1 = Inr (ck, db') \<and> r = LoggedIn ck)"
      using assms sc l mt(3) by (auto simp: login_handler_def split: option.splits sum.splits if_splits)
  next
    assume "m_totp_enabled_at m = None"
    then show "\<exists>ck. issueSession cr ttl now tok (m_tenant m) (m_id m) q db = Inr (ck, db') \<and>
         r = (if t_require_2fa t then EnrollmentRequired ck else LoggedIn ck)"
      using assms sc l mt(3) by (auto simp: login_handler_def split: sum.splits if_splits)
  qed
qed

section \<open>Properties\<close>


text \<open>
  mandatory two-factor authentication cannot be side-stepped. When the organisation requires two-factor authentication and the member
  has none yet, the session that login issues passes the session guard for the enrolment routes and is refused by it on every other
  route, for as long as the session lives.
\<close>

theorem enrollment_session_confined:
  assumes "members_unique lower db" and "login_handler cr lower is_email ttl now tok q db = (Inr (EnrollmentRequired (tok', ends)), db')"
    and "tok \<noteq> []" and "now' < ends"
  shows "(SessionGuard (cr_sha cr) now' (Some tok') url db' = Inl (Forbidden ''enrollment_required'') \<longleftrightarrow>
           \<not> isEnrollmentAllowed (takeWhile (\<lambda>c. c \<noteq> CHR ''?'') url)) \<and>
         (isEnrollmentAllowed (takeWhile (\<lambda>c. c \<noteq> CHR ''?'') url) \<longleftrightarrow>
           (\<exists>sm. SessionGuard (cr_sha cr) now' (Some tok') url db' = Inr sm))"
proof -
  obtain email m t where m: "login_candidate lower email db = Some (m, t)"
      "m_totp_enabled_at m = None" "t_require_2fa t"
      "issueSession cr ttl now tok (m_tenant m) (m_id m) q db = Inr ((tok', ends), db')"
    using assms(2)
  proof (rule login_InrE)
    fix email password totp m t
    assume c: "login_candidate lower email db = Some (m, t)"
      and e: "m_totp_enabled_at m \<noteq> None \<Longrightarrow> EnrollmentRequired (tok', ends) = TotpRequired \<and> db' = db \<or>
       (\<exists>code db1 ck. totp = Some code \<and> verifyForLogin cr now (m_id m) code db = Inr (True, db1) \<and>
          issueSession cr ttl now tok (m_tenant m) (m_id m) q db1 = Inr (ck, db') \<and> EnrollmentRequired (tok', ends) = LoggedIn ck)"
      and n: "m_totp_enabled_at m = None \<Longrightarrow>
       \<exists>ck. issueSession cr ttl now tok (m_tenant m) (m_id m) q db = Inr (ck, db') \<and>
         EnrollmentRequired (tok', ends) = (if t_require_2fa t then EnrollmentRequired ck else LoggedIn ck)"
    have m: "m_totp_enabled_at m = None" using e by blast
    from n [OF m] show thesis using that [OF c m] by (auto split: if_splits)
  qed
  note c = login_candidate_SomeD [OF m(1)]
  have "find (\<lambda>x. m_id x = m_id m \<and> m_status x = Active) (members db) = Some m"
  proof (cases "find (\<lambda>x. m_id x = m_id m \<and> m_status x = Active) (members db)")
    case None
    then show ?thesis using c by (auto simp: find_None_iff)
  next
    case (Some x)
    then show ?thesis using find_SomeD [OF Some] c unique_id [OF assms(1), of x m] by simp
  qed
  then have r: "tok' = tok" "session_resolve (cr_sha cr) now' tok db' =
      Some \<lparr>sm_member = m_id m, sm_tenant = m_tenant m, sm_email = m_email m, sm_name = m_name m, sm_role = m_role m,
        sm_totp_enabled = False, sm_requires_2fa = True\<rparr>"
    using session_create_resolve [OF m(4) [unfolded issueSession_def] assms(3,4)] m(2,3) c by simp_all
  then show ?thesis by (simp add: SessionGuard_def)
qed

section \<open>Witnesses\<close>

definition login_request :: "string option \<Rightarrow> request" where
  "login_request code = \<lparr>q_cookie = None, q_url = ''/v1/auth/login'', q_ip = None, q_user_agent = None,
     q_body = JObj ([(''email'', JStr ''o1@x.io''), (''password'', JStr ''hash'')] @
       (case code of None \<Rightarrow> [] | Some c \<Rightarrow> [(''totp'', JStr c)]))\<rparr>"

definition sample_strict :: auth_db where
  "sample_strict = set_tenant ''t1'' (\<lambda>t. t\<lparr>t_require_2fa := True\<rparr>) sample_auth"

lemma sample_enrollment:
  "\<exists>db'. login_handler toy_crypto (\<lambda>s. s) (\<lambda>_. True) 1 5 ''new'' (login_request None) sample_strict =
     (Inr (EnrollmentRequired (''new'', 3600005)), db')"
proof -
  have "fst (login_handler toy_crypto (\<lambda>s. s) (\<lambda>_. True) 1 5 ''new'' (login_request None) sample_strict) =
     Inr (EnrollmentRequired (''new'', 3600005))" by code_simp
  then show ?thesis by (metis prod.collapse)
qed


lemma enrollment_session_confined_witness:
  "\<exists>db'. SessionGuard (cr_sha toy_crypto) 6 (Some ''new'') ''/v1/members?x'' db' = Inl (Forbidden ''enrollment_required'') \<and>
     (\<exists>sm. SessionGuard (cr_sha toy_crypto) 6 (Some ''new'') ''/v1/auth/totp/enroll'' db' = Inr sm)"
proof -
  have u: "members_unique (\<lambda>s. s) sample_strict" by code_simp
  obtain db' where l: "login_handler toy_crypto (\<lambda>s. s) (\<lambda>_. True) 1 5 ''new'' (login_request None) sample_strict =
     (Inr (EnrollmentRequired (''new'', 3600005)), db')" using sample_enrollment by blast
  have p: "\<not> isEnrollmentAllowed (takeWhile (\<lambda>c. c \<noteq> CHR ''?'') ''/v1/members?x'')"
    "isEnrollmentAllowed (takeWhile (\<lambda>c. c \<noteq> CHR ''?'') ''/v1/auth/totp/enroll'')" by code_simp+
  show ?thesis
    using enrollment_session_confined [OF u l, of 6 "''/v1/members?x''"] enrollment_session_confined [OF u l, of 6 "''/v1/auth/totp/enroll''"] p
    by auto
qed

end
