(* ===== verification/Bootstrap.thy ===== *)
theory Bootstrap
  imports Login
begin

text \<open>
  Installation of a self-hosted instance (\<open>auth/bootstrap.service.ts\<close>, \<open>auth/bootstrap.controller.ts\<close>): the setup code is
  exchanged for a lease bound to a cookie, the holder of the lease creates the first owner, and the installation is then
  locked for good. Every transition runs in a transaction that locks the single \<open>installation\<close> row. The database's \<open>lower\<close>,
  \<open>toLowerCase\<close>, the time zone check, Argon2id and random values are arguments.
\<close>

section \<open>Configuration and requests\<close>

record boot_config =
  bc_single_tenant :: bool
  bc_setup_token :: "string option"
  bc_bind_address :: "string option"
  bc_ttl_hours :: int

record boot_request =
  bq_req :: request
  bq_forwarded_proto :: "string option"
  bq_protocol :: string
  bq_forwarded_for :: "string option"
  bq_cookie :: "string option"
  bq_idempotency_key :: "string option"

definition CLAIM_TTL_MS :: int where
  "CLAIM_TTL_MS = 15 * 60000"

definition same :: "string option \<Rightarrow> string \<Rightarrow> bool" where
  "same a b \<longleftrightarrow> (case a of None \<Rightarrow> False | Some x \<Rightarrow> x \<noteq> [] \<and> x = b)"

definition lease_live :: "int \<Rightarrow> installation_row \<Rightarrow> bool" where
  "lease_live now row \<longleftrightarrow> (case in_claim_expires row of None \<Rightarrow> False | Some t \<Rightarrow> now < t)"

section \<open>JSON of the request fingerprint\<close>

text \<open>A character of a string in \<open>JSON.stringify\<close>\<close>

definition hex_lower :: "nat \<Rightarrow> char" where
  "hex_lower n = ''0123456789abcdef'' ! n"

definition json_char :: "char \<Rightarrow> string" where
  "json_char c =
     (let n = (of_char c :: nat)
      in if n = 34 then [CHR 0x5C, CHR 0x22] else if n = 92 then [CHR 0x5C, CHR 0x5C]
         else if n = 8 then [CHR 0x5C, CHR ''b''] else if n = 9 then [CHR 0x5C, CHR ''t'']
         else if n = 10 then [CHR 0x5C, CHR ''n''] else if n = 12 then [CHR 0x5C, CHR ''f'']
         else if n = 13 then [CHR 0x5C, CHR ''r'']
         else if n < 32 then [CHR 0x5C, CHR ''u'', CHR ''0'', CHR ''0'', hex_lower (n div 16), hex_lower (n mod 16)]
         else [c])"

definition json_string :: "string \<Rightarrow> string" where
  "json_string s = [CHR 0x22] @ concat (map json_char s) @ [CHR 0x22]"

record setup_input =
  si_workspace :: string
  si_app :: string
  si_name :: string
  si_email :: string
  si_password :: string
  si_timezone :: "string option"

definition request_fingerprint :: "(string \<Rightarrow> string) \<Rightarrow> setup_input \<Rightarrow> string" where
  "request_fingerprint js_lower input =
     ''{'' @ json_string ''w'' @ '':'' @ json_string (si_workspace input) @ '','' @ json_string ''a'' @ '':'' @ json_string (si_app input) @
     '','' @ json_string ''e'' @ '':'' @ json_string (js_lower (si_email input)) @ '','' @ json_string ''n'' @ '':'' @ json_string (si_name input) @
     '','' @ json_string ''tz'' @ '':'' @ json_string (case si_timezone input of None \<Rightarrow> [] | Some z \<Rightarrow> z) @ ''}''"

section \<open>Service\<close>

definition new_installation :: "string \<Rightarrow> installation_row" where
  "new_installation iid =
     \<lparr>in_id = iid, in_state = Unclaimed, in_token_hash = None, in_token_version = 0, in_claim_hash = None, in_claim_expires = None,
      in_claimed_at = None, in_secured_at = None, in_tenant = None, in_owner = None, in_app = None, in_idem_hash = None,
      in_request_hash = None, in_result = None, in_record_version = 1\<rparr>"

definition ensureInstallation :: "crypto \<Rightarrow> boot_config \<Rightarrow> string \<Rightarrow> auth_db \<Rightarrow> auth_db" where
  "ensureInstallation cr cfg newId db =
     (let row = (case installation db of None \<Rightarrow> new_installation newId | Some r \<Rightarrow> r);
          db1 = db\<lparr>installation := Some row\<rparr>
      in case bc_setup_token cfg of
           None \<Rightarrow> db1
         | Some token \<Rightarrow>
             if in_state row \<noteq> Secured \<and> token \<noteq> [] \<and> \<not> same (in_token_hash row) (cr_sha cr token)
             then db1\<lparr>installation := Some (row\<lparr>in_token_hash := Some (cr_sha cr token), in_token_version := in_token_version row + 1,
                    in_state := Unclaimed, in_claim_hash := None, in_claim_expires := None, in_claimed_at := None,
                    in_record_version := in_record_version row + 1\<rparr>)\<rparr>
             else db1)"

definition onModuleInit :: "crypto \<Rightarrow> boot_config \<Rightarrow> string \<Rightarrow> auth_db \<Rightarrow> auth_db" where
  "onModuleInit cr cfg newId db = (if \<not> bc_single_tenant cfg then db else ensureInstallation cr cfg newId db)"

text \<open>\<open>status\<close>: the state, whether a setup token is configured, and whether setup is still needed\<close>

definition bootstrap_status :: "boot_config \<Rightarrow> auth_db \<Rightarrow> install_state \<times> bool \<times> bool" where
  "bootstrap_status cfg db =
     (if \<not> bc_single_tenant cfg then (Secured, False, False)
      else case installation db of
        None \<Rightarrow> (RecoveryRequired, False, True)
      | Some row \<Rightarrow> (in_state row, (case in_token_hash row of None \<Rightarrow> False | Some t \<Rightarrow> t \<noteq> []), in_state row \<noteq> Secured))"

definition boot_claim :: "crypto \<Rightarrow> int \<Rightarrow> string \<Rightarrow> string \<Rightarrow> auth_db \<Rightarrow> (auth_db, string \<times> int) outcome" where
  "boot_claim cr now cookie rawToken db =
     (case installation db of
        None \<Rightarrow> Inl (NotFound ''installation'')
      | Some row \<Rightarrow>
          if in_state row = Secured then Inl (Gone ''secured'')
          else if (case in_token_hash row of None \<Rightarrow> True | Some t \<Rightarrow> t = []) then Inl (Forbidden ''no setup token'')
          else if \<not> same (in_token_hash row) (cr_sha cr rawToken) then Inl (Unauthorized ''setup code'')
          else if in_state row = Claimed \<and> lease_live now row then Inl (Conflict ''lease held'')
          else let expires = now + CLAIM_TTL_MS
               in Inr ((cookie, expires),
                    db\<lparr>installation := Some (row\<lparr>in_state := Claimed, in_claim_hash := Some (cr_sha cr cookie),
                         in_claim_expires := Some expires, in_claimed_at := Some now, in_record_version := in_record_version row + 1\<rparr>)\<rparr>))"

record setup_reply =
  sr_result :: setup_result
  sr_keys :: "(string \<times> string) option"
  sr_replayed :: bool

definition set_app_timezone :: "string \<Rightarrow> string \<Rightarrow> string option \<Rightarrow> auth_db \<Rightarrow> auth_db" where
  "set_app_timezone appId tenantId tz db =
     (case tz of
        None \<Rightarrow> db
      | Some z \<Rightarrow> if z = [] then db
          else db\<lparr>apps := update_where (\<lambda>a. a_id a = appId \<and> a_tenant a = tenantId) (\<lambda>a. a\<lparr>a_timezone := Some z\<rparr>) (apps db)\<rparr>)"

definition secure_row :: "crypto \<Rightarrow> int \<Rightarrow> string \<Rightarrow> string \<Rightarrow> setup_result \<Rightarrow> installation_row \<Rightarrow> installation_row" where
  "secure_row cr now idem fingerprint result row =
     row\<lparr>in_state := Secured, in_token_hash := None, in_secured_at := Some now, in_tenant := Some (r_tenant_id result),
         in_owner := Some (r_member_id result), in_app := Some (r_app_id result), in_idem_hash := Some (cr_sha cr idem),
         in_request_hash := Some (cr_sha cr fingerprint), in_result := Some result, in_record_version := in_record_version row + 1\<rparr>"

definition boot_setup ::
  "crypto \<Rightarrow> (string \<Rightarrow> string) \<Rightarrow> (string \<Rightarrow> string) \<Rightarrow> (string \<Rightarrow> string) \<Rightarrow> int \<Rightarrow> fresh_ids \<Rightarrow> string option \<Rightarrow> string \<Rightarrow> setup_input \<Rightarrow>
     auth_db \<Rightarrow> (auth_db, setup_reply) outcome" where
  "boot_setup cr lower js_lower argon2 now ids cookie idem input db =
     (if cookie = None \<or> cookie = Some [] then Inl (Unauthorized ''no bootstrap cookie'')
      else
        let fingerprint = request_fingerprint js_lower input
        in case installation db of
             None \<Rightarrow> Inl (NotFound ''installation'')
           | Some row \<Rightarrow>
               let holder = same (in_claim_hash row) (cr_sha cr (the cookie))
               in if in_state row = Secured then
                    if holder \<and> same (in_idem_hash row) (cr_sha cr idem) \<and> lease_live now row then
                      if \<not> same (in_request_hash row) (cr_sha cr fingerprint) then Inl (Conflict ''different request'')
                      else (case in_result row of
                              None \<Rightarrow> Inl (Internal ''setup_result'')
                            | Some r \<Rightarrow> Inr (\<lparr>sr_result = r, sr_keys = None, sr_replayed = True\<rparr>, db))
                    else Inl (Gone ''secured'')
                  else if in_state row \<noteq> Claimed \<or> \<not> holder then Inl (Unauthorized ''no lease'')
                  else if \<not> lease_live now row then Inl (Unauthorized ''lease expired'')
                  else case createWorkspace cr lower argon2 ids
                              \<lparr>su_email = si_email input, su_password = si_password input, su_name = si_name input,
                               su_tenant_name = si_workspace input, su_app_name = si_app input\<rparr> db of
                         Inl e \<Rightarrow> Inl e
                       | Inr (w, db1) \<Rightarrow>
                           let result = \<lparr>r_tenant_id = w_tenant w, r_app_id = w_app w, r_member_id = w_member w,
                                         r_installation_id = in_id row, r_secured_at = now\<rparr>;
                               db2 = set_app_timezone (w_app w) (w_tenant w) (si_timezone input) db1
                           in Inr (\<lparr>sr_result = result, sr_keys = Some (w_sdk_key w, w_server_key w), sr_replayed = False\<rparr>,
                                   db2\<lparr>installation := Some (secure_row cr now idem fingerprint result row)\<rparr>))"

definition boot_extend :: "crypto \<Rightarrow> int \<Rightarrow> string option \<Rightarrow> auth_db \<Rightarrow> (auth_db, int) outcome" where
  "boot_extend cr now cookie db =
     (if cookie = None \<or> cookie = Some [] then Inl (Unauthorized ''no bootstrap cookie'')
      else case installation db of
        None \<Rightarrow> Inl (Unauthorized ''no lease'')
      | Some row \<Rightarrow>
          if in_state row \<noteq> Claimed \<or> \<not> same (in_claim_hash row) (cr_sha cr (the cookie)) then Inl (Unauthorized ''no lease'')
          else if \<not> lease_live now row then Inl (Unauthorized ''lease expired'')
          else let expires = now + CLAIM_TTL_MS
               in Inr (expires, db\<lparr>installation := Some (row\<lparr>in_claim_expires := Some expires, in_record_version := in_record_version row + 1\<rparr>)\<rparr>))"

definition boot_result :: "crypto \<Rightarrow> int \<Rightarrow> string option \<Rightarrow> string \<Rightarrow> auth_db \<Rightarrow> http_error + setup_result" where
  "boot_result cr now cookie idem db =
     (if cookie = None \<or> cookie = Some [] then Inl (Unauthorized ''no bootstrap cookie'')
      else case installation db of
        None \<Rightarrow> Inl (NotFound ''no result'')
      | Some row \<Rightarrow>
          if in_state row \<noteq> Secured then Inl (NotFound ''no result'')
          else if \<not> same (in_claim_hash row) (cr_sha cr (the cookie)) \<or> \<not> same (in_idem_hash row) (cr_sha cr idem)
          then Inl (Unauthorized ''not this session'')
          else if \<not> lease_live now row then Inl (Gone ''recovery window'')
          else (case in_result row of None \<Rightarrow> Inl (Internal ''setup_result'') | Some r \<Rightarrow> Inr r))"

section \<open>Controller\<close>

definition isLoopback :: "string \<Rightarrow> bool" where
  "isLoopback ip \<longleftrightarrow> ip \<in> {''127.0.0.1'', ''::1'', ''::ffff:127.0.0.1'', ''localhost''} \<or> prefix ''127.'' ip"

definition first_item :: "string \<Rightarrow> string" where
  "first_item s = trim (takeWhile (\<lambda>c. c \<noteq> CHR '','') s)"

definition forwarded_client :: "boot_request \<Rightarrow> string" where
  "forwarded_client q = (case bq_forwarded_for q of None \<Rightarrow> [] | Some s \<Rightarrow> first_item s)"

definition or_else :: "string \<Rightarrow> string option \<Rightarrow> string \<Rightarrow> string" where
  "or_else a b c = (if a \<noteq> [] then a else case b of None \<Rightarrow> c | Some x \<Rightarrow> if x \<noteq> [] then x else c)"

definition assertLoopbackOrTls :: "boot_config \<Rightarrow> boot_request \<Rightarrow> http_error + unit" where
  "assertLoopbackOrTls cfg q =
     (let proto = first_item (case bq_forwarded_proto q of None \<Rightarrow> bq_protocol q | Some p \<Rightarrow> p)
      in if proto = ''https'' then Inr ()
         else if isLoopback (case bc_bind_address cfg of None \<Rightarrow> [] | Some a \<Rightarrow> a) then Inr ()
         else if isLoopback (or_else (forwarded_client q) (q_ip (bq_req q)) []) then Inr ()
         else Inl (Forbidden ''plain http''))"

definition single :: "boot_config \<Rightarrow> http_error + unit" where
  "single cfg = (if \<not> bc_single_tenant cfg then Inl (BadRequest ''self-hosted only'') else Inr ())"

text \<open>\<open>ClaimRateLimit\<close>: the times of the admitted attempts of the last minute, per client\<close>

type_synonym claim_hits = "(string \<times> int list) list"

definition claim_limit :: nat where "claim_limit = 10"
definition claim_window :: int where "claim_window = 60000"

definition claim_allow :: "int \<Rightarrow> string \<Rightarrow> claim_hits \<Rightarrow> bool \<times> claim_hits" where
  "claim_allow now ip hits =
     (let recent = filter (\<lambda>t. now - t < claim_window) (map_get_or hits [] ip)
      in if claim_limit \<le> length recent then (False, AList.update ip recent hits)
         else (True, AList.update ip (recent @ [now]) hits))"

record boot_state =
  bs_hits :: claim_hits
  bs_db :: auth_db

definition setup_schema :: "(string \<Rightarrow> bool) \<Rightarrow> jsval \<Rightarrow> setup_input option" where
  "setup_schema is_email b =
     (case js_get b ''owner'' of
        None \<Rightarrow> None
      | Some ow \<Rightarrow>
          (case (z_string 1 100 (js_get b ''workspace_name''),
                 (if js_get b ''app_name'' = None then Some ''Default App'' else z_string 1 100 (js_get b ''app_name'')),
                 z_string 1 100 (js_get ow ''name''), z_email is_email (js_get ow ''email''), z_string 8 128 (js_get ow ''password''),
                 z_optional (z_string 0 64) (js_get b ''timezone'')) of
             (Some w, Some a, Some n, Some e, Some p, Some tz) \<Rightarrow>
               Some \<lparr>si_workspace = w, si_app = a, si_name = n, si_email = e, si_password = p, si_timezone = tz\<rparr>
           | _ \<Rightarrow> None))"

definition claim_handler :: "crypto \<Rightarrow> boot_config \<Rightarrow> int \<Rightarrow> string \<Rightarrow> boot_request \<Rightarrow> boot_state \<Rightarrow> (boot_state, string \<times> int) reply" where
  "claim_handler cr cfg now cookie q s =
     (case single cfg of
        Inl e \<Rightarrow> (Inl e, s)
      | Inr _ \<Rightarrow>
          (case assertLoopbackOrTls cfg q of
             Inl e \<Rightarrow> (Inl e, s)
           | Inr _ \<Rightarrow>
               (case claim_allow now (or_else (forwarded_client q) (q_ip (bq_req q)) ''?'') (bs_hits s) of
                  (ok, hits) \<Rightarrow>
                    (let s1 = s\<lparr>bs_hits := hits\<rparr>
                     in if \<not> ok then (Inl (TooManyRequests ''claim''), s1)
                        else case z_string 32 256 (js_get (q_body (bq_req q)) ''token'') of
                               None \<Rightarrow> (Inl (BadRequest ''body''), s1)
                             | Some token \<Rightarrow>
                                 (case boot_claim cr now cookie token (bs_db s1) of
                                    Inl e \<Rightarrow> (Inl e, s1)
                                  | Inr (ck, db1) \<Rightarrow> (Inr ck, s1\<lparr>bs_db := db1\<rparr>))))))"

definition extend_handler :: "crypto \<Rightarrow> boot_config \<Rightarrow> int \<Rightarrow> boot_request \<Rightarrow> boot_state \<Rightarrow> (boot_state, int) reply" where
  "extend_handler cr cfg now q s =
     (case single cfg of
        Inl e \<Rightarrow> (Inl e, s)
      | Inr _ \<Rightarrow>
          (case assertLoopbackOrTls cfg q of
             Inl e \<Rightarrow> (Inl e, s)
           | Inr _ \<Rightarrow>
               (case boot_extend cr now (bq_cookie q) (bs_db s) of
                  Inl e \<Rightarrow> (Inl e, s) | Inr (t, db1) \<Rightarrow> (Inr t, s\<lparr>bs_db := db1\<rparr>))))"

definition setup_handler ::
  "crypto \<Rightarrow> boot_config \<Rightarrow> (string \<Rightarrow> string) \<Rightarrow> (string \<Rightarrow> string) \<Rightarrow> (string \<Rightarrow> string) \<Rightarrow> (string \<Rightarrow> bool) \<Rightarrow> (string \<Rightarrow> bool) \<Rightarrow> int \<Rightarrow>
     fresh_ids \<Rightarrow> string \<Rightarrow> boot_request \<Rightarrow> boot_state \<Rightarrow> (boot_state, setup_reply \<times> cookie) reply" where
  "setup_handler cr cfg lower js_lower argon2 is_email is_timezone now ids token q s =
     (case single cfg of
        Inl e \<Rightarrow> (Inl e, s)
      | Inr _ \<Rightarrow>
          (case assertLoopbackOrTls cfg q of
             Inl e \<Rightarrow> (Inl e, s)
           | Inr _ \<Rightarrow>
               let idem = (case bq_idempotency_key q of None \<Rightarrow> [] | Some k \<Rightarrow> k)
               in if idem = [] \<or> utf16_length idem < 8 \<or> 128 < utf16_length idem then (Inl (BadRequest ''Idempotency-Key''), s)
                  else case setup_schema is_email (q_body (bq_req q)) of
                         None \<Rightarrow> (Inl (BadRequest ''body''), s)
                       | Some input \<Rightarrow>
                           if (case si_timezone input of None \<Rightarrow> False | Some z \<Rightarrow> z \<noteq> [] \<and> \<not> is_timezone z) then (Inl (BadRequest ''timezone''), s)
                           else case boot_setup cr lower js_lower argon2 now ids (bq_cookie q) idem input (bs_db s) of
                                  Inl e \<Rightarrow> (Inl e, s)
                                | Inr (r, db1) \<Rightarrow>
                                    (case issueSession cr (bc_ttl_hours cfg) now token (r_tenant_id (sr_result r)) (r_member_id (sr_result r)) (bq_req q) db1 of
                                       Inl e \<Rightarrow> (Inl e, s\<lparr>bs_db := db1\<rparr>)
                                     | Inr (ck, db2) \<Rightarrow> (Inr (r, ck), s\<lparr>bs_db := db2\<rparr>))))"

definition setup_result_handler ::
  "crypto \<Rightarrow> boot_config \<Rightarrow> int \<Rightarrow> string \<Rightarrow> boot_request \<Rightarrow> boot_state \<Rightarrow> (boot_state, setup_result \<times> cookie) reply" where
  "setup_result_handler cr cfg now token q s =
     (case single cfg of
        Inl e \<Rightarrow> (Inl e, s)
      | Inr _ \<Rightarrow>
          (case bq_idempotency_key q of
             None \<Rightarrow> (Inl (BadRequest ''Idempotency-Key''), s)
           | Some idem \<Rightarrow>
               if idem = [] then (Inl (BadRequest ''Idempotency-Key''), s)
               else case boot_result cr now (bq_cookie q) idem (bs_db s) of
                      Inl e \<Rightarrow> (Inl e, s)
                    | Inr r \<Rightarrow>
                        (case issueSession cr (bc_ttl_hours cfg) now token (r_tenant_id r) (r_member_id r) (bq_req q) (bs_db s) of
                           Inl e \<Rightarrow> (Inl e, s)
                         | Inr (ck, db1) \<Rightarrow> (Inr (r, ck), s\<lparr>bs_db := db1\<rparr>))))"

section \<open>Sequences of requests\<close>

text \<open>A restart runs \<open>onModuleInit\<close>, possibly with another setup token.\<close>

datatype boot_op =
    Restart boot_config string
  | Claim int string boot_request
  | Extend int boot_request
  | Setup int fresh_ids string boot_request
  | Result int string boot_request

text \<open>What the handlers take from the platform and the configuration\<close>

record boot_env =
  be_cr :: crypto
  be_cfg :: boot_config
  be_lower :: "string \<Rightarrow> string"
  be_js_lower :: "string \<Rightarrow> string"
  be_argon2 :: "string \<Rightarrow> string"
  be_email :: "string \<Rightarrow> bool"
  be_timezone :: "string \<Rightarrow> bool"

definition boot_step :: "boot_env \<Rightarrow> boot_op \<Rightarrow> boot_state \<Rightarrow> boot_state" where
  "boot_step e op s =
     (case op of
        Restart cfg newId \<Rightarrow> s\<lparr>bs_db := onModuleInit (be_cr e) cfg newId (bs_db s)\<rparr>
      | Claim now ck q \<Rightarrow> snd (claim_handler (be_cr e) (be_cfg e) now ck q s)
      | Extend now q \<Rightarrow> snd (extend_handler (be_cr e) (be_cfg e) now q s)
      | Setup now ids token q \<Rightarrow>
          snd (setup_handler (be_cr e) (be_cfg e) (be_lower e) (be_js_lower e) (be_argon2 e) (be_email e) (be_timezone e) now ids token q s)
      | Result now token q \<Rightarrow> snd (setup_result_handler (be_cr e) (be_cfg e) now token q s))"

definition env_setup :: "boot_env \<Rightarrow> int \<Rightarrow> fresh_ids \<Rightarrow> string option \<Rightarrow> string \<Rightarrow> setup_input \<Rightarrow> auth_db \<Rightarrow> (auth_db, setup_reply) outcome" where
  "env_setup e = boot_setup (be_cr e) (be_lower e) (be_js_lower e) (be_argon2 e)"

text \<open>The tables that setup decides about\<close>

definition accounts :: "auth_db \<Rightarrow> tenant_row list \<times> member_row list \<times> app_row list \<times> api_key_row list" where
  "accounts db = (tenants db, members db, apps db, api_keys db)"

lemma issueSession_keeps:
  "issueSession cr ttl now tok t m q db = Inr (ck, db') \<Longrightarrow> accounts db' = accounts db \<and> installation db' = installation db"
  by (auto simp: issueSession_def session_create_def accounts_def Let_def split: if_splits)

lemma insert_key_keeps: "insert_key k db = Inr db' \<Longrightarrow> installation db' = installation db"
  by (auto simp: insert_key_def split: if_splits)

lemma insert_member_keeps: "insert_member lower m db = Inr db' \<Longrightarrow> installation db' = installation db"
  by (auto simp: insert_member_def split: if_splits)

lemma createWorkspace_installation: "createWorkspace cr lower argon2 ids input db = Inr (w, db') \<Longrightarrow> installation db' = installation db"
  by (auto simp: createWorkspace_def Let_def dest!: insert_key_keeps insert_member_keeps split: if_splits sum.splits prod.splits)

lemma installation_set_app_timezone [simp]: "installation (set_app_timezone a t z db) = installation db"
  by (simp add: set_app_timezone_def split: option.split)

text \<open>The two ways a setup succeeds\<close>

lemma boot_setup_InrE:
  assumes "boot_setup cr lower js_lower argon2 now ids cookie idem input db = Inr (r, db')"
  obtains (replay) row res where "installation db = Some row" "in_state row = Secured" "in_result row = Some res" "db' = db"
      "r = \<lparr>sr_result = res, sr_keys = None, sr_replayed = True\<rparr>"
  | (fresh) row ck w db1 where "installation db = Some row" "in_state row = Claimed" "cookie = Some ck" "ck \<noteq> []"
      "same (in_claim_hash row) (cr_sha cr ck)" "lease_live now row"
      "createWorkspace cr lower argon2 ids \<lparr>su_email = si_email input, su_password = si_password input, su_name = si_name input,
         su_tenant_name = si_workspace input, su_app_name = si_app input\<rparr> db = Inr (w, db1)"
      "sr_result r = \<lparr>r_tenant_id = w_tenant w, r_app_id = w_app w, r_member_id = w_member w, r_installation_id = in_id row, r_secured_at = now\<rparr>"
      "\<not> sr_replayed r"
      "db' = (set_app_timezone (w_app w) (w_tenant w) (si_timezone input) db1)
         \<lparr>installation := Some (secure_row cr now idem (request_fingerprint js_lower input) (sr_result r) row)\<rparr>"
  using assms by (auto simp: boot_setup_def Let_def split: if_splits option.splits sum.splits)

section \<open>The secured state is final\<close>

definition secured_with :: "installation_row \<Rightarrow> tenant_row list \<times> member_row list \<times> app_row list \<times> api_key_row list \<Rightarrow> boot_state \<Rightarrow> bool" where
  "secured_with row a s \<longleftrightarrow> installation (bs_db s) = Some row \<and> in_state row = Secured \<and> accounts (bs_db s) = a"

lemma secured_claim: "secured_with row a s \<Longrightarrow> secured_with row a (snd (claim_handler cr cfg now ck q s))"
  by (auto simp: claim_handler_def boot_claim_def secured_with_def Let_def split: sum.split prod.split option.split)

lemma secured_extend: "secured_with row a s \<Longrightarrow> secured_with row a (snd (extend_handler cr cfg now q s))"
  by (auto simp: extend_handler_def boot_extend_def secured_with_def Let_def split: sum.split)

lemma secured_restart: "secured_with row a s \<Longrightarrow> secured_with row a (s\<lparr>bs_db := onModuleInit cr cfg newId (bs_db s)\<rparr>)"
  by (auto simp: onModuleInit_def ensureInstallation_def secured_with_def accounts_def Let_def split: option.split)

lemma secured_boot_setup:
  assumes "secured_with row a s" "boot_setup cr lower js_lower argon2 now ids cookie idem input (bs_db s) = Inr (r, db')"
  shows "db' = bs_db s"
  using assms(2) by (cases rule: boot_setup_InrE) (use assms(1) in \<open>auto simp: secured_with_def\<close>)

lemma secured_issue:
  assumes "secured_with row a s" "issueSession cr ttl now tok t m q (bs_db s) = Inr (ck, db')"
  shows "secured_with row a (s\<lparr>bs_db := db'\<rparr>)"
  using issueSession_keeps [OF assms(2)] assms(1) by (simp add: secured_with_def)

lemma secured_setup:
  assumes s: "secured_with row a s"
  shows "secured_with row a (snd (setup_handler cr cfg lower js_lower argon2 is_email is_tz now ids tok q s))"
  unfolding setup_handler_def Let_def
  using s secured_issue [OF s]
  by (auto dest!: secured_boot_setup [OF s] split: sum.split option.split)

lemma secured_result: "secured_with row a s \<Longrightarrow> secured_with row a (snd (setup_result_handler cr cfg now tok q s))"
  unfolding setup_result_handler_def using secured_issue by (auto split: sum.split option.split)

interpretation secured: invariant_system "boot_step e" "secured_with row a" for e row a
proof
  fix s op assume "secured_with row a s"
  then show "secured_with row a (boot_step e op s)"
    unfolding boot_step_def
    by (cases op) (simp_all add: secured_claim secured_extend secured_setup secured_result secured_restart)
qed

section \<open>Where a lease comes from\<close>

text \<open>A successful claim: the request carried the token whose hash the installation row holds.\<close>

definition claim_granted :: "boot_env \<Rightarrow> boot_op \<Rightarrow> boot_state \<Rightarrow> string \<Rightarrow> bool" where
  "claim_granted e op s hsh \<longleftrightarrow>
     (\<exists>now ck q tok row. op = Claim now ck q \<and> hsh = cr_sha (be_cr e) ck \<and> js_get (q_body (bq_req q)) ''token'' = Some (JStr tok) \<and>
        installation (bs_db s) = Some row \<and> in_state row \<noteq> Secured \<and> in_token_hash row = Some (cr_sha (be_cr e) tok) \<and>
        \<not> (in_state row = Claimed \<and> lease_live now row))"

definition lease_hash :: "boot_state \<Rightarrow> string option" where
  "lease_hash s = Option.bind (installation (bs_db s)) in_claim_hash"

lemma boot_claim_InrE:
  assumes "boot_claim cr now ck tok db = Inr (r, db')"
  obtains row where "installation db = Some row" "in_state row \<noteq> Secured" "in_token_hash row = Some (cr_sha cr tok)"
    "\<not> (in_state row = Claimed \<and> lease_live now row)" "Option.bind (installation db') in_claim_hash = Some (cr_sha cr ck)"
  using assms by (auto simp: boot_claim_def same_def Let_def split: option.splits if_splits)

lemma claim_handler_lease:
  assumes "lease_hash (snd (claim_handler cr cfg now ck q s)) \<noteq> lease_hash s"
  obtains tok r db' where "js_get (q_body (bq_req q)) ''token'' = Some (JStr tok)" "boot_claim cr now ck tok (bs_db s) = Inr (r, db')"
    "lease_hash (snd (claim_handler cr cfg now ck q s)) = Option.bind (installation db') in_claim_hash"
  using assms
  by (auto simp: claim_handler_def lease_hash_def Let_def z_string_def
      split: sum.splits prod.splits option.splits jsval.splits if_splits)

lemma setup_handler_lease: "lease_hash (snd (setup_handler cr cfg lower js_lower argon2 is_email is_tz now ids tok q s)) = lease_hash s"
proof -
  have b: "Option.bind (installation db1) in_claim_hash = lease_hash s"
    if b: "boot_setup cr lower js_lower argon2 now ids (bq_cookie q) idem input (bs_db s) = Inr (r, db1)" for idem input r db1
    using b by (cases rule: boot_setup_InrE) (auto simp: lease_hash_def secure_row_def)
  show ?thesis
    unfolding setup_handler_def Let_def
    by (auto simp: lease_hash_def [of "s\<lparr>bs_db := _\<rparr>"] b dest: issueSession_keeps split: sum.split option.split)
qed

lemma boot_step_lease:
  assumes "lease_hash (boot_step e op s) = Some hsh"
  shows "lease_hash s = Some hsh \<or> claim_granted e op s hsh"
proof (cases op)
  case (Claim now ck q)
  show ?thesis
  proof (cases "lease_hash (boot_step e op s) = lease_hash s")
    case False
    then have "lease_hash (snd (claim_handler (be_cr e) (be_cfg e) now ck q s)) \<noteq> lease_hash s" by (simp add: Claim boot_step_def)
    then show ?thesis
    proof (rule claim_handler_lease)
      fix tok r db'
      assume t: "js_get (q_body (bq_req q)) ''token'' = Some (JStr tok)" "boot_claim (be_cr e) now ck tok (bs_db s) = Inr (r, db')"
        "lease_hash (snd (claim_handler (be_cr e) (be_cfg e) now ck q s)) = Option.bind (installation db') in_claim_hash"
      from t(2) show ?thesis
        by (rule boot_claim_InrE) (use t assms in \<open>auto simp: Claim boot_step_def claim_granted_def\<close>)
    qed
  qed (use assms in simp)
next
  case (Restart cfg newId)
  then show ?thesis
    using assms
    by (auto simp: boot_step_def onModuleInit_def ensureInstallation_def lease_hash_def new_installation_def Let_def
        split: option.splits if_splits)
next
  case (Extend now q)
  then show ?thesis
    using assms by (auto simp: boot_step_def extend_handler_def boot_extend_def lease_hash_def Let_def split: sum.splits option.splits if_splits)
next
  case (Setup now ids tok q)
  then show ?thesis using assms setup_handler_lease by (simp add: boot_step_def)
next
  case (Result now tok q)
  then show ?thesis
    using assms
    by (auto simp: boot_step_def setup_result_handler_def lease_hash_def dest: issueSession_keeps split: sum.splits option.splits if_splits)
qed

lemma lease_origin:
  assumes "lease_hash s = None" "lease_hash (fold (boot_step e) ops s) = Some hsh"
  shows "\<exists>i < length ops. claim_granted e (ops ! i) (fold (boot_step e) (take i ops) s) hsh"
  using assms(2)
proof (induction ops rule: rev_induct)
  case (snoc op ops)
  then have "lease_hash (fold (boot_step e) ops s) = Some hsh \<or> claim_granted e op (fold (boot_step e) ops s) hsh"
    using boot_step_lease [of e op] by simp
  then show ?case
  proof
    assume "lease_hash (fold (boot_step e) ops s) = Some hsh"
    then obtain i where "i < length ops" "claim_granted e (ops ! i) (fold (boot_step e) (take i ops) s) hsh" using snoc.IH by blast
    then show ?thesis by (intro exI [of _ i]) (simp add: nth_append)
  next
    assume "claim_granted e op (fold (boot_step e) ops s) hsh"
    then show ?thesis by (intro exI [of _ "length ops"]) simp
  qed
qed (use assms(1) in simp)

section \<open>Properties\<close>

text \<open>
  C26: a completed installation is locked for good. Once the installation is secured, no sequence of restarts (with whatever setup token),
  claims, extensions, setups and result requests changes the installation row, the tenants, the members, the apps or the API keys.
\<close>

theorem secured_is_final:
  assumes "installation (bs_db s) = Some row" and "in_state row = Secured"
  shows "installation (bs_db (fold (boot_step e) ops s)) = Some row \<and> accounts (bs_db (fold (boot_step e) ops s)) = accounts (bs_db s)"
proof -
  have "secured_with row (accounts (bs_db s)) s" using assms by (simp add: secured_with_def)
  then have "secured_with row (accounts (bs_db s)) (fold (boot_step e) ops s)" by (rule secured.run_inv)
  then show ?thesis by (simp add: secured_with_def)
qed

text \<open>
  setup is idempotent while the lease lasts. After a setup created the workspace, the same request by the same browser with the same
  key gives the same identifiers again and changes nothing, whatever other requests arrived in between; the raw keys are not shown again.
\<close>

theorem setup_replays:
  assumes "\<And>x. cr_sha (be_cr e) x \<noteq> []" and "env_setup e now ids cookie idem input (bs_db s) = Inr (r, db1)" and "\<not> sr_replayed r"
    and "installation (bs_db s) = Some row" and "lease_live now' row"
  shows "env_setup e now' ids' cookie idem input (bs_db (fold (boot_step e) ops (s\<lparr>bs_db := db1\<rparr>))) =
    Inr (\<lparr>sr_result = sr_result r, sr_keys = None, sr_replayed = True\<rparr>, bs_db (fold (boot_step e) ops (s\<lparr>bs_db := db1\<rparr>)))"
proof (cases rule: boot_setup_InrE [OF assms(2) [unfolded env_setup_def], case_names replay fresh])
  case (fresh row' ck w db2)
  let ?row = "secure_row (be_cr e) now idem (request_fingerprint (be_js_lower e) input) (sr_result r) row"
  let ?s = "fold (boot_step e) ops (s\<lparr>bs_db := db1\<rparr>)"
  have "row' = row" using fresh(1) assms(4) by simp
  then have "secured_with ?row (accounts db1) (s\<lparr>bs_db := db1\<rparr>)"
    using fresh by (simp add: secured_with_def secure_row_def)
  then have "secured_with ?row (accounts db1) ?s" by (rule secured.run_inv)
  then have i: "installation (bs_db ?s) = Some ?row" by (simp add: secured_with_def)
  have "lease_live now' ?row" using assms(5) by (simp add: lease_live_def secure_row_def)
  moreover have "same (in_claim_hash ?row) (cr_sha (be_cr e) ck)" using fresh(5) \<open>row' = row\<close> by (simp add: secure_row_def)
  ultimately show ?thesis
    using i fresh(3,4) assms(1) by (simp add: env_setup_def boot_setup_def Let_def) (simp add: secure_row_def same_def)
next
  case (replay row' res)
  then show ?thesis using assms(3) by simp
qed

text \<open>
  C27: only the holder of the setup code becomes owner. On an installation that was never claimed, a setup that creates the workspace after
  any sequence of requests uses a bootstrap cookie whose hash was put in place by an earlier claim, and that claim presented the
  setup token configured at that time, at a moment when nobody held a lease.
\<close>

theorem owner_proved_setup_code:
  assumes "lease_hash s = None" and "env_setup e now ids cookie idem input (bs_db (fold (boot_step e) ops s)) = Inr (r, db')"
    and "\<not> sr_replayed r"
  shows "\<exists>ck i. cookie = Some ck \<and> i < length ops \<and> claim_granted e (ops ! i) (fold (boot_step e) (take i ops) s) (cr_sha (be_cr e) ck)"
proof (cases rule: boot_setup_InrE [OF assms(2) [unfolded env_setup_def], case_names replay fresh])
  case (fresh row ck w db1)
  then have "lease_hash (fold (boot_step e) ops s) = Some (cr_sha (be_cr e) ck)"
    by (auto simp: lease_hash_def same_def split: option.splits)
  then show ?thesis using lease_origin [OF assms(1), of e ops] fresh(3) by blast
next
  case (replay row res)
  then show ?thesis using assms(3) by simp
qed

section \<open>Witnesses\<close>

definition sample_env :: boot_env where
  "sample_env = \<lparr>be_cr = toy_crypto\<lparr>cr_sha := (\<lambda>s. CHR ''#'' # s)\<rparr>,
     be_cfg = \<lparr>bc_single_tenant = True, bc_setup_token = Some (replicate 32 CHR ''t''), bc_bind_address = Some ''127.0.0.1'', bc_ttl_hours = 1\<rparr>,
     be_lower = (\<lambda>s. s), be_js_lower = (\<lambda>s. s), be_argon2 = (\<lambda>s. s), be_email = (\<lambda>_. True), be_timezone = (\<lambda>_. True)\<rparr>"

definition sample_boot_request :: boot_request where
  "sample_boot_request = \<lparr>bq_req = \<lparr>q_cookie = None, q_url = [], q_ip = None, q_user_agent = None,
       q_body = JObj [(''token'', JStr (replicate 32 CHR ''t''))]\<rparr>,
     bq_forwarded_proto = None, bq_protocol = ''http'', bq_forwarded_for = None, bq_cookie = None, bq_idempotency_key = None\<rparr>"

definition sample_boot :: boot_state where
  "sample_boot = \<lparr>bs_hits = [], bs_db = \<lparr>tenants = [], members = [], backup_codes = [], sessions = [], apps = [], api_keys = [],
     installation = None, audits = []\<rparr>\<rparr>"

definition sample_ops :: "boot_op list" where
  "sample_ops = [Restart (be_cfg sample_env) ''inst'', Claim 1000 ''cookie'' sample_boot_request]"

definition sample_ids :: fresh_ids where
  "sample_ids = \<lparr>f_tenant = ''t'', f_member = ''m'', f_app = ''a'', f_key1 = ''k1'', f_key2 = ''k2'', f_raw1 = ''r1'', f_raw2 = ''r2''\<rparr>"

definition sample_input :: setup_input where
  "sample_input = \<lparr>si_workspace = ''W'', si_app = ''A'', si_name = ''N'', si_email = ''e'', si_password = ''p'', si_timezone = None\<rparr>"

definition sample_claimed :: boot_state where
  "sample_claimed = fold (boot_step sample_env) sample_ops sample_boot"

lemma sample_setup:
  obtains r db' where "env_setup sample_env 2000 sample_ids (Some ''cookie'') ''idem-key'' sample_input (bs_db sample_claimed) = Inr (r, db')"
    "\<not> sr_replayed r" "sr_result r = \<lparr>r_tenant_id = ''t'', r_app_id = ''a'', r_member_id = ''m'', r_installation_id = ''inst'', r_secured_at = 2000\<rparr>"
proof -
  let ?o = "env_setup sample_env 2000 sample_ids (Some ''cookie'') ''idem-key'' sample_input (bs_db sample_claimed)"
  have "(case ?o of Inl _ \<Rightarrow> False | Inr (r, _) \<Rightarrow> \<not> sr_replayed r \<and>
    sr_result r = \<lparr>r_tenant_id = ''t'', r_app_id = ''a'', r_member_id = ''m'', r_installation_id = ''inst'', r_secured_at = 2000\<rparr>)" by code_simp
  then show thesis using that by (auto split: sum.splits)
qed

lemma sample_lease: "\<exists>row. installation (bs_db sample_claimed) = Some row \<and> lease_live 3000 row"
proof -
  have "(case installation (bs_db sample_claimed) of None \<Rightarrow> False | Some row \<Rightarrow> lease_live 3000 row)" by code_simp
  then show ?thesis by (auto split: option.splits)
qed

lemma setup_replays_witness:
  "\<exists>db1. env_setup sample_env 3000 sample_ids (Some ''cookie'') ''idem-key'' sample_input
       (bs_db (fold (boot_step sample_env) sample_ops (sample_claimed\<lparr>bs_db := db1\<rparr>))) =
     Inr (\<lparr>sr_result = \<lparr>r_tenant_id = ''t'', r_app_id = ''a'', r_member_id = ''m'', r_installation_id = ''inst'', r_secured_at = 2000\<rparr>,
            sr_keys = None, sr_replayed = True\<rparr>, bs_db (fold (boot_step sample_env) sample_ops (sample_claimed\<lparr>bs_db := db1\<rparr>)))"
proof -
  obtain r db' where r: "env_setup sample_env 2000 sample_ids (Some ''cookie'') ''idem-key'' sample_input (bs_db sample_claimed) = Inr (r, db')"
    "\<not> sr_replayed r" "sr_result r = \<lparr>r_tenant_id = ''t'', r_app_id = ''a'', r_member_id = ''m'', r_installation_id = ''inst'', r_secured_at = 2000\<rparr>"
    by (rule sample_setup)
  obtain row where row: "installation (bs_db sample_claimed) = Some row" "lease_live 3000 row" using sample_lease by blast
  show ?thesis using setup_replays [OF _ r(1,2) row, of sample_ids sample_ops] r(3) by (intro exI [of _ db']) (simp add: sample_env_def)
qed

lemma owner_proved_setup_code_witness:
  "\<exists>ck i. Some ''cookie'' = Some ck \<and> i < length sample_ops \<and>
     claim_granted sample_env (sample_ops ! i) (fold (boot_step sample_env) (take i sample_ops) sample_boot) (cr_sha (be_cr sample_env) ck)"
proof -
  have n: "lease_hash sample_boot = None" by code_simp
  obtain r db' where r: "env_setup sample_env 2000 sample_ids (Some ''cookie'') ''idem-key'' sample_input (bs_db sample_claimed) = Inr (r, db')"
    "\<not> sr_replayed r" by (metis sample_setup)
  show ?thesis by (rule owner_proved_setup_code [OF n r(1) [unfolded sample_claimed_def] r(2)])
qed

lemma secured_is_final_witness:
  "\<exists>s row. in_state row = Secured \<and> installation (bs_db (fold (boot_step sample_env) sample_ops s)) = Some row \<and>
     map t_id (tenants (bs_db (fold (boot_step sample_env) sample_ops s))) = [''t'']"
proof -
  let ?db = "after (bs_db sample_claimed) (env_setup sample_env 2000 sample_ids (Some ''cookie'') ''idem-key'' sample_input (bs_db sample_claimed))"
  let ?s = "sample_claimed\<lparr>bs_db := ?db\<rparr>"
  have "(case installation ?db of None \<Rightarrow> False | Some row \<Rightarrow> in_state row = Secured)" by code_simp
  then obtain row where row: "installation (bs_db ?s) = Some row" "in_state row = Secured" by (auto split: option.splits)
  have t: "map t_id (tenants ?db) = [''t'']" by code_simp
  show ?thesis
    using secured_is_final [OF row, of sample_env sample_ops] row(2) t by (intro exI [of _ ?s] exI [of _ row]) (simp add: accounts_def)
qed

end
