(* ===== verification/Event_Receipts.thy ===== *)
theory Event_Receipts
  imports Api_Keys "HOL-Library.List_Lexorder" "HOL-Library.Char_ord"
begin

text \<open>
  Durable registration of tracked events (\<open>ingestion/event-receipts.ts\<close>): a batch is written with its receipts, its
  per-customer sequence numbers and its projection jobs in one transaction, at most three times in a row. The advisory locks on
  the insert ids and the row locks on the customer cursors serialise the writes of this module, so a registration is one step on
  these tables; customers are looked up before their rows are locked, and \<open>ae_drift\<close> is what other transactions committed to
  the customer table in between. A database fault, generated ids, the clock and the collation order of \<open>localeCompare\<close> come with
  the attempt.
\<close>

section \<open>Tables\<close>

datatype user_status = UActive | UMerged | UDeleted

record user_row =
  u_id :: string
  u_tenant :: string
  u_app :: string
  u_external :: "string option"
  u_anon :: "string option"
  u_status :: user_status
  u_merged_into :: "string option"
  u_last_seen :: "int option"

record receipt_row =
  rc_tenant :: string
  rc_app :: string
  rc_insert :: string
  rc_user :: string
  rc_event :: string
  rc_properties :: jsobj
  rc_client_ts :: string
  rc_received :: int
  rc_seq :: nat
  rc_device :: "jsval option"

record outbox_row =
  ob_tenant :: string
  ob_app :: string
  ob_stream :: string
  ob_key :: string
  ob_request :: string
  ob_api_key :: string
  ob_event :: receipt_row

type_synonym customer = "string \<times> string \<times> string"

record ingest_db =
  users :: "user_row list"
  cursors :: "(customer \<times> nat) list"
  receipts :: "receipt_row list"
  outbox :: "outbox_row list"

record track_event =
  te_insert :: string
  te_anon :: "string option"
  te_external :: "string option"
  te_event :: string
  te_properties :: "jsobj option"
  te_client_ts :: string

record track_body =
  tb_batch :: "track_event list"
  tb_device :: "jsval option"

datatype ingest_error = IdentityChanged | MissingIdentity | MissingCursor | DbError string

record attempt_env =
  ae_order :: "track_event list \<Rightarrow> track_event list"
  ae_user_id :: "string \<Rightarrow> string"
  ae_drift :: "user_row list \<Rightarrow> user_row list"
  ae_clock :: "nat \<Rightarrow> int"
  ae_fault :: "string option"

section \<open>Customers\<close>

definition nonempty :: "string option \<Rightarrow> bool" where
  "nonempty v \<longleftrightarrow> v \<noteq> None \<and> v \<noteq> Some []"

definition identityKey :: "track_event \<Rightarrow> string" where
  "identityKey e =
     (if nonempty (te_external e) then ''external:'' @ the (te_external e)
      else ''anon:'' @ (case te_anon e of None \<Rightarrow> ''undefined'' | Some a \<Rightarrow> a))"

definition lookup_user :: "bool \<Rightarrow> string \<Rightarrow> string \<Rightarrow> string \<Rightarrow> user_row list \<Rightarrow> user_row option" where
  "lookup_user external tenantId appId v us =
     find (\<lambda>u. u_tenant u = tenantId \<and> u_app u = appId \<and> (if external then u_external u else u_anon u) = Some v) us"

definition insert_user :: "bool \<Rightarrow> string \<Rightarrow> string \<Rightarrow> string \<Rightarrow> string \<Rightarrow> user_row list \<Rightarrow> user_row list" where
  "insert_user external newId tenantId appId v us =
     (if list_ex (\<lambda>u. u_app u = appId \<and> (if external then u_external u else u_anon u) = Some v) us then us
      else us @ [\<lparr>u_id = newId, u_tenant = tenantId, u_app = appId, u_external = (if external then Some v else None),
                  u_anon = (if external then None else Some v), u_status = UActive, u_merged_into = None, u_last_seen = None\<rparr>])"

text \<open>The loop along the merge tombstones\<close>

function chase :: "string \<Rightarrow> string \<Rightarrow> user_row list \<Rightarrow> string list \<Rightarrow> user_row \<Rightarrow> user_row option" where
  "chase tenantId appId us visited user =
     (if u_status user = UMerged \<and> nonempty (u_merged_into user) \<and> u_id user \<notin> set visited
      then (case find (\<lambda>u. u_tenant u = tenantId \<and> u_app u = appId \<and> Some (u_id u) = u_merged_into user) us of
              None \<Rightarrow> None
            | Some u \<Rightarrow> chase tenantId appId us (u_id user # visited) u)
      else Some user)"
  by pat_completeness auto
termination
proof (relation "measure (\<lambda>(t, a, us, visited, user). card (insert (u_id user) (u_id ` set us) - set visited))")
  fix tenantId appId :: string and us :: "user_row list" and visited and user u :: user_row
  assume m: "u_status user = UMerged \<and> nonempty (u_merged_into user) \<and> u_id user \<notin> set visited"
    and f: "find (\<lambda>u. u_tenant u = tenantId \<and> u_app u = appId \<and> Some (u_id u) = u_merged_into user) us = Some u"
  have "insert (u_id u) (u_id ` set us) - set (u_id user # visited) \<subset> insert (u_id user) (u_id ` set us) - set visited"
    using m find_SomeD [OF f] by auto
  then show "((tenantId, appId, us, u_id user # visited, u), tenantId, appId, us, visited, user)
      \<in> measure (\<lambda>(t, a, us, visited, user). card (insert (u_id user) (u_id ` set us) - set visited))"
    by (auto intro!: psubset_card_mono)
qed simp

declare chase.simps [simp del]

definition resolveUser ::
  "attempt_env \<Rightarrow> string \<Rightarrow> string \<Rightarrow> track_event \<Rightarrow> user_row list \<Rightarrow> ingest_error + (string \<times> user_row list)" where
  "resolveUser env tenantId appId e us =
     (let external = nonempty (te_external e);
          v = (if external then te_external e else te_anon e)
      in if \<not> nonempty v then Inl MissingIdentity
         else
           let us1 = (case lookup_user external tenantId appId (the v) us of
                        Some _ \<Rightarrow> us
                      | None \<Rightarrow> insert_user external (ae_user_id env (identityKey e)) tenantId appId (the v) us)
           in case lookup_user external tenantId appId (the v) us1 of
                None \<Rightarrow> Inl IdentityChanged
              | Some u0 \<Rightarrow>
                  (case chase tenantId appId us1 [] u0 of
                     None \<Rightarrow> Inl IdentityChanged
                   | Some u \<Rightarrow> if u_status u \<noteq> UActive then Inl IdentityChanged else Inr (u_id u, us1)))"

fun resolve_all ::
  "attempt_env \<Rightarrow> string \<Rightarrow> string \<Rightarrow> track_event list \<Rightarrow> (string \<times> string) list \<Rightarrow> user_row list \<Rightarrow>
     ingest_error + ((string \<times> string) list \<times> user_row list)" where
  "resolve_all env tenantId appId [] ids us = Inr (ids, us)"
| "resolve_all env tenantId appId (e # es) ids us =
     (if map_has ids (identityKey e) then resolve_all env tenantId appId es ids us
      else case resolveUser env tenantId appId e us of
        Inl err \<Rightarrow> Inl err
      | Inr (uid, us1) \<Rightarrow> resolve_all env tenantId appId es (AList.update (identityKey e) uid ids) us1)"

section \<open>Registration\<close>

text \<open>The first item of every insert id, under the lower-cased id\<close>

definition unique_events :: "track_event list \<Rightarrow> (string \<times> track_event) list" where
  "unique_events batch =
     foldl (\<lambda>m e. let i = map ascii_lower (te_insert e) in if map_has m i then m else AList.update i (e\<lparr>te_insert := i\<rparr>) m) [] batch"

definition existing :: "string \<Rightarrow> string \<Rightarrow> ingest_db \<Rightarrow> string \<Rightarrow> bool" where
  "existing tenantId appId db i \<longleftrightarrow> list_ex (\<lambda>r. rc_tenant r = tenantId \<and> rc_app r = appId \<and> rc_insert r = i) (receipts db)"

definition open_cursor :: "string \<Rightarrow> string \<Rightarrow> string \<Rightarrow> (customer \<times> nat) list \<Rightarrow> (customer \<times> nat) list" where
  "open_cursor tenantId appId uid cs =
     (if map_has cs (tenantId, appId, uid) then cs else AList.update (tenantId, appId, uid) 0 cs)"

definition insert_receipt :: "receipt_row \<Rightarrow> ingest_db \<Rightarrow> ingest_error + ingest_db" where
  "insert_receipt r db =
     (if list_ex (\<lambda>x. rc_tenant x = rc_tenant r \<and> rc_app x = rc_app r \<and> (rc_insert x = rc_insert r \<or> rc_user x = rc_user r \<and> rc_seq x = rc_seq r)) (receipts db)
      then Inl (DbError ''23505'') else Inr (db\<lparr>receipts := receipts db @ [r]\<rparr>))"

definition insert_outbox :: "outbox_row \<Rightarrow> ingest_db \<Rightarrow> ingest_db" where
  "insert_outbox ob db =
     (if list_ex (\<lambda>x. ob_tenant x = ob_tenant ob \<and> ob_app x = ob_app ob \<and> ob_key x = ob_key ob) (outbox db) then db
      else db\<lparr>outbox := outbox db @ [ob]\<rparr>)"

definition touch_user :: "string \<Rightarrow> string \<Rightarrow> string \<Rightarrow> int \<Rightarrow> ingest_db \<Rightarrow> ingest_db" where
  "touch_user tenantId appId uid t db =
     db\<lparr>users := update_where (\<lambda>u. u_tenant u = tenantId \<and> u_app u = appId \<and> u_id u = uid)
          (\<lambda>u. u\<lparr>u_last_seen := (case u_last_seen u of None \<Rightarrow> Some t | Some s \<Rightarrow> Some (max s t))\<rparr>) (users db)\<rparr>"

text \<open>One event: the next number of the customer's cursor, the receipt, the projection job\<close>

definition register_event ::
  "resolved_key \<Rightarrow> string \<Rightarrow> jsval option \<Rightarrow> (string \<times> string) list \<Rightarrow> int \<Rightarrow> track_event \<Rightarrow> ingest_db \<Rightarrow> ingest_error + ingest_db" where
  "register_event key requestId device ids received e db =
     (let uid = map_get_or ids [] (identityKey e);
          cust = (rk_tenant key, rk_app key, uid)
      in case map_of (cursors db) cust of
           None \<Rightarrow> Inl MissingCursor
         | Some n \<Rightarrow>
             (let r = \<lparr>rc_tenant = rk_tenant key, rc_app = rk_app key, rc_insert = te_insert e, rc_user = uid, rc_event = te_event e,
                       rc_properties = (case te_properties e of None \<Rightarrow> [] | Some p \<Rightarrow> p), rc_client_ts = te_client_ts e,
                       rc_received = received, rc_seq = n + 1, rc_device = device\<rparr>
              in case insert_receipt r (db\<lparr>cursors := AList.update cust (n + 1) (cursors db)\<rparr>) of
                   Inl err \<Rightarrow> Inl err
                 | Inr db1 \<Rightarrow>
                     Inr (touch_user (rk_tenant key) (rk_app key) uid received
                       (insert_outbox \<lparr>ob_tenant = rk_tenant key, ob_app = rk_app key, ob_stream = ''stream:ingest'',
                          ob_key = ''event.ingest:'' @ te_insert e, ob_request = requestId, ob_api_key = rk_id key, ob_event = r\<rparr> db1))))"

fun register_all ::
  "resolved_key \<Rightarrow> string \<Rightarrow> jsval option \<Rightarrow> (string \<times> string) list \<Rightarrow> (nat \<Rightarrow> int) \<Rightarrow> nat \<Rightarrow> track_event list \<Rightarrow> ingest_db \<Rightarrow>
     ingest_error + ingest_db" where
  "register_all key requestId device ids clock i [] db = Inr db"
| "register_all key requestId device ids clock i (e # es) db =
     (case register_event key requestId device ids (clock i) e db of
        Inl err \<Rightarrow> Inl err
      | Inr db1 \<Rightarrow> register_all key requestId device ids clock (Suc i) es db1)"

definition profiles_ok :: "string \<Rightarrow> string \<Rightarrow> string list \<Rightarrow> user_row list \<Rightarrow> bool" where
  "profiles_ok tenantId appId uids us \<longleftrightarrow>
     (let rows = filter (\<lambda>u. u_tenant u = tenantId \<and> u_app u = appId \<and> u_id u \<in> set uids) us
      in length rows = length uids \<and> list_all (\<lambda>u. u_status u = UActive) rows)"

text \<open>\<open>persistOnce\<close>: the number of new receipts, or the error after \<open>ROLLBACK\<close>\<close>

definition persistOnce ::
  "attempt_env \<Rightarrow> resolved_key \<Rightarrow> track_body \<Rightarrow> string \<Rightarrow> ingest_db \<Rightarrow> ingest_error + (nat \<times> ingest_db)" where
  "persistOnce env key body requestId db =
     (case ae_fault env of
        Some code \<Rightarrow> Inl (DbError code)
      | None \<Rightarrow>
          let fresh = filter (\<lambda>(i, _). \<not> existing (rk_tenant key) (rk_app key) db i) (unique_events (tb_batch body))
          in if fresh = [] then Inr (0, db)
             else case resolve_all env (rk_tenant key) (rk_app key) (ae_order env (map snd fresh)) [] (users db) of
                    Inl err \<Rightarrow> Inl err
                  | Inr (ids, us) \<Rightarrow>
                      let uids = sort (js_uniq (map snd ids));
                          us1 = ae_drift env us
                      in if \<not> profiles_ok (rk_tenant key) (rk_app key) uids us1 then Inl IdentityChanged
                         else case register_all key requestId (tb_device body) ids (ae_clock env) 0 (map snd fresh)
                                     (db\<lparr>users := us1, cursors := fold (open_cursor (rk_tenant key) (rk_app key)) uids (cursors db)\<rparr>) of
                                Inl err \<Rightarrow> Inl err
                              | Inr db1 \<Rightarrow> Inr (length fresh, db1))"

definition retryable :: "ingest_error \<Rightarrow> bool" where
  "retryable err \<longleftrightarrow> err \<in> {IdentityChanged, DbError ''40P01'', DbError ''40001''}"

text \<open>
  \<open>persistTrackReceipts\<close> from a given attempt on. A failed attempt is rolled back; what other transactions did to the customers in
  the meantime stays.
\<close>

function persist_from ::
  "(nat \<Rightarrow> attempt_env) \<Rightarrow> resolved_key \<Rightarrow> track_body \<Rightarrow> string \<Rightarrow> nat \<Rightarrow> ingest_db \<Rightarrow> (ingest_error + nat) \<times> ingest_db" where
  "persist_from envs key body requestId attempt db =
     (case persistOnce (envs attempt) key body requestId db of
        Inr (n, db1) \<Rightarrow> (Inr n, db1)
      | Inl err \<Rightarrow>
          (let db1 = db\<lparr>users := ae_drift (envs attempt) (users db)\<rparr>
           in if 2 \<le> attempt \<or> \<not> retryable err then (Inl err, db1)
              else persist_from envs key body requestId (attempt + 1) db1))"
  by pat_completeness auto
termination
  by (relation "measure (\<lambda>(envs, key, body, rid, attempt, db). 3 - attempt)") auto

declare persist_from.simps [simp del]

definition persistTrackReceipts ::
  "(nat \<Rightarrow> attempt_env) \<Rightarrow> resolved_key \<Rightarrow> track_body \<Rightarrow> string \<Rightarrow> ingest_db \<Rightarrow> (ingest_error + nat) \<times> ingest_db" where
  "persistTrackReceipts envs key body requestId db = persist_from envs key body requestId 0 db"

section \<open>Invariant\<close>

definition cust_of :: "receipt_row \<Rightarrow> customer" where
  "cust_of r = (rc_tenant r, rc_app r, rc_user r)"

definition rid_of :: "receipt_row \<Rightarrow> string \<times> string \<times> string" where
  "rid_of r = (rc_tenant r, rc_app r, rc_insert r)"

definition last_seq :: "ingest_db \<Rightarrow> customer \<Rightarrow> nat" where
  "last_seq db c = map_get_or (cursors db) 0 c"

definition customer_seqs :: "ingest_db \<Rightarrow> customer \<Rightarrow> nat list" where
  "customer_seqs db c = map rc_seq (filter (\<lambda>r. cust_of r = c) (receipts db))"

definition has_job :: "ingest_db \<Rightarrow> receipt_row \<Rightarrow> bool" where
  "has_job db r \<longleftrightarrow>
     list_ex (\<lambda>ob. ob_tenant ob = rc_tenant r \<and> ob_app ob = rc_app r \<and> ob_key ob = ''event.ingest:'' @ rc_insert r) (outbox db)"

definition receipts_inv :: "ingest_db \<Rightarrow> bool" where
  "receipts_inv db \<longleftrightarrow>
     distinct (map rid_of (receipts db)) \<and> (\<forall>c. customer_seqs db c = [1..<Suc (last_seq db c)]) \<and> list_all (has_job db) (receipts db)"

lemma touch_user_simps [simp]:
  "receipts (touch_user t a u n db) = receipts db" "cursors (touch_user t a u n db) = cursors db" "outbox (touch_user t a u n db) = outbox db"
  by (simp_all add: touch_user_def)

lemma insert_outbox_simps [simp]:
  "receipts (insert_outbox ob db) = receipts db" "cursors (insert_outbox ob db) = cursors db"
  by (simp_all add: insert_outbox_def)

lemma has_job_insert_outbox: "has_job db r \<Longrightarrow> has_job (insert_outbox ob db) r"
  by (auto simp: has_job_def insert_outbox_def)

lemma has_job_new:
  "ob_tenant ob = rc_tenant r \<Longrightarrow> ob_app ob = rc_app r \<Longrightarrow> ob_key ob = ''event.ingest:'' @ rc_insert r \<Longrightarrow> has_job (insert_outbox ob db) r"
  by (auto simp: has_job_def insert_outbox_def)

lemma receipts_inv_cong:
  "receipts db' = receipts db \<Longrightarrow> (\<And>c. last_seq db' c = last_seq db c) \<Longrightarrow> outbox db' = outbox db \<Longrightarrow> receipts_inv db' = receipts_inv db"
  by (simp add: receipts_inv_def customer_seqs_def has_job_def [abs_def])

lemma last_seq_touch [simp]: "last_seq (touch_user t a u n db) c = last_seq db c" "last_seq (insert_outbox ob db) c = last_seq db c"
  by (simp_all add: last_seq_def)

text \<open>What one registration adds\<close>

lemma register_event_InrE:
  assumes "register_event key rid device ids received e db = Inr db'"
  obtains n r ob where "map_of (cursors db) (cust_of r) = Some n" "rc_seq r = n + 1" "rid_of r = (rk_tenant key, rk_app key, te_insert e)"
    "receipts db' = receipts db @ [r]" "cursors db' = AList.update (cust_of r) (n + 1) (cursors db)"
    "rid_of r \<notin> set (map rid_of (receipts db))" "outbox db' = outbox (insert_outbox ob db)"
    "ob_tenant ob = rc_tenant r" "ob_app ob = rc_app r" "ob_key ob = ''event.ingest:'' @ rc_insert r" "ob_event ob = r"
proof -
  let ?uid = "map_get_or ids [] (identityKey e)"
  let ?cust = "(rk_tenant key, rk_app key, ?uid)"
  obtain n where n: "map_of (cursors db) ?cust = Some n" using assms by (auto simp: register_event_def Let_def split: option.splits)
  define r where "r = \<lparr>rc_tenant = rk_tenant key, rc_app = rk_app key, rc_insert = te_insert e, rc_user = ?uid, rc_event = te_event e,
    rc_properties = (case te_properties e of None \<Rightarrow> [] | Some p \<Rightarrow> p), rc_client_ts = te_client_ts e,
    rc_received = received, rc_seq = n + 1, rc_device = device\<rparr>"
  define ob where "ob = \<lparr>ob_tenant = rk_tenant key, ob_app = rk_app key, ob_stream = ''stream:ingest'',
    ob_key = ''event.ingest:'' @ te_insert e, ob_request = rid, ob_api_key = rk_id key, ob_event = r\<rparr>"
  let ?db0 = "db\<lparr>cursors := AList.update ?cust (n + 1) (cursors db)\<rparr>"
  obtain db1 where i: "insert_receipt r ?db0 = Inr db1"
    and d: "db' = touch_user (rk_tenant key) (rk_app key) ?uid received (insert_outbox ob db1)"
    using assms n by (auto simp: register_event_def Let_def r_def ob_def split: sum.splits)
  have db1: "db1 = ?db0\<lparr>receipts := receipts db @ [r]\<rparr>" "rid_of r \<notin> set (map rid_of (receipts db))"
    using i by (auto simp: insert_receipt_def rid_of_def list_ex_iff split: if_splits)
  show thesis
    by (rule that [of r n ob]) (use n d db1 in \<open>simp_all add: cust_of_def rid_of_def r_def ob_def insert_outbox_def\<close>)
qed

lemma register_event_inv:
  assumes inv: "receipts_inv db" and reg: "register_event key rid device ids received e db = Inr db'"
  shows "receipts_inv db'"
  using reg
proof (rule register_event_InrE)
  fix n r ob
  assume a: "map_of (cursors db) (cust_of r) = Some n" "rc_seq r = n + 1" "receipts db' = receipts db @ [r]"
    "cursors db' = AList.update (cust_of r) (n + 1) (cursors db)" "rid_of r \<notin> set (map rid_of (receipts db))"
    "outbox db' = outbox (insert_outbox ob db)" "ob_tenant ob = rc_tenant r" "ob_app ob = rc_app r" "ob_key ob = ''event.ingest:'' @ rc_insert r"
  have ls: "last_seq db' c = (if c = cust_of r then n + 1 else last_seq db c)" for c
    using a(4) by (simp add: last_seq_def map_get_or_def update_conv')
  have n: "last_seq db (cust_of r) = n" using a(1) by (simp add: last_seq_def map_get_or_def)
  have "customer_seqs db' c = [1..<Suc (last_seq db' c)]" for c
  proof -
    have "customer_seqs db c = [1..<Suc (last_seq db c)]" using inv unfolding receipts_inv_def by blast
    then show ?thesis using a(2,3) n by (auto simp: customer_seqs_def ls)
  qed
  moreover have "has_job db' x" if "x \<in> set (receipts db')" for x
  proof -
    have "has_job (insert_outbox ob db) x"
      using that a(3,7-9) inv has_job_insert_outbox has_job_new by (fastforce simp: receipts_inv_def list_all_iff)
    then show ?thesis by (simp add: has_job_def a(6))
  qed
  ultimately show ?thesis using inv a(3,5) by (simp add: receipts_inv_def list_all_iff)
qed

lemma register_all_inv: "receipts_inv db \<Longrightarrow> register_all key rid device ids clock i es db = Inr db' \<Longrightarrow> receipts_inv db'"
  by (induction es arbitrary: i db) (auto split: sum.splits dest: register_event_inv)

lemma register_all_receipts:
  "register_all key rid device ids clock i es db = Inr db' \<Longrightarrow>
     \<exists>rs. receipts db' = receipts db @ rs \<and> map rid_of rs = map (\<lambda>e. (rk_tenant key, rk_app key, te_insert e)) es"
proof (induction es arbitrary: i db)
  case (Cons e es)
  then obtain db1 where db1: "register_event key rid device ids (clock i) e db = Inr db1" "register_all key rid device ids clock (Suc i) es db1 = Inr db'"
    by (auto split: sum.splits)
  obtain r where r: "receipts db1 = receipts db @ [r]" "rid_of r = (rk_tenant key, rk_app key, te_insert e)"
    using db1(1) by (rule register_event_InrE)
  obtain rs where "receipts db' = receipts db1 @ rs" "map rid_of rs = map (\<lambda>e. (rk_tenant key, rk_app key, te_insert e)) es"
    using Cons.IH [OF db1(2)] by blast
  then show ?case using r by (intro exI [of _ "r # rs"]) simp
qed simp

text \<open>Opening cursors does not move any number.\<close>

lemma last_seq_open:
  "map_get_or (open_cursor t a u cs) 0 c = map_get_or cs 0 c"
  by (auto simp: open_cursor_def map_has_def map_get_or_def update_conv' split: option.splits)

lemma last_seq_open_all: "map_get_or (fold (open_cursor t a) us cs) 0 c = map_get_or cs 0 c"
  by (induction us arbitrary: cs) (simp_all add: last_seq_open)

lemma opened: "u \<in> set us \<or> map_has cs (t, a, u) \<Longrightarrow> map_has (fold (open_cursor t a) us cs) (t, a, u)"
  by (induction us arbitrary: cs) (auto simp: open_cursor_def map_has_def update_conv')

lemma opened_inv:
  "receipts_inv (db\<lparr>users := us, cursors := fold (open_cursor t a) uids (cursors db)\<rparr>) = receipts_inv db"
  by (rule receipts_inv_cong) (simp_all add: last_seq_def last_seq_open_all)

section \<open>Batches\<close>

lemma update_fresh: "k \<notin> fst ` set xs \<Longrightarrow> AList.update k v xs = xs @ [(k, v)]"
  by (induction xs) auto

lemma unique_events_fold:
  "distinct (map fst m) \<Longrightarrow> (\<forall>(i, e) \<in> set m. te_insert e = i) \<Longrightarrow>
   (let u = foldl (\<lambda>m e. let i = map ascii_lower (te_insert e) in if map_has m i then m else AList.update i (e\<lparr>te_insert := i\<rparr>) m) m batch
    in distinct (map fst u) \<and> (\<forall>(i, e) \<in> set u. te_insert e = i) \<and> fst ` set u = fst ` set m \<union> (\<lambda>e. map ascii_lower (te_insert e)) ` set batch)"
proof (induction batch arbitrary: m)
  case (Cons e batch)
  let ?i = "map ascii_lower (te_insert e)"
  let ?m = "if map_has m ?i then m else AList.update ?i (e\<lparr>te_insert := ?i\<rparr>) m"
  have "distinct (map fst ?m) \<and> (\<forall>(i, e) \<in> set ?m. te_insert e = i) \<and> fst ` set ?m = insert ?i (fst ` set m)"
    using Cons.prems by (auto simp: update_fresh map_has_iff)
  then show ?case using Cons.IH [of ?m] by (simp add: Let_def)
qed simp

lemma unique_events_props:
  "distinct (map fst (unique_events batch))" "(i, e) \<in> set (unique_events batch) \<Longrightarrow> te_insert e = i"
  "fst ` set (unique_events batch) = (\<lambda>e. map ascii_lower (te_insert e)) ` set batch"
  using unique_events_fold [of "[]" batch] by (auto simp: unique_events_def Let_def)

definition fresh_events :: "resolved_key \<Rightarrow> track_body \<Rightarrow> ingest_db \<Rightarrow> (string \<times> track_event) list" where
  "fresh_events key body db = filter (\<lambda>(i, _). \<not> existing (rk_tenant key) (rk_app key) db i) (unique_events (tb_batch body))"

lemma map_te_insert: "map (\<lambda>x. te_insert (snd x)) (fresh_events key body db) = map fst (fresh_events key body db)"
  using unique_events_props(2) [of _ _ "tb_batch body"] by (auto simp: fresh_events_def)

text \<open>A successful attempt registers the fresh events and nothing else.\<close>

lemma persistOnce_InrE:
  assumes "persistOnce env key body rid db = Inr (n, db')"
  obtains (none) "ae_fault env = None" "fresh_events key body db = []" "n = 0" "db' = db"
  | (some) ids us where "ae_fault env = None" "n = length (fresh_events key body db)"
      "register_all key rid (tb_device body) ids (ae_clock env) 0 (map snd (fresh_events key body db))
         (db\<lparr>users := us, cursors := fold (open_cursor (rk_tenant key) (rk_app key)) (sort (js_uniq (map snd ids))) (cursors db)\<rparr>) = Inr db'"
      "fresh_events key body db \<noteq> []"
  using assms by (auto simp: persistOnce_def fresh_events_def Let_def split: option.splits if_splits sum.splits)

lemma persistOnce_inv:
  assumes inv: "receipts_inv db" and p: "persistOnce env key body rid db = Inr (n, db')"
  shows "receipts_inv db'"
  using p
proof (cases rule: persistOnce_InrE)
  case (some ids us)
  from _ some(3) show ?thesis by (rule register_all_inv) (use inv in \<open>simp only: opened_inv\<close>)
qed (use inv in simp)

lemma persistOnce_receipts:
  assumes "persistOnce env key body rid db = Inr (n, db')"
  shows "\<exists>rs. receipts db' = receipts db @ rs \<and> length rs = n \<and>
    map rid_of rs = map (\<lambda>x. (rk_tenant key, rk_app key, fst x)) (fresh_events key body db)"
  using assms
proof (cases rule: persistOnce_InrE)
  case (some ids us)
  obtain rs where rs: "receipts db' = receipts db @ rs"
      "map rid_of rs = map (\<lambda>e. (rk_tenant key, rk_app key, te_insert e)) (map snd (fresh_events key body db))"
    using register_all_receipts [OF some(3)] by auto
  then have "map rid_of rs = map (\<lambda>i. (rk_tenant key, rk_app key, i)) (map (\<lambda>x. te_insert (snd x)) (fresh_events key body db))" by simp
  then have m: "map rid_of rs = map (\<lambda>x. (rk_tenant key, rk_app key, fst x)) (fresh_events key body db)"
    unfolding map_te_insert by simp
  have "length rs = length (map rid_of rs)" by simp
  also have "\<dots> = n" unfolding m using some(2) by simp
  finally show ?thesis using rs(1) m by blast
qed auto

lemma existing_iff: "existing t a db i \<longleftrightarrow> (t, a, i) \<in> rid_of ` set (receipts db)"
  by (auto simp: existing_def list_ex_iff rid_of_def image_iff)

lemma persistOnce_covers:
  assumes "persistOnce env key body rid db = Inr (n, db')" "e \<in> set (tb_batch body)"
  shows "existing (rk_tenant key) (rk_app key) db' (map ascii_lower (te_insert e))"
proof -
  let ?i = "map ascii_lower (te_insert e)"
  obtain rs where rs: "receipts db' = receipts db @ rs" "map rid_of rs = map (\<lambda>x. (rk_tenant key, rk_app key, fst x)) (fresh_events key body db)"
    using persistOnce_receipts [OF assms(1)] by blast
  have "?i \<in> fst ` set (unique_events (tb_batch body))" using assms(2) by (simp add: unique_events_props(3))
  then have "existing (rk_tenant key) (rk_app key) db ?i \<or> ?i \<in> fst ` set (fresh_events key body db)"
    by (auto simp: fresh_events_def)
  moreover have "rid_of ` set rs = (\<lambda>x. (rk_tenant key, rk_app key, fst x)) ` set (fresh_events key body db)"
    using arg_cong [OF rs(2), of set] by simp
  ultimately show ?thesis unfolding existing_iff rs(1) by auto
qed

section \<open>Attempts\<close>

lemma persist_from_cases:
  "(\<exists>db0 n. fst (persist_from envs key body rid k db) = Inr n \<and> (\<exists>us. db0 = db\<lparr>users := us\<rparr>) \<and>
      (\<exists>j. persistOnce (envs j) key body rid db0 = Inr (n, snd (persist_from envs key body rid k db)))) \<or>
   (\<exists>err us j. fst (persist_from envs key body rid k db) = Inl err \<and> snd (persist_from envs key body rid k db) = db\<lparr>users := us\<rparr> \<and>
      (\<exists>us'. persistOnce (envs j) key body rid (db\<lparr>users := us'\<rparr>) = Inl err))"
proof (induction envs key body rid k db rule: persist_from.induct)
  case (1 envs key body rid k db)
  let ?p = "persistOnce (envs k) key body rid db" and ?db1 = "db\<lparr>users := ae_drift (envs k) (users db)\<rparr>"
  show ?case
  proof (cases ?p)
    case (Inr x)
    then have "persist_from envs key body rid k db = (Inr (fst x), snd x)" by (subst persist_from.simps) (simp split: prod.split)
    then show ?thesis using Inr by (intro disjI1 exI [of _ db] exI [of _ "fst x"]) (auto intro!: exI [of _ "users db"] exI [of _ k])
  next
    case (Inl err)
    show ?thesis
    proof (cases "2 \<le> k \<or> \<not> retryable err")
      case True
      then have "persist_from envs key body rid k db = (Inl err, ?db1)" using Inl by (subst persist_from.simps) simp
      moreover have "persistOnce (envs k) key body rid (db\<lparr>users := users db\<rparr>) = Inl err" using Inl by simp
      ultimately show ?thesis
        by (intro disjI2 exI [of _ err] exI [of _ "ae_drift (envs k) (users db)"] exI [of _ k] conjI exI [of _ "users db"]) simp_all
    next
      case False
      then have eq: "persist_from envs key body rid k db = persist_from envs key body rid (k + 1) ?db1"
        using Inl by (subst persist_from.simps) simp
      show ?thesis using 1 [OF Inl refl False] unfolding eq by simp
    qed
  qed
qed

type_synonym track_request = "(nat \<Rightarrow> attempt_env) \<times> resolved_key \<times> track_body \<times> string"

definition track_step :: "track_request \<Rightarrow> ingest_db \<Rightarrow> ingest_db" where
  "track_step r db = (case r of (envs, key, body, rid) \<Rightarrow> snd (persistTrackReceipts envs key body rid db))"

lemma users_inv: "receipts_inv (db\<lparr>users := us\<rparr>) = receipts_inv db"
  by (rule receipts_inv_cong) (simp_all add: last_seq_def)

lemma existing_users [simp]: "existing t a (db\<lparr>users := us\<rparr>) i = existing t a db i"
  by (simp add: existing_def)

lemma fresh_users [simp]: "fresh_events key body (db\<lparr>users := us\<rparr>) = fresh_events key body db"
  by (simp add: fresh_events_def)

lemma persist_cases:
  obtains (ok) n us j where "fst (persistTrackReceipts envs key body rid db) = Inr n"
      "persistOnce (envs j) key body rid (db\<lparr>users := us\<rparr>) = Inr (n, snd (persistTrackReceipts envs key body rid db))"
  | (failed) err us us' j where "fst (persistTrackReceipts envs key body rid db) = Inl err"
      "snd (persistTrackReceipts envs key body rid db) = db\<lparr>users := us\<rparr>" "persistOnce (envs j) key body rid (db\<lparr>users := us'\<rparr>) = Inl err"
  using persist_from_cases [of envs key body rid 0 db] unfolding persistTrackReceipts_def by blast

lemma track_step_inv: "receipts_inv db \<Longrightarrow> receipts_inv (track_step r db)"
proof -
  assume inv: "receipts_inv db"
  obtain envs key body rid where r: "r = (envs, key, body, rid)" by (cases r)
  show ?thesis
  proof (cases rule: persist_cases [of envs key body rid db, case_names ok failed])
    case (ok n us j)
    show ?thesis using persistOnce_inv [OF _ ok(2)] inv by (simp add: r track_step_def users_inv)
  next
    case (failed err us us' j)
    then show ?thesis using inv by (simp add: r track_step_def users_inv)
  qed
qed

interpretation tracking: invariant_system track_step receipts_inv
  by unfold_locales (rule track_step_inv)

lemma track_step_existing: "existing t a db i \<Longrightarrow> existing t a (track_step r db) i"
proof -
  assume ex: "existing t a db i"
  obtain envs key body rid where r: "r = (envs, key, body, rid)" by (cases r)
  show ?thesis
  proof (cases rule: persist_cases [of envs key body rid db, case_names ok failed])
    case (ok n us j)
    then show ?thesis using ex persistOnce_receipts [OF ok(2)] by (auto simp: r track_step_def existing_iff)
  next
    case (failed err us us' j)
    then show ?thesis using ex by (simp add: r track_step_def)
  qed
qed

lemma run_existing: "existing t a db i \<Longrightarrow> existing t a (fold track_step rs db) i"
  by (induction rs arbitrary: db) (simp_all add: track_step_existing)

section \<open>Which errors remain\<close>

lemma resolve_all_covers:
  "resolve_all env t a es ids us = Inr (ids', us') \<Longrightarrow> (\<forall>k. map_has ids k \<longrightarrow> map_has ids' k) \<and> (\<forall>e \<in> set es. map_has ids' (identityKey e))"
proof (induction env t a es ids us rule: resolve_all.induct)
  case (2 env t a e es ids us)
  show ?case
  proof (cases "map_has ids (identityKey e)")
    case True
    then show ?thesis using 2 by simp
  next
    case False
    then obtain uid us1 where "resolveUser env t a e us = Inr (uid, us1)"
        "resolve_all env t a es (AList.update (identityKey e) uid ids) us1 = Inr (ids', us')"
      using 2(3) by (auto split: sum.splits)
    then show ?thesis using 2(2) [OF False] by (fastforce simp: map_has_iff fst_set_update)
  qed
qed simp

lemma resolveUser_error: "resolveUser env t a e us = Inl err \<Longrightarrow> err = IdentityChanged \<or> err = MissingIdentity"
  unfolding resolveUser_def Let_def by (simp split: if_splits option.splits sum.splits)

lemma resolve_all_error: "resolve_all env t a es ids us = Inl err \<Longrightarrow> err = IdentityChanged \<or> err = MissingIdentity"
proof (induction es arbitrary: ids us)
  case (Cons e es)
  then show ?case
    by (cases "map_has ids (identityKey e)"; cases "resolveUser env t a e us") (auto dest: resolveUser_error)
qed simp

text \<open>With an open cursor and a new insert id, registering an event cannot fail.\<close>

lemma register_event_ok:
  assumes "receipts_inv db" "map_has (cursors db) (rk_tenant key, rk_app key, map_get_or ids [] (identityKey e))"
    "\<not> existing (rk_tenant key) (rk_app key) db (te_insert e)"
  shows "\<exists>db'. register_event key rid device ids received e db = Inr db'"
proof -
  let ?c = "(rk_tenant key, rk_app key, map_get_or ids [] (identityKey e))"
  obtain n where n: "map_of (cursors db) ?c = Some n" using assms(2) by (auto simp: map_has_def)
  have "customer_seqs db ?c = [1..<Suc n]"
    using assms(1) n unfolding receipts_inv_def by (simp add: last_seq_def map_get_or_def)
  then have "set (customer_seqs db ?c) = {1..<Suc n}" by (simp only: set_upt)
  then have "rc_seq x \<noteq> n + 1" if "x \<in> set (receipts db)" "cust_of x = ?c" for x
    using that by (force simp: customer_seqs_def)
  then show ?thesis
    using n assms(3) by (auto simp: register_event_def insert_receipt_def existing_def list_ex_iff cust_of_def Let_def split: sum.split)
qed

lemma register_all_ok:
  assumes "receipts_inv db" "distinct (map te_insert es)"
    "\<forall>e \<in> set es. map_has (cursors db) (rk_tenant key, rk_app key, map_get_or ids [] (identityKey e)) \<and>
       \<not> existing (rk_tenant key) (rk_app key) db (te_insert e)"
  shows "\<exists>db'. register_all key rid device ids clock i es db = Inr db'"
  using assms
proof (induction es arbitrary: i db)
  case (Cons e es)
  then obtain db1 where db1: "register_event key rid device ids (clock i) e db = Inr db1" using register_event_ok [of db key ids e rid device "clock i"] by auto
  have "receipts_inv db1" using Cons.prems(1) db1 by (rule register_event_inv)
  moreover have "map_has (cursors db1) (rk_tenant key, rk_app key, map_get_or ids [] (identityKey e')) \<and>
      \<not> existing (rk_tenant key) (rk_app key) db1 (te_insert e')" if e': "e' \<in> set es" for e'
    using db1
  proof (rule register_event_InrE)
    fix n r ob
    assume "rid_of r = (rk_tenant key, rk_app key, te_insert e)" "receipts db1 = receipts db @ [r]"
      "cursors db1 = AList.update (cust_of r) (n + 1) (cursors db)"
    moreover have "te_insert e' \<noteq> te_insert e" using Cons.prems(2) imageI [OF e', of te_insert] by auto
    ultimately show ?thesis using Cons.prems(3) e' by (auto simp: existing_iff map_has_iff fst_set_update)
  qed
  ultimately show ?case using Cons.IH [of db1 "Suc i"] Cons.prems(2) db1 by auto
qed simp

lemma persistOnce_error:
  assumes inv: "receipts_inv db" and ord: "\<And>xs. set (ae_order env xs) = set xs" and p: "persistOnce env key body rid db = Inl err"
  shows "err \<in> {IdentityChanged, MissingIdentity} \<or> (\<exists>code. ae_fault env = Some code \<and> err = DbError code)"
proof (cases "ae_fault env")
  case None
  let ?f = "fresh_events key body db"
  let ?r = "resolve_all env (rk_tenant key) (rk_app key) (ae_order env (map snd ?f)) [] (users db)"
  show ?thesis
  proof (cases ?r)
    case (Inl e)
    then show ?thesis using p None resolve_all_error [OF Inl] by (auto simp: persistOnce_def fresh_events_def Let_def split: if_splits)
  next
    case (Inr x)
    obtain ids us where r: "?r = Inr (ids, us)" using Inr by (cases x) auto
    let ?db = "db\<lparr>users := ae_drift env us, cursors := fold (open_cursor (rk_tenant key) (rk_app key)) (sort (js_uniq (map snd ids))) (cursors db)\<rparr>"
    have "map_has (cursors ?db) (rk_tenant key, rk_app key, map_get_or ids [] (identityKey e)) \<and> \<not> existing (rk_tenant key) (rk_app key) ?db (te_insert e)"
      if e: "e \<in> set (map snd ?f)" for e
    proof -
      have "map_has ids (identityKey e)" using resolve_all_covers [OF r] ord e by auto
      then have "map_get_or ids [] (identityKey e) \<in> set (map snd ids)" by (force simp: map_has_def map_get_or_def dest: map_of_SomeD)
      moreover have "\<not> existing (rk_tenant key) (rk_app key) db (te_insert e)"
        using e unique_events_props(2) [of _ e "tb_batch body"] by (auto simp: fresh_events_def)
      ultimately show ?thesis by (simp add: opened existing_def)
    qed
    moreover have "distinct (map te_insert (map snd ?f))"
      by (simp only: map_map comp_def map_te_insert) (simp add: fresh_events_def distinct_map_filter unique_events_props(1))
    ultimately obtain db' where "register_all key rid (tb_device body) ids (ae_clock env) 0 (map snd ?f) ?db = Inr db'"
      using register_all_ok [of ?db "map snd ?f" key ids] opened_inv inv by blast
    then show ?thesis
      using p None r by (auto simp: persistOnce_def fresh_events_def [symmetric] Let_def split: if_splits)
  qed
qed (use p in \<open>simp add: persistOnce_def\<close>)

section \<open>Properties\<close>

text \<open>
  C28: the event log is gap-free and duplicate-free. Whatever track requests were processed, with whatever faults, retries and concurrent
  changes of customers, an insert id has at most one receipt per app, the receipts of every customer carry the numbers 1, 2, 3, ... in
  the order they were written up to the customer's cursor, and every receipt has its projection job.
\<close>

theorem receipts_numbered:
  "receipts_inv (fold track_step rs \<lparr>users = us, cursors = [], receipts = [], outbox = []\<rparr>)"
  by (rule tracking.run_inv) (simp add: receipts_inv_def customer_seqs_def last_seq_def map_get_or_def)

text \<open>
  C29: an acknowledged batch is durable and a refused one leaves no trace. If the request is accepted, every event of the batch has a
  receipt and a projection job, and the reported number counts the new receipts; if it fails, receipts, cursors and jobs are as before.
\<close>

theorem accepted_batch_durable:
  assumes "receipts_inv db" and "persistTrackReceipts envs key body rid db = (res, db')"
  shows "case res of
      Inr n \<Rightarrow> list_all (\<lambda>e. list_ex (\<lambda>r. rid_of r = (rk_tenant key, rk_app key, map ascii_lower (te_insert e)) \<and> has_job db' r) (receipts db'))
                 (tb_batch body) \<and> receipts db' = receipts db @ drop (length (receipts db)) (receipts db') \<and> length (receipts db') = length (receipts db) + n
    | Inl _ \<Rightarrow> receipts db' = receipts db \<and> cursors db' = cursors db \<and> outbox db' = outbox db"
proof (cases rule: persist_cases [of envs key body rid db, case_names ok failed])
  case (ok n us j)
  have p: "persistOnce (envs j) key body rid (db\<lparr>users := us\<rparr>) = Inr (n, db')" "res = Inr n" using ok assms(2) by simp_all
  have inv: "receipts_inv db'" using persistOnce_inv [OF _ p(1)] assms(1) by (simp add: users_inv)
  have "list_all (\<lambda>e. list_ex (\<lambda>r. rid_of r = (rk_tenant key, rk_app key, map ascii_lower (te_insert e)) \<and> has_job db' r) (receipts db')) (tb_batch body)"
    using persistOnce_covers [OF p(1)] inv by (fastforce simp: list_all_iff list_ex_iff existing_iff receipts_inv_def)
  then show ?thesis using persistOnce_receipts [OF p(1)] p(2) by auto
next
  case (failed err us us' j)
  then show ?thesis using assms(2) by simp
qed

text \<open>
  Retries keep the first receipt. After a batch was accepted, and whatever was tracked since, sending events with the same insert
  ids again, even with other content, identities or request ids, changes neither receipts nor cursors nor jobs; the answer is success
  with nothing new unless the database itself fails.
\<close>

theorem retry_keeps_first_receipt:
  assumes "persistTrackReceipts envs key body rid db = (Inr n, db1)" and "rk_tenant key' = rk_tenant key" and "rk_app key' = rk_app key"
    and "(\<lambda>e. map ascii_lower (te_insert e)) ` set (tb_batch body') \<subseteq> (\<lambda>e. map ascii_lower (te_insert e)) ` set (tb_batch body)"
    and "persistTrackReceipts envs' key' body' rid' (fold track_step rs db1) = (res, db2)"
  shows "receipts db2 = receipts (fold track_step rs db1) \<and> cursors db2 = cursors (fold track_step rs db1) \<and>
    outbox db2 = outbox (fold track_step rs db1) \<and> (res = Inr 0 \<or> (\<exists>code. res = Inl (DbError code)))"
proof -
  let ?db = "fold track_step rs db1"
  obtain us j where p: "persistOnce (envs j) key body rid (db\<lparr>users := us\<rparr>) = Inr (n, db1)"
    by (cases rule: persist_cases [of envs key body rid db]) (use assms(1) in auto)
  have ex: "existing (rk_tenant key') (rk_app key') ?db (map ascii_lower (te_insert e))" if e: "e \<in> set (tb_batch body')" for e
  proof -
    obtain e0 where "e0 \<in> set (tb_batch body)" "map ascii_lower (te_insert e) = map ascii_lower (te_insert e0)" using assms(4) e by blast
    then show ?thesis using persistOnce_covers [OF p] run_existing assms(2,3) by simp
  qed
  have f: "fresh_events key' body' ?db = []"
  proof -
    have "existing (rk_tenant key') (rk_app key') ?db (fst x)" if "x \<in> set (unique_events (tb_batch body'))" for x
    proof -
      have "fst x \<in> (\<lambda>e. map ascii_lower (te_insert e)) ` set (tb_batch body')"
        using imageI [OF that, of fst] by (simp only: unique_events_props(3))
      then show ?thesis using ex by auto
    qed
    then show ?thesis by (auto simp: fresh_events_def filter_empty_conv)
  qed
  show ?thesis
  proof (cases rule: persist_cases [of envs' key' body' rid' ?db, case_names ok failed])
    case (ok m us' k)
    from ok(2) show ?thesis
      by (cases rule: persistOnce_InrE) (use ok(1) assms(5) f in auto)
  next
    case (failed err us' us'' k)
    then have "\<exists>code. err = DbError code" using f by (auto simp: persistOnce_def fresh_events_def Let_def split: option.splits)
    then show ?thesis using failed assms(5) by auto
  qed
qed

text \<open>
  the defensive errors cannot happen. As long as sorting only reorders, an attempt fails with nothing but a changed or missing
  identity or a fault of the database: the missing-cursor error and unique violations of the receipts are unreachable.
\<close>

theorem receipt_errors_expected:
  assumes "receipts_inv db" and "\<And>xs. set (ae_order env xs) = set xs" and "persistOnce env key body rid db = Inl err"
  shows "err \<in> {IdentityChanged, MissingIdentity} \<or> (\<exists>code. ae_fault env = Some code \<and> err = DbError code)"
  using assms by (rule persistOnce_error)

section \<open>Witnesses\<close>

definition calm :: attempt_env where
  "calm = \<lparr>ae_order = (\<lambda>xs. xs), ae_user_id = (\<lambda>k. ''u-'' @ k), ae_drift = (\<lambda>us. us), ae_clock = int, ae_fault = None\<rparr>"

definition sample_sdk_key :: resolved_key where
  "sample_sdk_key = \<lparr>rk_id = ''k'', rk_tenant = ''t'', rk_app = ''a'', rk_kind = Sdk, rk_scope = Full\<rparr>"

definition sample_event :: "string \<Rightarrow> string \<Rightarrow> track_event" where
  "sample_event i who = \<lparr>te_insert = i, te_anon = None, te_external = Some who, te_event = ''open'', te_properties = None, te_client_ts = ''now''\<rparr>"

definition sample_body :: track_body where
  "sample_body = \<lparr>tb_batch = [sample_event ''AB'' ''ann'', sample_event ''ab'' ''bob'', sample_event ''cd'' ''ann''], tb_device = None\<rparr>"

definition empty_ingest :: ingest_db where
  "empty_ingest = \<lparr>users = [], cursors = [], receipts = [], outbox = []\<rparr>"

definition sample_tracked :: ingest_db where
  "sample_tracked = snd (persistTrackReceipts (\<lambda>_. calm) sample_sdk_key sample_body ''r1'' empty_ingest)"

lemma empty_ingest_inv: "receipts_inv empty_ingest"
  by (simp add: empty_ingest_def receipts_inv_def customer_seqs_def last_seq_def map_get_or_def)

lemma sample_tracked_eq: "persistTrackReceipts (\<lambda>_. calm) sample_sdk_key sample_body ''r1'' empty_ingest = (Inr 2, sample_tracked)"
proof -
  have "fst (persistTrackReceipts (\<lambda>_. calm) sample_sdk_key sample_body ''r1'' empty_ingest) = Inr 2" by code_simp
  then show ?thesis unfolding sample_tracked_def by (metis prod.collapse)
qed

lemma accepted_batch_durable_witness: "length (receipts sample_tracked) = 2"
  using accepted_batch_durable [OF empty_ingest_inv sample_tracked_eq] by (simp add: empty_ingest_def)

lemma retry_keeps_first_receipt_witness:
  "\<exists>res db2. persistTrackReceipts (\<lambda>_. calm) sample_sdk_key \<lparr>tb_batch = [sample_event ''Ab'' ''eve''], tb_device = None\<rparr> ''r2'' sample_tracked = (res, db2) \<and>
     receipts db2 = receipts sample_tracked"
proof -
  obtain res db2 where p: "persistTrackReceipts (\<lambda>_. calm) sample_sdk_key \<lparr>tb_batch = [sample_event ''Ab'' ''eve''], tb_device = None\<rparr> ''r2'' (fold track_step [] sample_tracked) = (res, db2)"
    by (cases "persistTrackReceipts (\<lambda>_. calm) sample_sdk_key \<lparr>tb_batch = [sample_event ''Ab'' ''eve''], tb_device = None\<rparr> ''r2'' (fold track_step [] sample_tracked)")
  have "(\<lambda>e. map ascii_lower (te_insert e)) ` set [sample_event ''Ab'' ''eve''] \<subseteq> (\<lambda>e. map ascii_lower (te_insert e)) ` set (tb_batch sample_body)"
    by code_simp
  then have "receipts db2 = receipts sample_tracked"
    using retry_keeps_first_receipt [OF sample_tracked_eq refl refl _ p] by simp
  then show ?thesis using p by auto
qed

lemma receipt_errors_expected_witness:
  "persistOnce (calm\<lparr>ae_fault := Some ''40001''\<rparr>) sample_sdk_key sample_body ''r1'' empty_ingest = Inl (DbError ''40001'') \<and>
   (DbError ''40001'' \<in> {IdentityChanged, MissingIdentity} \<or> (\<exists>code. ae_fault (calm\<lparr>ae_fault := Some ''40001''\<rparr>) = Some code \<and> DbError ''40001'' = DbError code))"
proof -
  have p: "persistOnce (calm\<lparr>ae_fault := Some ''40001''\<rparr>) sample_sdk_key sample_body ''r1'' empty_ingest = Inl (DbError ''40001'')"
    by (simp add: persistOnce_def)
  show ?thesis using p receipt_errors_expected [OF empty_ingest_inv _ p] by (simp add: calm_def)
qed

end
