(* ===== verification/Ingestion.thy ===== *)
theory Ingestion
  imports Event_Receipts Rate_Limit Totp_Codes
begin

text \<open>
  The ingestion API (\<open>ingestion/schemas.ts\<close>, \<open>ingestion/ingestion.service.ts\<close>, \<open>ingestion/track.controller.ts\<close>) and the
  queue producer it publishes through (\<open>libqueue-ts/src/producer.ts\<close>): validation of the bodies, the key guard and the rate
  limit in front of every endpoint, the durable registration of tracked events and the messages of the other endpoints. The UUID and
  time formats of zod, the length of a value's JSON text and the compiled JSON schemas of the queue are arguments, as are the failures
  of Redis.
\<close>

section \<open>Schemas\<close>

definition strict :: "string list \<Rightarrow> jsval \<Rightarrow> bool" where
  "strict ks b \<longleftrightarrow> is_object b \<and> set (js_keys b) \<subseteq> set ks"

text \<open>\<open>.nullable().optional()\<close>\<close>

definition z_nullish :: "(jsval option \<Rightarrow> 'a option) \<Rightarrow> jsval option \<Rightarrow> 'a option option" where
  "z_nullish p v = (case v of None \<Rightarrow> Some None | Some JNull \<Rightarrow> Some None | Some w \<Rightarrow> map_option Some (p (Some w)))"

definition z_checked :: "(string \<Rightarrow> bool) \<Rightarrow> jsval option \<Rightarrow> string option" where
  "z_checked ok v = (case v of Some (JStr s) \<Rightarrow> (if ok s then Some s else None) | _ \<Rightarrow> None)"

definition z_record :: "jsval option \<Rightarrow> jsobj option" where
  "z_record v = (case v of Some (JObj fs) \<Rightarrow> Some fs | _ \<Rightarrow> None)"

definition deviceSchema :: "(string \<Rightarrow> bool) \<Rightarrow> jsval option \<Rightarrow> jsval option" where
  "deviceSchema is_uuid v =
     (case v of
        None \<Rightarrow> None
      | Some d \<Rightarrow>
          if strict [''device_id'', ''platform'', ''app_version'', ''os_version'', ''model'', ''locale''] d \<and>
             z_checked is_uuid (js_get d ''device_id'') \<noteq> None \<and>
             z_checked (\<lambda>s. s \<in> {''ios'', ''android''}) (js_get d ''platform'') \<noteq> None \<and>
             z_optional (z_string 0 64) (js_get d ''app_version'') \<noteq> None \<and>
             z_optional (z_string 0 64) (js_get d ''os_version'') \<noteq> None \<and>
             z_optional (z_string 0 128) (js_get d ''model'') \<noteq> None \<and>
             z_optional (z_string 0 32) (js_get d ''locale'') \<noteq> None
          then Some d else None)"

text \<open>\<open>.refine((e) => e.anon_id || e.external_id)\<close>\<close>

definition has_identity :: "string option \<Rightarrow> string option \<Rightarrow> bool" where
  "has_identity anon external \<longleftrightarrow> nonempty anon \<or> nonempty external"

definition trackEventSchema :: "(string \<Rightarrow> bool) \<Rightarrow> (string \<Rightarrow> bool) \<Rightarrow> jsval \<Rightarrow> track_event option" where
  "trackEventSchema is_uuid is_datetime e =
     (if \<not> strict [''insert_id'', ''anon_id'', ''external_id'', ''event'', ''properties'', ''client_ts''] e then None
      else case (z_checked is_uuid (js_get e ''insert_id''), z_nullish (z_checked is_uuid) (js_get e ''anon_id''),
                 z_nullish (z_string 1 256) (js_get e ''external_id''), z_string 1 128 (js_get e ''event''),
                 z_optional z_record (js_get e ''properties''), z_checked is_datetime (js_get e ''client_ts'')) of
             (Some i, Some a, Some x, Some n, Some p, Some t) \<Rightarrow>
               if has_identity a x
               then Some \<lparr>te_insert = i, te_anon = a, te_external = x, te_event = n, te_properties = p, te_client_ts = t\<rparr>
               else None
           | _ \<Rightarrow> None)"

definition z_array :: "nat \<Rightarrow> nat \<Rightarrow> (jsval \<Rightarrow> 'a option) \<Rightarrow> jsval option \<Rightarrow> 'a list option" where
  "z_array lo hi p v =
     (case v of
        Some (JArr xs) \<Rightarrow>
          if lo \<le> length xs \<and> length xs \<le> hi \<and> list_all (\<lambda>x. p x \<noteq> None) xs then Some (map (\<lambda>x. the (p x)) xs) else None
      | _ \<Rightarrow> None)"

definition trackBodySchema :: "(string \<Rightarrow> bool) \<Rightarrow> (string \<Rightarrow> bool) \<Rightarrow> jsval \<Rightarrow> track_body option" where
  "trackBodySchema is_uuid is_datetime b =
     (if \<not> strict [''batch'', ''device''] b then None
      else case (z_array 1 100 (trackEventSchema is_uuid is_datetime) (js_get b ''batch''), z_optional (deviceSchema is_uuid) (js_get b ''device'')) of
             (Some es, Some d) \<Rightarrow> Some \<lparr>tb_batch = es, tb_device = d\<rparr>
           | _ \<Rightarrow> None)"

definition attributesRecordSchema :: "(jsval \<Rightarrow> nat) \<Rightarrow> jsval option \<Rightarrow> jsobj option" where
  "attributesRecordSchema json_length v =
     (case z_record v of
        None \<Rightarrow> None
      | Some fs \<Rightarrow>
          if list_all (\<lambda>(k, x). 1 \<le> utf16_length k \<and> utf16_length k \<le> 128 \<and> (x = JNull \<or> json_length x \<le> 1024)) fs then Some fs else None)"

datatype payload =
    PIdentify string "string option" "jsobj option" "jsval option"
  | PAttributes "(string \<times> jsobj) list"
  | PToken jsval string "string option" "string option" "string option"
  | PSubscription string string "string option" "string option"
  | PLogout string
  | PUserDelete string

definition identifyBodySchema :: "(string \<Rightarrow> bool) \<Rightarrow> (jsval \<Rightarrow> nat) \<Rightarrow> jsval \<Rightarrow> payload option" where
  "identifyBodySchema is_uuid json_length b =
     (if \<not> strict [''external_id'', ''anon_id'', ''attributes'', ''device''] b then None
      else case (z_string 1 256 (js_get b ''external_id''), z_nullish (z_checked is_uuid) (js_get b ''anon_id''),
                 z_optional (attributesRecordSchema json_length) (js_get b ''attributes''), z_optional (deviceSchema is_uuid) (js_get b ''device'')) of
             (Some x, Some a, Some ats, Some d) \<Rightarrow> Some (PIdentify x a ats d)
           | _ \<Rightarrow> None)"

definition attributesUpdateSchema :: "(jsval \<Rightarrow> nat) \<Rightarrow> jsval \<Rightarrow> (string \<times> jsobj) option" where
  "attributesUpdateSchema json_length u =
     (if \<not> strict [''external_id'', ''attributes''] u then None
      else case (z_string 1 256 (js_get u ''external_id''), attributesRecordSchema json_length (js_get u ''attributes'')) of
             (Some x, Some ats) \<Rightarrow> Some (x, ats) | _ \<Rightarrow> None)"

definition attributesBodySchema :: "(jsval \<Rightarrow> nat) \<Rightarrow> jsval \<Rightarrow> payload option" where
  "attributesBodySchema json_length b =
     (if \<not> strict [''updates''] b then None else map_option PAttributes (z_array 1 100 (attributesUpdateSchema json_length) (js_get b ''updates'')))"

definition os_permission_map :: "(string \<times> string) list" where
  "os_permission_map = [(''granted'', ''granted''), (''authorized'', ''granted''), (''provisional'', ''granted''), (''ephemeral'', ''granted''),
     (''denied'', ''denied''), (''undetermined'', ''undetermined''), (''notdetermined'', ''undetermined'')]"

definition osPermissionSchema :: "jsval option \<Rightarrow> string option option" where
  "osPermissionSchema v =
     z_optional (\<lambda>w. case w of
        Some (JStr s) \<Rightarrow>
          (let n = map_get_or os_permission_map s (remove_seqs (js_ws @ [''_'', ''-'']) (map ascii_lower s))
           in if n \<in> {''granted'', ''denied'', ''undetermined''} then Some n else None)
      | _ \<Rightarrow> None) v"

definition tokenBodySchema :: "(string \<Rightarrow> bool) \<Rightarrow> jsval \<Rightarrow> payload option" where
  "tokenBodySchema is_uuid b =
     (if \<not> strict [''device'', ''push_token'', ''os_permission'', ''anon_id'', ''external_id''] b then None
      else case (deviceSchema is_uuid (js_get b ''device''), z_string 1 4096 (js_get b ''push_token''), osPermissionSchema (js_get b ''os_permission''),
                 z_nullish (z_checked is_uuid) (js_get b ''anon_id''), z_nullish (z_string 1 256) (js_get b ''external_id'')) of
             (Some d, Some t, Some p, Some a, Some x) \<Rightarrow> if has_identity a x then Some (PToken d t p a x) else None
           | _ \<Rightarrow> None)"

definition subscriptionBodySchema :: "(string \<Rightarrow> bool) \<Rightarrow> jsval \<Rightarrow> payload option" where
  "subscriptionBodySchema is_uuid b =
     (if \<not> strict [''channel'', ''state'', ''anon_id'', ''external_id''] b then None
      else case ((if js_get b ''channel'' = None then Some ''push'' else z_checked (\<lambda>s. s = ''push'') (js_get b ''channel'')),
                 z_checked (\<lambda>s. s \<in> {''opted_in'', ''unsubscribed''}) (js_get b ''state''),
                 z_nullish (z_checked is_uuid) (js_get b ''anon_id''), z_nullish (z_string 1 256) (js_get b ''external_id'')) of
             (Some c, Some st, Some a, Some x) \<Rightarrow> if has_identity a x then Some (PSubscription c st a x) else None
           | _ \<Rightarrow> None)"

definition logoutBodySchema :: "(string \<Rightarrow> bool) \<Rightarrow> jsval \<Rightarrow> payload option" where
  "logoutBodySchema is_uuid b =
     (if \<not> strict [''device_id''] b then None else map_option PLogout (z_checked is_uuid (js_get b ''device_id'')))"

section \<open>Queue\<close>

record envelope_msg =
  mg_stream :: string
  mg_type :: string
  mg_tenant :: string
  mg_app :: string
  mg_endpoint :: string
  mg_request :: string
  mg_key :: string
  mg_payload :: payload

record ingest_env =
  ie_hash :: "string \<Rightarrow> string"
  ie_now :: int
  ie_limits :: limits
  ie_uuid :: "string \<Rightarrow> bool"
  ie_datetime :: "string \<Rightarrow> bool"
  ie_json_length :: "jsval \<Rightarrow> nat"
  ie_valid :: "envelope_msg \<Rightarrow> bool"
  ie_redis_ok :: bool
  ie_attempts :: "nat \<Rightarrow> attempt_env"
  ie_request_id :: string

record ingest_state =
  is_auth :: auth_db
  is_redis :: redis
  is_db :: ingest_db
  is_queue :: "envelope_msg list"
  is_raw :: "(string \<times> string \<times> string \<times> jsval) list"

text \<open>\<open>QueueProducer.publish\<close>: validation of envelope and payload, then \<open>XADD\<close>\<close>

definition publish :: "ingest_env \<Rightarrow> envelope_msg \<Rightarrow> ingest_state \<Rightarrow> (ingest_state, unit) reply" where
  "publish env m s =
     (if \<not> ie_valid env m then (Inl (Internal ''EnvelopeValidationError''), s)
      else if \<not> ie_redis_ok env then (Inl (Internal ''redis''), s)
      else (Inr (), s\<lparr>is_queue := is_queue s @ [m]\<rparr>))"

section \<open>Service\<close>

text \<open>
  \<open>insertRaw\<close> is scheduled in the background; \<open>is_raw\<close> are the rows handed to it. Replies carry the number of accepted items (1 where
  the source reports none); the request id is \<open>ie_request_id\<close>.
\<close>

definition insertRaw :: "resolved_key \<Rightarrow> string \<Rightarrow> jsval \<Rightarrow> ingest_state \<Rightarrow> ingest_state" where
  "insertRaw key endpoint body s = s\<lparr>is_raw := is_raw s @ [(rk_tenant key, rk_app key, endpoint, body)]\<rparr>"

definition ingest_track ::
  "ingest_env \<Rightarrow> resolved_key \<Rightarrow> track_body \<Rightarrow> jsval \<Rightarrow> ingest_state \<Rightarrow> (ingest_state, nat) reply" where
  "ingest_track env key body raw s =
     (case persistTrackReceipts (ie_attempts env) key body (ie_request_id env) (is_db s) of
        (Inl _, db1) \<Rightarrow> (Inl (Unavailable ''track''), s\<lparr>is_db := db1\<rparr>)
      | (Inr _, db1) \<Rightarrow> (Inr (length (tb_batch body)), insertRaw key ''track'' raw (s\<lparr>is_db := db1\<rparr>)))"

definition ingest_publish :: "ingest_env \<Rightarrow> resolved_key \<Rightarrow> string \<Rightarrow> payload \<Rightarrow> ingest_state \<Rightarrow> (ingest_state, unit) reply" where
  "ingest_publish env key endpoint p s =
     publish env \<lparr>mg_stream = ''stream:ingest'', mg_type = ''ingest.batch'', mg_tenant = rk_tenant key, mg_app = rk_app key,
         mg_endpoint = endpoint, mg_request = ie_request_id env, mg_key = rk_id key, mg_payload = p\<rparr> s"

text \<open>The other endpoints: the raw row first, then the message on the ingest stream\<close>

definition ingest_identify :: "ingest_env \<Rightarrow> resolved_key \<Rightarrow> payload \<Rightarrow> jsval \<Rightarrow> ingest_state \<Rightarrow> (ingest_state, nat) reply" where
  "ingest_identify env key p raw s =
     (case ingest_publish env key ''identify'' p (insertRaw key ''identify'' raw s) of (Inl e, s1) \<Rightarrow> (Inl e, s1) | (Inr _, s1) \<Rightarrow> (Inr 1, s1))"

definition ingest_attributes :: "ingest_env \<Rightarrow> resolved_key \<Rightarrow> payload \<Rightarrow> jsval \<Rightarrow> ingest_state \<Rightarrow> (ingest_state, nat) reply" where
  "ingest_attributes env key p raw s =
     (case ingest_publish env key ''attributes'' p (insertRaw key ''attributes'' raw s) of
        (Inl e, s1) \<Rightarrow> (Inl e, s1) | (Inr _, s1) \<Rightarrow> (Inr (case p of PAttributes us \<Rightarrow> length us | _ \<Rightarrow> 0), s1))"

definition ingest_device_token :: "ingest_env \<Rightarrow> resolved_key \<Rightarrow> payload \<Rightarrow> jsval \<Rightarrow> ingest_state \<Rightarrow> (ingest_state, nat) reply" where
  "ingest_device_token env key p raw s =
     (case ingest_publish env key ''devices_token'' p (insertRaw key ''devices_token'' raw s) of (Inl e, s1) \<Rightarrow> (Inl e, s1) | (Inr _, s1) \<Rightarrow> (Inr 1, s1))"

definition ingest_subscriptions :: "ingest_env \<Rightarrow> resolved_key \<Rightarrow> payload \<Rightarrow> jsval \<Rightarrow> ingest_state \<Rightarrow> (ingest_state, nat) reply" where
  "ingest_subscriptions env key p raw s =
     (case ingest_publish env key ''subscriptions'' p (insertRaw key ''subscriptions'' raw s) of (Inl e, s1) \<Rightarrow> (Inl e, s1) | (Inr _, s1) \<Rightarrow> (Inr 1, s1))"

definition ingest_device_logout :: "ingest_env \<Rightarrow> resolved_key \<Rightarrow> payload \<Rightarrow> jsval \<Rightarrow> ingest_state \<Rightarrow> (ingest_state, nat) reply" where
  "ingest_device_logout env key p raw s =
     (case ingest_publish env key ''devices_logout'' p (insertRaw key ''devices_logout'' raw s) of (Inl e, s1) \<Rightarrow> (Inl e, s1) | (Inr _, s1) \<Rightarrow> (Inr 1, s1))"

definition ingest_user_delete :: "ingest_env \<Rightarrow> resolved_key \<Rightarrow> string \<Rightarrow> ingest_state \<Rightarrow> (ingest_state, nat) reply" where
  "ingest_user_delete env key externalId s =
     (case ingest_publish env key ''user_delete'' (PUserDelete externalId)
             (insertRaw key ''user_delete'' (JObj [(''external_id'', JStr externalId)]) s) of
        (Inl e, s1) \<Rightarrow> (Inl e, s1) | (Inr _, s1) \<Rightarrow> (Inr 1, s1))"

lemmas endpoint_defs = ingest_identify_def ingest_attributes_def ingest_device_token_def ingest_subscriptions_def ingest_device_logout_def
  ingest_user_delete_def

section \<open>Controller\<close>

record ingest_request =
  iq_authorization :: "string option"
  iq_api_key :: "string option"
  iq_body :: jsval

text \<open>\<open>@UseGuards(ApiKeyGuard, RateLimitGuard)\<close> with \<open>@RequireApiKey\<close> and \<open>@RequireScope\<close>\<close>

definition ingest_guarded ::
  "ingest_env \<Rightarrow> key_kind list \<Rightarrow> key_scope option \<Rightarrow> ingest_request \<Rightarrow> ingest_state \<Rightarrow>
     (resolved_key \<Rightarrow> ingest_state \<Rightarrow> (ingest_state, 'a) reply) \<Rightarrow> (ingest_state, 'a) reply" where
  "ingest_guarded env kinds scope q s k =
     (case ApiKeyGuard (ie_hash env) (ie_now env) kinds scope (iq_authorization q) (iq_api_key q) (is_auth s) of
        Inl e \<Rightarrow> (Inl e, s)
      | Inr None \<Rightarrow> (Inl (Internal ''no key''), s)
      | Inr (Some key) \<Rightarrow>
          (case RateLimitGuard (ie_now env) (ie_limits env) (Some key) (iq_body q) (is_redis s) of
             (Inl e, r) \<Rightarrow> (Inl e, s\<lparr>is_redis := r\<rparr>)
           | (Inr _, r) \<Rightarrow> k key (s\<lparr>is_redis := r\<rparr>)))"

text \<open>An endpoint that parses the body and publishes\<close>

definition parse_publish ::
  "(jsval \<Rightarrow> payload option) \<Rightarrow> (resolved_key \<Rightarrow> payload \<Rightarrow> jsval \<Rightarrow> ingest_state \<Rightarrow> (ingest_state, nat) reply) \<Rightarrow> ingest_request \<Rightarrow>
     resolved_key \<Rightarrow> ingest_state \<Rightarrow> (ingest_state, nat) reply" where
  "parse_publish schema service q key s =
     (case schema (iq_body q) of
        None \<Rightarrow> (Inl (BadRequest ''body''), s)
      | Some p \<Rightarrow> service key p (iq_body q) s)"

definition track_handler :: "ingest_env \<Rightarrow> ingest_request \<Rightarrow> ingest_state \<Rightarrow> (ingest_state, nat) reply" where
  "track_handler env q s =
     ingest_guarded env [Sdk, Server] None q s (\<lambda>key s1.
       case trackBodySchema (ie_uuid env) (ie_datetime env) (iq_body q) of
         None \<Rightarrow> (Inl (BadRequest ''body''), s1)
       | Some body \<Rightarrow> ingest_track env key body (iq_body q) s1)"

definition identify_handler :: "ingest_env \<Rightarrow> ingest_request \<Rightarrow> ingest_state \<Rightarrow> (ingest_state, nat) reply" where
  "identify_handler env q s =
     ingest_guarded env [Sdk, Server] None q s (parse_publish (identifyBodySchema (ie_uuid env) (ie_json_length env)) (ingest_identify env) q)"

definition attributes_handler :: "ingest_env \<Rightarrow> ingest_request \<Rightarrow> ingest_state \<Rightarrow> (ingest_state, nat) reply" where
  "attributes_handler env q s =
     ingest_guarded env [Server] None q s (parse_publish (attributesBodySchema (ie_json_length env)) (ingest_attributes env) q)"

definition device_token_handler :: "ingest_env \<Rightarrow> ingest_request \<Rightarrow> ingest_state \<Rightarrow> (ingest_state, nat) reply" where
  "device_token_handler env q s =
     ingest_guarded env [Sdk] None q s (parse_publish (tokenBodySchema (ie_uuid env)) (ingest_device_token env) q)"

definition subscriptions_handler :: "ingest_env \<Rightarrow> ingest_request \<Rightarrow> ingest_state \<Rightarrow> (ingest_state, nat) reply" where
  "subscriptions_handler env q s =
     ingest_guarded env [Sdk, Server] None q s (parse_publish (subscriptionBodySchema (ie_uuid env)) (ingest_subscriptions env) q)"

definition device_logout_handler :: "ingest_env \<Rightarrow> ingest_request \<Rightarrow> ingest_state \<Rightarrow> (ingest_state, nat) reply" where
  "device_logout_handler env q s =
     ingest_guarded env [Sdk] None q s (parse_publish (logoutBodySchema (ie_uuid env)) (ingest_device_logout env) q)"

definition user_delete_handler :: "ingest_env \<Rightarrow> string \<Rightarrow> ingest_request \<Rightarrow> ingest_state \<Rightarrow> (ingest_state, nat) reply" where
  "user_delete_handler env externalId q s =
     ingest_guarded env [Server] (Some Full) q s (\<lambda>key s1.
       if externalId = [] \<or> 256 < utf16_length externalId then (Inl (BadRequest ''external_id''), s1)
       else ingest_user_delete env key externalId s1)"

section \<open>Who may publish what\<close>

datatype ingest_call = Track | Identify | Attributes | DeviceToken | Subscriptions | DeviceLogout | UserDelete string

definition ingest_step :: "ingest_env \<Rightarrow> ingest_call \<Rightarrow> ingest_request \<Rightarrow> ingest_state \<Rightarrow> ingest_state" where
  "ingest_step env c q s =
     (case c of
        Track \<Rightarrow> snd (track_handler env q s)
      | Identify \<Rightarrow> snd (identify_handler env q s)
      | Attributes \<Rightarrow> snd (attributes_handler env q s)
      | DeviceToken \<Rightarrow> snd (device_token_handler env q s)
      | Subscriptions \<Rightarrow> snd (subscriptions_handler env q s)
      | DeviceLogout \<Rightarrow> snd (device_logout_handler env q s)
      | UserDelete x \<Rightarrow> snd (user_delete_handler env x q s))"

text \<open>The presented key, valid at the time of the request\<close>

definition presented :: "ingest_env \<Rightarrow> ingest_request \<Rightarrow> ingest_state \<Rightarrow> resolved_key option" where
  "presented env q s =
     map_option fst (resolve_key (ie_hash env) (ie_now env)
       (case iq_authorization q of Some a \<Rightarrow> strip_bearer a | None \<Rightarrow> (case iq_api_key q of Some k \<Rightarrow> k | None \<Rightarrow> [])) (is_auth s))"

text \<open>The kinds of keys allowed for a payload\<close>

fun may_publish :: "resolved_key \<Rightarrow> payload \<Rightarrow> bool" where
  "may_publish k (PAttributes _) = (rk_kind k = Server)"
| "may_publish k (PToken _ _ _ _ _) = (rk_kind k = Sdk)"
| "may_publish k (PLogout _) = (rk_kind k = Sdk)"
| "may_publish k (PUserDelete _) = (rk_kind k = Server \<and> rk_scope k = Full)"
| "may_publish k _ = True"

definition published_by :: "resolved_key \<Rightarrow> envelope_msg \<Rightarrow> bool" where
  "published_by k m \<longleftrightarrow> mg_tenant m = rk_tenant k \<and> mg_app m = rk_app k \<and> mg_key m = rk_id k \<and> may_publish k (mg_payload m)"

text \<open>The queue grows by at most one message of the presented key.\<close>

definition grows_by :: "resolved_key option \<Rightarrow> ingest_state \<Rightarrow> ingest_state \<Rightarrow> bool" where
  "grows_by k s s' \<longleftrightarrow> is_queue s' = is_queue s \<or> (\<exists>key m. k = Some key \<and> published_by key m \<and> is_queue s' = is_queue s @ [m])"

lemma grows_refl [simp]: "grows_by k s s"
  by (simp add: grows_by_def)

lemma guard_presented:
  "ApiKeyGuard (ie_hash env) (ie_now env) kinds scope (iq_authorization q) (iq_api_key q) (is_auth s) = Inr (Some key) \<Longrightarrow>
     presented env q s = Some key \<and> rk_kind key \<in> set kinds \<and> (scope = Some Full \<longrightarrow> rk_scope key = Full)"
  by (auto simp: ApiKeyGuard_def presented_def Let_def split: if_splits option.splits)

lemma ingest_guarded_grows:
  assumes "\<And>key s1. presented env q s = Some key \<Longrightarrow> rk_kind key \<in> set kinds \<Longrightarrow> (scope = Some Full \<Longrightarrow> rk_scope key = Full) \<Longrightarrow>
    is_queue s1 = is_queue s \<Longrightarrow> grows_by (Some key) s1 (snd (k key s1))"
  shows "grows_by (presented env q s) s (snd (ingest_guarded env kinds scope q s k))"
proof (cases "ApiKeyGuard (ie_hash env) (ie_now env) kinds scope (iq_authorization q) (iq_api_key q) (is_auth s)")
  case (Inr r)
  show ?thesis
  proof (cases r)
    case (Some key)
    note g = guard_presented [OF Inr [unfolded Some]]
    have "grows_by (Some key) s (snd (k key (s\<lparr>is_redis := rr\<rparr>)))" for rr
      using assms [of key "s\<lparr>is_redis := rr\<rparr>"] g by (simp add: grows_by_def)
    then show ?thesis using g by (auto simp: ingest_guarded_def Inr Some grows_by_def split: prod.split sum.split)
  qed (simp add: ingest_guarded_def Inr grows_by_def)
qed (simp add: ingest_guarded_def grows_by_def)

lemma ingest_publish_grows:
  "may_publish key p \<Longrightarrow> grows_by (Some key) s (snd (ingest_publish env key endpoint p (insertRaw key endpoint' raw s)))"
  by (auto simp: ingest_publish_def publish_def insertRaw_def grows_by_def published_by_def)

lemma endpoint_grows:
  "may_publish key p \<Longrightarrow> grows_by (Some key) s (snd (ingest_identify env key p raw s))"
  "may_publish key p \<Longrightarrow> grows_by (Some key) s (snd (ingest_attributes env key p raw s))"
  "may_publish key p \<Longrightarrow> grows_by (Some key) s (snd (ingest_device_token env key p raw s))"
  "may_publish key p \<Longrightarrow> grows_by (Some key) s (snd (ingest_subscriptions env key p raw s))"
  "may_publish key p \<Longrightarrow> grows_by (Some key) s (snd (ingest_device_logout env key p raw s))"
  "may_publish key (PUserDelete x) \<Longrightarrow> grows_by (Some key) s (snd (ingest_user_delete env key x s))"
  using ingest_publish_grows [of key] by (simp_all add: endpoint_defs case_prod_unfold split: sum.split)

lemma parse_publish_grows:
  "(\<And>p. schema (iq_body q) = Some p \<Longrightarrow> grows_by (Some key) s (snd (service key p (iq_body q) s))) \<Longrightarrow>
   grows_by (Some key) s (snd (parse_publish schema service q key s))"
  by (auto simp: parse_publish_def split: option.split)

lemma schema_payload:
  "identifyBodySchema u j b = Some p \<Longrightarrow> may_publish key p"
  "attributesBodySchema j b = Some p \<Longrightarrow> rk_kind key = Server \<Longrightarrow> may_publish key p"
  "tokenBodySchema u b = Some p \<Longrightarrow> rk_kind key = Sdk \<Longrightarrow> may_publish key p"
  "subscriptionBodySchema u b = Some p \<Longrightarrow> may_publish key p"
  "logoutBodySchema u b = Some p \<Longrightarrow> rk_kind key = Sdk \<Longrightarrow> may_publish key p"
  by (auto simp: identifyBodySchema_def attributesBodySchema_def tokenBodySchema_def subscriptionBodySchema_def logoutBodySchema_def
      split: if_splits option.splits)

lemma ingest_track_queue: "is_queue (snd (ingest_track env key body raw s)) = is_queue s"
  by (simp add: ingest_track_def insertRaw_def split: prod.split sum.split)

section \<open>Properties\<close>

text \<open>
  C30: an ingestion message is authorised by the key that was presented. Whatever endpoint is called, at most one message reaches the queue,
  and only if the request presents a key that is valid at that moment; the message belongs to the tenant and app of that key, attribute batches
  and deletions need a server key, deletions one with full scope, and device tokens and logouts an SDK key.
\<close>

theorem ingest_messages_authorized: "grows_by (presented env q s) s (ingest_step env c q s)"
proof (cases c)
  case Track
  show ?thesis
    unfolding Track ingest_step_def track_handler_def ingest_call.case
    by (rule ingest_guarded_grows) (auto simp: grows_by_def ingest_track_queue split: option.split)
next
  case (UserDelete x)
  show ?thesis
    unfolding UserDelete ingest_step_def user_delete_handler_def ingest_call.case
    by (rule ingest_guarded_grows) (auto intro: endpoint_grows)
qed (auto simp: ingest_step_def identify_handler_def attributes_handler_def device_token_handler_def subscriptions_handler_def
       device_logout_handler_def intro!: ingest_guarded_grows parse_publish_grows endpoint_grows dest: schema_payload)

end
