(* ===== verification/InApp_Campaigns.thy ===== *)
theory InApp_Campaigns
  imports Auth_Store
begin

text \<open>
  In-app campaigns: the contract of a campaign (\<open>in-app/campaign-contract.ts\<close>) and its life cycle from draft over review to
  publication and pause (\<open>in-app/campaign.service.ts\<close>), on the tables that the delivery service shares. The UUID, date and
  time zone checks of the platform, the calendar arithmetic of the database and the SHA-256 of an artifact are fields of \<open>inapp_env\<close>
  (\<open>ia_enabled\<close> stands for \<open>IN_APP_ENABLED\<close> together with a configured content origin). A request runs as one step, as the row locks
  of its transaction make it; among rows that the source's \<open>ORDER BY\<close> does not separate, the table's order is kept. Times are milliseconds.
\<close>

section \<open>Contract\<close>

datatype platform = Ios | Android
datatype trigger = Foreground | Launch | Screen string | EventNamed string

record campaign_config =
  cc_platforms :: "platform list"
  cc_trigger :: trigger
  cc_time_zone :: string
  cc_starts_at :: int
  cc_ends_at :: int
  cc_cooldown_seconds :: int
  cc_max_per_day :: nat
  cc_max_total :: nat
  cc_priority :: int

record inapp_env =
  ia_enabled :: bool
  ia_campaigns_enabled :: bool
  ia_uuid :: "string \<Rightarrow> bool"
  ia_date :: "string \<Rightarrow> int option"
  ia_time_zone :: "string \<Rightarrow> bool"
  ia_day_start :: "string \<Rightarrow> int \<Rightarrow> int"
  ia_next_day :: "string \<Rightarrow> int \<Rightarrow> int"
  ia_hash :: "string \<Rightarrow> string"

definition in_strict :: "string list \<Rightarrow> jsval \<Rightarrow> bool" where
  "in_strict ks b \<longleftrightarrow> is_object b \<and> set (js_keys b) \<subseteq> set ks"

text \<open>\<open>z.string().trim().min(1).max(100)\<close>\<close>

definition z_name :: "jsval option \<Rightarrow> string option" where
  "z_name v =
     (case v of
        Some (JStr s) \<Rightarrow> (let t = trim s in if 1 \<le> utf16_length t \<and> utf16_length t \<le> 100 then Some t else None)
      | _ \<Rightarrow> None)"

definition triggerSchema :: "jsval option \<Rightarrow> trigger option" where
  "triggerSchema v =
     (case v of
        None \<Rightarrow> None
      | Some t \<Rightarrow>
          if js_get t ''type'' = Some (JStr ''foreground'') then (if in_strict [''type''] t then Some Foreground else None)
          else if js_get t ''type'' = Some (JStr ''launch'') then (if in_strict [''type''] t then Some Launch else None)
          else if js_get t ''type'' = Some (JStr ''screen'') then
            (if in_strict [''type'', ''name''] t then map_option Screen (z_name (js_get t ''name'')) else None)
          else if js_get t ''type'' = Some (JStr ''event'') then
            (if in_strict [''type'', ''name''] t then map_option EventNamed (z_name (js_get t ''name'')) else None)
          else None)"

definition is_letter_us :: "char \<Rightarrow> bool" where
  "is_letter_us c \<longleftrightarrow> (let n = (of_char c :: nat) in (65 \<le> n \<and> n \<le> 90) \<or> (97 \<le> n \<and> n \<le> 122) \<or> n = 95)"

definition is_zone_char :: "char \<Rightarrow> bool" where
  "is_zone_char c \<longleftrightarrow> is_letter_us c \<or> (let n = (of_char c :: nat) in (48 \<le> n \<and> n \<le> 57) \<or> n = 43 \<or> n = 45)"

text \<open>\<open>s.split(sep)\<close> for a separator of one character\<close>

fun split_on :: "char \<Rightarrow> string \<Rightarrow> string list" where
  "split_on sep [] = [[]]"
| "split_on sep (c # s) =
     (if c = sep then [] # split_on sep s
      else case split_on sep s of [] \<Rightarrow> [[c]] | p # ps \<Rightarrow> (c # p) # ps)"

definition zone_format :: "string \<Rightarrow> bool" where
  "zone_format s \<longleftrightarrow>
     (case split_on (CHR ''/'') s of
        p # ps \<Rightarrow> p \<noteq> [] \<and> list_all is_letter_us p \<and> ps \<noteq> [] \<and> list_all (\<lambda>q. q \<noteq> [] \<and> list_all is_zone_char q) ps
      | [] \<Rightarrow> False)"

definition timeZoneSchema :: "inapp_env \<Rightarrow> jsval option \<Rightarrow> string option" where
  "timeZoneSchema env v =
     (case v of
        None \<Rightarrow> Some ''UTC''
      | Some (JStr s) \<Rightarrow> if utf16_length s \<le> 64 \<and> (s = ''UTC'' \<or> zone_format s) \<and> ia_time_zone env s then Some s else None
      | _ \<Rightarrow> None)"

definition cancellationReasons :: "string list" where
  "cancellationReasons = [''background'', ''context_changed'', ''screen_changed'', ''session_ended'', ''disabled'', ''host_destroyed'',
     ''host_blocked'', ''campaign_paused'', ''campaign_updated'', ''campaign_expired'', ''delivery_inactive'', ''display_timeout'', ''launch_timeout'']"

text \<open>\<open>z.number().int().min(lo).max(hi)\<close>\<close>

definition z_int :: "int \<Rightarrow> int \<Rightarrow> jsval option \<Rightarrow> int option" where
  "z_int lo hi v =
     (case v of
        Some (JNum (Num r)) \<Rightarrow> if of_int \<lfloor>r\<rfloor> = r \<and> lo \<le> \<lfloor>r\<rfloor> \<and> \<lfloor>r\<rfloor> \<le> hi then Some \<lfloor>r\<rfloor> else None
      | _ \<Rightarrow> None)"

definition z_platform :: "jsval \<Rightarrow> platform option" where
  "z_platform v = (if v = JStr ''ios'' then Some Ios else if v = JStr ''android'' then Some Android else None)"

definition z_platforms :: "jsval option \<Rightarrow> platform list option" where
  "z_platforms v =
     (case v of
        Some (JArr xs) \<Rightarrow>
          if 1 \<le> length xs \<and> length xs \<le> 2 \<and> list_all (\<lambda>x. z_platform x \<noteq> None) xs \<and> distinct (map z_platform xs)
          then Some (map (\<lambda>x. the (z_platform x)) xs) else None
      | _ \<Rightarrow> None)"

definition z_date :: "inapp_env \<Rightarrow> jsval option \<Rightarrow> int option" where
  "z_date env v = (case v of Some (JStr s) \<Rightarrow> ia_date env s | _ \<Rightarrow> None)"

definition campaignConfigSchema :: "inapp_env \<Rightarrow> jsval option \<Rightarrow> campaign_config option" where
  "campaignConfigSchema env v =
     (case v of
        None \<Rightarrow> None
      | Some c \<Rightarrow>
          if \<not> in_strict [''platforms'', ''trigger'', ''time_zone'', ''starts_at'', ''ends_at'', ''cooldown_seconds'', ''max_per_day'', ''max_total'', ''priority''] c
          then None
          else case (z_platforms (js_get c ''platforms''), triggerSchema (js_get c ''trigger''), timeZoneSchema env (js_get c ''time_zone''),
                     z_date env (js_get c ''starts_at''), z_date env (js_get c ''ends_at''), z_int 60 31536000 (js_get c ''cooldown_seconds''),
                     z_int 1 10 (js_get c ''max_per_day''), z_int 1 100 (js_get c ''max_total''),
                     (if js_get c ''priority'' = None then Some 0 else z_int 0 100 (js_get c ''priority''))) of
                 (Some ps, Some t, Some z, Some s, Some e, Some cd, Some d, Some n, Some pr) \<Rightarrow>
                   if s < e
                   then Some \<lparr>cc_platforms = ps, cc_trigger = t, cc_time_zone = z, cc_starts_at = s, cc_ends_at = e, cc_cooldown_seconds = cd,
                              cc_max_per_day = nat d, cc_max_total = nat n, cc_priority = pr\<rparr>
                   else None
               | _ \<Rightarrow> None)"

definition campaignSchema :: "inapp_env \<Rightarrow> string list \<Rightarrow> jsval \<Rightarrow> (string \<times> string \<times> campaign_config) option" where
  "campaignSchema env extra b =
     (if \<not> in_strict ([''name'', ''revision_id'', ''config''] @ extra) b then None
      else case (z_name (js_get b ''name''), js_get b ''revision_id'', campaignConfigSchema env (js_get b ''config'')) of
             (Some n, Some (JStr r), Some c) \<Rightarrow> if ia_uuid env r then Some (n, r, c) else None
           | _ \<Rightarrow> None)"

definition decisionSchema :: "inapp_env \<Rightarrow> jsval \<Rightarrow> (string \<times> string \<times> trigger) option" where
  "decisionSchema env b =
     (if \<not> in_strict [''request_key'', ''session_id'', ''trigger''] b then None
      else case (js_get b ''request_key'', js_get b ''session_id'', triggerSchema (js_get b ''trigger'')) of
             (Some (JStr k), Some (JStr s), Some t) \<Rightarrow> if ia_uuid env k \<and> ia_uuid env s then Some (k, s, t) else None
           | _ \<Rightarrow> None)"

section \<open>Tables\<close>

datatype campaign_state = Draft | Published | Paused
datatype delivery_state = Reserved | Authorized | Presented | Completed | Failed | Cancelled | Expired

record camp_row =
  c_id :: string
  c_tenant :: string
  c_app :: string
  c_name :: string
  c_revision :: string
  c_config :: campaign_config
  c_version :: int
  c_state :: campaign_state
  c_created :: int
  c_updated :: int

record publication_row =
  p_tenant :: string
  p_app :: string
  p_campaign :: string
  p_version :: int
  p_revision :: string
  p_config :: campaign_config
  p_by :: string

record installation_dev =
  iv_id :: string
  iv_tenant :: string
  iv_app :: string
  iv_hash :: string
  iv_platform :: platform
  iv_revoked :: bool
  iv_created :: int
  iv_last_seen :: int

record delivery_row =
  d_id :: string
  d_tenant :: string
  d_app :: string
  d_installation :: string
  d_campaign :: string
  d_version :: int
  d_revision :: string
  d_request_key :: string
  d_session :: string
  d_trigger :: trigger
  d_state :: delivery_state
  d_expires_at :: int
  d_authorized_at :: "int option"
  d_created_at :: int

record delivery_event =
  ev_tenant :: string
  ev_app :: string
  ev_delivery :: string
  ev_id :: string
  ev_kind :: string
  ev_detail :: string
  ev_occurred :: "int option"

record revision_row =
  rv_tenant :: string
  rv_app :: string
  rv_id :: string
  rv_sha :: string
  rv_actions :: "string list"

record review_row =
  rw_tenant :: string
  rw_app :: string
  rw_revision :: string
  rw_platform :: platform
  rw_run :: string
  rw_passed :: bool
  rw_by :: string

record test_run =
  tr_tenant :: string
  tr_app :: string
  tr_id :: string
  tr_revision :: string
  tr_platform :: platform
  tr_state :: string
  tr_events :: "(string \<times> string) list"

record inapp_db =
  in_apps :: "(string \<times> string) list"
  campaigns :: "camp_row list"
  publications :: "publication_row list"
  installs :: "installation_dev list"
  deliveries :: "delivery_row list"
  events :: "delivery_event list"
  suppressions :: "((string \<times> string \<times> string \<times> string) \<times> int) list"
  revisions :: "revision_row list"
  reviews :: "review_row list"
  test_runs :: "test_run list"
  files :: "((string \<times> string \<times> string) \<times> string) list"

definition live_state :: "delivery_state \<Rightarrow> bool" where
  "live_state st \<longleftrightarrow> st \<in> {Reserved, Authorized, Presented}"

section \<open>Campaign service\<close>

definition requireEnabled :: "inapp_env \<Rightarrow> http_error + unit" where
  "requireEnabled env = (if ia_enabled env then Inr () else Inl (Unavailable ''IN_APP_DISABLED''))"

definition requireLive :: "inapp_env \<Rightarrow> http_error + unit" where
  "requireLive env =
     (case requireEnabled env of
        Inl e \<Rightarrow> Inl e
      | Inr _ \<Rightarrow> if \<not> ia_campaigns_enabled env then Inl (Unavailable ''IN_APP_CAMPAIGNS_DISABLED'') else Inr ())"

definition workbench_app :: "inapp_env \<Rightarrow> string \<Rightarrow> string \<Rightarrow> inapp_db \<Rightarrow> http_error + unit" where
  "workbench_app env tenant app db =
     (case requireEnabled env of Inl e \<Rightarrow> Inl e | Inr _ \<Rightarrow> if (tenant, app) \<in> set (in_apps db) then Inr () else Inl (NotFound ''app''))"

text \<open>\<open>InAppAssets.read\<close>: the HTML of the stored artifact, checked against the hash of its revision\<close>

definition assets_read :: "inapp_env \<Rightarrow> string \<Rightarrow> string \<Rightarrow> string \<Rightarrow> inapp_db \<Rightarrow> http_error + string" where
  "assets_read env tenant app rid db =
     (case find (\<lambda>r. rv_tenant r = tenant \<and> rv_app r = app \<and> rv_id r = rid) (revisions db) of
        None \<Rightarrow> Inl (NotFound ''revision'')
      | Some r \<Rightarrow>
          (case map_of (files db) (tenant, app, rid) of
             None \<Rightarrow> Inl (Internal ''ENOENT'')
           | Some html \<Rightarrow> if ia_hash env html \<noteq> rv_sha r then Inl (Unavailable ''ASSET_HASH_MISMATCH'') else Inr html))"

definition campaign_key :: "string \<Rightarrow> string \<Rightarrow> string \<Rightarrow> camp_row \<Rightarrow> bool" where
  "campaign_key tenant app cid c \<longleftrightarrow> c_tenant c = tenant \<and> c_app c = app \<and> c_id c = cid"

definition z_version :: "jsval \<Rightarrow> int option" where
  "z_version b =
     (case js_get b ''expected_version'' of
        Some (JNum (Num r)) \<Rightarrow> if of_int \<lfloor>r\<rfloor> = r \<and> 0 < r then Some \<lfloor>r\<rfloor> else None
      | _ \<Rightarrow> None)"

definition campaign_save ::
  "inapp_env \<Rightarrow> int \<Rightarrow> string \<Rightarrow> string \<Rightarrow> string \<Rightarrow> jsval \<Rightarrow> string option \<Rightarrow> inapp_db \<Rightarrow> (inapp_db, camp_row) outcome" where
  "campaign_save env now newId tenant app input cid db =
     (case workbench_app env tenant app db of
        Inl e \<Rightarrow> Inl e
      | Inr _ \<Rightarrow>
          (case (campaignSchema env (if cid = None then [] else [''expected_version'']) input, if cid = None then Some 1 else z_version input) of
             (Some (name, rid, cfg), Some version) \<Rightarrow>
               (case assets_read env tenant app rid db of
                  Inl e \<Rightarrow> Inl e
                | Inr _ \<Rightarrow>
                    (case cid of
                       Some i \<Rightarrow>
                         (case find (\<lambda>c. campaign_key tenant app i c \<and> c_version c = version \<and> c_state c \<noteq> Published) (campaigns db) of
                            None \<Rightarrow> Inl (Conflict ''CAMPAIGN_CHANGED_OR_PUBLISHED'')
                          | Some c \<Rightarrow>
                              (let f = (\<lambda>c. c\<lparr>c_name := name, c_revision := rid, c_config := cfg, c_version := c_version c + 1, c_updated := now\<rparr>)
                               in Inr (f c, db\<lparr>campaigns := update_where
                                    (\<lambda>c. campaign_key tenant app i c \<and> c_version c = version \<and> c_state c \<noteq> Published) f (campaigns db)\<rparr>)))
                     | None \<Rightarrow>
                         if 100 \<le> length (filter (\<lambda>c. c_tenant c = tenant \<and> c_app c = app) (campaigns db)) then Inl (Conflict ''CAMPAIGN_LIMIT_100'')
                         else if newId \<in> set (map c_id (campaigns db)) then Inl (Internal ''unique_violation'')
                         else let c = \<lparr>c_id = newId, c_tenant = tenant, c_app = app, c_name = name, c_revision = rid, c_config = cfg,
                                       c_version = 1, c_state = Draft, c_created = now, c_updated = now\<rparr>
                              in Inr (c, db\<lparr>campaigns := campaigns db @ [c]\<rparr>)))
           | _ \<Rightarrow> Inl (BadRequest ''INVALID_INPUT'')))"

definition campaign_list :: "inapp_env \<Rightarrow> string \<Rightarrow> string \<Rightarrow> inapp_db \<Rightarrow> http_error + camp_row list" where
  "campaign_list env tenant app db =
     (case workbench_app env tenant app db of
        Inl e \<Rightarrow> Inl e
      | Inr _ \<Rightarrow> Inr (take 100 (sort_key (\<lambda>c. - c_updated c) (filter (\<lambda>c. c_tenant c = tenant \<and> c_app c = app) (campaigns db)))))"

definition upsert_review :: "review_row \<Rightarrow> inapp_db \<Rightarrow> inapp_db" where
  "upsert_review r db =
     db\<lparr>reviews := filter (\<lambda>x. \<not> (rw_tenant x = rw_tenant r \<and> rw_app x = rw_app r \<and> rw_revision x = rw_revision r \<and> rw_platform x = rw_platform r))
          (reviews db) @ [r]\<rparr>"

definition reviewSchema :: "inapp_env \<Rightarrow> jsval \<Rightarrow> (string \<times> bool \<times> bool \<times> bool \<times> bool) option" where
  "reviewSchema env b =
     (if \<not> in_strict [''run_id'', ''passed'', ''layout_checked'', ''close_checked'', ''actions_checked''] b then None
      else case (js_get b ''run_id'', js_get b ''passed'', js_get b ''layout_checked'', js_get b ''close_checked'', js_get b ''actions_checked'') of
             (Some (JStr r), Some (JBool p), Some (JBool l), Some (JBool c), Some (JBool a)) \<Rightarrow>
               if ia_uuid env r then Some (r, p, l, c, a) else None
           | _ \<Rightarrow> None)"

definition campaign_review :: "inapp_env \<Rightarrow> string \<Rightarrow> string \<Rightarrow> string \<Rightarrow> jsval \<Rightarrow> inapp_db \<Rightarrow> (inapp_db, unit) outcome" where
  "campaign_review env tenant app member input db =
     (case workbench_app env tenant app db of
        Inl e \<Rightarrow> Inl e
      | Inr _ \<Rightarrow>
          (case reviewSchema env input of
             None \<Rightarrow> Inl (BadRequest ''INVALID_INPUT'')
           | Some (run, passed, layout, close, actions) \<Rightarrow>
               (case find (\<lambda>r. tr_tenant r = tenant \<and> tr_app r = app \<and> tr_id r = run) (test_runs db) of
                  None \<Rightarrow> Inl (NotFound ''run'')
                | Some r \<Rightarrow>
                    (let evs = take 200 (tr_events r)
                     in if passed \<and> (tr_state r \<noteq> ''completed'' \<or> \<not> layout \<or> \<not> close \<or> \<not> actions \<or>
                             \<not> list_ex (\<lambda>(k, _). k = ''impression'') evs \<or> (''dismiss'', ''close_button'') \<notin> set evs)
                        then Inl (BadRequest ''REVIEW_REQUIRES_COMPLETED_NATIVE_CLOSE_AND_CHECKLIST'')
                        else Inr ((), upsert_review \<lparr>rw_tenant = tenant, rw_app = app, rw_revision = tr_revision r, rw_platform = tr_platform r,
                               rw_run = tr_id r, rw_passed = passed, rw_by = member\<rparr> db)))))"

text \<open>The checks of a publication and the publication row\<close>

definition reviewed :: "string \<Rightarrow> string \<Rightarrow> string \<Rightarrow> inapp_db \<Rightarrow> platform \<Rightarrow> bool" where
  "reviewed tenant app rid db p \<longleftrightarrow>
     list_ex (\<lambda>r. rw_tenant r = tenant \<and> rw_app r = app \<and> rw_revision r = rid \<and> rw_passed r \<and> rw_platform r = p) (reviews db)"

definition publish_campaign :: "inapp_env \<Rightarrow> int \<Rightarrow> string \<Rightarrow> camp_row \<Rightarrow> inapp_db \<Rightarrow> http_error + inapp_db" where
  "publish_campaign env now member c db =
     (if cc_ends_at (c_config c) \<le> now then Inl (BadRequest ''CAMPAIGN_ENDED'')
      else if \<not> list_all (reviewed (c_tenant c) (c_app c) (c_revision c) db) (cc_platforms (c_config c)) then Inl (BadRequest ''PLATFORM_REVIEW_REQUIRED'')
      else case assets_read env (c_tenant c) (c_app c) (c_revision c) db of
             Inl e \<Rightarrow> Inl e
           | Inr _ \<Rightarrow>
               if list_ex (\<lambda>p. p_tenant p = c_tenant c \<and> p_app p = c_app c \<and> p_campaign p = c_id c \<and> p_version p = c_version c) (publications db)
               then Inl (Internal ''unique_violation'')
               else Inr (db\<lparr>publications := publications db @ [\<lparr>p_tenant = c_tenant c, p_app = c_app c, p_campaign = c_id c, p_version = c_version c,
                           p_revision = c_revision c, p_config = c_config c, p_by = member\<rparr>]\<rparr>))"

definition set_campaign :: "string \<Rightarrow> string \<Rightarrow> string \<Rightarrow> (camp_row \<Rightarrow> camp_row) \<Rightarrow> inapp_db \<Rightarrow> inapp_db" where
  "set_campaign tenant app cid f db = db\<lparr>campaigns := update_where (campaign_key tenant app cid) f (campaigns db)\<rparr>"

definition cancel_deliveries :: "(delivery_row \<Rightarrow> bool) \<Rightarrow> inapp_db \<Rightarrow> inapp_db" where
  "cancel_deliveries p db = db\<lparr>deliveries := update_where (\<lambda>d. p d \<and> live_state (d_state d)) (\<lambda>d. d\<lparr>d_state := Cancelled\<rparr>) (deliveries db)\<rparr>"

definition campaign_transition ::
  "inapp_env \<Rightarrow> int \<Rightarrow> string \<Rightarrow> string \<Rightarrow> string \<Rightarrow> string \<Rightarrow> jsval \<Rightarrow> bool \<Rightarrow> inapp_db \<Rightarrow> (inapp_db, camp_row) outcome" where
  "campaign_transition env now tenant app cid member input publish db =
     (case workbench_app env tenant app db of
        Inl e \<Rightarrow> Inl e
      | Inr _ \<Rightarrow>
          (case (if publish then requireLive env else Inr ()) of
             Inl e \<Rightarrow> Inl e
           | Inr _ \<Rightarrow>
               if \<not> in_strict [''expected_version''] input then Inl (BadRequest ''INVALID_INPUT'')
               else case z_version input of
                 None \<Rightarrow> Inl (BadRequest ''INVALID_INPUT'')
               | Some version \<Rightarrow>
                   (case find (campaign_key tenant app cid) (campaigns db) of
                      None \<Rightarrow> Inl (NotFound ''campaign'')
                    | Some c \<Rightarrow>
                        if c_version c \<noteq> version then Inl (Conflict ''CAMPAIGN_CHANGED'')
                        else if publish \<and> c_state c = Published then Inr (c, db)
                        else if publish then
                          (case publish_campaign env now member c db of
                             Inl e \<Rightarrow> Inl e
                           | Inr db1 \<Rightarrow>
                               (let f = (\<lambda>c. c\<lparr>c_state := Published, c_updated := now\<rparr>) in Inr (f c, set_campaign tenant app cid f db1)))
                        else
                          (let f = (\<lambda>c. c\<lparr>c_state := Paused, c_version := c_version c + 1, c_updated := now\<rparr>)
                           in Inr (f c, cancel_deliveries (\<lambda>d. d_tenant d = tenant \<and> d_app d = app \<and> d_campaign d = cid)
                                (set_campaign tenant app cid f db))))))"

end
