(* ===== verification/InApp_Delivery.thy ===== *)
theory InApp_Delivery
  imports InApp_Campaigns "HOL-Library.Product_Lexorder" "HOL-Library.List_Lexorder" "HOL-Library.Char_ord"
begin

text \<open>
  Delivery of in-app messages to an installation (\<open>in-app/delivery.service.ts\<close>, behind \<open>in-app/delivery.controller.ts\<close>): an
  installation registers, asks for a decision, authorises the delivery it was given before it shows it, reports events, and may be
  revoked. A decision is committed before the artifact of the delivery is read, so it returns its reply with the new state.
  Columns with a default (\<open>state\<close>, \<open>expires_at\<close>) carry the default of the schema.
\<close>

section \<open>Installations\<close>

record installation_ref =
  i_id :: string
  i_tenant :: string
  i_app :: string
  i_platform :: platform

definition register_schema :: "jsval \<Rightarrow> platform option" where
  "register_schema b = (if \<not> in_strict [''platform''] b then None else case js_get b ''platform'' of None \<Rightarrow> None | Some v \<Rightarrow> z_platform v)"

definition register_installation ::
  "inapp_env \<Rightarrow> int \<Rightarrow> string \<Rightarrow> string \<Rightarrow> string \<Rightarrow> string \<Rightarrow> jsval \<Rightarrow> inapp_db \<Rightarrow> (inapp_db, string \<times> string) outcome" where
  "register_installation env now newId secret tenant app input db =
     (case requireLive env of
        Inl e \<Rightarrow> Inl e
      | Inr _ \<Rightarrow>
          (case register_schema input of
             None \<Rightarrow> Inl (BadRequest ''INVALID_INPUT'')
           | Some platform \<Rightarrow>
               if 10000 \<le> length (filter (\<lambda>v. iv_tenant v = tenant \<and> iv_app v = app \<and> now - 86400000 < iv_created v) (installs db))
               then Inl (Conflict ''INSTALLATION_DAILY_LIMIT'')
               else if newId \<in> set (map iv_id (installs db)) then Inl (Internal ''unique_violation'')
               else Inr ((newId, newId @ ''.'' @ secret),
                      db\<lparr>installs := installs db @ [\<lparr>iv_id = newId, iv_tenant = tenant, iv_app = app, iv_hash = ia_hash env secret,
                           iv_platform = platform, iv_revoked = False, iv_created = now, iv_last_seen = now\<rparr>]\<rparr>)))"

definition installation_auth :: "inapp_env \<Rightarrow> string \<Rightarrow> string \<Rightarrow> string \<Rightarrow> inapp_db \<Rightarrow> http_error + installation_ref" where
  "installation_auth env tenant app token db =
     (case requireLive env of
        Inl e \<Rightarrow> Inl e
      | Inr _ \<Rightarrow>
          (case split_on (CHR ''.'') token of
             [iid, secret] \<Rightarrow>
               if \<not> ia_uuid env iid \<or> secret = [] \<or> 100 < utf16_length token then Inl (Unauthorized ''installation'')
               else (case find (\<lambda>v. iv_tenant v = tenant \<and> iv_app v = app \<and> iv_id v = iid \<and> iv_hash v = ia_hash env secret \<and> \<not> iv_revoked v)
                           (installs db) of
                       None \<Rightarrow> Inl (Unauthorized ''installation'')
                     | Some v \<Rightarrow> Inr \<lparr>i_id = iv_id v, i_tenant = tenant, i_app = app, i_platform = iv_platform v\<rparr>)
           | _ \<Rightarrow> Inl (Unauthorized ''installation'')))"

definition is_installation :: "installation_ref \<Rightarrow> installation_dev \<Rightarrow> bool" where
  "is_installation i v \<longleftrightarrow> iv_tenant v = i_tenant i \<and> iv_app v = i_app i \<and> iv_id v = i_id i"

definition active_installation :: "installation_ref \<Rightarrow> inapp_db \<Rightarrow> bool" where
  "active_installation i db \<longleftrightarrow> list_ex (\<lambda>v. is_installation i v \<and> \<not> iv_revoked v) (installs db)"

definition of_installation :: "installation_ref \<Rightarrow> delivery_row \<Rightarrow> bool" where
  "of_installation i d \<longleftrightarrow> d_tenant d = i_tenant i \<and> d_app d = i_app i \<and> d_installation d = i_id i"

section \<open>Decision\<close>

definition touch_installation :: "int \<Rightarrow> installation_ref \<Rightarrow> inapp_db \<Rightarrow> inapp_db" where
  "touch_installation now i db = db\<lparr>installs := update_where (is_installation i) (\<lambda>v. v\<lparr>iv_last_seen := now\<rparr>) (installs db)\<rparr>"

definition expire_deliveries :: "int \<Rightarrow> installation_ref \<Rightarrow> inapp_db \<Rightarrow> inapp_db" where
  "expire_deliveries now i db =
     db\<lparr>deliveries := update_where (\<lambda>d. of_installation i d \<and> live_state (d_state d) \<and> d_expires_at d \<le> now) (\<lambda>d. d\<lparr>d_state := Expired\<rparr>) (deliveries db)\<rparr>"

definition candidates :: "installation_ref \<Rightarrow> inapp_db \<Rightarrow> camp_row list" where
  "candidates i db =
     take 100 (sort_key (\<lambda>c. (- cc_priority (c_config c), c_created c, c_id c))
       (filter (\<lambda>c. c_tenant c = i_tenant i \<and> c_app c = i_app i \<and> c_state c = Published) (campaigns db)))"

definition eligible :: "int \<Rightarrow> installation_ref \<Rightarrow> bool \<Rightarrow> trigger \<Rightarrow> campaign_config \<Rightarrow> bool" where
  "eligible now i supports trig cfg \<longleftrightarrow>
     i_platform i \<in> set (cc_platforms cfg) \<and> (supports \<or> cc_time_zone cfg = ''UTC'') \<and>
     cc_starts_at cfg \<le> now \<and> now < cc_ends_at cfg \<and> cc_trigger cfg = trig"

definition suppressed :: "int \<Rightarrow> installation_ref \<Rightarrow> string \<Rightarrow> inapp_db \<Rightarrow> bool" where
  "suppressed now i cid db \<longleftrightarrow>
     (case map_of (suppressions db) (i_tenant i, i_app i, i_id i, cid) of None \<Rightarrow> False | Some until_at \<Rightarrow> now < until_at)"

text \<open>The deliveries of a campaign that the installation was authorised to show, and their times\<close>

definition shown :: "installation_ref \<Rightarrow> string \<Rightarrow> inapp_db \<Rightarrow> delivery_row list" where
  "shown i cid db = filter (\<lambda>d. of_installation i d \<and> d_campaign d = cid \<and> d_authorized_at d \<noteq> None) (deliveries db)"

definition shown_times :: "delivery_row list \<Rightarrow> int list" where
  "shown_times ds = List.map_filter d_authorized_at ds"

definition capped :: "inapp_env \<Rightarrow> int \<Rightarrow> string \<Rightarrow> campaign_config \<Rightarrow> delivery_row list \<Rightarrow> bool" where
  "capped env now session cfg ds \<longleftrightarrow>
     cc_max_total cfg \<le> length ds \<or>
     cc_max_per_day cfg \<le> length (filter (\<lambda>t. ia_day_start env (cc_time_zone cfg) now \<le> t) (shown_times ds)) \<or>
     0 < length (filter (\<lambda>d. d_session d = session) ds) \<or>
     (case shown_times ds of [] \<Rightarrow> False | t # ts \<Rightarrow> now < fold max ts t + cc_cooldown_seconds cfg * 1000)"

definition recently_shown :: "int \<Rightarrow> installation_ref \<Rightarrow> inapp_db \<Rightarrow> bool" where
  "recently_shown now i db \<longleftrightarrow>
     list_ex (\<lambda>d. of_installation i d \<and> (case d_authorized_at d of None \<Rightarrow> False | Some t \<Rightarrow> now - 30000 < t)) (deliveries db)"

text \<open>The loop over the candidates\<close>

fun pick_campaign :: "inapp_env \<Rightarrow> int \<Rightarrow> installation_ref \<Rightarrow> bool \<Rightarrow> string \<Rightarrow> trigger \<Rightarrow> inapp_db \<Rightarrow> camp_row list \<Rightarrow> camp_row option" where
  "pick_campaign env now i supports session trig db [] = None"
| "pick_campaign env now i supports session trig db (c # cs) =
     (if \<not> eligible now i supports trig (c_config c) then pick_campaign env now i supports session trig db cs
      else if suppressed now i (c_id c) db then pick_campaign env now i supports session trig db cs
      else if capped env now session (c_config c) (shown i (c_id c) db) then pick_campaign env now i supports session trig db cs
      else if recently_shown now i db then None
      else Some c)"

record delivered =
  o_time_zone :: string
  o_id :: string
  o_revision :: string
  o_campaign :: string
  o_expires_at :: int
  o_html :: string

definition publication_of :: "string \<Rightarrow> string \<Rightarrow> string \<Rightarrow> int \<Rightarrow> inapp_db \<Rightarrow> publication_row option" where
  "publication_of tenant app cid version db =
     find (\<lambda>p. p_tenant p = tenant \<and> p_app p = app \<and> p_campaign p = cid \<and> p_version p = version) (publications db)"

definition publication_zone :: "installation_ref \<Rightarrow> delivery_row \<Rightarrow> inapp_db \<Rightarrow> string" where
  "publication_zone i d db =
     (case publication_of (i_tenant i) (i_app i) (d_campaign d) (d_version d) db of None \<Rightarrow> ''UTC'' | Some p \<Rightarrow> cc_time_zone (p_config p))"

definition delivery_artifact :: "inapp_env \<Rightarrow> installation_ref \<Rightarrow> delivery_row \<Rightarrow> inapp_db \<Rightarrow> http_error + delivered option" where
  "delivery_artifact env i d db =
     (case assets_read env (i_tenant i) (i_app i) (d_revision d) db of
        Inl e \<Rightarrow> Inl e
      | Inr html \<Rightarrow> Inr (Some \<lparr>o_time_zone = publication_zone i d db, o_id = d_id d, o_revision = d_revision d, o_campaign = d_campaign d,
                        o_expires_at = d_expires_at d, o_html = html\<rparr>))"

definition new_delivery :: "int \<Rightarrow> string \<Rightarrow> installation_ref \<Rightarrow> camp_row \<Rightarrow> string \<Rightarrow> string \<Rightarrow> trigger \<Rightarrow> delivery_row" where
  "new_delivery now newId i c key session trig =
     \<lparr>d_id = newId, d_tenant = i_tenant i, d_app = i_app i, d_installation = i_id i, d_campaign = c_id c, d_version = c_version c,
      d_revision = c_revision c, d_request_key = key, d_session = session, d_trigger = trig, d_state = Reserved,
      d_expires_at = now + 30000, d_authorized_at = None, d_created_at = now\<rparr>"

text \<open>The answer for a request key that was used before, from the delivery it made\<close>

definition replay_decision :: "inapp_env \<Rightarrow> installation_ref \<Rightarrow> bool \<Rightarrow> delivery_row \<Rightarrow> inapp_db \<Rightarrow> http_error + delivered option" where
  "replay_decision env i supports old db =
     (if d_state old = Reserved \<and> (supports \<or> publication_zone i old db = ''UTC'') then delivery_artifact env i old db else Inr None)"

definition decide ::
  "inapp_env \<Rightarrow> int \<Rightarrow> string \<Rightarrow> installation_ref \<Rightarrow> jsval \<Rightarrow> bool \<Rightarrow> inapp_db \<Rightarrow> (inapp_db, delivered option) reply" where
  "decide env now newId i input supports db =
     (case decisionSchema env input of
        None \<Rightarrow> (Inl (BadRequest ''INVALID_INPUT''), db)
      | Some (key, session, trig) \<Rightarrow>
          if \<not> active_installation i db then (Inl (Unauthorized ''installation''), db)
          else
            (let db1 = expire_deliveries now i (touch_installation now i db)
             in case find (\<lambda>d. of_installation i d \<and> d_request_key d = key) (deliveries db1) of
                  Some old \<Rightarrow>
                    if d_session old \<noteq> session \<or> d_trigger old \<noteq> trig then (Inl (Conflict ''REQUEST_KEY_REUSED''), db)
                    else (replay_decision env i supports old db1, db1)
                | None \<Rightarrow>
                    if list_ex (\<lambda>d. of_installation i d \<and> live_state (d_state d)) (deliveries db1) then (Inr None, db1)
                    else case pick_campaign env now i supports session trig db1 (candidates i db1) of
                           None \<Rightarrow> (Inr None, db1)
                         | Some c \<Rightarrow>
                             if newId \<in> set (map d_id (deliveries db1)) then (Inl (Internal ''unique_violation''), db)
                             else let d = new_delivery now newId i c key session trig; db2 = db1\<lparr>deliveries := deliveries db1 @ [d]\<rparr>
                                  in (delivery_artifact env i d db2, db2)))"

section \<open>Authorisation and status\<close>

definition delivery_key :: "installation_ref \<Rightarrow> string \<Rightarrow> delivery_row \<Rightarrow> bool" where
  "delivery_key i did d \<longleftrightarrow> of_installation i d \<and> d_id d = did"

definition set_delivery :: "installation_ref \<Rightarrow> string \<Rightarrow> (delivery_row \<Rightarrow> delivery_row) \<Rightarrow> inapp_db \<Rightarrow> inapp_db" where
  "set_delivery i did f db = db\<lparr>deliveries := update_where (delivery_key i did) f (deliveries db)\<rparr>"

definition authorize :: "int \<Rightarrow> installation_ref \<Rightarrow> string \<Rightarrow> inapp_db \<Rightarrow> (inapp_db, int) outcome" where
  "authorize now i did db =
     (if \<not> active_installation i db then Inl (Unauthorized ''installation'')
      else case find (delivery_key i did) (deliveries db) of
        None \<Rightarrow> Inl (NotFound ''delivery'')
      | Some d \<Rightarrow>
          (case find (campaign_key (i_tenant i) (i_app i) (d_campaign d)) (campaigns db) of
             None \<Rightarrow> Inl (Internal ''TypeError'')
           | Some c \<Rightarrow>
               if c_state c \<noteq> Published \<or> c_version c \<noteq> d_version d \<or> now < cc_starts_at (c_config c) \<or> cc_ends_at (c_config c) \<le> now \<or>
                  d_expires_at d \<le> now \<or> d_state d \<notin> {Reserved, Authorized}
               then Inl (Conflict ''DELIVERY_NOT_ELIGIBLE'')
               else if d_state d = Authorized then Inr (d_expires_at d, db)
               else let until_at = min (now + 300000) (cc_ends_at (c_config c))
                    in Inr (until_at, set_delivery i did (\<lambda>d. d\<lparr>d_state := Authorized, d_authorized_at := Some now, d_expires_at := until_at\<rparr>) db)))"

definition delivery_status :: "int \<Rightarrow> installation_ref \<Rightarrow> string \<Rightarrow> inapp_db \<Rightarrow> http_error + (string option \<times> bool)" where
  "delivery_status now i did db =
     (case find (delivery_key i did) (deliveries db) of
        None \<Rightarrow> Inl (NotFound ''delivery'')
      | Some d \<Rightarrow>
          (case find (campaign_key (i_tenant i) (i_app i) (d_campaign d)) (campaigns db) of
             None \<Rightarrow> Inl (NotFound ''delivery'')
           | Some c \<Rightarrow>
               Inr (if c_state c \<noteq> Published then Some ''campaign_paused''
                    else if d_version d \<noteq> c_version c then Some ''campaign_updated''
                    else if cc_ends_at (c_config c) \<le> now then Some ''campaign_expired''
                    else if d_expires_at d \<le> now then Some ''display_timeout''
                    else if d_state d \<notin> {Authorized, Presented} then Some ''delivery_inactive'' else None,
                    d_state d \<in> {Authorized, Presented} \<and> c_state c = Published \<and> d_version d = c_version c \<and>
                    now < d_expires_at d \<and> now < cc_ends_at (c_config c))))"

section \<open>Events\<close>

record event_input =
  e_id :: string
  e_kind :: string
  e_detail :: string
  e_occurred :: "int option"

definition event_kinds :: "string list" where
  "event_kinds = [''bridge_ready'', ''content_ready'', ''presented'', ''impression'', ''action'', ''dismiss'', ''failed'', ''log'', ''hide_today'', ''cancelled'']"

definition event_schema :: "inapp_env \<Rightarrow> jsval \<Rightarrow> event_input option" where
  "event_schema env b =
     (if \<not> in_strict [''event_id'', ''kind'', ''detail'', ''occurred_at''] b then None
      else case (js_get b ''event_id'', js_get b ''kind'',
                 (if js_get b ''detail'' = None then Some [] else z_string 0 200 (js_get b ''detail'')), z_optional (z_date env) (js_get b ''occurred_at'')) of
             (Some (JStr i), Some (JStr k), Some dt, Some oc) \<Rightarrow>
               if ia_uuid env i \<and> k \<in> set event_kinds then Some \<lparr>e_id = i, e_kind = k, e_detail = dt, e_occurred = oc\<rparr> else None
           | _ \<Rightarrow> None)"

definition event_of :: "installation_ref \<Rightarrow> string \<Rightarrow> delivery_event \<Rightarrow> bool" where
  "event_of i did e \<longleftrightarrow> ev_tenant e = i_tenant i \<and> ev_app e = i_app i \<and> ev_delivery e = did"

definition event_closed :: "int \<Rightarrow> delivery_row \<Rightarrow> bool" where
  "event_closed now d \<longleftrightarrow> \<not> live_state (d_state d) \<or> d_expires_at d \<le> now"

text \<open>The conflicts an event that is not a repetition can raise, in the order of the checks\<close>

definition known_action :: "installation_ref \<Rightarrow> delivery_row \<Rightarrow> string \<Rightarrow> inapp_db \<Rightarrow> bool" where
  "known_action i d a db \<longleftrightarrow>
     (case find (\<lambda>r. rv_tenant r = i_tenant i \<and> rv_app r = i_app i \<and> rv_id r = d_revision d) (revisions db) of
        None \<Rightarrow> False | Some r \<Rightarrow> a \<in> set (rv_actions r))"

definition event_conflict :: "int \<Rightarrow> installation_ref \<Rightarrow> delivery_row \<Rightarrow> event_input \<Rightarrow> inapp_db \<Rightarrow> string option" where
  "event_conflict now i d b db =
     (let mine = filter (event_of i (d_id d)) (events db)
      in if e_kind b = ''cancelled'' \<and> e_detail b \<notin> set cancellationReasons then Some ''INVALID_CANCELLATION_REASON''
         else if (case e_occurred b of None \<Rightarrow> False
                  | Some t \<Rightarrow> t < now - 7 * 86400000 \<or> now + 120000 < t \<or> t < d_created_at d - 120000 \<or> d_expires_at d + 120000 < t)
         then Some ''EVENT_TIME_INVALID''
         else if event_closed now d \<and> e_occurred b = None then Some ''DELIVERY_CLOSED''
         else if e_kind b = ''presented'' \<and> d_authorized_at d = None then Some ''NOT_AUTHORIZED''
         else if e_kind b \<in> {''impression'', ''action'', ''hide_today'', ''dismiss''} \<and>
            (d_authorized_at d = None \<or> \<not> list_ex (\<lambda>e. ev_kind e = ''presented'') mine)
         then Some ''NOT_PRESENTED''
         else if 200 \<le> length mine then Some ''EVENT_LIMIT''
         else if e_kind b = ''action'' \<and> \<not> known_action i d (e_detail b) db then Some ''UNKNOWN_ACTION''
         else None)"

text \<open>\<open>INSERT ... ON CONFLICT DO NOTHING\<close> under the primary key and the index on the kinds that are kept once\<close>

definition once_kind :: "string \<Rightarrow> bool" where
  "once_kind k \<longleftrightarrow> k \<in> {''presented'', ''impression'', ''hide_today''}"

definition event_clash :: "delivery_event \<Rightarrow> delivery_event \<Rightarrow> bool" where
  "event_clash e r \<longleftrightarrow> ev_tenant r = ev_tenant e \<and> ev_app r = ev_app e \<and> ev_delivery r = ev_delivery e \<and>
     (ev_id r = ev_id e \<or> ev_kind r = ev_kind e \<and> once_kind (ev_kind e))"

definition insert_event :: "delivery_event \<Rightarrow> inapp_db \<Rightarrow> inapp_db" where
  "insert_event e db = (if list_ex (event_clash e) (events db) then db else db\<lparr>events := events db @ [e]\<rparr>)"

definition hide_today :: "inapp_env \<Rightarrow> int \<Rightarrow> int \<Rightarrow> installation_ref \<Rightarrow> delivery_row \<Rightarrow> inapp_db \<Rightarrow> inapp_db" where
  "hide_today env now occurred i d db =
     (case publication_of (i_tenant i) (i_app i) (d_campaign d) (d_version d) db of
        None \<Rightarrow> db
      | Some p \<Rightarrow>
          (let until_at = ia_next_day env (cc_time_zone (p_config p)) occurred; k = (i_tenant i, i_app i, i_id i, d_campaign d)
           in if until_at \<le> now then db
              else db\<lparr>suppressions := AList.update k (case map_of (suppressions db) k of None \<Rightarrow> until_at | Some u \<Rightarrow> max u until_at) (suppressions db)\<rparr>))"

definition next_state :: "int \<Rightarrow> delivery_row \<Rightarrow> string \<Rightarrow> delivery_state" where
  "next_state now d kind =
     (if event_closed now d then (if d_expires_at d \<le> now \<and> live_state (d_state d) then Expired else d_state d)
      else if kind = ''presented'' then Presented
      else if kind = ''dismiss'' then Completed
      else if kind = ''cancelled'' then Cancelled
      else if kind = ''failed'' then Failed
      else d_state d)"

definition delivery_event_op :: "inapp_env \<Rightarrow> int \<Rightarrow> installation_ref \<Rightarrow> string \<Rightarrow> jsval \<Rightarrow> inapp_db \<Rightarrow> (inapp_db, unit) outcome" where
  "delivery_event_op env now i did input db =
     (case event_schema env input of
        None \<Rightarrow> Inl (BadRequest ''INVALID_INPUT'')
      | Some b \<Rightarrow>
          (case find (delivery_key i did) (deliveries db) of
             None \<Rightarrow> Inl (NotFound ''delivery'')
           | Some d \<Rightarrow>
               (case find (\<lambda>e. event_of i did e \<and> ev_id e = e_id b) (events db) of
                  Some old \<Rightarrow>
                    if ev_kind old \<noteq> e_kind b \<or> ev_detail old \<noteq> e_detail b \<or>
                       (e_occurred b \<noteq> None \<and> ev_occurred old \<noteq> None \<and> ev_occurred old \<noteq> e_occurred b)
                    then Inl (Conflict ''EVENT_ID_REUSED'') else Inr ((), db)
                | None \<Rightarrow>
                    (case event_conflict now i d b db of
                       Some code \<Rightarrow> Inl (Conflict code)
                     | None \<Rightarrow>
                         (let db1 = insert_event \<lparr>ev_tenant = i_tenant i, ev_app = i_app i, ev_delivery = did, ev_id = e_id b,
                                      ev_kind = e_kind b, ev_detail = e_detail b, ev_occurred = e_occurred b\<rparr> db;
                              db2 = (if e_kind b = ''hide_today''
                                     then hide_today env now (case e_occurred b of None \<Rightarrow> now | Some t \<Rightarrow> t) i d db1 else db1)
                          in Inr ((), set_delivery i did (\<lambda>r. r\<lparr>d_state := next_state now d (e_kind b)\<rparr>) db2))))))"

definition revoke_installation :: "installation_ref \<Rightarrow> inapp_db \<Rightarrow> inapp_db" where
  "revoke_installation i db =
     cancel_deliveries (of_installation i)
       (db\<lparr>installs := update_where (is_installation i) (\<lambda>v. v\<lparr>iv_revoked := True\<rparr>) (installs db)\<rparr>)"

section \<open>Requests\<close>

text \<open>The capability header: \<open>(header ?? "").split(",").map(v => v.trim()).includes("campaign-time-zone")\<close>\<close>

definition supports_zone :: "string option \<Rightarrow> bool" where
  "supports_zone h \<longleftrightarrow> ''campaign-time-zone'' \<in> set (map trim (split_on (CHR '','') (case h of None \<Rightarrow> [] | Some s \<Rightarrow> s)))"

definition live_auth :: "inapp_env \<Rightarrow> string \<Rightarrow> string \<Rightarrow> string option \<Rightarrow> inapp_db \<Rightarrow> http_error + installation_ref" where
  "live_auth env tenant app header db = installation_auth env tenant app (case header of None \<Rightarrow> [] | Some t \<Rightarrow> t) db"

datatype inapp_op =
    SaveCampaign int string string string jsval "string option"
  | ReviewRevision string string string jsval
  | PublishCampaign int string string string string jsval
  | PauseCampaign int string string string string jsval
  | Register int string string string string jsval
  | Decide int string string string "string option" jsval "string option"
  | Authorize int string string "string option" string
  | ReportEvent int string string "string option" string jsval
  | Revoke string string "string option"

text \<open>The committed state after a request; an unauthenticated installation changes nothing.\<close>

definition with_installation :: "http_error + installation_ref \<Rightarrow> (installation_ref \<Rightarrow> inapp_db) \<Rightarrow> inapp_db \<Rightarrow> inapp_db" where
  "with_installation r f db = (case r of Inl _ \<Rightarrow> db | Inr i \<Rightarrow> f i)"

fun inapp_step :: "inapp_env \<Rightarrow> inapp_op \<Rightarrow> inapp_db \<Rightarrow> inapp_db" where
  "inapp_step env (SaveCampaign now newId tenant app b cid) db = after db (campaign_save env now newId tenant app b cid db)"
| "inapp_step env (ReviewRevision tenant app member b) db = after db (campaign_review env tenant app member b db)"
| "inapp_step env (PublishCampaign now tenant app cid member b) db = after db (campaign_transition env now tenant app cid member b True db)"
| "inapp_step env (PauseCampaign now tenant app cid member b) db = after db (campaign_transition env now tenant app cid member b False db)"
| "inapp_step env (Register now newId secret tenant app b) db = after db (register_installation env now newId secret tenant app b db)"
| "inapp_step env (Decide now newId tenant app header b caps) db =
     with_installation (live_auth env tenant app header db) (\<lambda>i. snd (decide env now newId i b (supports_zone caps) db)) db"
| "inapp_step env (Authorize now tenant app header did) db =
     with_installation (live_auth env tenant app header db) (\<lambda>i. after db (authorize now i did db)) db"
| "inapp_step env (ReportEvent now tenant app header did b) db =
     with_installation (live_auth env tenant app header db) (\<lambda>i. after db (delivery_event_op env now i did b db)) db"
| "inapp_step env (Revoke tenant app header) db =
     with_installation (live_auth env tenant app header db) (\<lambda>i. revoke_installation i db) db"

end
