(* ===== verification/InApp_Safety.thy ===== *)
theory InApp_Safety
  imports InApp_Delivery
begin

text \<open>
  What the in-app service promises about the messages an installation sees, for every sequence of console and device requests: the
  invariant of the delivery tables (one live delivery per installation, one display per session, the campaign's total), that a paused
  campaign never shows an old delivery again, and that reported events are backed by an authorisation.
\<close>

section \<open>Counting rows\<close>

lemma length_filter_map_le:
  "(\<And>x. x \<in> set xs \<Longrightarrow> P (g x) \<Longrightarrow> Q x) \<Longrightarrow> length (filter P (map g xs)) \<le> length (filter Q xs)"
  by (induction xs) auto

lemma length_filter_update_le:
  "(\<And>x. x \<in> set xs \<Longrightarrow> P (if p x then f x else x) \<Longrightarrow> Q x) \<Longrightarrow> length (filter P (update_where p f xs)) \<le> length (filter Q xs)"
  unfolding update_where_def by (rule length_filter_map_le)

text \<open>An update of one row, named by its key, adds at most one row to any selection.\<close>

lemma length_filter_update_one:
  assumes "distinct (map k xs)" "\<And>x. p x \<Longrightarrow> k x = key"
  shows "length (filter P (update_where p f xs)) \<le> Suc (length (filter P xs))"
  using assms(1)
proof (induction xs)
  case (Cons x xs)
  show ?case
  proof (cases "p x")
    case True
    then have "\<not> p y" if y: "y \<in> set xs" for y using Cons.prems assms(2) y by force
    then have "update_where p f xs = xs" by (auto simp: update_where_def intro: map_idI)
    then show ?thesis by (simp add: update_where_def)
  next
    case False
    then show ?thesis using Cons by (simp add: update_where_def)
  qed
qed simp

lemma at_most_one_eq: "length (filter P xs) \<le> 1 \<Longrightarrow> x \<in> set xs \<Longrightarrow> y \<in> set xs \<Longrightarrow> P x \<Longrightarrow> P y \<Longrightarrow> x = y"
proof -
  assume a: "length (filter P xs) \<le> 1" "x \<in> set xs" "y \<in> set xs" "P x" "P y"
  then have m: "x \<in> set (filter P xs)" "y \<in> set (filter P xs)" by simp_all
  from a(1) have "filter P xs = [] \<or> (\<exists>z. filter P xs = [z])" by (cases "filter P xs") auto
  then show ?thesis using m by (metis empty_iff empty_set set_ConsD)
qed

lemma distinct_key_eq: "distinct (map k xs) \<Longrightarrow> x \<in> set xs \<Longrightarrow> y \<in> set xs \<Longrightarrow> k x = k y \<Longrightarrow> x = y"
  by (auto simp: distinct_map inj_on_def)

section \<open>The invariant\<close>

definition shown_in :: "installation_ref \<Rightarrow> string \<Rightarrow> delivery_row \<Rightarrow> bool" where
  "shown_in i cid d \<longleftrightarrow> of_installation i d \<and> d_campaign d = cid \<and> d_authorized_at d \<noteq> None"

definition live_of :: "installation_ref \<Rightarrow> delivery_row \<Rightarrow> bool" where
  "live_of i d \<longleftrightarrow> of_installation i d \<and> live_state (d_state d)"

definition runs_in :: "camp_row \<Rightarrow> delivery_row \<Rightarrow> bool" where
  "runs_in c d \<longleftrightarrow> campaign_key (d_tenant d) (d_app d) (d_campaign d) c"

definition rows_ok :: "inapp_db \<Rightarrow> bool" where
  "rows_ok db \<longleftrightarrow>
     distinct (map d_id (deliveries db)) \<and> distinct (map c_id (campaigns db)) \<and>
     (\<forall>c \<in> set (campaigns db). cc_max_total (c_config c) \<le> 100) \<and>
     (\<forall>d \<in> set (deliveries db). (\<exists>c \<in> set (campaigns db). runs_in c d) \<and> (d_state d = Reserved \<longrightarrow> d_authorized_at d = None))"

definition versions_ok :: "inapp_db \<Rightarrow> bool" where
  "versions_ok db \<longleftrightarrow>
     (\<forall>d \<in> set (deliveries db). \<forall>c \<in> set (campaigns db). runs_in c d \<longrightarrow>
        d_version d \<le> c_version c \<and> (c_state c \<noteq> Published \<longrightarrow> d_version d < c_version c))"

definition one_live :: "inapp_db \<Rightarrow> bool" where
  "one_live db \<longleftrightarrow> (\<forall>i. length (filter (live_of i) (deliveries db)) \<le> 1)"

definition once_per_session :: "inapp_db \<Rightarrow> bool" where
  "once_per_session db \<longleftrightarrow>
     (\<forall>i cid s. length (filter (\<lambda>d. shown_in i cid d \<and> d_session d = s) (deliveries db)) \<le> 1) \<and>
     (\<forall>i. \<forall>d \<in> set (deliveries db). \<forall>d' \<in> set (deliveries db).
        of_installation i d \<and> d_state d = Reserved \<and> shown_in i (d_campaign d) d' \<longrightarrow> d_session d' \<noteq> d_session d)"

definition within_total :: "inapp_db \<Rightarrow> bool" where
  "within_total db \<longleftrightarrow>
     (\<forall>i cid. length (filter (shown_in i cid) (deliveries db)) \<le> 100) \<and>
     (\<forall>i. \<forall>d \<in> set (deliveries db). \<forall>c \<in> set (campaigns db).
        of_installation i d \<and> runs_in c d \<and> c_version c = d_version d \<longrightarrow>
        length (filter (shown_in i (d_campaign d)) (deliveries db)) + (if d_state d = Reserved then 1 else 0) \<le> cc_max_total (c_config c))"

definition inapp_inv :: "inapp_db \<Rightarrow> bool" where
  "inapp_inv db \<longleftrightarrow> rows_ok db \<and> versions_ok db \<and> one_live db \<and> once_per_session db \<and> within_total db"

lemma shown_eq: "shown i cid db = filter (shown_in i cid) (deliveries db)"
  by (simp add: shown_def shown_in_def [abs_def])

lemma inapp_inv_cong: "deliveries db' = deliveries db \<Longrightarrow> campaigns db' = campaigns db \<Longrightarrow> inapp_inv db' = inapp_inv db"
  by (simp add: inapp_inv_def rows_ok_def versions_ok_def one_live_def once_per_session_def within_total_def)

subsection \<open>Changes of the state of deliveries\<close>

text \<open>A change of states that revives nothing and reserves nothing\<close>

definition restates :: "(delivery_row \<Rightarrow> delivery_row) \<Rightarrow> delivery_row list \<Rightarrow> bool" where
  "restates g ds \<longleftrightarrow> (\<forall>d \<in> set ds. \<exists>st. g d = d\<lparr>d_state := st\<rparr> \<and> (live_state st \<longrightarrow> live_state (d_state d)) \<and> (st = Reserved \<longrightarrow> d_state d = Reserved))"

lemma restates_keep:
  assumes "restates g ds" "d \<in> set ds"
  shows "d_id (g d) = d_id d" "of_installation i (g d) = of_installation i d" "shown_in i cid (g d) = shown_in i cid d"
    "runs_in c (g d) = runs_in c d" "d_version (g d) = d_version d" "d_session (g d) = d_session d" "d_campaign (g d) = d_campaign d"
    "d_authorized_at (g d) = d_authorized_at d" "live_of i (g d) \<Longrightarrow> live_of i d" "d_state (g d) = Reserved \<Longrightarrow> d_state d = Reserved"
  using assms unfolding restates_def by (force simp: of_installation_def shown_in_def runs_in_def live_of_def)+

lemma restates_count: "restates g ds \<Longrightarrow> length (filter (shown_in i cid) (map g ds)) = length (filter (shown_in i cid) ds)"
proof -
  assume r: "restates g ds"
  have "filter (shown_in i cid \<circ> g) ds = filter (shown_in i cid) ds" by (rule filter_cong) (simp_all add: restates_keep(3) [OF r])
  then show ?thesis by (simp add: filter_map)
qed

lemma restate_inv:
  assumes inv: "inapp_inv db" and r: "restates g (deliveries db)"
  shows "inapp_inv (db\<lparr>deliveries := map g (deliveries db)\<rparr>)"
proof -
  let ?ds = "deliveries db" and ?db = "db\<lparr>deliveries := map g (deliveries db)\<rparr>"
  note inv' = inv [unfolded inapp_inv_def]
  note keep = restates_keep [OF r]
  have "map d_id (map g ?ds) = map d_id ?ds" by (simp add: keep cong: map_cong)
  then have 1: "rows_ok ?db"
    using inv' unfolding rows_ok_def by (auto simp: keep simp del: map_map dest: keep(10))
  have 2: "versions_ok ?db" using inv' unfolding versions_ok_def by (simp add: keep)
  have "length (filter (live_of i) (map g ?ds)) \<le> length (filter (live_of i) ?ds)" for i
    by (rule length_filter_map_le) (rule keep(9))
  then have 3: "one_live ?db" using inv' unfolding one_live_def by simp (meson order_trans)
  have "length (filter (\<lambda>d. shown_in i cid d \<and> d_session d = s) (map g ?ds)) \<le> length (filter (\<lambda>d. shown_in i cid d \<and> d_session d = s) ?ds)" for i cid s
    by (rule length_filter_map_le) (simp add: keep)
  then have "length (filter (\<lambda>d. shown_in i cid d \<and> d_session d = s) (map g ?ds)) \<le> 1" for i cid s
    using inv' unfolding once_per_session_def by (meson order_trans)
  moreover have "d_session (g d') \<noteq> d_session (g d)"
    if d: "d \<in> set ?ds" "d' \<in> set ?ds" "of_installation i (g d)" "d_state (g d) = Reserved" "shown_in i (d_campaign (g d)) (g d')" for i d d'
    using inv' d keep(10) [OF d(1,4)] unfolding once_per_session_def by (simp add: keep)
  ultimately have 4: "once_per_session ?db" unfolding once_per_session_def by auto
  have "length (filter (shown_in i (d_campaign (g d))) (map g ?ds)) + (if d_state (g d) = Reserved then 1 else 0) \<le> cc_max_total (c_config c)"
    if d: "d \<in> set ?ds" "c \<in> set (campaigns db)" "of_installation i (g d)" "runs_in c (g d)" "c_version c = d_version (g d)" for i d c
  proof -
    have "length (filter (shown_in i (d_campaign d)) ?ds) + (if d_state d = Reserved then 1 else 0) \<le> cc_max_total (c_config c)"
      using inv' d unfolding within_total_def by (simp add: keep)
    then show ?thesis using keep(10) [OF d(1)] unfolding restates_count [OF r] keep(7) [OF d(1)] by (auto split: if_splits)
  qed
  moreover have "length (filter (shown_in i cid) (map g ?ds)) \<le> 100" for i cid
    using inv' unfolding restates_count [OF r] within_total_def by blast
  ultimately have 5: "within_total ?db" unfolding within_total_def by auto
  from 1 2 3 4 5 show ?thesis unfolding inapp_inv_def by blast
qed

subsection \<open>A new delivery\<close>

text \<open>What the decision has checked when it inserts a delivery\<close>

definition grants :: "installation_ref \<Rightarrow> camp_row \<Rightarrow> delivery_row \<Rightarrow> inapp_db \<Rightarrow> bool" where
  "grants i c d db \<longleftrightarrow>
     of_installation i d \<and> c \<in> set (campaigns db) \<and> runs_in c d \<and> c_state c = Published \<and> d_version d = c_version c \<and>
     d_state d = Reserved \<and> d_authorized_at d = None \<and> d_id d \<notin> d_id ` set (deliveries db) \<and>
     (\<forall>d' \<in> set (deliveries db). \<not> live_of i d') \<and>
     (\<forall>d' \<in> set (deliveries db). shown_in i (c_id c) d' \<longrightarrow> d_session d' \<noteq> d_session d) \<and>
     length (filter (shown_in i (c_id c)) (deliveries db)) < cc_max_total (c_config c)"

lemma same_installation: "of_installation i d \<Longrightarrow> of_installation j d \<Longrightarrow> of_installation i d' = of_installation j d'"
  by (simp add: of_installation_def)

lemma same_campaign: "rows_ok db \<Longrightarrow> c \<in> set (campaigns db) \<Longrightarrow> c' \<in> set (campaigns db) \<Longrightarrow> runs_in c d \<Longrightarrow> runs_in c' d \<Longrightarrow> c = c'"
  unfolding rows_ok_def runs_in_def campaign_key_def using distinct_key_eq [of c_id "campaigns db" c c'] by simp

lemma grant_facts:
  assumes "rows_ok db" "grants i c d db"
  shows grant_campaign: "d_campaign d = c_id c"
    and grant_unshown: "\<not> shown_in j cid d"
    and grant_live: "of_installation j d \<Longrightarrow> live_of j = live_of i"
    and grant_shown: "of_installation j d \<Longrightarrow> shown_in j = shown_in i"
    and grant_pair: "d' \<in> set (deliveries db @ [d]) \<Longrightarrow> c' \<in> set (campaigns db) \<Longrightarrow> runs_in c' d' \<Longrightarrow> d' \<in> set (deliveries db) \<or> d' = d \<and> c' = c"
proof -
  note g = assms(2) [unfolded grants_def]
  show "d_campaign d = c_id c" "\<not> shown_in j cid d" using g by (simp_all add: runs_in_def campaign_key_def shown_in_def)
  have "of_installation j = of_installation i" if j: "of_installation j d" using same_installation [OF j] g by (simp add: fun_eq_iff)
  then show "live_of j = live_of i" "shown_in j = shown_in i" if j: "of_installation j d"
    using j by (simp_all add: live_of_def [abs_def] shown_in_def [abs_def])
  have "c \<in> set (campaigns db)" "runs_in c d" using g by simp_all
  then show "d' \<in> set (deliveries db) \<or> d' = d \<and> c' = c" if "d' \<in> set (deliveries db @ [d])" "c' \<in> set (campaigns db)" "runs_in c' d'"
    using same_campaign [OF assms(1), of c' c d] that by (cases "d' = d") simp_all
qed

lemma grant_versions:
  assumes "rows_ok db" "versions_ok db" "grants i c d db"
  shows "versions_ok (db\<lparr>deliveries := deliveries db @ [d]\<rparr>)"
  unfolding versions_ok_def
proof (intro ballI impI)
  fix d' c' assume m: "d' \<in> set (deliveries (db\<lparr>deliveries := deliveries db @ [d]\<rparr>))" "c' \<in> set (campaigns (db\<lparr>deliveries := deliveries db @ [d]\<rparr>))" "runs_in c' d'"
  then have "d' \<in> set (deliveries db) \<or> d' = d \<and> c' = c" using grant_pair [OF assms(1,3), of d' c'] by simp
  then show "d_version d' \<le> c_version c' \<and> (c_state c' \<noteq> Published \<longrightarrow> d_version d' < c_version c')"
    using m assms(2,3) unfolding versions_ok_def grants_def by auto
qed

lemma grant_one_live:
  assumes "rows_ok db" "one_live db" "grants i c d db"
  shows "one_live (db\<lparr>deliveries := deliveries db @ [d]\<rparr>)"
proof -
  have "length (filter (live_of j) (deliveries db @ [d])) \<le> 1" for j
  proof (cases "of_installation j d")
    case True
    have "filter (live_of j) (deliveries db) = []"
      using assms(3) unfolding grant_live [OF assms(1,3) True] filter_empty_conv grants_def by blast
    then show ?thesis by simp
  next
    case False
    then show ?thesis using assms(2) by (simp add: one_live_def live_of_def [of j d])
  qed
  then show ?thesis by (simp add: one_live_def)
qed

lemma grant_sessions:
  assumes "rows_ok db" "once_per_session db" "grants i c d db"
  shows "once_per_session (db\<lparr>deliveries := deliveries db @ [d]\<rparr>)"
proof -
  note no = grant_unshown [OF assms(1,3)]
  have "d_session d2 \<noteq> d_session d1"
    if m: "d1 \<in> set (deliveries db @ [d])" "d2 \<in> set (deliveries db @ [d])"
      and h: "of_installation j d1" "d_state d1 = Reserved" "shown_in j (d_campaign d1) d2" for j d1 d2
  proof -
    have d2: "d2 \<in> set (deliveries db)" using m(2) h(3) no by auto
    show ?thesis
    proof (cases "d1 \<in> set (deliveries db)")
      case True
      then show ?thesis using assms(2) h d2 unfolding once_per_session_def by blast
    next
      case False
      then have d1: "d1 = d" using m(1) by simp
      then have "shown_in i (c_id c) d2" using h grant_shown [OF assms(1,3), of j] grant_campaign [OF assms(1,3)] by simp
      then show ?thesis using assms(3) d2 unfolding d1 grants_def by blast
    qed
  qed
  then show ?thesis using assms(2) no unfolding once_per_session_def by simp blast
qed

lemma grant_total:
  assumes "rows_ok db" "within_total db" "grants i c d db"
  shows "within_total (db\<lparr>deliveries := deliveries db @ [d]\<rparr>)"
proof -
  note no = grant_unshown [OF assms(1,3)]
  have "length (filter (shown_in j (d_campaign d')) (deliveries db)) + (if d_state d' = Reserved then 1 else 0) \<le> cc_max_total (c_config c')"
    if m: "d' \<in> set (deliveries db @ [d])" "c' \<in> set (campaigns db)" and h: "of_installation j d'" "runs_in c' d'" "c_version c' = d_version d'" for j d' c'
    using grant_pair [OF assms(1,3) m h(2)]
  proof
    assume "d' \<in> set (deliveries db)"
    then show ?thesis using assms(2) h m(2) unfolding within_total_def by blast
  next
    assume e: "d' = d \<and> c' = c"
    then have "shown_in j = shown_in i" using h grant_shown [OF assms(1,3)] by blast
    then show ?thesis using e assms(3) grant_campaign [OF assms(1,3)] unfolding grants_def by simp
  qed
  then show ?thesis using assms(2) no unfolding within_total_def by simp
qed

lemma grant_inv:
  assumes "inapp_inv db" "grants i c d db"
  shows "inapp_inv (db\<lparr>deliveries := deliveries db @ [d]\<rparr>)"
proof -
  have "rows_ok (db\<lparr>deliveries := deliveries db @ [d]\<rparr>)" using assms unfolding inapp_inv_def rows_ok_def grants_def by auto
  then show ?thesis
    using assms grant_versions grant_one_live grant_sessions grant_total unfolding inapp_inv_def by simp
qed

subsection \<open>An authorisation\<close>

definition authorizes :: "(delivery_row \<Rightarrow> delivery_row) \<Rightarrow> delivery_row \<Rightarrow> camp_row \<Rightarrow> inapp_db \<Rightarrow> bool" where
  "authorizes g d c db \<longleftrightarrow>
     d \<in> set (deliveries db) \<and> d_state d = Reserved \<and> c \<in> set (campaigns db) \<and> runs_in c d \<and> c_version c = d_version d \<and>
     (\<exists>t u. g d = d\<lparr>d_state := Authorized, d_authorized_at := Some t, d_expires_at := u\<rparr>) \<and>
     (\<forall>d' \<in> set (deliveries db). d' \<noteq> d \<longrightarrow> g d' = d')"

lemma authorizes_keep:
  assumes "authorizes g d c db" "e \<in> set (deliveries db)"
  shows "d_id (g e) = d_id e" "of_installation i (g e) = of_installation i e" "runs_in c' (g e) = runs_in c' e" "d_version (g e) = d_version e"
    "d_session (g e) = d_session e" "d_campaign (g e) = d_campaign e" "live_of i (g e) \<Longrightarrow> live_of i e"
    "d_state (g e) = Reserved \<Longrightarrow> e \<noteq> d \<and> d_state e = Reserved \<and> d_authorized_at (g e) = d_authorized_at e"
    "shown_in i cid (g e) \<longleftrightarrow> shown_in i cid e \<or> e = d \<and> of_installation i d \<and> d_campaign d = cid"
  using assms unfolding authorizes_def
  by (cases "e = d"; auto simp: of_installation_def runs_in_def live_of_def shown_in_def live_state_def)+

text \<open>The rows that are shown after the authorisation: one more, and only for the installation and the campaign of the delivery\<close>

lemma authorizes_count_other:
  assumes "authorizes g d c db" "\<not> (of_installation i d \<and> d_campaign d = cid)"
  shows "length (filter (shown_in i cid) (map g (deliveries db))) \<le> length (filter (shown_in i cid) (deliveries db))"
    and "length (filter (\<lambda>e. shown_in i cid e \<and> d_session e = s) (map g (deliveries db))) \<le> length (filter (\<lambda>e. shown_in i cid e \<and> d_session e = s) (deliveries db))"
  using assms(2) by (rule_tac [!] length_filter_map_le) (auto simp: authorizes_keep [OF assms(1)])

lemma authorizes_map:
  assumes "rows_ok db" "authorizes g d c db"
  shows "map g (deliveries db) = update_where (\<lambda>e. d_id e = d_id d) g (deliveries db)"
  unfolding update_where_def
proof (rule map_cong)
  fix e assume e: "e \<in> set (deliveries db)"
  have "e = d" if "d_id e = d_id d" using assms e that unfolding rows_ok_def authorizes_def by (blast intro: distinct_key_eq)
  then show "g e = (if d_id e = d_id d then g e else e)" using assms(2) e unfolding authorizes_def by auto
qed simp

lemma authorizes_count:
  assumes "rows_ok db" "authorizes g d c db"
  shows "length (filter P (map g (deliveries db))) \<le> Suc (length (filter P (deliveries db)))"
  unfolding authorizes_map [OF assms] by (rule length_filter_update_one [of d_id]) (use assms(1) in \<open>auto simp: rows_ok_def\<close>)

lemma authorizes_alone:
  assumes "one_live db" "authorizes g d c db" "e \<in> set (deliveries db)" "d_state e = Reserved" "of_installation i e" "of_installation i d"
  shows "e = d"
  using assms unfolding one_live_def authorizes_def by (intro at_most_one_eq [of "live_of i" "deliveries db"]) (auto simp: live_of_def live_state_def)

lemma authorize_sessions:
  assumes "rows_ok db" "one_live db" "once_per_session db" and a: "authorizes g d c db"
  shows "once_per_session (db\<lparr>deliveries := map g (deliveries db)\<rparr>)"
proof -
  let ?ds = "deliveries db"
  note keep = authorizes_keep [OF a]
  have d: "d \<in> set ?ds" "d_state d = Reserved" using a by (simp_all add: authorizes_def)
  have one: "length (filter (\<lambda>e. shown_in i cid e \<and> d_session e = s) (map g ?ds)) \<le> 1" for i cid s
  proof (cases "of_installation i d \<and> d_campaign d = cid")
    case False
    show ?thesis using authorizes_count_other(2) [OF a False, of s] assms(3) unfolding once_per_session_def by (meson order_trans)
  next
    case True
    show ?thesis
    proof (cases "s = d_session d")
      case True
      then have "filter (\<lambda>e. shown_in i cid e \<and> d_session e = s) ?ds = []"
        using assms(3) d \<open>of_installation i d \<and> d_campaign d = cid\<close> unfolding once_per_session_def filter_empty_conv by blast
      then show ?thesis using authorizes_count [OF assms(1) a, of "\<lambda>e. shown_in i cid e \<and> d_session e = s"] by simp
    next
      case False
      have "length (filter (\<lambda>e. shown_in i cid e \<and> d_session e = s) (map g ?ds)) \<le> length (filter (\<lambda>e. shown_in i cid e \<and> d_session e = s) ?ds)"
        by (rule length_filter_map_le) (use False in \<open>auto simp: keep\<close>)
      then show ?thesis using assms(3) unfolding once_per_session_def by (meson order_trans)
    qed
  qed
  have "d_session (g e') \<noteq> d_session (g e)"
    if e: "e \<in> set ?ds" "e' \<in> set ?ds" "of_installation i (g e)" "d_state (g e) = Reserved" "shown_in i (d_campaign (g e)) (g e')" for i e e'
  proof -
    have r: "e \<noteq> d" "d_state e = Reserved" "of_installation i e" using keep(8) [OF e(1,4)] e by (simp_all add: keep)
    then have "\<not> of_installation i d" using authorizes_alone [OF assms(2) a e(1)] by blast
    then have "shown_in i (d_campaign e) e'" using e by (simp add: keep)
    then show ?thesis using assms(3) r e(1,2) unfolding once_per_session_def by (simp add: keep)
  qed
  with one show ?thesis unfolding once_per_session_def by auto
qed

lemma authorize_total:
  assumes "rows_ok db" "one_live db" "within_total db" and a: "authorizes g d c db"
  shows "within_total (db\<lparr>deliveries := map g (deliveries db)\<rparr>)"
proof -
  let ?ds = "deliveries db"
  note keep = authorizes_keep [OF a]
  have d: "d \<in> set ?ds" "d_state d = Reserved" "c \<in> set (campaigns db)" "runs_in c d" "c_version c = d_version d" using a by (simp_all add: authorizes_def)
  have more: "length (filter (shown_in i (d_campaign d)) (map g ?ds)) \<le> cc_max_total (c_config c)" if i: "of_installation i d" for i
  proof -
    have "length (filter (shown_in i (d_campaign d)) ?ds) + 1 \<le> cc_max_total (c_config c)"
      using assms(3) d i unfolding within_total_def by fastforce
    then show ?thesis using authorizes_count [OF assms(1) a, of "shown_in i (d_campaign d)"] by linarith
  qed
  have "length (filter (shown_in i cid) (map g ?ds)) \<le> 100" for i cid
  proof (cases "of_installation i d \<and> d_campaign d = cid")
    case True
    then show ?thesis using more [of i] assms(1) d(3) unfolding rows_ok_def by (metis order_trans)
  next
    case False
    show ?thesis using authorizes_count_other(1) [OF a False] assms(3) unfolding within_total_def by (meson order_trans)
  qed
  moreover have "length (filter (shown_in i (d_campaign (g e))) (map g ?ds)) + (if d_state (g e) = Reserved then 1 else 0) \<le> cc_max_total (c_config c')"
    if e: "e \<in> set ?ds" "c' \<in> set (campaigns db)" "of_installation i (g e)" "runs_in c' (g e)" "c_version c' = d_version (g e)" for i e c'
  proof (cases "of_installation i d \<and> d_campaign d = d_campaign e")
    case True
    have "runs_in c' d" using e True by (simp add: keep) (simp add: runs_in_def of_installation_def)
    then have c: "c' = c" using same_campaign [OF assms(1) e(2) d(3)] d(4) by blast
    have "d_state (g e) \<noteq> Reserved" using authorizes_alone [OF assms(2) a e(1)] keep(8) [OF e(1)] e(3) True by (auto simp: keep(2) [OF e(1)])
    then show ?thesis using more [of i] True c by (simp add: keep(6) [OF e(1)])
  next
    case False
    have "length (filter (shown_in i (d_campaign e)) ?ds) + (if d_state e = Reserved then 1 else 0) \<le> cc_max_total (c_config c')"
      using assms(3) e unfolding within_total_def by (simp add: keep)
    then show ?thesis using authorizes_count_other(1) [OF a False] keep(8) [OF e(1)] unfolding keep(6) [OF e(1)] by (auto split: if_splits)
  qed
  ultimately show ?thesis unfolding within_total_def by auto
qed

lemma authorize_inv:
  assumes inv: "inapp_inv db" and a: "authorizes g d c db"
  shows "inapp_inv (db\<lparr>deliveries := map g (deliveries db)\<rparr>)"
proof -
  note keep = authorizes_keep [OF a]
  note inv' = inv [unfolded inapp_inv_def]
  have "map d_id (map g (deliveries db)) = map d_id (deliveries db)" by (simp add: keep cong: map_cong)
  then have 1: "rows_ok (db\<lparr>deliveries := map g (deliveries db)\<rparr>)"
    using inv' unfolding rows_ok_def by (auto simp: keep simp del: map_map dest: keep(8))
  have 2: "versions_ok (db\<lparr>deliveries := map g (deliveries db)\<rparr>)" using inv' unfolding versions_ok_def by (simp add: keep)
  have "length (filter (live_of i) (map g (deliveries db))) \<le> length (filter (live_of i) (deliveries db))" for i
    by (rule length_filter_map_le) (rule keep(7))
  then have 3: "one_live (db\<lparr>deliveries := map g (deliveries db)\<rparr>)" using inv' unfolding one_live_def by simp (meson order_trans)
  from 1 2 3 show ?thesis using inv' authorize_sessions [OF _ _ _ a] authorize_total [OF _ _ _ a] unfolding inapp_inv_def by blast
qed

subsection \<open>A change of campaigns\<close>

text \<open>A changed campaign outruns the versions of its deliveries.\<close>

definition outruns :: "camp_row list \<Rightarrow> inapp_db \<Rightarrow> bool" where
  "outruns cs db \<longleftrightarrow>
     distinct (map c_id cs) \<and>
     (\<forall>c \<in> set (campaigns db). \<exists>c' \<in> set cs. runs_in c' = runs_in c) \<and>
     (\<forall>c \<in> set cs. cc_max_total (c_config c) \<le> 100 \<and>
        (c \<in> set (campaigns db) \<or> (\<forall>d \<in> set (deliveries db). runs_in c d \<longrightarrow> d_version d < c_version c)))"

lemma campaigns_inv:
  assumes inv: "inapp_inv db" and out: "outruns cs db"
  shows "inapp_inv (db\<lparr>campaigns := cs\<rparr>)"
proof -
  note inv' = inv [unfolded inapp_inv_def]
  have old: "c \<in> set (campaigns db) \<or> d_version d < c_version c" if "c \<in> set cs" "d \<in> set (deliveries db)" "runs_in c d" for c d
    using out that unfolding outruns_def by blast
  have 1: "rows_ok (db\<lparr>campaigns := cs\<rparr>)" using inv' out unfolding rows_ok_def outruns_def by simp metis
  have 2: "versions_ok (db\<lparr>campaigns := cs\<rparr>)" using inv' old unfolding versions_ok_def by fastforce
  have "within_total (db\<lparr>campaigns := cs\<rparr>)" using inv' old unfolding within_total_def by fastforce
  moreover have "one_live (db\<lparr>campaigns := cs\<rparr>) = one_live db" "once_per_session (db\<lparr>campaigns := cs\<rparr>) = once_per_session db"
    by (simp_all add: one_live_def once_per_session_def)
  ultimately show ?thesis using inv' 1 2 unfolding inapp_inv_def by blast
qed

lemma outruns_update:
  assumes inv: "inapp_inv db"
    and f: "\<And>c. c \<in> set (campaigns db) \<Longrightarrow> p c \<Longrightarrow>
      c_id (f c) = c_id c \<and> c_tenant (f c) = c_tenant c \<and> c_app (f c) = c_app c \<and> cc_max_total (c_config (f c)) \<le> 100 \<and>
      (c_version (f c) = c_version c + 1 \<or> c_state c \<noteq> Published \<and> c_version (f c) = c_version c)"
  shows "outruns (update_where p f (campaigns db)) db"
  unfolding outruns_def
proof (intro conjI ballI)
  note inv' = inv [unfolded inapp_inv_def]
  have "map c_id (update_where p f (campaigns db)) = map c_id (campaigns db)" using f by (simp add: update_where_def)
  then show "distinct (map c_id (update_where p f (campaigns db)))" using inv' by (simp add: rows_ok_def)
  fix c assume c: "c \<in> set (campaigns db)"
  have "runs_in (if p c then f c else c) = runs_in c" using f [OF c] by (simp add: runs_in_def [abs_def] campaign_key_def [abs_def])
  then show "\<exists>c' \<in> set (update_where p f (campaigns db)). runs_in c' = runs_in c" using update_whereI [OF c, of p f] by blast
next
  note inv' = inv [unfolded inapp_inv_def]
  fix c assume "c \<in> set (update_where p f (campaigns db))"
  then obtain c0 where c0: "c0 \<in> set (campaigns db)" "c = (if p c0 then f c0 else c0)" by (rule in_update_whereE)
  show "cc_max_total (c_config c) \<le> 100" using c0 f inv' unfolding rows_ok_def by auto
  show "c \<in> set (campaigns db) \<or> (\<forall>d \<in> set (deliveries db). runs_in c d \<longrightarrow> d_version d < c_version c)"
  proof (cases "p c0")
    case True
    have "d_version d < c_version c" if d: "d \<in> set (deliveries db)" "runs_in c d" for d
    proof -
      have "runs_in c0 d" using d(2) f [OF c0(1) True] c0(2) True by (simp add: runs_in_def campaign_key_def)
      then have "d_version d \<le> c_version c0 \<and> (c_state c0 \<noteq> Published \<longrightarrow> d_version d < c_version c0)"
        using inv' d(1) c0(1) unfolding versions_ok_def by blast
      then show ?thesis using f [OF c0(1) True] c0(2) True by auto
    qed
    then show ?thesis by blast
  qed (use c0 in simp)
qed

lemma outruns_insert:
  assumes inv: "inapp_inv db" and c: "c_id c \<notin> set (map c_id (campaigns db))" "cc_max_total (c_config c) \<le> 100"
  shows "outruns (campaigns db @ [c]) db"
proof -
  have "\<not> runs_in c d" if d: "d \<in> set (deliveries db)" for d
  proof
    assume r: "runs_in c d"
    obtain c' where "c' \<in> set (campaigns db)" "runs_in c' d" using inv d unfolding inapp_inv_def rows_ok_def by blast
    then have "c_id c = c_id c'" using r by (simp add: runs_in_def campaign_key_def)
    then show False using c(1) \<open>c' \<in> set (campaigns db)\<close> by simp
  qed
  then show ?thesis using inv c unfolding outruns_def inapp_inv_def rows_ok_def by auto
qed

subsection \<open>The requests\<close>

lemma update_inv:
  assumes "inapp_inv db"
    and "\<And>d. d \<in> set (deliveries db) \<Longrightarrow> p d \<Longrightarrow>
      \<exists>st. f d = d\<lparr>d_state := st\<rparr> \<and> (live_state st \<longrightarrow> live_state (d_state d)) \<and> (st = Reserved \<longrightarrow> d_state d = Reserved)"
  shows "inapp_inv (db\<lparr>deliveries := update_where p f (deliveries db)\<rparr>)"
  unfolding update_where_def
proof (rule restate_inv [OF assms(1)])
  have "\<exists>st. (if p d then f d else d) = d\<lparr>d_state := st\<rparr> \<and> (live_state st \<longrightarrow> live_state (d_state d)) \<and> (st = Reserved \<longrightarrow> d_state d = Reserved)"
    if d: "d \<in> set (deliveries db)" for d
    using assms(2) [OF d] by (cases "p d") (auto intro: exI [of _ "d_state d"])
  then show "restates (\<lambda>d. if p d then f d else d) (deliveries db)" by (simp add: restates_def)
qed

lemma cancel_inv: "inapp_inv db \<Longrightarrow> inapp_inv (cancel_deliveries p db)"
  unfolding cancel_deliveries_def by (rule update_inv) (auto simp: live_state_def)

lemma expire_inv: "inapp_inv db \<Longrightarrow> inapp_inv (expire_deliveries now i db)"
  unfolding expire_deliveries_def by (rule update_inv) (auto simp: live_state_def)

lemma config_total: "campaignConfigSchema env v = Some cfg \<Longrightarrow> cc_max_total cfg \<le> 100"
  unfolding campaignConfigSchema_def z_int_def by (auto split: option.splits if_splits jsval.splits jsnum.splits)

lemma campaignSchema_total: "campaignSchema env extra b = Some (n, r, cfg) \<Longrightarrow> cc_max_total cfg \<le> 100"
  unfolding campaignSchema_def using config_total by (auto split: option.splits if_splits jsval.splits)

lemma save_inv: "inapp_inv db \<Longrightarrow> campaign_save env now newId tenant app b cid db = Inr (c, db') \<Longrightarrow> inapp_inv db'"
  unfolding campaign_save_def
  by (auto simp: Let_def dest!: campaignSchema_total split: option.splits sum.splits if_splits
      intro!: campaigns_inv outruns_update outruns_insert)

definition publish_row :: "int \<Rightarrow> camp_row \<Rightarrow> camp_row" where
  "publish_row now c = c\<lparr>c_state := Published, c_updated := now\<rparr>"

definition pause_row :: "int \<Rightarrow> camp_row \<Rightarrow> camp_row" where
  "pause_row now c = c\<lparr>c_state := Paused, c_version := c_version c + 1, c_updated := now\<rparr>"

lemma publish_campaign_keeps: "publish_campaign env now member c db = Inr db1 \<Longrightarrow> campaigns db1 = campaigns db \<and> deliveries db1 = deliveries db \<and> events db1 = events db"
  unfolding publish_campaign_def by (auto split: if_splits sum.splits)

lemma transition_InrE:
  assumes "campaign_transition env now tenant app cid member b publish db = Inr (r, db')"
  obtains (unchanged) "publish" "db' = db"
  | (published) c db1 where "publish" "find (campaign_key tenant app cid) (campaigns db) = Some c" "c_state c \<noteq> Published"
      "publish_campaign env now member c db = Inr db1" "db' = set_campaign tenant app cid (publish_row now) db1"
  | (paused) c where "\<not> publish" "find (campaign_key tenant app cid) (campaigns db) = Some c"
      "db' = cancel_deliveries (\<lambda>d. d_tenant d = tenant \<and> d_app d = app \<and> d_campaign d = cid) (set_campaign tenant app cid (pause_row now) db)"
  using assms unfolding campaign_transition_def publish_row_def [abs_def] pause_row_def [abs_def]
  by (auto simp: Let_def split: sum.splits option.splits if_splits)

lemma transition_inv:
  assumes inv: "inapp_inv db" and "campaign_transition env now tenant app cid member b publish db = Inr (r, db')"
  shows "inapp_inv db'"
  using assms(2)
proof (cases rule: transition_InrE)
  case unchanged
  then show ?thesis using inv by simp
next
  case (published c db1)
  have 1: "inapp_inv db1" using inapp_inv_cong [of db1 db] publish_campaign_keeps [OF published(4)] inv by simp
  have "c' = c" if c': "c' \<in> set (campaigns db1)" "campaign_key tenant app cid c'" for c'
    using c' find_SomeD [OF published(2)] inv publish_campaign_keeps [OF published(4)] unfolding inapp_inv_def rows_ok_def
    by (intro distinct_key_eq [of c_id "campaigns db"]) (simp_all add: campaign_key_def)
  then have "outruns (update_where (campaign_key tenant app cid) (publish_row now) (campaigns db1)) db1"
    using 1 published(3) by (intro outruns_update) (auto simp: publish_row_def inapp_inv_def rows_ok_def)
  then show ?thesis using campaigns_inv [OF 1] published(5) by (simp add: set_campaign_def)
next
  case (paused c)
  have "outruns (update_where (campaign_key tenant app cid) (pause_row now) (campaigns db)) db"
    using inv by (intro outruns_update) (auto simp: pause_row_def inapp_inv_def rows_ok_def)
  then show ?thesis using campaigns_inv [OF inv] cancel_inv paused(3) by (simp add: set_campaign_def)
qed

lemma pick_SomeD:
  "pick_campaign env now i supports session trig db cs = Some c \<Longrightarrow>
     c \<in> set cs \<and> eligible now i supports trig (c_config c) \<and> \<not> suppressed now i (c_id c) db \<and>
     \<not> capped env now session (c_config c) (shown i (c_id c) db) \<and> \<not> recently_shown now i db"
  by (induction cs) (auto split: if_splits)

lemma candidatesD: "c \<in> set (candidates i db) \<Longrightarrow> c \<in> set (campaigns db) \<and> c_tenant c = i_tenant i \<and> c_app c = i_app i \<and> c_state c = Published"
  unfolding candidates_def by (auto dest!: in_set_takeD)

lemma pick_grants:
  assumes "pick_campaign env now i supports session trig db (candidates i db) = Some c" "newId \<notin> set (map d_id (deliveries db))"
    and "\<not> list_ex (\<lambda>d. of_installation i d \<and> live_state (d_state d)) (deliveries db)"
  shows "grants i c (new_delivery now newId i c key session trig) db"
proof -
  have c: "c \<in> set (campaigns db)" "c_tenant c = i_tenant i" "c_app c = i_app i" "c_state c = Published"
    and cap: "\<not> capped env now session (c_config c) (shown i (c_id c) db)"
    using pick_SomeD [OF assms(1)] candidatesD [of c i db] by simp_all
  have "length (filter (shown_in i (c_id c)) (deliveries db)) < cc_max_total (c_config c)"
    and "filter (\<lambda>d. d_session d = session) (filter (shown_in i (c_id c)) (deliveries db)) = []"
    using cap unfolding capped_def shown_eq by auto
  then show ?thesis
    using c assms(2,3)
    by (auto simp: grants_def new_delivery_def of_installation_def runs_in_def campaign_key_def live_of_def list_ex_iff filter_empty_conv)
qed

lemma decide_cases:
  assumes "db1 = expire_deliveries now i (touch_installation now i db)"
  obtains (same) "snd (decide env now newId i b supports db) = db"
  | (expired) "snd (decide env now newId i b supports db) = db1"
  | (granted) c d where "snd (decide env now newId i b supports db) = db1\<lparr>deliveries := deliveries db1 @ [d]\<rparr>" "grants i c d db1"
      "d_revision d = c_revision c" "i_platform i \<in> set (cc_platforms (c_config c))"
proof (cases "decisionSchema env b")
  case None
  then show thesis using same by (simp add: decide_def)
next
  case (Some a)
  obtain key session trig where a: "a = (key, session, trig)" by (cases a)
  let ?old = "find (\<lambda>d. of_installation i d \<and> d_request_key d = key) (deliveries db1)"
    and ?live = "list_ex (\<lambda>d. of_installation i d \<and> live_state (d_state d)) (deliveries db1)"
    and ?pick = "pick_campaign env now i supports session trig db1 (candidates i db1)"
  note d = decide_def [of env now newId i b supports db, unfolded Some a option.case prod.case Let_def, folded assms]
  consider "\<not> active_installation i db" | old where "active_installation i db" "?old = Some old" | "active_installation i db" "?old = None" "?live \<or> ?pick = None"
    | c where "active_installation i db" "?old = None" "\<not> ?live" "?pick = Some c" by blast
  then show thesis
  proof cases
    case 1
    then show thesis using same unfolding d by simp
  next
    case (2 old)
    then show thesis using same expired unfolding d by (cases "d_session old \<noteq> session \<or> d_trigger old \<noteq> trig") simp_all
  next
    case 3
    then show thesis using expired unfolding d by (cases ?live) simp_all
  next
    case (4 c)
    show thesis
    proof (cases "newId \<in> set (map d_id (deliveries db1))")
      case True
      then show thesis using 4 same unfolding d by simp
    next
      case False
      then show thesis using granted [OF _ pick_grants [OF 4(4) False 4(3)]] pick_SomeD [OF 4(4)] 4 unfolding d by (simp add: new_delivery_def eligible_def)
    qed
  qed
qed

lemma decide_inv:
  assumes inv: "inapp_inv db"
  shows "inapp_inv (snd (decide env now newId i b supports db))"
proof -
  have "inapp_inv (touch_installation now i db)" using inv inapp_inv_cong [of "touch_installation now i db" db] by (simp add: touch_installation_def)
  then have 1: "inapp_inv (expire_deliveries now i (touch_installation now i db))" by (rule expire_inv)
  show ?thesis
  proof (cases rule: decide_cases [OF refl, of env now newId i b supports db, case_names same expired granted])
    case same
    then show ?thesis using inv by simp
  next
    case expired
    then show ?thesis using 1 by simp
  next
    case (granted c d)
    then show ?thesis using grant_inv [OF 1 granted(2)] by simp
  qed
qed

lemma delivery_unique: "rows_ok db \<Longrightarrow> d \<in> set (deliveries db) \<Longrightarrow> delivery_key i did d \<Longrightarrow> e \<in> set (deliveries db) \<Longrightarrow> delivery_key i did e \<Longrightarrow> e = d"
  unfolding rows_ok_def delivery_key_def by (auto intro: distinct_key_eq)

lemma authorize_InrE:
  assumes "authorize now i did db = Inr (t, db')"
  obtains d c where "find (delivery_key i did) (deliveries db) = Some d" "find (campaign_key (i_tenant i) (i_app i) (d_campaign d)) (campaigns db) = Some c"
    "c_state c = Published" "c_version c = d_version d" "cc_starts_at (c_config c) \<le> now" "now < cc_ends_at (c_config c)" "now < d_expires_at d"
    "d_state d = Authorized \<and> t = d_expires_at d \<and> db' = db \<or>
     d_state d = Reserved \<and> t = min (now + 300000) (cc_ends_at (c_config c)) \<and>
       db' = set_delivery i did (\<lambda>d. d\<lparr>d_state := Authorized, d_authorized_at := Some now, d_expires_at := t\<rparr>) db"
  using assms unfolding authorize_def by (auto simp: Let_def split: if_splits option.splits)

lemma authorize_op_inv:
  assumes inv: "inapp_inv db" and "authorize now i did db = Inr (t, db')"
  shows "inapp_inv db'"
  using assms(2)
proof (cases rule: authorize_InrE)
  case (1 d c)
  from 1(8) show ?thesis
  proof
    assume r: "d_state d = Reserved \<and> t = min (now + 300000) (cc_ends_at (c_config c)) \<and>
       db' = set_delivery i did (\<lambda>d. d\<lparr>d_state := Authorized, d_authorized_at := Some now, d_expires_at := t\<rparr>) db"
    let ?g = "\<lambda>e. if delivery_key i did e then e\<lparr>d_state := Authorized, d_authorized_at := Some now, d_expires_at := t\<rparr> else e"
    have d: "delivery_key i did d" "d \<in> set (deliveries db)" and c: "campaign_key (i_tenant i) (i_app i) (d_campaign d) c" "c \<in> set (campaigns db)"
      using find_SomeD [OF 1(1)] find_SomeD [OF 1(2)] by simp_all
    have "runs_in c d" using c(1) d(1) by (simp add: runs_in_def delivery_key_def of_installation_def)
    moreover have "?g e = e" if e: "e \<in> set (deliveries db)" "e \<noteq> d" for e
      using delivery_unique [OF _ d(2,1) e(1)] e(2) inv unfolding inapp_inv_def by auto
    moreover have "\<exists>t u. ?g d = d\<lparr>d_state := Authorized, d_authorized_at := Some t, d_expires_at := u\<rparr>" using d(1) by auto
    ultimately have "authorizes ?g d c db" using d(2) c(2) r 1(4) unfolding authorizes_def by blast
    then show ?thesis using authorize_inv [OF inv] r by (simp add: set_delivery_def update_where_def)
  qed (use inv in simp)
qed

lemma insert_event_simps [simp]: "deliveries (insert_event e db) = deliveries db" "campaigns (insert_event e db) = campaigns db"
  by (simp_all add: insert_event_def)

lemma hide_today_simps [simp]:
  "deliveries (hide_today env now t i d db) = deliveries db" "campaigns (hide_today env now t i d db) = campaigns db" "events (hide_today env now t i d db) = events db"
  by (simp_all add: hide_today_def Let_def split: option.split)

lemma event_InrE:
  assumes "delivery_event_op env now i did b db = Inr (u, db')"
  obtains (repeated) "db' = db"
  | (recorded) ei d db1 where "find (delivery_key i did) (deliveries db) = Some d" "event_conflict now i d ei db = None"
      "deliveries db1 = deliveries db" "campaigns db1 = campaigns db"
      "events db1 = events (insert_event \<lparr>ev_tenant = i_tenant i, ev_app = i_app i, ev_delivery = did, ev_id = e_id ei,
          ev_kind = e_kind ei, ev_detail = e_detail ei, ev_occurred = e_occurred ei\<rparr> db)"
      "db' = set_delivery i did (\<lambda>r. r\<lparr>d_state := next_state now d (e_kind ei)\<rparr>) db1"
proof (cases "db' = db")
  case False
  then obtain ei d where e: "find (delivery_key i did) (deliveries db) = Some d" "event_conflict now i d ei db = None"
    "db' = (let db1 = insert_event \<lparr>ev_tenant = i_tenant i, ev_app = i_app i, ev_delivery = did, ev_id = e_id ei,
                        ev_kind = e_kind ei, ev_detail = e_detail ei, ev_occurred = e_occurred ei\<rparr> db;
                db2 = (if e_kind ei = ''hide_today'' then hide_today env now (case e_occurred ei of None \<Rightarrow> now | Some t \<Rightarrow> t) i d db1 else db1)
            in set_delivery i did (\<lambda>r. r\<lparr>d_state := next_state now d (e_kind ei)\<rparr>) db2)"
    using assms unfolding delivery_event_op_def by (auto simp: Let_def split: option.splits if_splits)
  show thesis by (rule recorded [OF e(1,2) _ _ _ e(3) [unfolded Let_def]]) simp_all
qed (rule repeated)

lemma next_state_weak: "(live_state (next_state now d k) \<longrightarrow> live_state (d_state d)) \<and> (next_state now d k = Reserved \<longrightarrow> d_state d = Reserved)"
  by (auto simp: next_state_def event_closed_def live_state_def)

lemma event_op_inv:
  assumes inv: "inapp_inv db" and "delivery_event_op env now i did b db = Inr (u, db')"
  shows "inapp_inv db'"
  using assms(2)
proof (cases rule: event_InrE)
  case (recorded ei d db1)
  have 1: "inapp_inv db1" using inapp_inv_cong recorded(3,4) inv by blast
  have d: "delivery_key i did d" "d \<in> set (deliveries db1)" using find_SomeD [OF recorded(1)] recorded(3) by simp_all
  have "e = d" if e: "e \<in> set (deliveries db1)" "delivery_key i did e" for e
    using delivery_unique [OF _ d(2,1) e] 1 unfolding inapp_inv_def by blast
  then show ?thesis
    unfolding recorded(6) set_delivery_def using next_state_weak [of now d "e_kind ei"] by (intro update_inv [OF 1]) blast
qed (use inv in simp)

lemma review_keeps: "campaign_review env tenant app member b db = Inr (u, db') \<Longrightarrow> campaigns db' = campaigns db \<and> deliveries db' = deliveries db \<and> events db' = events db"
  unfolding campaign_review_def by (auto simp: upsert_review_def Let_def split: sum.splits option.splits prod.splits if_splits)

lemma register_keeps:
  "register_installation env now newId secret tenant app b db = Inr (u, db') \<Longrightarrow> campaigns db' = campaigns db \<and> deliveries db' = deliveries db \<and> events db' = events db"
  unfolding register_installation_def by (auto split: sum.splits option.splits if_splits)

lemma revoke_inv: "inapp_inv db \<Longrightarrow> inapp_inv (revoke_installation i db)"
  unfolding revoke_installation_def
  using inapp_inv_cong [of "db\<lparr>installs := update_where (is_installation i) (\<lambda>v. v\<lparr>iv_revoked := True\<rparr>) (installs db)\<rparr>" db] by (intro cancel_inv) simp

lemma with_installation_cases: "(\<And>i. r = Inr i \<Longrightarrow> P (f i)) \<Longrightarrow> P db \<Longrightarrow> P (with_installation r f db)"
  by (auto simp: with_installation_def split: sum.split)

lemma keeps_inv: "inapp_inv db \<Longrightarrow> campaigns db' = campaigns db \<and> deliveries db' = deliveries db \<and> events db' = events db \<Longrightarrow> inapp_inv db'"
  using inapp_inv_cong by blast

lemma inapp_step_inv:
  assumes inv: "inapp_inv db"
  shows "inapp_inv (inapp_step env op db)"
proof (cases op)
  case (ReviewRevision tenant app member b)
  have "inapp_inv (after db (campaign_review env tenant app member b db))" by (rule after_cases) (erule keeps_inv [OF inv review_keeps], rule inv)
  then show ?thesis using ReviewRevision by simp
next
  case (Register now newId secret tenant app b)
  have "inapp_inv (after db (register_installation env now newId secret tenant app b db))" by (rule after_cases) (erule keeps_inv [OF inv register_keeps], rule inv)
  then show ?thesis using Register by simp
next
  case (ReportEvent now tenant app header did b)
  have "inapp_inv (after db (delivery_event_op env now i did b db))" for i by (rule after_cases) (erule event_op_inv [OF inv], rule inv)
  then show ?thesis using ReportEvent inv by (simp add: with_installation_cases [where P = inapp_inv])
qed (use inv in \<open>simp_all add: after_cases [where P = inapp_inv] with_installation_cases [where P = inapp_inv] decide_inv revoke_inv
       save_inv [OF inv] transition_inv [OF inv] authorize_op_inv [OF inv]\<close>)

interpretation inapp: invariant_system "inapp_step env" inapp_inv for env
  by unfold_locales (rule inapp_step_inv)

lemma start_inv: "campaigns db = [] \<Longrightarrow> deliveries db = [] \<Longrightarrow> inapp_inv db"
  by (simp add: inapp_inv_def rows_ok_def versions_ok_def one_live_def once_per_session_def within_total_def)

section \<open>What a request keeps of a delivery\<close>

text \<open>
  No request removes a delivery or takes an authorisation back, and a campaign's version only grows.
\<close>

definition carries :: "delivery_row \<Rightarrow> delivery_row \<Rightarrow> bool" where
  "carries d d' \<longleftrightarrow> d_id d' = d_id d \<and> d_tenant d' = d_tenant d \<and> d_app d' = d_app d \<and> d_installation d' = d_installation d \<and>
     d_campaign d' = d_campaign d \<and> d_version d' = d_version d \<and> (d_authorized_at d \<noteq> None \<longrightarrow> d_authorized_at d' \<noteq> None)"

definition grows :: "camp_row \<Rightarrow> camp_row \<Rightarrow> bool" where
  "grows c c' \<longleftrightarrow> c_id c' = c_id c \<and> c_tenant c' = c_tenant c \<and> c_app c' = c_app c \<and> c_version c \<le> c_version c'"

definition kept :: "inapp_db \<Rightarrow> inapp_db \<Rightarrow> bool" where
  "kept db db' \<longleftrightarrow> (\<forall>d \<in> set (deliveries db). \<exists>d' \<in> set (deliveries db'). carries d d') \<and> (\<forall>c \<in> set (campaigns db). \<exists>c' \<in> set (campaigns db'). grows c c')"

lemma carries_refl [simp]: "carries d d" and grows_refl [simp]: "grows c c"
  by (simp_all add: carries_def grows_def)

lemma carries_in: "d \<in> A \<Longrightarrow> \<exists>d' \<in> A. carries d d'" and grows_in: "c \<in> B \<Longrightarrow> \<exists>c' \<in> B. grows c c'"
  using carries_refl grows_refl by blast+

lemma carries_trans: "carries d e \<Longrightarrow> carries e f \<Longrightarrow> carries d f" and grows_trans: "grows a b \<Longrightarrow> grows b c \<Longrightarrow> grows a c"
  by (simp_all add: carries_def grows_def)

lemma kept_refl: "campaigns db' = campaigns db \<Longrightarrow> deliveries db' = deliveries db \<Longrightarrow> kept db db'"
  unfolding kept_def by (auto intro: carries_in grows_in)

lemma kept_trans: "kept db db1 \<Longrightarrow> kept db1 db2 \<Longrightarrow> kept db db2"
  unfolding kept_def by (meson carries_trans grows_trans)

lemma kept_append: "kept db (db\<lparr>deliveries := deliveries db @ ds\<rparr>)" "kept db (db\<lparr>campaigns := campaigns db @ cs\<rparr>)"
  unfolding kept_def by (auto intro: carries_in grows_in)

lemma update_where_related: "(\<And>x. R x x) \<Longrightarrow> (\<And>x. R x (f x)) \<Longrightarrow> x \<in> set xs \<Longrightarrow> \<exists>y \<in> set (update_where p f xs). R x y"
  by (rule bexI [OF _ update_whereI [of x xs p f]]) simp_all

lemma kept_update: "(\<And>d. carries d (f d)) \<Longrightarrow> kept db (db\<lparr>deliveries := update_where p f (deliveries db)\<rparr>)"
  using update_where_related [of carries f] unfolding kept_def by (auto intro: grows_in)

lemma kept_campaigns: "(\<And>c. grows c (f c)) \<Longrightarrow> kept db (db\<lparr>campaigns := update_where p f (campaigns db)\<rparr>)"
  using update_where_related [of grows f] unfolding kept_def by (auto intro: carries_in)

lemma save_kept: "campaign_save env now newId tenant app b cid db = Inr (c, db') \<Longrightarrow> kept db db'"
  unfolding campaign_save_def
  by (auto simp: Let_def split: option.splits sum.splits if_splits intro!: kept_campaigns kept_append) (simp add: grows_def)

lemma cancel_kept: "kept db (cancel_deliveries p db)"
  unfolding cancel_deliveries_def by (rule kept_update) (simp add: carries_def)

lemma set_campaign_kept: "(\<And>c. grows c (f c)) \<Longrightarrow> kept db (set_campaign tenant app cid f db)"
  unfolding set_campaign_def by (rule kept_campaigns)

lemma transition_kept:
  assumes "campaign_transition env now tenant app cid member b publish db = Inr (r, db')"
  shows "kept db db'"
  using assms
proof (cases rule: transition_InrE)
  case unchanged
  then show ?thesis by (simp add: kept_refl)
next
  case (published c db1)
  have "kept db db1" using publish_campaign_keeps [OF published(4)] by (intro kept_refl) simp_all
  moreover have "kept db1 db'" unfolding published(5) by (rule set_campaign_kept) (simp add: grows_def publish_row_def)
  ultimately show ?thesis by (rule kept_trans)
next
  case (paused c)
  have "kept db (set_campaign tenant app cid (pause_row now) db)" by (rule set_campaign_kept) (simp add: grows_def pause_row_def)
  then show ?thesis unfolding paused(3) using cancel_kept by (rule kept_trans)
qed

lemma decide_kept: "kept db (snd (decide env now newId i b supports db))"
proof -
  have "kept db (touch_installation now i db)" by (rule kept_refl) (simp_all add: touch_installation_def)
  moreover have "kept (touch_installation now i db) (expire_deliveries now i (touch_installation now i db))"
    unfolding expire_deliveries_def by (rule kept_update) (simp add: carries_def)
  ultimately have 1: "kept db (expire_deliveries now i (touch_installation now i db))" by (rule kept_trans)
  show ?thesis
  proof (cases rule: decide_cases [OF refl, of env now newId i b supports db, case_names same expired granted])
    case same
    then show ?thesis by (simp add: kept_refl)
  next
    case expired
    then show ?thesis using 1 by simp
  next
    case (granted c d)
    show ?thesis unfolding granted(1) using 1 kept_append(1) by (rule kept_trans)
  qed
qed

lemma authorize_kept: "authorize now i did db = Inr (t, db') \<Longrightarrow> kept db db'"
proof (erule authorize_InrE)
  fix d c
  assume "d_state d = Authorized \<and> t = d_expires_at d \<and> db' = db \<or>
     d_state d = Reserved \<and> t = min (now + 300000) (cc_ends_at (c_config c)) \<and>
       db' = set_delivery i did (\<lambda>d. d\<lparr>d_state := Authorized, d_authorized_at := Some now, d_expires_at := t\<rparr>) db"
  moreover have "kept db (set_delivery i did (\<lambda>d. d\<lparr>d_state := Authorized, d_authorized_at := Some now, d_expires_at := t\<rparr>) db)"
    unfolding set_delivery_def by (rule kept_update) (simp add: carries_def)
  ultimately show "kept db db'" by (auto intro: kept_refl)
qed

lemma event_kept:
  assumes "delivery_event_op env now i did b db = Inr (u, db')"
  shows "kept db db'"
  using assms
proof (cases rule: event_InrE)
  case (recorded ei d db1)
  have "kept db db1" using recorded(3,4) by (intro kept_refl)
  moreover have "kept db1 db'" unfolding recorded(6) set_delivery_def by (rule kept_update) (simp add: carries_def)
  ultimately show ?thesis by (rule kept_trans)
qed (simp add: kept_refl)

lemma revoke_kept: "kept db (revoke_installation i db)"
proof -
  have "kept db (db\<lparr>installs := update_where (is_installation i) (\<lambda>v. v\<lparr>iv_revoked := True\<rparr>) (installs db)\<rparr>)" by (rule kept_refl) simp_all
  then show ?thesis unfolding revoke_installation_def using cancel_kept by (rule kept_trans)
qed

lemma after_kept: "(\<And>a db'. r = Inr (a, db') \<Longrightarrow> kept db db') \<Longrightarrow> kept db (after db r)"
  by (rule after_cases) (auto intro: kept_refl)

lemma with_installation_kept: "(\<And>i. kept db (f i)) \<Longrightarrow> kept db (with_installation r f db)"
  by (rule with_installation_cases) (auto intro: kept_refl)

lemma step_kept: "kept db (inapp_step env op db)"
  by (cases op)
     (simp_all, (rule after_kept, erule save_kept), (rule after_kept, rule kept_refl, (drule review_keeps, simp)+),
       (rule after_kept, erule transition_kept)+, (rule after_kept, rule kept_refl, (drule register_keeps, simp)+),
       (rule with_installation_kept, rule decide_kept), (rule with_installation_kept, rule after_kept, erule authorize_kept),
       (rule with_installation_kept, rule after_kept, erule event_kept), (rule with_installation_kept, rule revoke_kept))

lemma run_kept: "kept db (fold (inapp_step env) ops db)"
  by (induction ops arbitrary: db) (auto intro: kept_refl kept_trans [OF step_kept])

section \<open>Events\<close>

definition events_of :: "string \<Rightarrow> string \<Rightarrow> string \<Rightarrow> inapp_db \<Rightarrow> delivery_event list" where
  "events_of tenant app did db = filter (\<lambda>e. ev_tenant e = tenant \<and> ev_app e = app \<and> ev_delivery e = did) (events db)"

definition authorized_delivery :: "string \<Rightarrow> string \<Rightarrow> string \<Rightarrow> inapp_db \<Rightarrow> bool" where
  "authorized_delivery tenant app did db \<longleftrightarrow>
     (\<exists>d \<in> set (deliveries db). d_tenant d = tenant \<and> d_app d = app \<and> d_id d = did \<and> d_authorized_at d \<noteq> None)"

definition backed :: "delivery_event list \<Rightarrow> bool" where
  "backed es \<longleftrightarrow> length es \<le> 200 \<and> (\<forall>k. once_kind k \<longrightarrow> length (filter (\<lambda>e. ev_kind e = k) es) \<le> 1) \<and>
     (list_ex (\<lambda>e. ev_kind e \<in> {''impression'', ''action'', ''hide_today'', ''dismiss''}) es \<longrightarrow> list_ex (\<lambda>e. ev_kind e = ''presented'') es)"

definition events_inv :: "inapp_db \<Rightarrow> bool" where
  "events_inv db \<longleftrightarrow>
     (\<forall>t a x. backed (events_of t a x db) \<and> (list_ex (\<lambda>e. ev_kind e = ''presented'') (events_of t a x db) \<longrightarrow> authorized_delivery t a x db))"

lemma authorized_kept: "kept db db' \<Longrightarrow> authorized_delivery t a x db \<Longrightarrow> authorized_delivery t a x db'"
  unfolding kept_def carries_def authorized_delivery_def by metis

lemma events_inv_kept: "events_inv db \<Longrightarrow> kept db db' \<Longrightarrow> events db' = events db \<Longrightarrow> events_inv db'"
  unfolding events_inv_def events_of_def using authorized_kept by (metis (no_types, lifting))

lemma recorded_events:
  assumes k: "event_conflict now i d ei db = None" and did: "d_id d = did"
    and inv: "events_inv db" and e: "ev_tenant e = i_tenant i" "ev_app e = i_app i" "ev_delivery e = did" "ev_kind e = e_kind ei"
  shows "backed (events_of (i_tenant i) (i_app i) did (insert_event e db))"
proof (cases "list_ex (event_clash e) (events db)")
  case True
  then show ?thesis using inv by (simp add: insert_event_def events_inv_def)
next
  case False
  let ?es = "events_of (i_tenant i) (i_app i) did db"
  have m: "filter (event_of i did) (events db) = ?es" by (simp add: events_of_def event_of_def [abs_def])
  have b: "backed ?es" using inv by (simp add: events_inv_def)
  have len: "length ?es < 200" using k unfolding event_conflict_def did m Let_def by (auto split: if_splits)
  have pres: "list_ex (\<lambda>e. ev_kind e = ''presented'') ?es" if "e_kind ei \<in> {''impression'', ''action'', ''hide_today'', ''dismiss''}"
    using k that unfolding event_conflict_def did m Let_def by (auto split: if_splits)
  have "filter (\<lambda>r. ev_kind r = ev_kind e) ?es = []" if "once_kind (ev_kind e)"
    using False e that by (auto simp: list_ex_iff event_clash_def events_of_def filter_empty_conv)
  then have "length (filter (\<lambda>r. ev_kind r = k) (?es @ [e])) \<le> 1" if "once_kind k" for k
    using b that unfolding backed_def by (cases "ev_kind e = k") auto
  then have "backed (?es @ [e])" using b len pres e(4) unfolding backed_def by auto
  then show ?thesis using False e by (simp add: insert_event_def events_of_def)
qed

lemma insert_event_other: "\<not> (ev_tenant e = t \<and> ev_app e = a \<and> ev_delivery e = x) \<Longrightarrow> events_of t a x (insert_event e db) = events_of t a x db"
  by (auto simp: insert_event_def events_of_def)

lemma insert_event_presented:
  "list_ex (\<lambda>e. ev_kind e = ''presented'') (events_of t a x (insert_event e db)) \<Longrightarrow>
     list_ex (\<lambda>e. ev_kind e = ''presented'') (events_of t a x db) \<or> ev_kind e = ''presented'' \<and> ev_tenant e = t \<and> ev_app e = a \<and> ev_delivery e = x"
  by (auto simp: insert_event_def events_of_def list_ex_iff split: if_splits)

lemma event_op_events:
  assumes inv: "events_inv db" and op: "delivery_event_op env now i did b db = Inr (u, db')"
  shows "events_inv db'"
  using op
proof (cases rule: event_InrE)
  case (recorded ei d db1)
  let ?e = "\<lparr>ev_tenant = i_tenant i, ev_app = i_app i, ev_delivery = did, ev_id = e_id ei, ev_kind = e_kind ei, ev_detail = e_detail ei, ev_occurred = e_occurred ei\<rparr>"
  have d: "delivery_key i did d" "d \<in> set (deliveries db)" using find_SomeD [OF recorded(1)] by simp_all
  have ev: "events_of t a x db' = events_of t a x (insert_event ?e db)" for t a x
    unfolding events_of_def recorded(6) set_delivery_def by (simp add: recorded(5))
  have bk: "backed (events_of t a x db')" for t a x
  proof (cases "t = i_tenant i \<and> a = i_app i \<and> x = did")
    case True
    then show ?thesis unfolding ev using recorded_events [OF recorded(2) _ inv, of did ?e] d(1) by (simp add: delivery_key_def)
  next
    case False
    then show ?thesis unfolding ev using insert_event_other [of ?e t a x db] inv by (auto simp: events_inv_def)
  qed
  have "authorized_delivery t a x db" if p: "list_ex (\<lambda>e. ev_kind e = ''presented'') (events_of t a x db')" for t a x
    using insert_event_presented [OF p [unfolded ev]]
  proof
    assume n: "ev_kind ?e = ''presented'' \<and> ev_tenant ?e = t \<and> ev_app ?e = a \<and> ev_delivery ?e = x"
    then have "d_authorized_at d \<noteq> None" using recorded(2) unfolding event_conflict_def Let_def by (auto split: if_splits)
    then show ?thesis using n d unfolding authorized_delivery_def by (auto simp: delivery_key_def of_installation_def)
  qed (use inv in \<open>simp add: events_inv_def\<close>)
  then show ?thesis using bk authorized_kept [OF event_kept [OF op]] unfolding events_inv_def by blast
qed (use inv in simp)

lemma step_events:
  assumes "\<And>now tenant app header did b. op \<noteq> ReportEvent now tenant app header did b"
  shows "events (inapp_step env op db) = events db"
proof (cases op)
  case (SaveCampaign now newId tenant app b cid)
  have "events db' = events db" if "campaign_save env now newId tenant app b cid db = Inr (c, db')" for c db'
    using that unfolding campaign_save_def by (auto simp: Let_def split: option.splits sum.splits if_splits)
  then show ?thesis unfolding SaveCampaign by (auto simp: after_def split: sum.split)
next
  case (ReviewRevision tenant app member b)
  then show ?thesis by (auto simp: after_def dest: review_keeps split: sum.split)
next
  case (PublishCampaign now tenant app cid member b)
  then show ?thesis
    by (auto simp: after_def set_campaign_def cancel_deliveries_def dest: publish_campaign_keeps elim!: transition_InrE split: sum.split)
next
  case (PauseCampaign now tenant app cid member b)
  then show ?thesis
    by (auto simp: after_def set_campaign_def cancel_deliveries_def dest: publish_campaign_keeps elim!: transition_InrE split: sum.split)
next
  case (Register now newId secret tenant app b)
  then show ?thesis by (auto simp: after_def dest: register_keeps split: sum.split)
next
  case (Decide now newId tenant app header b caps)
  have "events (snd (decide env now newId i b supports db)) = events db" for i supports
    by (cases rule: decide_cases [OF refl, of env now newId i b supports db]) (simp_all add: expire_deliveries_def touch_installation_def)
  then show ?thesis using Decide by (simp add: with_installation_def split: sum.split)
next
  case (Authorize now tenant app header did)
  have "events (after db (authorize now i did db)) = events db" for i
    by (rule after_cases) (auto simp: set_delivery_def elim!: authorize_InrE)
  then show ?thesis using Authorize by (simp add: with_installation_def split: sum.split)
next
  case (ReportEvent now tenant app header did b)
  then show ?thesis using assms by blast
next
  case (Revoke tenant app header)
  then show ?thesis by (simp add: with_installation_def revoke_installation_def cancel_deliveries_def split: sum.split)
qed

lemma step_events_inv:
  assumes inv: "events_inv db"
  shows "events_inv (inapp_step env op db)"
proof (cases "\<exists>now tenant app header did b. op = ReportEvent now tenant app header did b")
  case True
  then obtain now tenant app header did b where op: "op = ReportEvent now tenant app header did b" by blast
  have "events_inv (after db (delivery_event_op env now i did b db))" for i by (rule after_cases) (erule event_op_events [OF inv], rule inv)
  then show ?thesis unfolding op using inv by (simp add: with_installation_cases [where P = events_inv])
next
  case False
  then show ?thesis by (intro events_inv_kept [OF inv step_kept] step_events) blast
qed

interpretation reports: invariant_system "inapp_step env" events_inv for env
  by unfold_locales (rule step_events_inv)

section \<open>Properties\<close>

lemma reachable_inv: "campaigns db0 = [] \<Longrightarrow> deliveries db0 = [] \<Longrightarrow> inapp_inv (fold (inapp_step env) ops db0)"
  by (rule inapp.run_inv [OF start_inv])

text \<open>
  C31: however console and device requests interleave, an installation has at most one live delivery, a campaign is authorised at most once
  per session of an installation, and never more than a hundred times in total.
\<close>

theorem display_frequency_bounded:
  assumes "campaigns db0 = []" "deliveries db0 = []"
  shows "length (filter (\<lambda>d. of_installation i d \<and> live_state (d_state d)) (deliveries (fold (inapp_step env) ops db0))) \<le> 1 \<and>
    length (filter (\<lambda>d. d_session d = session) (shown i cid (fold (inapp_step env) ops db0))) \<le> 1 \<and>
    length (shown i cid (fold (inapp_step env) ops db0)) \<le> 100"
proof -
  have inv: "inapp_inv (fold (inapp_step env) ops db0)" using assms by (rule reachable_inv)
  have "(\<lambda>d. of_installation i d \<and> live_state (d_state d)) = live_of i" by (simp add: live_of_def [abs_def])
  then show ?thesis
    using inv unfolding inapp_inv_def one_live_def once_per_session_def within_total_def shown_eq filter_filter by simp
qed

text \<open>
  An authorisation is only given for the version of the campaign that is published now, inside its window, for a time that ends in the
  future, and leaves the number of displays within the campaign's own total and at one for the session.
\<close>

theorem authorize_within_limits:
  assumes "campaigns db0 = []" "deliveries db0 = []" and a: "authorize now i did (fold (inapp_step env) ops db0) = Inr (t, db')"
  shows "\<exists>d \<in> set (deliveries db'). \<exists>c \<in> set (campaigns db'). delivery_key i did d \<and> campaign_key (i_tenant i) (i_app i) (d_campaign d) c \<and>
    c_state c = Published \<and> c_version c = d_version d \<and> cc_starts_at (c_config c) \<le> now \<and> now < cc_ends_at (c_config c) \<and> now < t \<and> d_expires_at d = t \<and>
    length (shown i (d_campaign d) db') \<le> cc_max_total (c_config c) \<and> length (filter (\<lambda>e. d_session e = d_session d) (shown i (d_campaign d) db')) \<le> 1"
  using a
proof (cases rule: authorize_InrE)
  case (1 d c)
  let ?f = "\<lambda>d. d\<lparr>d_state := Authorized, d_authorized_at := Some now, d_expires_at := t\<rparr>"
  have inv: "inapp_inv db'" using authorize_op_inv [OF reachable_inv [OF assms(1,2)] a] .
  have d: "delivery_key i did d" "d \<in> set (deliveries (fold (inapp_step env) ops db0))"
    and c: "campaign_key (i_tenant i) (i_app i) (d_campaign d) c" "c \<in> set (campaigns (fold (inapp_step env) ops db0))"
    using find_SomeD [OF 1(1)] find_SomeD [OF 1(2)] by simp_all
  have cdb: "c \<in> set (campaigns db')" using c(2) 1(8) by (auto simp: set_delivery_def)
  obtain d' where d': "d' \<in> set (deliveries db')" "delivery_key i did d'" "d_campaign d' = d_campaign d" "d_version d' = d_version d" "d_expires_at d' = t"
  proof (cases "d_state d = Authorized")
    case True
    then show thesis using that [of d] d 1(8) by auto
  next
    case False
    then have "db' = set_delivery i did ?f (fold (inapp_step env) ops db0)" using 1(8) by blast
    then have "?f d \<in> set (deliveries db')" using update_whereI [OF d(2), of "delivery_key i did" ?f] d(1) by (simp add: set_delivery_def)
    then show thesis by (rule that) (use d(1) in \<open>simp_all add: delivery_key_def of_installation_def\<close>)
  qed
  have i: "of_installation i d'" using d'(2) by (simp add: delivery_key_def)
  have "runs_in c d'" using c(1) i d'(3) by (simp add: runs_in_def of_installation_def)
  then have "length (shown i (d_campaign d') db') \<le> cc_max_total (c_config c)"
    using inv i d'(1,4) cdb 1(4) unfolding inapp_inv_def within_total_def shown_eq by fastforce
  moreover have "length (filter (\<lambda>e. d_session e = d_session d') (shown i (d_campaign d') db')) \<le> 1"
    using inv unfolding inapp_inv_def once_per_session_def shown_eq filter_filter by blast
  moreover have "now < t" using 1(6-8) by auto
  ultimately show ?thesis using d' cdb c(1) 1(3-6) by (intro bexI [of _ d'] bexI [of _ c]) simp_all
qed

lemma stale_refused:
  assumes "rows_ok db" "d \<in> set (deliveries db)" "of_installation i d" "c \<in> set (campaigns db)" "runs_in c d" "d_version d < c_version c"
  shows "(\<exists>e. authorize now i (d_id d) db = Inl e) \<and> (\<exists>reason. delivery_status now i (d_id d) db = Inr (Some reason, False))"
proof -
  have key: "delivery_key i (d_id d) d" using assms(3) by (simp add: delivery_key_def)
  obtain d1 where d1: "find (delivery_key i (d_id d)) (deliveries db) = Some d1"
    using key assms(2) find_None_iff [of "delivery_key i (d_id d)" "deliveries db"] by fastforce
  then have "d1 = d" using delivery_unique [OF assms(1,2) key] find_SomeD [OF d1] by blast
  have ck: "campaign_key (i_tenant i) (i_app i) (d_campaign d) c" using assms(3,5) by (simp add: runs_in_def of_installation_def)
  obtain c1 where c1: "find (campaign_key (i_tenant i) (i_app i) (d_campaign d)) (campaigns db) = Some c1"
    using ck assms(4) find_None_iff [of "campaign_key (i_tenant i) (i_app i) (d_campaign d)" "campaigns db"] by fastforce
  have "runs_in c1 d" using find_SomeD [OF c1] assms(3) by (simp add: runs_in_def of_installation_def)
  then have "c1 = c" using same_campaign [OF assms(1) _ assms(4) _ assms(5)] find_SomeD [OF c1] by blast
  then show ?thesis
    using d1 c1 \<open>d1 = d\<close> assms(6) unfolding authorize_def delivery_status_def by auto
qed

text \<open>
  C32: pausing a campaign is final for what was already handed out. No delivery that exists when the pause is committed can be authorised
  or is reported active afterwards, whatever requests follow, including edits and a new publication of the campaign.
\<close>

theorem paused_delivery_never_shown:
  assumes "campaigns db0 = []" "deliveries db0 = []"
    and p: "campaign_transition env now tenant app cid member b False (fold (inapp_step env) ops db0) = Inr (r, db1)"
    and d: "d \<in> set (deliveries db1)" "d_tenant d = tenant" "d_app d = app" "d_campaign d = cid" "of_installation i d"
  shows "(\<exists>e. authorize now' i (d_id d) (fold (inapp_step env) ops' db1) = Inl e) \<and>
    (\<exists>reason. delivery_status now' i (d_id d) (fold (inapp_step env) ops' db1) = Inr (Some reason, False))"
proof -
  let ?db2 = "fold (inapp_step env) ops' db1"
  have inv: "inapp_inv db1" using transition_inv [OF reachable_inv [OF assms(1,2)] p] .
  obtain c where c: "c \<in> set (campaigns db1)" "runs_in c d" "c_state c = Paused"
    using p
  proof (cases rule: transition_InrE)
    case (paused c)
    have "campaign_key tenant app cid c" "c \<in> set (campaigns (fold (inapp_step env) ops db0))" using find_SomeD [OF paused(2)] by simp_all
    then show thesis
      using update_whereI [of c "campaigns (fold (inapp_step env) ops db0)" "campaign_key tenant app cid" "pause_row now"] d paused(3)
      by (intro that [of "pause_row now c"]) (simp_all add: cancel_deliveries_def set_campaign_def runs_in_def pause_row_def campaign_key_def)
  qed simp_all
  then have v: "d_version d < c_version c" using inv d(1) unfolding inapp_inv_def versions_ok_def by fastforce
  obtain d' c' where k: "d' \<in> set (deliveries ?db2)" "carries d d'" "c' \<in> set (campaigns ?db2)" "grows c c'"
    using run_kept [of db1 env ops'] d(1) c(1) unfolding kept_def by blast
  have "rows_ok ?db2" using inapp.run_inv [OF inv] by (simp add: inapp_inv_def)
  moreover have "of_installation i d'" "runs_in c' d'" "d_version d' < c_version c'" "d_id d' = d_id d"
    using k(2,4) d(5) c(2) v by (simp_all add: carries_def grows_def of_installation_def runs_in_def campaign_key_def)
  ultimately show ?thesis using stale_refused [of ?db2 d' i c' now'] k(1,3) by simp
qed

text \<open>
  C33: the reported history of a delivery is backed by an authorisation. Every delivery has at most 200 events, a presentation, an impression and
  a request to hide the message are recorded at most once, a presentation belongs to an authorised delivery, and an impression, an action, a
  dismissal or a request to hide belongs to a delivery that was authorised and presented.
\<close>

theorem reported_events_backed:
  assumes "events db0 = []" and "db = fold (inapp_step env) ops db0" and "e \<in> set (events_of tenant app did db)"
    and "ev_kind e \<in> {''presented'', ''impression'', ''action'', ''hide_today'', ''dismiss''}"
  shows "authorized_delivery tenant app did db \<and> list_ex (\<lambda>p. ev_kind p = ''presented'') (events_of tenant app did db) \<and>
    length (events_of tenant app did db) \<le> 200 \<and>
    (ev_kind e \<in> {''presented'', ''impression'', ''hide_today''} \<longrightarrow> filter (\<lambda>r. ev_kind r = ev_kind e) (events_of tenant app did db) = [e])"
proof -
  have "events_inv db0" using assms(1) by (simp add: events_inv_def events_of_def backed_def)
  then have "events_inv db" unfolding assms(2) by (rule reports.run_inv)
  then have b: "backed (events_of tenant app did db)" "list_ex (\<lambda>p. ev_kind p = ''presented'') (events_of tenant app did db) \<longrightarrow> authorized_delivery tenant app did db"
    by (auto simp: events_inv_def)
  have p: "list_ex (\<lambda>p. ev_kind p = ''presented'') (events_of tenant app did db)"
    using b(1) assms(3,4) unfolding backed_def list_ex_iff by blast
  have "filter (\<lambda>r. ev_kind r = ev_kind e) (events_of tenant app did db) = [e]" if k: "ev_kind e \<in> {''presented'', ''impression'', ''hide_today''}"
  proof -
    have "length (filter (\<lambda>r. ev_kind r = ev_kind e) (events_of tenant app did db)) \<le> 1" using b(1) k unfolding backed_def once_kind_def by blast
    moreover have "e \<in> set (filter (\<lambda>r. ev_kind r = ev_kind e) (events_of tenant app did db))" using assms(3) by simp
    ultimately show ?thesis by (cases "filter (\<lambda>r. ev_kind r = ev_kind e) (events_of tenant app did db)") auto
  qed
  then show ?thesis using b p unfolding backed_def by blast
qed

section \<open>Witnesses\<close>

definition sample_inapp_env :: inapp_env where
  "sample_inapp_env = \<lparr>ia_enabled = True, ia_campaigns_enabled = True, ia_uuid = (\<lambda>_. True),
     ia_date = (\<lambda>s. if s = ''start'' then Some 0 else if s = ''end'' then Some 86400000 else None), ia_time_zone = (\<lambda>_. True),
     ia_day_start = (\<lambda>_ t. t - t mod 86400000), ia_next_day = (\<lambda>_ t. t - t mod 86400000 + 86400000), ia_hash = (\<lambda>s. CHR ''#'' # s)\<rparr>"

definition sample_inapp :: inapp_db where
  "sample_inapp = \<lparr>in_apps = [(''t'', ''a'')], campaigns = [], publications = [], installs = [], deliveries = [], events = [], suppressions = [],
     revisions = [\<lparr>rv_tenant = ''t'', rv_app = ''a'', rv_id = ''r'', rv_sha = ''#html'', rv_actions = [''open'']\<rparr>], reviews = [],
     test_runs = [\<lparr>tr_tenant = ''t'', tr_app = ''a'', tr_id = ''run'', tr_revision = ''r'', tr_platform = Ios, tr_state = ''completed'',
       tr_events = [(''impression'', []), (''dismiss'', ''close_button'')]\<rparr>],
     files = [((''t'', ''a'', ''r''), ''html'')]\<rparr>"

definition sample_campaign :: jsval where
  "sample_campaign = JObj [(''name'', JStr ''n''), (''revision_id'', JStr ''r''), (''config'', JObj [(''platforms'', JArr [JStr ''ios'']),
     (''trigger'', JObj [(''type'', JStr ''launch'')]), (''starts_at'', JStr ''start''), (''ends_at'', JStr ''end''),
     (''cooldown_seconds'', JNum (Num 60)), (''max_per_day'', JNum (Num 2)), (''max_total'', JNum (Num 3))])]"

definition sample_decision :: jsval where
  "sample_decision = JObj [(''request_key'', JStr ''k''), (''session_id'', JStr ''s''), (''trigger'', JObj [(''type'', JStr ''launch'')])]"

definition sample_report :: "string \<Rightarrow> string \<Rightarrow> jsval" where
  "sample_report i k = JObj [(''event_id'', JStr i), (''kind'', JStr k)]"

text \<open>A campaign is created, reviewed and published; a device registers and is given a delivery.\<close>

definition sample_reserved :: "inapp_op list" where
  "sample_reserved = [SaveCampaign 1 ''c'' ''t'' ''a'' sample_campaign None,
     ReviewRevision ''t'' ''a'' ''m'' (JObj [(''run_id'', JStr ''run''), (''passed'', JBool True), (''layout_checked'', JBool True),
       (''close_checked'', JBool True), (''actions_checked'', JBool True)]),
     PublishCampaign 2 ''t'' ''a'' ''c'' ''m'' (JObj [(''expected_version'', JNum (Num 1))]),
     Register 3 ''i'' ''secret'' ''t'' ''a'' (JObj [(''platform'', JStr ''ios'')]),
     Decide 4 ''d'' ''t'' ''a'' (Some ''i.secret'') sample_decision None]"

definition sample_shown :: "inapp_op list" where
  "sample_shown = sample_reserved @ [Authorize 5 ''t'' ''a'' (Some ''i.secret'') ''d'',
     ReportEvent 6 ''t'' ''a'' (Some ''i.secret'') ''d'' (sample_report ''e1'' ''presented''),
     ReportEvent 7 ''t'' ''a'' (Some ''i.secret'') ''d'' (sample_report ''e2'' ''impression'')]"

definition sample_ref :: installation_ref where
  "sample_ref = \<lparr>i_id = ''i'', i_tenant = ''t'', i_app = ''a'', i_platform = Ios\<rparr>"

lemma sample_start: "campaigns sample_inapp = []" "deliveries sample_inapp = []" "events sample_inapp = []"
  by (simp_all add: sample_inapp_def)

lemma display_frequency_bounded_witness:
  "length (shown sample_ref ''c'' (fold (inapp_step sample_inapp_env) sample_shown sample_inapp)) = 1"
proof -
  have "length (shown sample_ref ''c'' (fold (inapp_step sample_inapp_env) sample_shown sample_inapp)) \<le> 100"
    using display_frequency_bounded [OF sample_start(1,2)] by blast
  moreover have "length (filter (\<lambda>d. d_session d = ''s'') (shown sample_ref ''c'' (fold (inapp_step sample_inapp_env) sample_shown sample_inapp))) = 1 \<and>
    length (shown sample_ref ''c'' (fold (inapp_step sample_inapp_env) sample_shown sample_inapp)) = 1" by code_simp
  ultimately show ?thesis by simp
qed

lemma sample_authorized:
  "(case authorize 5 sample_ref ''d'' (fold (inapp_step sample_inapp_env) sample_reserved sample_inapp) of Inl _ \<Rightarrow> False | Inr (t, _) \<Rightarrow> t = 300005)"
  by code_simp

lemma authorize_within_limits_witness:
  "\<exists>t db'. authorize 5 sample_ref ''d'' (fold (inapp_step sample_inapp_env) sample_reserved sample_inapp) = Inr (t, db') \<and>
     (\<exists>d \<in> set (deliveries db'). \<exists>c \<in> set (campaigns db'). delivery_key sample_ref ''d'' d \<and> c_state c = Published \<and>
        length (shown sample_ref (d_campaign d) db') \<le> cc_max_total (c_config c))"
proof -
  obtain t db' where a: "authorize 5 sample_ref ''d'' (fold (inapp_step sample_inapp_env) sample_reserved sample_inapp) = Inr (t, db')"
    using sample_authorized by (auto split: sum.splits)
  show ?thesis using authorize_within_limits [OF sample_start(1,2) a] a by blast
qed

lemma sample_paused:
  "(case campaign_transition sample_inapp_env 8 ''t'' ''a'' ''c'' ''m'' (JObj [(''expected_version'', JNum (Num 1))]) False
      (fold (inapp_step sample_inapp_env) sample_shown sample_inapp) of
    Inl _ \<Rightarrow> False
  | Inr (_, db1) \<Rightarrow> list_ex (\<lambda>d. d_tenant d = ''t'' \<and> d_app d = ''a'' \<and> d_campaign d = ''c'' \<and> of_installation sample_ref d \<and> d_id d = ''d'') (deliveries db1))"
  by code_simp

lemma paused_delivery_never_shown_witness:
  "\<exists>r db1. campaign_transition sample_inapp_env 8 ''t'' ''a'' ''c'' ''m'' (JObj [(''expected_version'', JNum (Num 1))]) False
      (fold (inapp_step sample_inapp_env) sample_shown sample_inapp) = Inr (r, db1) \<and>
    (\<exists>e. authorize 10 sample_ref ''d'' (fold (inapp_step sample_inapp_env)
       [PublishCampaign 9 ''t'' ''a'' ''c'' ''m'' (JObj [(''expected_version'', JNum (Num 2))])] db1) = Inl e)"
proof -
  obtain r db1 d where p: "campaign_transition sample_inapp_env 8 ''t'' ''a'' ''c'' ''m'' (JObj [(''expected_version'', JNum (Num 1))]) False
      (fold (inapp_step sample_inapp_env) sample_shown sample_inapp) = Inr (r, db1)"
    and d: "d \<in> set (deliveries db1)" "d_tenant d = ''t''" "d_app d = ''a''" "d_campaign d = ''c''" "of_installation sample_ref d" "d_id d = ''d''"
    using sample_paused by (auto simp: list_ex_iff split: sum.splits)
  show ?thesis using paused_delivery_never_shown [OF sample_start(1,2) p d(1-5), unfolded d(6)] p by blast
qed

lemma sample_reported:
  "list_ex (\<lambda>e. ev_kind e = ''impression'') (events_of ''t'' ''a'' ''d'' (fold (inapp_step sample_inapp_env) sample_shown sample_inapp))"
  by code_simp

lemma reported_events_backed_witness:
  "authorized_delivery ''t'' ''a'' ''d'' (fold (inapp_step sample_inapp_env) sample_shown sample_inapp)"
proof -
  obtain e where "e \<in> set (events_of ''t'' ''a'' ''d'' (fold (inapp_step sample_inapp_env) sample_shown sample_inapp))" "ev_kind e = ''impression''"
    using sample_reported by (auto simp: list_ex_iff)
  then show ?thesis using reported_events_backed [OF sample_start(3) refl, of e _ _ _ sample_inapp_env sample_shown] by simp
qed

end
