(* ===== verification/InApp_Workbench.thy ===== *)
theory InApp_Workbench
  imports InApp_Delivery Segment_Admin
begin

text \<open>
  The in-app workbench: stored revisions of HTML bundles, test devices that are paired with a console and test runs on them
  (\<open>in-app/workbench.service.ts\<close>, \<open>in-app/workbench.controller.ts\<close>, \<open>in-app/sdk.controller.ts\<close>) and the asset volume
  (\<open>in-app/assets.service.ts\<close>). Handlers run behind the session and permission guards, or behind the API-key guard; the rate limiter in front
  of the SDK handlers is modelled on its own. SHA-256 is \<open>ia_hash\<close>; random ids, secrets and codes are arguments, and so is the answer of the
  validation worker. PostgreSQL compares \<open>uuid\<close> values without case while file names and JavaScript strings keep it: \<open>pg_uuid\<close> is the
  stored form of an id that passed the UUID check. A handler that commits before it fails returns its state with the error.
\<close>

section \<open>Tables\<close>

datatype device_state = DevWaiting | DevClaimed | DevActive | DevRevoked
datatype run_state = RunQueued | RunPreparing | RunPresented | RunCompleted | RunFailed | RunCancelled | RunExpired

record revision =
  wv_id :: string
  wv_tenant :: string
  wv_app :: string
  wv_name :: string
  wv_bytes :: int
  wv_sha :: string
  wv_manifest :: jsval
  wv_by :: string
  wv_created :: int

record test_device =
  wd_id :: string
  wd_tenant :: string
  wd_app :: string
  wd_pairing :: string
  wd_credential :: "string option"
  wd_code :: string
  wd_state :: device_state
  wd_label :: "string option"
  wd_platform :: "platform option"
  wd_sdk :: "string option"
  wd_by :: string
  wd_expires :: int
  wd_seen :: "int option"
  wd_created :: int

record device_run =
  wr_id :: string
  wr_tenant :: string
  wr_app :: string
  wr_revision :: string
  wr_device :: string
  wr_key :: string
  wr_retry_of :: "string option"
  wr_state :: run_state
  wr_error :: "string option"
  wr_expires :: int
  wr_created :: int
  wr_updated :: int

record run_event =
  we_tenant :: string
  we_app :: string
  we_run :: string
  we_id :: string
  we_kind :: string
  we_detail :: string
  we_created :: int

record artifact =
  art_html :: string
  art_manifest :: jsval
  art_sha :: string
  art_bytes :: int
  art_files :: jsval

record workbench_db =
  wb_auth :: auth_db
  wb_revisions :: "revision list"
  wb_devices :: "test_device list"
  wb_runs :: "device_run list"
  wb_events :: "run_event list"
  wb_files :: "((string \<times> string \<times> string) \<times> artifact) list"

record workbench_env =
  wn_in_app :: inapp_env
  wn_pipe_uuid :: "string \<Rightarrow> bool"
  wn_jsonb :: "jsval \<Rightarrow> jsval option"
  wn_cors :: string

text \<open>The requests of the console carry an \<open>Origin\<close> header, those of the SDK a key and a test token.\<close>

record console_request = request +
  q_origin :: "string option"

record sdk_request =
  sq_authorization :: "string option"
  sq_api_key :: "string option"
  sq_token :: "string option"
  sq_body :: jsval

definition pg_uuid :: "string \<Rightarrow> string" where
  "pg_uuid s = map ascii_lower s"

definition run_open :: "run_state \<Rightarrow> bool" where
  "run_open st \<longleftrightarrow> st \<in> {RunQueued, RunPreparing, RunPresented}"

abbreviation device_in :: "string \<Rightarrow> string \<Rightarrow> test_device \<Rightarrow> bool" where
  "device_in tenant app d \<equiv> wd_tenant d = tenant \<and> wd_app d = pg_uuid app"

abbreviation device_at :: "string \<Rightarrow> string \<Rightarrow> string \<Rightarrow> test_device \<Rightarrow> bool" where
  "device_at tenant app i d \<equiv> device_in tenant app d \<and> wd_id d = pg_uuid i"

abbreviation run_in :: "string \<Rightarrow> string \<Rightarrow> device_run \<Rightarrow> bool" where
  "run_in tenant app r \<equiv> wr_tenant r = tenant \<and> wr_app r = pg_uuid app"

abbreviation run_at :: "string \<Rightarrow> string \<Rightarrow> string \<Rightarrow> device_run \<Rightarrow> bool" where
  "run_at tenant app i r \<equiv> run_in tenant app r \<and> wr_id r = pg_uuid i"

abbreviation revision_at :: "string \<Rightarrow> string \<Rightarrow> string \<Rightarrow> revision \<Rightarrow> bool" where
  "revision_at tenant app i v \<equiv> wv_tenant v = tenant \<and> wv_app v = pg_uuid app \<and> wv_id v = pg_uuid i"

abbreviation event_in :: "string \<Rightarrow> string \<Rightarrow> string \<Rightarrow> run_event \<Rightarrow> bool" where
  "event_in tenant app i e \<equiv> we_tenant e = tenant \<and> we_app e = pg_uuid app \<and> we_run e = pg_uuid i"

section \<open>Assets\<close>

definition asset_name_ok :: "string \<Rightarrow> bool" where
  "asset_name_ok s \<longleftrightarrow> length s = 36 \<and> list_all (\<lambda>c. ascii_lower c \<in> set ''0123456789abcdef-'') s"

definition asset_dir :: "string \<Rightarrow> string \<Rightarrow> string \<Rightarrow> http_error + (string \<times> string \<times> string)" where
  "asset_dir tenant app i = (if list_all asset_name_ok [tenant, app, i] then Inr (tenant, app, i) else Inl (NotFound ''asset''))"

text \<open>\<open>store\<close> writes a temporary directory and renames it; an existing target makes the renaming fail.\<close>

definition asset_store :: "workbench_env \<Rightarrow> string \<Rightarrow> string \<Rightarrow> string \<Rightarrow> artifact \<Rightarrow> workbench_db \<Rightarrow> http_error + workbench_db" where
  "asset_store env tenant app i art db =
     (case requireEnabled (wn_in_app env) of
        Inl e \<Rightarrow> Inl e
      | Inr _ \<Rightarrow>
          (case asset_dir tenant app i of
             Inl e \<Rightarrow> Inl e
           | Inr d \<Rightarrow>
               if map_has (wb_files db) d then Inl (Internal ''ENOTEMPTY'')
               else Inr (db\<lparr>wb_files := AList.update d art (wb_files db)\<rparr>)))"

definition asset_remove :: "string \<Rightarrow> string \<Rightarrow> string \<Rightarrow> workbench_db \<Rightarrow> http_error + workbench_db" where
  "asset_remove tenant app i db =
     (case asset_dir tenant app i of
        Inl e \<Rightarrow> Inl e
      | Inr d \<Rightarrow> Inr (db\<lparr>wb_files := filter (\<lambda>f. fst f \<noteq> d) (wb_files db)\<rparr>))"

definition asset_read :: "workbench_env \<Rightarrow> string \<Rightarrow> string \<Rightarrow> string \<Rightarrow> workbench_db \<Rightarrow> http_error + artifact" where
  "asset_read env tenant app i db =
     (case find (revision_at tenant app i) (wb_revisions db) of
        None \<Rightarrow> Inl (NotFound ''revision'')
      | Some v \<Rightarrow>
          (case asset_dir tenant app i of
             Inl e \<Rightarrow> Inl e
           | Inr d \<Rightarrow>
               (case map_of (wb_files db) d of
                  None \<Rightarrow> Inl (Internal ''ENOENT'')
                | Some art \<Rightarrow>
                    if ia_hash (wn_in_app env) (art_html art) \<noteq> wv_sha v then Inl (Unavailable ''ASSET_HASH_MISMATCH'') else Inr art)))"

section \<open>Service\<close>

definition wb_app :: "workbench_env \<Rightarrow> string \<Rightarrow> string \<Rightarrow> workbench_db \<Rightarrow> http_error + unit" where
  "wb_app env tenant app db =
     (case requireEnabled (wn_in_app env) of
        Inl e \<Rightarrow> Inl e
      | Inr _ \<Rightarrow> if list_ex (\<lambda>a. a_tenant a = tenant \<and> a_id a = pg_uuid app) (apps (wb_auth db)) then Inr () else Inl (NotFound ''app''))"

definition z_source_file :: "jsval \<Rightarrow> jsval option" where
  "z_source_file v =
     (if \<not> is_object v then None
      else case (z_string 0 200 (js_get v ''path''), z_string 0 12000000 (js_get v ''base64'')) of
             (Some p, Some b) \<Rightarrow> Some (JObj [(''path'', JStr p), (''base64'', JStr b)]) | _ \<Rightarrow> None)"

definition z_source_files :: "jsval option \<Rightarrow> jsval option" where
  "z_source_files v =
     (case v of
        Some (JArr fs) \<Rightarrow> if length fs \<le> 200 then map_option JArr (those (map z_source_file fs)) else None
      | _ \<Rightarrow> None)"

record source_input =
  src_name :: string
  src_files :: "jsval option"
  src_archive :: "string option"
  src_manifest :: "jsval option"

definition sourceSchema :: "jsval \<Rightarrow> source_input option" where
  "sourceSchema b =
     (if \<not> is_object b then None
      else case (z_name (js_get b ''name''), z_optional z_source_files (js_get b ''files''), z_optional (z_string 0 14000000) (js_get b ''archive_base64'')) of
             (Some n, Some fs, Some a) \<Rightarrow> Some \<lparr>src_name = n, src_files = fs, src_archive = a, src_manifest = js_get b ''manifest''\<rparr>
           | _ \<Rightarrow> None)"

definition parseInput :: "'a option \<Rightarrow> http_error + 'a" where
  "parseInput r = (case r of None \<Rightarrow> Inl (BadRequest ''INVALID_INPUT'') | Some a \<Rightarrow> Inr a)"

definition tenant_bytes :: "string \<Rightarrow> workbench_db \<Rightarrow> int" where
  "tenant_bytes tenant db = sum_list (map wv_bytes (filter (\<lambda>v. wv_tenant v = tenant) (wb_revisions db)))"

text \<open>The body of the transaction of \<open>create\<close>: the quota, the file and the row\<close>

definition create_body :: "workbench_env \<Rightarrow> int \<Rightarrow> string \<Rightarrow> string \<Rightarrow> string \<Rightarrow> string \<Rightarrow> string \<Rightarrow> artifact \<Rightarrow> workbench_db \<Rightarrow> http_error + workbench_db" where
  "create_body env now newId tenant app member name art db =
     (if 1024 ^ 3 < tenant_bytes tenant db + art_bytes art then Inl (BadRequest ''Tenant asset quota exceeded (1 GiB)'')
      else case asset_store env tenant app newId art db of
        Inl e \<Rightarrow> Inl e
      | Inr db1 \<Rightarrow>
          (case wn_jsonb env (art_manifest art) of
             None \<Rightarrow> Inl (Internal ''jsonb'')
           | Some m \<Rightarrow>
               if newId \<in> set (map wv_id (wb_revisions db)) then Inl (Internal ''unique_violation'')
               else if art_bytes art \<le> 0 then Inl (Internal ''check_violation'')
               else Inr (db1\<lparr>wb_revisions := wb_revisions db1 @ [\<lparr>wv_id = newId, wv_tenant = tenant, wv_app = pg_uuid app, wv_name = name,
                      wv_bytes = art_bytes art, wv_sha = art_sha art, wv_manifest = m, wv_by = member, wv_created = now\<rparr>]\<rparr>)))"

definition service_create ::
  "workbench_env \<Rightarrow> int \<Rightarrow> (source_input \<Rightarrow> string + artifact) \<Rightarrow> string \<Rightarrow> string \<Rightarrow> string \<Rightarrow> string \<Rightarrow> jsval \<Rightarrow> workbench_db \<Rightarrow>
     (workbench_db, string \<times> string \<times> string \<times> jsval) reply" where
  "service_create env now worker newId tenant app member input db =
     when_ok (wb_app env tenant app db) db (\<lambda>_.
     when_ok (parseInput (sourceSchema input)) db (\<lambda>body.
       if (src_files body \<noteq> None) = (case src_archive body of None \<Rightarrow> False | Some s \<Rightarrow> s \<noteq> [])
       then (Inl (BadRequest ''Supply files or archive_base64''), db)
       else case worker body of
         Inl code \<Rightarrow> (Inl (BadRequest code), db)
       | Inr art \<Rightarrow>
           (case create_body env now newId tenant app member (src_name body) art db of
              Inr db1 \<Rightarrow> (Inr (newId, src_name body, art_sha art, art_manifest art), db1)
            | Inl e \<Rightarrow> (case asset_remove tenant app newId db of Inl e' \<Rightarrow> (Inl e', db) | Inr db1 \<Rightarrow> (Inl e, db1)))))"

text \<open>\<open>ORDER BY created_at DESC LIMIT n\<close>\<close>

definition latest :: "('r \<Rightarrow> int) \<Rightarrow> nat \<Rightarrow> 'r list \<Rightarrow> 'r list" where
  "latest created n rows = take n (sort_key (\<lambda>r. - created r) rows)"

definition service_list :: "workbench_env \<Rightarrow> string \<Rightarrow> string \<Rightarrow> workbench_db \<Rightarrow> http_error + revision list" where
  "service_list env tenant app db =
     (case wb_app env tenant app db of
        Inl e \<Rightarrow> Inl e
      | Inr _ \<Rightarrow> Inr (latest wv_created 100 (filter (\<lambda>v. wv_tenant v = tenant \<and> wv_app v = pg_uuid app) (wb_revisions db))))"

definition service_pairing ::
  "workbench_env \<Rightarrow> int \<Rightarrow> string \<Rightarrow> string \<Rightarrow> string \<Rightarrow> string \<Rightarrow> string \<Rightarrow> string \<Rightarrow> workbench_db \<Rightarrow>
     (workbench_db, string \<times> string \<times> string \<times> int) reply" where
  "service_pairing env now newId secret code tenant app member db =
     when_ok (wb_app env tenant app db) db (\<lambda>_.
       if 20 \<le> length (filter (\<lambda>d. device_in tenant app d \<and> now - 300000 < wd_created d) (wb_devices db))
       then (Inl (BadRequest ''PAIRING_LIMIT''), db)
       else if newId \<in> set (map wd_id (wb_devices db)) then (Inl (Internal ''unique_violation''), db)
       else (Inr (newId, newId @ ''.'' @ secret, code, now + 300000),
             db\<lparr>wb_devices := wb_devices db @ [\<lparr>wd_id = newId, wd_tenant = tenant, wd_app = pg_uuid app,
               wd_pairing = ia_hash (wn_in_app env) secret, wd_credential = None, wd_code = code, wd_state = DevWaiting, wd_label = None,
               wd_platform = None, wd_sdk = None, wd_by = member, wd_expires = now + 300000, wd_seen = None, wd_created = now\<rparr>]\<rparr>))"

definition service_devices :: "workbench_env \<Rightarrow> int \<Rightarrow> string \<Rightarrow> string \<Rightarrow> workbench_db \<Rightarrow> http_error + test_device list" where
  "service_devices env now tenant app db =
     (case wb_app env tenant app db of
        Inl e \<Rightarrow> Inl e
      | Inr _ \<Rightarrow> Inr (latest wd_created 50
                  (filter (\<lambda>d. device_in tenant app d \<and> now < wd_expires d \<and> wd_state d \<noteq> DevRevoked) (wb_devices db))))"

definition confirmable :: "int \<Rightarrow> string \<Rightarrow> string \<Rightarrow> string \<Rightarrow> test_device \<Rightarrow> bool" where
  "confirmable now tenant app i d \<longleftrightarrow> device_at tenant app i d \<and> wd_state d = DevClaimed \<and> now < wd_expires d"

definition service_confirm :: "int \<Rightarrow> string \<Rightarrow> string \<Rightarrow> string \<Rightarrow> workbench_db \<Rightarrow> (workbench_db, unit) reply" where
  "service_confirm now tenant app i db =
     (if \<not> list_ex (confirmable now tenant app i) (wb_devices db) then (Inl (Conflict ''Pairing expired or not claimed''), db)
      else (Inr (), db\<lparr>wb_devices := update_where (confirmable now tenant app i)
              (\<lambda>d. d\<lparr>wd_state := DevActive, wd_expires := now + 1800000\<rparr>) (wb_devices db)\<rparr>))"

text \<open>\<open>UPDATE in_app_test_runs\<close> on the open runs that satisfy \<open>p\<close>\<close>

definition close_runs :: "int \<Rightarrow> (device_run \<Rightarrow> bool) \<Rightarrow> run_state \<Rightarrow> (string option \<Rightarrow> string option) \<Rightarrow> workbench_db \<Rightarrow> workbench_db" where
  "close_runs now p st err db =
     db\<lparr>wb_runs := update_where (\<lambda>r. p r \<and> run_open (wr_state r)) (\<lambda>r. r\<lparr>wr_state := st, wr_error := err (wr_error r), wr_updated := now\<rparr>) (wb_runs db)\<rparr>"

definition service_revoke :: "int \<Rightarrow> string \<Rightarrow> string \<Rightarrow> string \<Rightarrow> workbench_db \<Rightarrow> workbench_db" where
  "service_revoke now tenant app i db =
     close_runs now (\<lambda>r. run_in tenant app r \<and> wr_device r = pg_uuid i) RunCancelled id
       (db\<lparr>wb_devices := update_where (device_at tenant app i) (\<lambda>d. d\<lparr>wd_state := DevRevoked\<rparr>) (wb_devices db)\<rparr>)"

definition service_expire :: "int \<Rightarrow> string \<Rightarrow> string \<Rightarrow> workbench_db \<Rightarrow> workbench_db" where
  "service_expire now tenant app db =
     close_runs now (\<lambda>r. run_in tenant app r \<and> wr_expires r \<le> now) RunExpired (\<lambda>_. Some ''RUN_EXPIRED'') db"

definition service_cancel :: "int \<Rightarrow> string \<Rightarrow> string \<Rightarrow> string \<Rightarrow> workbench_db \<Rightarrow> workbench_db" where
  "service_cancel now tenant app i db = close_runs now (run_at tenant app i) RunCancelled id db"

record run_input =
  ri_revision :: string
  ri_device :: string
  ri_key :: string
  ri_retry_of :: "string option"

definition z_run_uuid :: "workbench_env \<Rightarrow> jsval option \<Rightarrow> string option" where
  "z_run_uuid env v = (case v of Some (JStr s) \<Rightarrow> if ia_uuid (wn_in_app env) s then Some s else None | _ \<Rightarrow> None)"

definition run_schema :: "workbench_env \<Rightarrow> jsval \<Rightarrow> run_input option" where
  "run_schema env b =
     (if \<not> is_object b then None
      else case (z_run_uuid env (js_get b ''revision_id''), z_run_uuid env (js_get b ''device_id''), z_run_uuid env (js_get b ''request_key''),
                 z_optional (z_run_uuid env) (js_get b ''retry_of'')) of
             (Some r, Some d, Some k, Some o') \<Rightarrow> Some \<lparr>ri_revision = r, ri_device = d, ri_key = k, ri_retry_of = o'\<rparr>
           | _ \<Rightarrow> None)"

text \<open>The stored ids are compared with those of the request as JavaScript strings.\<close>

definition same_input :: "run_input \<Rightarrow> device_run \<Rightarrow> bool" where
  "same_input b r \<longleftrightarrow> wr_device r = ri_device b \<and> wr_revision r = ri_revision b \<and> wr_retry_of r = ri_retry_of b"

definition run_keyed :: "string \<Rightarrow> string \<Rightarrow> string \<Rightarrow> workbench_db \<Rightarrow> device_run option" where
  "run_keyed tenant app k db = find (\<lambda>r. run_in tenant app r \<and> wr_key r = pg_uuid k) (wb_runs db)"

definition run_ready :: "int \<Rightarrow> string \<Rightarrow> string \<Rightarrow> string \<Rightarrow> test_device \<Rightarrow> bool" where
  "run_ready now tenant app i d \<longleftrightarrow> device_at tenant app i d \<and> wd_state d = DevActive \<and> now < wd_expires d"

definition new_run :: "int \<Rightarrow> string \<Rightarrow> string \<Rightarrow> string \<Rightarrow> run_input \<Rightarrow> device_run" where
  "new_run now newId tenant app b =
     \<lparr>wr_id = newId, wr_tenant = tenant, wr_app = pg_uuid app, wr_revision = pg_uuid (ri_revision b), wr_device = pg_uuid (ri_device b),
      wr_key = pg_uuid (ri_key b), wr_retry_of = map_option pg_uuid (ri_retry_of b), wr_state = RunQueued, wr_error = None,
      wr_expires = now + 120000, wr_created = now, wr_updated = now\<rparr>"

text \<open>The unique keys of the table: the id, the request key, and one open run per device\<close>

definition run_clash :: "device_run \<Rightarrow> device_run \<Rightarrow> bool" where
  "run_clash r x \<longleftrightarrow> wr_id x = wr_id r \<or>
     wr_tenant x = wr_tenant r \<and> wr_app x = wr_app r \<and> (wr_key x = wr_key r \<or> wr_device x = wr_device r \<and> run_open (wr_state x))"

text \<open>A request key that was used before answers with its run; otherwise a transaction inserts a new one.\<close>

definition queue_run :: "int \<Rightarrow> string \<Rightarrow> string \<Rightarrow> string \<Rightarrow> run_input \<Rightarrow> workbench_db \<Rightarrow> (workbench_db, device_run) reply" where
  "queue_run now newId tenant app b db =
     (case run_keyed tenant app (ri_key b) db of
        Some old \<Rightarrow> if same_input b old then (Inr old, db) else (Inl (Conflict ''Idempotency key reused for different input''), db)
      | None \<Rightarrow>
          if \<not> list_ex (run_ready now tenant app (ri_device b)) (wb_devices db) then (Inl (BadRequest ''DEVICE_OFFLINE''), db)
          else if \<not> list_ex (revision_at tenant app (ri_revision b)) (wb_revisions db) then (Inl (NotFound ''revision''), db)
          else if (case ri_retry_of b of None \<Rightarrow> False | Some i \<Rightarrow> \<not> list_ex (run_at tenant app i) (wb_runs db)) then (Inl (NotFound ''run''), db)
          else let r = new_run now newId tenant app b
               in if list_ex (run_clash r) (wb_runs db)
                  then (case run_keyed tenant app (ri_key b) db of
                          Some old \<Rightarrow> if same_input b old then (Inr old, db) else (Inl (Conflict ''A test is already active''), db)
                        | None \<Rightarrow> (Inl (Conflict ''A test is already active''), db))
                  else (Inr r, db\<lparr>wb_runs := wb_runs db @ [r]\<rparr>))"

definition service_run ::
  "workbench_env \<Rightarrow> int \<Rightarrow> string \<Rightarrow> string \<Rightarrow> string \<Rightarrow> jsval \<Rightarrow> workbench_db \<Rightarrow> (workbench_db, device_run) reply" where
  "service_run env now newId tenant app input db =
     when_ok (wb_app env tenant app db) db (\<lambda>_.
       let db1 = service_expire now tenant app db
       in when_ok (parseInput (run_schema env input)) db1 (\<lambda>b. queue_run now newId tenant app b db1))"

text \<open>The runs joined with their device and their revision\<close>

definition run_view :: "device_run \<Rightarrow> workbench_db \<Rightarrow> (device_run \<times> string option \<times> platform option \<times> string) option" where
  "run_view r db =
     (case (find (\<lambda>d. wd_tenant d = wr_tenant r \<and> wd_app d = wr_app r \<and> wd_id d = wr_device r) (wb_devices db),
            find (\<lambda>v. wv_tenant v = wr_tenant r \<and> wv_app v = wr_app r \<and> wv_id v = wr_revision r) (wb_revisions db)) of
        (Some d, Some v) \<Rightarrow> Some (r, wd_label d, wd_platform d, wv_name v) | _ \<Rightarrow> None)"

definition service_runs ::
  "workbench_env \<Rightarrow> int \<Rightarrow> string \<Rightarrow> string \<Rightarrow> workbench_db \<Rightarrow>
     (workbench_db, (device_run \<times> string option \<times> platform option \<times> string) list) reply" where
  "service_runs env now tenant app db =
     when_ok (wb_app env tenant app db) db (\<lambda>_.
       let db1 = service_expire now tenant app db
       in (Inr (latest (\<lambda>x. wr_created (fst x)) 50 (List.map_filter (\<lambda>r. run_view r db1) (filter (run_in tenant app) (wb_runs db1)))), db1))"

definition service_events :: "string \<Rightarrow> string \<Rightarrow> string \<Rightarrow> workbench_db \<Rightarrow> run_event list" where
  "service_events tenant app i db = take 200 (sort_key we_created (filter (event_in tenant app i) (wb_events db)))"

section \<open>Console handlers\<close>

definition console_guard ::
  "workbench_env \<Rightarrow> int \<Rightarrow> string \<Rightarrow> string list \<Rightarrow> console_request \<Rightarrow> workbench_db \<Rightarrow>
     (session_member \<Rightarrow> (workbench_db, 'a) reply) \<Rightarrow> (workbench_db, 'a) reply" where
  "console_guard env now perm params q db k =
     when_ok (SessionGuard (ia_hash (wn_in_app env)) now (q_cookie q) (q_url q) (wb_auth db)) db (\<lambda>me.
     when_ok (PermissionGuard (Some perm) (Some me)) db (\<lambda>_.
       if list_all (wn_pipe_uuid env) params then k me else (Inl (BadRequest ''uuid''), db)))"

definition wb_scope :: "workbench_env \<Rightarrow> bool \<Rightarrow> string \<Rightarrow> console_request \<Rightarrow> session_member \<Rightarrow> workbench_db \<Rightarrow> http_error + string" where
  "wb_scope env is_get app q me db =
     (if \<not> is_get \<and> (case q_origin q of None \<Rightarrow> False | Some origin \<Rightarrow> origin \<noteq> [] \<and> origin \<noteq> wn_cors env) then Inl (Forbidden ''Origin not allowed'')
      else case wb_app env (sm_tenant me) app db of Inl e \<Rightarrow> Inl e | Inr _ \<Rightarrow> Inr (sm_tenant me))"

definition wb_record :: "session_member \<Rightarrow> console_request \<Rightarrow> string \<Rightarrow> string \<Rightarrow> workbench_db \<Rightarrow> workbench_db" where
  "wb_record me q action i db = db\<lparr>wb_auth := recordAs me (q_ip q) (''in_app.'' @ action) (Some ''in_app'') (Some i) (wb_auth db)\<rparr>"

text \<open>A service call whose success is recorded in the audit log\<close>

definition recorded ::
  "session_member \<Rightarrow> console_request \<Rightarrow> string \<Rightarrow> ('a \<Rightarrow> string) \<Rightarrow> (workbench_db, 'a) reply \<Rightarrow> (workbench_db, 'a) reply" where
  "recorded me q action target r =
     (case r of (Inl e, db) \<Rightarrow> (Inl e, db) | (Inr a, db) \<Rightarrow> (Inr a, wb_record me q action (target a) db))"

definition revisions_list :: "workbench_env \<Rightarrow> int \<Rightarrow> string \<Rightarrow> console_request \<Rightarrow> workbench_db \<Rightarrow> (workbench_db, revision list) reply" where
  "revisions_list env now app q db =
     console_guard env now ''journeys:read'' [app] q db (\<lambda>me.
     when_ok (wb_scope env True app q me db) db (\<lambda>tenant.
     when_ok (service_list env tenant app db) db (\<lambda>vs. (Inr vs, db))))"

definition revisions_create ::
  "workbench_env \<Rightarrow> int \<Rightarrow> (source_input \<Rightarrow> string + artifact) \<Rightarrow> string \<Rightarrow> string \<Rightarrow> console_request \<Rightarrow> workbench_db \<Rightarrow>
     (workbench_db, string \<times> string \<times> string \<times> jsval) reply" where
  "revisions_create env now worker newId app q db =
     console_guard env now ''journeys:write'' [app] q db (\<lambda>me.
     when_ok (wb_scope env False app q me db) db (\<lambda>tenant.
       recorded me q ''revision.create'' fst (service_create env now worker newId tenant app (sm_member me) (q_body q) db)))"

definition revisions_get ::
  "workbench_env \<Rightarrow> int \<Rightarrow> string \<Rightarrow> string \<Rightarrow> console_request \<Rightarrow> workbench_db \<Rightarrow> (workbench_db, string \<times> jsval \<times> jsval \<times> string) reply" where
  "revisions_get env now app i q db =
     console_guard env now ''journeys:read'' [app, i] q db (\<lambda>me.
     when_ok (wb_scope env True app q me db) db (\<lambda>tenant.
     when_ok (asset_read env tenant app i db) db (\<lambda>a. (Inr (i, art_files a, art_manifest a, art_sha a), db))))"

definition devices_list :: "workbench_env \<Rightarrow> int \<Rightarrow> string \<Rightarrow> console_request \<Rightarrow> workbench_db \<Rightarrow> (workbench_db, test_device list) reply" where
  "devices_list env now app q db =
     console_guard env now ''journeys:read'' [app] q db (\<lambda>me.
     when_ok (wb_scope env True app q me db) db (\<lambda>tenant.
     when_ok (service_devices env now tenant app db) db (\<lambda>ds. (Inr ds, db))))"

definition pairings_create ::
  "workbench_env \<Rightarrow> int \<Rightarrow> string \<Rightarrow> string \<Rightarrow> string \<Rightarrow> string \<Rightarrow> console_request \<Rightarrow> workbench_db \<Rightarrow>
     (workbench_db, string \<times> string \<times> string \<times> int) reply" where
  "pairings_create env now newId secret code app q db =
     console_guard env now ''journeys:write'' [app] q db (\<lambda>me.
     when_ok (wb_scope env False app q me db) db (\<lambda>tenant.
       recorded me q ''pairing.create'' fst (service_pairing env now newId secret code tenant app (sm_member me) db)))"

definition device_confirm :: "workbench_env \<Rightarrow> int \<Rightarrow> string \<Rightarrow> string \<Rightarrow> console_request \<Rightarrow> workbench_db \<Rightarrow> (workbench_db, unit) reply" where
  "device_confirm env now app i q db =
     console_guard env now ''journeys:write'' [app, i] q db (\<lambda>me.
     when_ok (wb_scope env False app q me db) db (\<lambda>tenant.
       recorded me q ''device.confirm'' (\<lambda>_. i) (service_confirm now tenant app i db)))"

definition device_revoke :: "workbench_env \<Rightarrow> int \<Rightarrow> string \<Rightarrow> string \<Rightarrow> console_request \<Rightarrow> workbench_db \<Rightarrow> (workbench_db, unit) reply" where
  "device_revoke env now app i q db =
     console_guard env now ''journeys:write'' [app, i] q db (\<lambda>me.
     when_ok (wb_scope env False app q me db) db (\<lambda>tenant.
       recorded me q ''device.revoke'' (\<lambda>_. i) (Inr (), service_revoke now tenant app i db)))"

definition runs_list ::
  "workbench_env \<Rightarrow> int \<Rightarrow> string \<Rightarrow> console_request \<Rightarrow> workbench_db \<Rightarrow>
     (workbench_db, (device_run \<times> string option \<times> platform option \<times> string) list) reply" where
  "runs_list env now app q db =
     console_guard env now ''journeys:read'' [app] q db (\<lambda>me.
     when_ok (wb_scope env True app q me db) db (\<lambda>tenant. service_runs env now tenant app db))"

definition runs_create :: "workbench_env \<Rightarrow> int \<Rightarrow> string \<Rightarrow> string \<Rightarrow> console_request \<Rightarrow> workbench_db \<Rightarrow> (workbench_db, device_run) reply" where
  "runs_create env now newId app q db =
     console_guard env now ''journeys:write'' [app] q db (\<lambda>me.
     when_ok (wb_scope env False app q me db) db (\<lambda>tenant.
       recorded me q ''test.create'' wr_id (service_run env now newId tenant app (q_body q) db)))"

definition run_events :: "workbench_env \<Rightarrow> int \<Rightarrow> string \<Rightarrow> string \<Rightarrow> console_request \<Rightarrow> workbench_db \<Rightarrow> (workbench_db, run_event list) reply" where
  "run_events env now app i q db =
     console_guard env now ''journeys:read'' [app, i] q db (\<lambda>me.
     when_ok (wb_scope env True app q me db) db (\<lambda>tenant. (Inr (service_events tenant app i db), db)))"

definition run_cancel :: "workbench_env \<Rightarrow> int \<Rightarrow> string \<Rightarrow> string \<Rightarrow> console_request \<Rightarrow> workbench_db \<Rightarrow> (workbench_db, unit) reply" where
  "run_cancel env now app i q db =
     console_guard env now ''journeys:write'' [app, i] q db (\<lambda>me.
     when_ok (wb_scope env False app q me db) db (\<lambda>tenant. (Inr (), service_cancel now tenant app i db)))"

section \<open>SDK handlers\<close>

definition sdk_guard ::
  "workbench_env \<Rightarrow> int \<Rightarrow> sdk_request \<Rightarrow> workbench_db \<Rightarrow> (resolved_key \<Rightarrow> (workbench_db, 'a) reply) \<Rightarrow> (workbench_db, 'a) reply" where
  "sdk_guard env now q db k =
     (case ApiKeyGuard (ia_hash (wn_in_app env)) now [Sdk] None (sq_authorization q) (sq_api_key q) (wb_auth db) of
        Inl e \<Rightarrow> (Inl e, db)
      | Inr None \<Rightarrow> (Inl (Internal ''TypeError''), db)
      | Inr (Some key) \<Rightarrow> k key)"

text \<open>\<open>/^[A-Za-z0-9_-]{43}$/\<close>\<close>

definition token_format :: "string \<Rightarrow> bool" where
  "token_format s \<longleftrightarrow> length s = 43 \<and> list_all is_key_char s"

definition credential_of :: "workbench_env \<Rightarrow> int \<Rightarrow> string \<Rightarrow> string \<Rightarrow> string \<Rightarrow> test_device \<Rightarrow> bool" where
  "credential_of env now tenant app token d \<longleftrightarrow> wd_tenant d = tenant \<and> wd_app d = app \<and>
     wd_credential d = Some (ia_hash (wn_in_app env) token) \<and> now < wd_expires d \<and> wd_state d \<in> {DevClaimed, DevActive}"

definition test_auth ::
  "workbench_env \<Rightarrow> int \<Rightarrow> sdk_request \<Rightarrow> resolved_key \<Rightarrow> workbench_db \<Rightarrow> (test_device \<Rightarrow> workbench_db \<Rightarrow> (workbench_db, 'a) reply) \<Rightarrow>
     (workbench_db, 'a) reply" where
  "test_auth env now q key db k =
     when_ok (requireEnabled (wn_in_app env)) db (\<lambda>_.
       let token = (case sq_token q of None \<Rightarrow> [] | Some t \<Rightarrow> t)
       in if \<not> token_format token then (Inl (Unauthorized ''test token''), db)
          else case find (credential_of env now (rk_tenant key) (rk_app key) token) (wb_devices db) of
            None \<Rightarrow> (Inl (Unauthorized ''TEST_SESSION_EXPIRED''), db)
          | Some d \<Rightarrow> k d (db\<lparr>wb_devices := update_where (credential_of env now (rk_tenant key) (rk_app key) token)
                              (\<lambda>d. d\<lparr>wd_seen := Some now\<rparr>) (wb_devices db)\<rparr>))"

text \<open>\<open>z.string().trim().min(1).max(80)\<close>\<close>

definition z_label :: "jsval option \<Rightarrow> string option" where
  "z_label v =
     (case v of
        Some (JStr s) \<Rightarrow> (let t = trim s in if 1 \<le> utf16_length t \<and> utf16_length t \<le> 80 then Some t else None)
      | _ \<Rightarrow> None)"

definition pair_schema :: "jsval \<Rightarrow> (string \<times> string \<times> platform \<times> string) option" where
  "pair_schema b =
     (if \<not> is_object b then None
      else case (z_string 0 100 (js_get b ''token''), z_label (js_get b ''label''), Option.bind (js_get b ''platform'') z_platform,
                 z_string 0 40 (js_get b ''sdk_version'')) of
             (Some t, Some l, Some p, Some v) \<Rightarrow> Some (t, l, p, v) | _ \<Rightarrow> None)"

definition pairable :: "workbench_env \<Rightarrow> int \<Rightarrow> resolved_key \<Rightarrow> string \<Rightarrow> string \<Rightarrow> test_device \<Rightarrow> bool" where
  "pairable env now key i secret d \<longleftrightarrow> wd_tenant d = rk_tenant key \<and> wd_app d = rk_app key \<and> wd_id d = pg_uuid i \<and>
     wd_pairing d = ia_hash (wn_in_app env) secret \<and> wd_state d = DevWaiting \<and> now < wd_expires d"

definition sdk_pair ::
  "workbench_env \<Rightarrow> int \<Rightarrow> string \<Rightarrow> sdk_request \<Rightarrow> workbench_db \<Rightarrow> (workbench_db, string \<times> string \<times> int \<times> string) reply" where
  "sdk_pair env now credential q db =
     sdk_guard env now q db (\<lambda>key.
     when_ok (requireEnabled (wn_in_app env)) db (\<lambda>_.
     when_ok (parseInput (pair_schema (sq_body q))) db (\<lambda>(token, label, platform, version).
       case split_on (CHR ''.'') token of
         [i, secret] \<Rightarrow>
           if \<not> ia_uuid (wn_in_app env) i \<or> secret = [] then (Inl (Unauthorized ''pairing token''), db)
           else (case find (pairable env now key i secret) (wb_devices db) of
                   None \<Rightarrow> (Inl (Unauthorized ''PAIRING_EXPIRED_OR_USED''), db)
                 | Some d \<Rightarrow>
                     (Inr (wd_id d, wd_code d, wd_expires d, credential),
                      db\<lparr>wb_devices := update_where (pairable env now key i secret)
                        (\<lambda>d. d\<lparr>wd_state := DevClaimed, wd_credential := Some (ia_hash (wn_in_app env) credential), wd_label := Some label,
                              wd_platform := Some platform, wd_sdk := Some version, wd_seen := Some now\<rparr>) (wb_devices db)\<rparr>))
       | _ \<Rightarrow> (Inl (Unauthorized ''pairing token''), db))))"

definition device_runs :: "test_device \<Rightarrow> device_run \<Rightarrow> bool" where
  "device_runs d r \<longleftrightarrow> wr_tenant r = wd_tenant d \<and> wr_app r = wd_app d \<and> wr_device r = wd_id d"

definition sdk_commands ::
  "workbench_env \<Rightarrow> int \<Rightarrow> sdk_request \<Rightarrow> workbench_db \<Rightarrow> (workbench_db, device_state \<times> int \<times> (string \<times> string \<times> run_state \<times> int) option) reply" where
  "sdk_commands env now q db =
     sdk_guard env now q db (\<lambda>key.
     test_auth env now q key db (\<lambda>d db0.
       let db1 = service_expire now (wd_tenant d) (wd_app d) db0
       in if wd_state d \<noteq> DevActive then (Inr (wd_state d, wd_expires d, None), db1)
          else case sort_key wr_created (filter (\<lambda>r. device_runs d r \<and> run_open (wr_state r)) (wb_runs db1)) of
                 [] \<Rightarrow> (Inr (wd_state d, wd_expires d, None), db1)
               | r # _ \<Rightarrow> (Inr (wd_state d, wd_expires d, Some (wr_id r, wr_revision r, wr_state r, wr_expires r)), db1)))"

definition claimable :: "int \<Rightarrow> test_device \<Rightarrow> string \<Rightarrow> device_run \<Rightarrow> bool" where
  "claimable now d i r \<longleftrightarrow> device_runs d r \<and> wr_id r = pg_uuid i \<and> wr_state r = RunQueued \<and> now < wr_expires r"

text \<open>The update is the lease of the run; it stays when the artifact cannot be read.\<close>

definition claim_run :: "workbench_env \<Rightarrow> int \<Rightarrow> string \<Rightarrow> test_device \<Rightarrow> workbench_db \<Rightarrow> (workbench_db, string \<times> string \<times> int \<times> artifact) reply" where
  "claim_run env now i d db =
     (if wd_state d \<noteq> DevActive then (Inl (Unauthorized ''device''), db)
      else case find (claimable now d i) (wb_runs db) of
             None \<Rightarrow> (Inl (Conflict ''RUN_ALREADY_CLAIMED_OR_EXPIRED''), db)
           | Some r \<Rightarrow>
               (let db1 = db\<lparr>wb_runs := update_where (claimable now d i)
                            (\<lambda>r. r\<lparr>wr_state := RunPreparing, wr_expires := now + 300000, wr_updated := now\<rparr>) (wb_runs db)\<rparr>
                in when_ok (asset_read env (wd_tenant d) (wd_app d) (wr_revision r) db1) db1 (\<lambda>a.
                     (Inr (i, wr_revision r, now + 300000, a), db1))))"

definition sdk_claim ::
  "workbench_env \<Rightarrow> int \<Rightarrow> string \<Rightarrow> sdk_request \<Rightarrow> workbench_db \<Rightarrow> (workbench_db, string \<times> string \<times> int \<times> artifact) reply" where
  "sdk_claim env now i q db =
     sdk_guard env now q db (\<lambda>key.
       if \<not> wn_pipe_uuid env i then (Inl (BadRequest ''uuid''), db)
       else test_auth env now q key db (claim_run env now i))"

definition run_event_kinds :: "string list" where
  "run_event_kinds = [''bridge_ready'', ''content_ready'', ''presented'', ''impression'', ''action'', ''dismiss'', ''failed'', ''log'']"

definition run_event_schema :: "workbench_env \<Rightarrow> jsval \<Rightarrow> (string \<times> string \<times> string) option" where
  "run_event_schema env b =
     (if \<not> is_object b then None
      else case (z_run_uuid env (js_get b ''event_id''), js_get b ''kind'', (if js_get b ''detail'' = None then Some [] else z_string 0 200 (js_get b ''detail''))) of
             (Some i, Some (JStr k), Some dt) \<Rightarrow> if k \<in> set run_event_kinds then Some (i, k, dt) else None
           | _ \<Rightarrow> None)"

text \<open>\<open>INSERT ... ON CONFLICT DO NOTHING\<close> under the primary key and the index on the kinds that are kept once\<close>

definition run_event_clash :: "run_event \<Rightarrow> run_event \<Rightarrow> bool" where
  "run_event_clash e x \<longleftrightarrow> we_tenant x = we_tenant e \<and> we_app x = we_app e \<and> we_run x = we_run e \<and>
     (we_id x = we_id e \<or> we_kind x = we_kind e \<and> we_kind e \<in> {''presented'', ''impression''})"

definition insert_run_event :: "run_event \<Rightarrow> workbench_db \<Rightarrow> workbench_db" where
  "insert_run_event e db = (if list_ex (run_event_clash e) (wb_events db) then db else db\<lparr>wb_events := wb_events db @ [e]\<rparr>)"

definition run_after :: "string \<Rightarrow> run_state \<Rightarrow> run_state" where
  "run_after kind st =
     (if kind = ''presented'' then RunPresented else if kind = ''dismiss'' then RunCompleted else if kind = ''failed'' then RunFailed else st)"

text \<open>The checks of a new event, in their order\<close>

definition run_event_refused :: "int \<Rightarrow> device_run \<Rightarrow> string \<Rightarrow> nat \<Rightarrow> string option" where
  "run_event_refused now r kind n =
     (if wr_state r \<notin> {RunPreparing, RunPresented} \<or> wr_expires r \<le> now then Some ''RUN_CLOSED''
      else if 200 \<le> n then Some ''EVENT_LIMIT''
      else if kind \<in> {''impression'', ''action''} \<and> wr_state r \<noteq> RunPresented then Some ''NOT_PRESENTED''
      else None)"

definition report_run_event ::
  "int \<Rightarrow> test_device \<Rightarrow> string \<Rightarrow> string \<times> string \<times> string \<Rightarrow> workbench_db \<Rightarrow> (workbench_db, unit) reply" where
  "report_run_event now d i b db =
     (case b of (eid, kind, detail) \<Rightarrow>
       (case find (\<lambda>r. device_runs d r \<and> wr_id r = pg_uuid i) (wb_runs db) of
          None \<Rightarrow> (Inl (NotFound ''run''), db)
        | Some r \<Rightarrow>
            (let mine = filter (\<lambda>e. we_tenant e = wd_tenant d \<and> we_app e = wd_app d \<and> we_run e = pg_uuid i) (wb_events db)
             in case find (\<lambda>e. we_id e = pg_uuid eid) mine of
                  Some old \<Rightarrow> if we_kind old \<noteq> kind \<or> we_detail old \<noteq> detail then (Inl (Conflict ''EVENT_ID_REUSED''), db) else (Inr (), db)
                | None \<Rightarrow>
                    (case run_event_refused now r kind (length mine) of
                       Some code \<Rightarrow> (Inl (Conflict code), db)
                     | None \<Rightarrow>
                         (let db1 = insert_run_event \<lparr>we_tenant = wd_tenant d, we_app = wd_app d, we_run = pg_uuid i, we_id = pg_uuid eid,
                                      we_kind = kind, we_detail = detail, we_created = now\<rparr> db
                          in (Inr (), db1\<lparr>wb_runs := update_where
                                (\<lambda>x. wr_tenant x = wd_tenant d \<and> wr_app x = wd_app d \<and> wr_id x = pg_uuid i)
                                (\<lambda>x. x\<lparr>wr_state := run_after kind (wr_state r), wr_error := (if kind = ''failed'' then Some detail else None),
                                      wr_updated := now\<rparr>) (wb_runs db1)\<rparr>))))))"

definition sdk_event :: "workbench_env \<Rightarrow> int \<Rightarrow> string \<Rightarrow> sdk_request \<Rightarrow> workbench_db \<Rightarrow> (workbench_db, unit) reply" where
  "sdk_event env now i q db =
     sdk_guard env now q db (\<lambda>key.
       if \<not> wn_pipe_uuid env i then (Inl (BadRequest ''uuid''), db)
       else test_auth env now q key db (\<lambda>d db0.
         if wd_state d \<noteq> DevActive then (Inl (Unauthorized ''device''), db0)
         else when_ok (parseInput (run_event_schema env (sq_body q))) db0 (\<lambda>b. report_run_event now d i b db0)))"

definition sdk_end :: "workbench_env \<Rightarrow> int \<Rightarrow> sdk_request \<Rightarrow> workbench_db \<Rightarrow> (workbench_db, unit) reply" where
  "sdk_end env now q db =
     sdk_guard env now q db (\<lambda>key.
     test_auth env now q key db (\<lambda>d db0. (Inr (), service_revoke now (wd_tenant d) (wd_app d) (wd_id d) db0)))"

section \<open>Requests\<close>

text \<open>
  One request; \<open>Elsewhere\<close> is a change of the authentication tables by another part of the API, which never removes an audit row.
\<close>

datatype workbench_op =
    CreateRevision "source_input \<Rightarrow> string + artifact" string string console_request
  | CreatePairing string string string string console_request
  | ConfirmDevice string string console_request
  | RevokeDevice string string console_request
  | ListRuns string console_request
  | CreateRun string string console_request
  | CancelRun string string console_request
  | PairDevice string sdk_request
  | PollCommands sdk_request
  | ClaimRun string sdk_request
  | ReportRunEvent string sdk_request
  | EndSession sdk_request
  | Elsewhere auth_db

fun workbench_step :: "workbench_env \<Rightarrow> int \<times> workbench_op \<Rightarrow> workbench_db \<Rightarrow> workbench_db" where
  "workbench_step env (now, CreateRevision worker newId app q) db = snd (revisions_create env now worker newId app q db)"
| "workbench_step env (now, CreatePairing newId secret code app q) db = snd (pairings_create env now newId secret code app q db)"
| "workbench_step env (now, ConfirmDevice app i q) db = snd (device_confirm env now app i q db)"
| "workbench_step env (now, RevokeDevice app i q) db = snd (device_revoke env now app i q db)"
| "workbench_step env (now, ListRuns app q) db = snd (runs_list env now app q db)"
| "workbench_step env (now, CreateRun newId app q) db = snd (runs_create env now newId app q db)"
| "workbench_step env (now, CancelRun app i q) db = snd (run_cancel env now app i q db)"
| "workbench_step env (now, PairDevice credential q) db = snd (sdk_pair env now credential q db)"
| "workbench_step env (now, PollCommands q) db = snd (sdk_commands env now q db)"
| "workbench_step env (now, ClaimRun i q) db = snd (sdk_claim env now i q db)"
| "workbench_step env (now, ReportRunEvent i q) db = snd (sdk_event env now i q db)"
| "workbench_step env (now, EndSession q) db = snd (sdk_end env now q db)"
| "workbench_step env (now, Elsewhere auth) db = (if set (audits (wb_auth db)) \<subseteq> set (audits auth) then db\<lparr>wb_auth := auth\<rparr> else db)"

definition empty_workbench :: "auth_db \<Rightarrow> workbench_db" where
  "empty_workbench auth = \<lparr>wb_auth = auth, wb_revisions = [], wb_devices = [], wb_runs = [], wb_events = [], wb_files = []\<rparr>"

definition workbench_run :: "workbench_env \<Rightarrow> auth_db \<Rightarrow> (int \<times> workbench_op) list \<Rightarrow> workbench_db" where
  "workbench_run env auth ops = fold (workbench_step env) ops (empty_workbench auth)"

end
