(* ===== verification/Workbench_Safety.thy ===== *)
theory Workbench_Safety
  imports InApp_Workbench InApp_Safety
begin

text \<open>
  What the workbench promises for every sequence of requests of the console and of test devices. A request is decomposed into the table
  writes it commits (\<open>wb_write\<close>, an inductive relation whose rules carry the conditions of the SQL statements); the invariant is proved
  once per write.
\<close>

section \<open>Writes\<close>

definition same_device :: "test_device \<Rightarrow> test_device \<Rightarrow> bool" where
  "same_device d x \<longleftrightarrow> wd_id x = wd_id d \<and> wd_tenant x = wd_tenant d \<and> wd_app x = wd_app d \<and> wd_state x = wd_state d"

inductive wb_write :: "workbench_env \<Rightarrow> workbench_db \<Rightarrow> workbench_db \<Rightarrow> bool" for env where
  write_seen: "wb_write env db (db\<lparr>wb_devices := update_where p (\<lambda>d. d\<lparr>wd_seen := s\<rparr>) (wb_devices db)\<rparr>)"
| write_device: "wd_id d \<notin> wd_id ` set (wb_devices db) \<Longrightarrow> wd_state d = DevWaiting \<Longrightarrow>
    wb_write env db (db\<lparr>wb_devices := wb_devices db @ [d]\<rparr>)"
| write_pair: "wb_write env db (db\<lparr>wb_devices := update_where (pairable env now key i secret)
    (\<lambda>d. d\<lparr>wd_state := DevClaimed, wd_credential := Some c, wd_label := l, wd_platform := Some pf, wd_sdk := v, wd_seen := s\<rparr>) (wb_devices db)\<rparr>)"
| write_confirm: "can (sm_role me) ''journeys:write'' \<Longrightarrow> wb_write env db (wb_record me q ''device.confirm'' i (db\<lparr>wb_devices :=
    update_where (confirmable now (sm_tenant me) app i) (\<lambda>d. d\<lparr>wd_state := DevActive, wd_expires := e\<rparr>) (wb_devices db)\<rparr>))"
| write_revoke: "wb_write env db (db\<lparr>wb_devices := update_where p (\<lambda>d. d\<lparr>wd_state := DevRevoked\<rparr>) (wb_devices db)\<rparr>)"
| write_close: "st \<in> {RunCancelled, RunExpired} \<Longrightarrow> wb_write env db (close_runs now p st err db)"
| write_run: "run_ready now tenant app (ri_device b) d \<Longrightarrow> d \<in> set (wb_devices db) \<Longrightarrow> \<not> list_ex (run_clash (new_run now n tenant app b)) (wb_runs db) \<Longrightarrow>
    wb_write env db (db\<lparr>wb_runs := wb_runs db @ [new_run now n tenant app b]\<rparr>)"
| write_claim: "wb_write env db (db\<lparr>wb_runs := update_where (claimable now d i)
    (\<lambda>r. r\<lparr>wr_state := RunPreparing, wr_expires := e, wr_updated := u\<rparr>) (wb_runs db)\<rparr>)"
| write_event: "wb_write env db (snd (report_run_event now d i b db))"
| write_revision: "create_body env now n tenant app member name art db = Inr db' \<Longrightarrow> wb_write env db db'"
| write_files: "wb_write env db (db\<lparr>wb_files := fs\<rparr>)"
| write_auth: "set (audits (wb_auth db)) \<subseteq> set (audits a) \<Longrightarrow> wb_write env db (db\<lparr>wb_auth := a\<rparr>)"

abbreviation wb_writes :: "workbench_env \<Rightarrow> workbench_db \<Rightarrow> workbench_db \<Rightarrow> bool" where
  "wb_writes env \<equiv> (wb_write env)\<^sup>*\<^sup>*"

subsection \<open>Every handler only writes\<close>

text \<open>\<open>writes_from env db r\<close>: the state of a reply is reached from \<open>db\<close> by writes.\<close>

definition writes_from :: "workbench_env \<Rightarrow> workbench_db \<Rightarrow> (workbench_db, 'a) reply \<Rightarrow> bool" where
  "writes_from env db r \<longleftrightarrow> wb_writes env db (snd r)"

lemma writes_from_refl [simp]: "writes_from env db (x, db)"
  by (simp add: writes_from_def)

lemma writes_from_one: "wb_write env db db' \<Longrightarrow> writes_from env db (x, db')"
  by (simp add: writes_from_def r_into_rtranclp)

lemma writes_from_after: "wb_write env db db1 \<Longrightarrow> writes_from env db1 r \<Longrightarrow> writes_from env db r"
  unfolding writes_from_def by (rule converse_rtranclp_into_rtranclp)

lemma writes_from_when: "(\<And>a. r = Inr a \<Longrightarrow> writes_from env db (k a)) \<Longrightarrow> writes_from env db (when_ok r db k)"
  by (simp add: when_ok_def split: sum.split)

lemma PermissionGuard_Inr: "PermissionGuard (Some p) (Some me) = Inr u \<longleftrightarrow> can (sm_role me) p"
  by (simp add: PermissionGuard_def)

lemma writes_from_console:
  "(\<And>me. can (sm_role me) perm \<Longrightarrow> writes_from env db (k me)) \<Longrightarrow> writes_from env db (console_guard env now perm params q db k)"
  by (auto simp: console_guard_def PermissionGuard_Inr intro!: writes_from_when)

lemma writes_from_sdk: "(\<And>key. writes_from env db (k key)) \<Longrightarrow> writes_from env db (sdk_guard env now q db k)"
  by (simp add: sdk_guard_def split: sum.split option.split)

lemma writes_from_auth: "(\<And>d db1. writes_from env db1 (k d db1)) \<Longrightarrow> writes_from env db (test_auth env now q key db k)"
  by (auto simp: test_auth_def Let_def split: option.split intro!: writes_from_when intro: writes_from_after [OF write_seen])

lemma wb_record_write: "wb_write env db (wb_record me q act i db)"
  by (auto simp: wb_record_def recordAs_def audit_record_def intro!: write_auth)

lemma writes_from_recorded:
  assumes "writes_from env db r"
  shows "writes_from env db (recorded me q act tg r)"
proof -
  obtain x d where r: "r = (x, d)" by (cases r)
  have "wb_writes env db d" using assms by (simp add: writes_from_def r)
  then have "wb_writes env db (wb_record me q act i d)" for i using wb_record_write [of env d] by (rule rtranclp.rtrancl_into_rtrancl)
  then show ?thesis using assms by (simp add: recorded_def r writes_from_def split: sum.split)
qed

lemma wb_scope_Inr: "wb_scope env g app q me db = Inr t \<Longrightarrow> t = sm_tenant me"
  by (simp add: wb_scope_def split: if_splits sum.splits)

lemma expire_write: "wb_write env db (service_expire now t a db)"
  unfolding service_expire_def by (rule write_close) simp

lemma revoke_writes: "writes_from env db (x, service_revoke now t a i db)"
  unfolding service_revoke_def by (rule writes_from_after [OF write_revoke writes_from_one]) (rule write_close, simp)

lemmas writes_rules = writes_from_console writes_from_sdk writes_from_auth writes_from_when writes_from_recorded

lemma service_create_writes: "writes_from env db (service_create env now w n t a m b db)"
  unfolding service_create_def asset_remove_def
  by (intro writes_rules) (auto split: sum.split intro!: writes_from_one intro: write_revision write_files)

lemma service_pairing_writes: "writes_from env db (service_pairing env now n s c t a m db)"
  unfolding service_pairing_def by (intro writes_rules) (auto intro!: writes_from_one write_device)

lemma queue_run_writes: "writes_from env db (queue_run now n t a b db)"
  by (auto simp: queue_run_def Let_def list_ex_iff split: option.split intro!: writes_from_one write_run simp del: not_less)

lemma service_run_writes: "writes_from env db (service_run env now n t a b db)"
  unfolding service_run_def Let_def
  by (rule writes_from_when, rule writes_from_after [OF expire_write], rule writes_from_when) (rule queue_run_writes)

lemma sdk_pair_writes: "writes_from env db (sdk_pair env now c q db)"
  unfolding sdk_pair_def by (intro writes_rules) (auto split: list.split option.split intro!: writes_from_one write_pair)

lemma sdk_claim_writes: "writes_from env db (sdk_claim env now i q db)"
  unfolding sdk_claim_def claim_run_def Let_def
  by (intro writes_rules) (auto split: option.split intro!: writes_rules writes_from_after [OF write_claim writes_from_when])

lemma sdk_event_writes: "writes_from env db (sdk_event env now i q db)"
proof -
  have "writes_from env d0 (report_run_event now d i b d0)" for d d0 b
    unfolding writes_from_def by (rule r_into_rtranclp, rule write_event)
  then show ?thesis unfolding sdk_event_def by (auto intro!: writes_rules)
qed

lemma device_confirm_writes: "writes_from env db (device_confirm env now a i q db)"
  unfolding device_confirm_def service_confirm_def
  by (intro writes_from_console writes_from_when) (auto simp: recorded_def dest!: wb_scope_Inr intro!: writes_from_one write_confirm)

lemma workbench_step_writes: "wb_writes env db (workbench_step env (now, op) db)"
proof -
  have f: "writes_from env db (revisions_create env now w n a q db)" "writes_from env db (pairings_create env now n s c a q db)"
    "writes_from env db (device_revoke env now a i q db)" "writes_from env db (runs_list env now a q db)"
    "writes_from env db (runs_create env now n a q db)" "writes_from env db (run_cancel env now a i q db)"
    "writes_from env db (sdk_commands env now sq db)" "writes_from env db (sdk_end env now sq db)" for w n s c a i q sq
    unfolding revisions_create_def pairings_create_def device_revoke_def runs_list_def runs_create_def run_cancel_def sdk_commands_def sdk_end_def
      service_runs_def service_cancel_def Let_def
    by (auto intro!: writes_rules service_create_writes service_pairing_writes service_run_writes revoke_writes writes_from_one write_close
      expire_write split: list.split)
  show ?thesis
    using f sdk_pair_writes sdk_claim_writes sdk_event_writes device_confirm_writes
    by (cases op) (auto simp: writes_from_def intro: r_into_rtranclp write_auth)
qed

section \<open>The invariant\<close>

definition run_ref :: "device_run \<Rightarrow> string \<times> string \<times> string" where
  "run_ref r = (wr_tenant r, wr_app r, wr_id r)"

definition event_run :: "run_event \<Rightarrow> string \<times> string \<times> string" where
  "event_run e = (we_tenant e, we_app e, we_run e)"

definition device_ref :: "device_run \<Rightarrow> string \<times> string \<times> string" where
  "device_ref r = (wr_tenant r, wr_app r, wr_device r)"

definition confirmed :: "test_device \<Rightarrow> workbench_db \<Rightarrow> bool" where
  "confirmed d db \<longleftrightarrow> (\<exists>a \<in> set (audits (wb_auth db)). au_tenant a = wd_tenant d \<and> au_actor a \<noteq> None \<and>
     au_action a = ''in_app.device.confirm'' \<and> map_option pg_uuid (au_target a) = Some (wd_id d))"

text \<open>A device that was paired by the holder of its pairing secret and then confirmed on the console\<close>

definition vetted :: "test_device \<Rightarrow> workbench_db \<Rightarrow> bool" where
  "vetted d db \<longleftrightarrow> wd_platform d \<noteq> None \<and> wd_credential d \<noteq> None \<and> wd_state d \<in> {DevActive, DevRevoked} \<and> confirmed d db"

definition devices_ok :: "workbench_db \<Rightarrow> bool" where
  "devices_ok db \<longleftrightarrow> distinct (map wd_id (wb_devices db)) \<and>
     (\<forall>d \<in> set (wb_devices db). (wd_state d = DevClaimed \<longrightarrow> wd_platform d \<noteq> None \<and> wd_credential d \<noteq> None) \<and>
        (wd_state d = DevActive \<longrightarrow> vetted d db))"

definition runs_ok :: "workbench_db \<Rightarrow> bool" where
  "runs_ok db \<longleftrightarrow> distinct (map wr_id (wb_runs db)) \<and> distinct (map (\<lambda>r. (wr_tenant r, wr_app r, wr_key r)) (wb_runs db)) \<and>
     (\<forall>k. length (filter (\<lambda>r. device_ref r = k \<and> run_open (wr_state r)) (wb_runs db)) \<le> 1) \<and>
     (\<forall>r \<in> set (wb_runs db). \<exists>d \<in> set (wb_devices db). device_runs d r \<and> vetted d db)"

definition has_event :: "string \<Rightarrow> string \<times> string \<times> string \<Rightarrow> run_event list \<Rightarrow> bool" where
  "has_event kind k es \<longleftrightarrow> (\<exists>e \<in> set es. event_run e = k \<and> we_kind e = kind)"

definition event_lists_ok :: "run_event list \<Rightarrow> bool" where
  "event_lists_ok es \<longleftrightarrow> distinct (map (\<lambda>e. (event_run e, we_id e)) es) \<and>
     (\<forall>k. length (filter (\<lambda>e. event_run e = k) es) \<le> 200) \<and>
     (\<forall>k. \<forall>kind \<in> {''presented'', ''impression''}. length (filter (\<lambda>e. event_run e = k \<and> we_kind e = kind) es) \<le> 1) \<and>
     (\<forall>e \<in> set es. we_kind e \<in> {''impression'', ''action''} \<longrightarrow> has_event ''presented'' (event_run e) es)"

definition run_history_ok :: "run_event list \<Rightarrow> device_run list \<Rightarrow> bool" where
  "run_history_ok es rs \<longleftrightarrow> (\<forall>e \<in> set es. \<exists>r \<in> set rs. run_ref r = event_run e \<and> wr_state r \<noteq> RunQueued) \<and>
     (\<forall>r \<in> set rs. (wr_state r = RunPresented \<longrightarrow> has_event ''presented'' (run_ref r) es) \<and>
        (wr_state r = RunCompleted \<longrightarrow> has_event ''dismiss'' (run_ref r) es))"

definition quota_ok :: "workbench_db \<Rightarrow> bool" where
  "quota_ok db \<longleftrightarrow> distinct (map wv_id (wb_revisions db)) \<and> (\<forall>v \<in> set (wb_revisions db). 0 < wv_bytes v) \<and> (\<forall>t. tenant_bytes t db \<le> 1024 ^ 3)"

definition wb_inv :: "workbench_db \<Rightarrow> bool" where
  "wb_inv db \<longleftrightarrow> devices_ok db \<and> runs_ok db \<and> event_lists_ok (wb_events db) \<and> run_history_ok (wb_events db) (wb_runs db) \<and> quota_ok db"

lemma wb_inv_empty: "wb_inv (empty_workbench auth)"
  by (simp add: wb_inv_def devices_ok_def runs_ok_def event_lists_ok_def run_history_ok_def quota_ok_def tenant_bytes_def empty_workbench_def)

subsection \<open>Changes of devices\<close>

lemma confirmed_mono: "set (audits (wb_auth db)) \<subseteq> set (audits (wb_auth db')) \<Longrightarrow> confirmed d db \<Longrightarrow> confirmed d db'"
  unfolding confirmed_def by blast

lemma device_change:
  assumes inv: "wb_inv db"
    and keep: "\<And>d. wd_id (g d) = wd_id d \<and> wd_tenant (g d) = wd_tenant d \<and> wd_app (g d) = wd_app d"
    and vet: "\<And>d. d \<in> set (wb_devices db) \<Longrightarrow> vetted d db \<Longrightarrow> vetted (g d) db'"
    and claimed: "\<And>d. d \<in> set (wb_devices db) \<Longrightarrow> wd_state (g d) = DevClaimed \<Longrightarrow> wd_platform (g d) \<noteq> None \<and> wd_credential (g d) \<noteq> None"
    and active: "\<And>d. d \<in> set (wb_devices db) \<Longrightarrow> wd_state (g d) = DevActive \<Longrightarrow> vetted (g d) db'"
    and tables: "wb_devices db' = map g (wb_devices db)" "wb_runs db' = wb_runs db" "wb_events db' = wb_events db" "wb_revisions db' = wb_revisions db"
  shows "wb_inv db'"
proof -
  have "map wd_id (wb_devices db') = map wd_id (wb_devices db)" unfolding tables(1) by (simp add: keep)
  then have "devices_ok db'" using inv claimed active unfolding wb_inv_def devices_ok_def by (auto simp: tables(1) simp del: map_map)
  moreover have "device_runs (g d) r = device_runs d r" for d r using keep [of d] by (simp add: device_runs_def)
  then have "runs_ok db'" using inv vet unfolding wb_inv_def runs_ok_def tables(1,2) by fastforce
  ultimately show ?thesis using inv unfolding wb_inv_def quota_ok_def tenant_bytes_def tables(2-4) by simp
qed

lemma device_update:
  assumes "wb_inv db" "\<And>d. wd_id (f d) = wd_id d \<and> wd_tenant (f d) = wd_tenant d \<and> wd_app (f d) = wd_app d"
    and "\<And>d. d \<in> set (wb_devices db) \<Longrightarrow> p d \<Longrightarrow> (vetted d db \<longrightarrow> vetted (f d) db') \<and>
      (wd_state (f d) = DevClaimed \<longrightarrow> wd_platform (f d) \<noteq> None \<and> wd_credential (f d) \<noteq> None) \<and> (wd_state (f d) = DevActive \<longrightarrow> vetted (f d) db')"
    and tables: "wb_devices db' = update_where p f (wb_devices db)" "wb_runs db' = wb_runs db" "wb_events db' = wb_events db"
      "wb_revisions db' = wb_revisions db" "set (audits (wb_auth db)) \<subseteq> set (audits (wb_auth db'))"
  shows "wb_inv db'"
proof -
  have v: "vetted d db'" if "vetted d db" for d using that confirmed_mono [OF tables(5)] by (auto simp: vetted_def)
  show ?thesis
  proof (rule device_change [OF assms(1) _ _ _ _ tables(1) [unfolded update_where_def] tables(2-4)])
    fix d assume d: "d \<in> set (wb_devices db)"
    have ok: "(wd_state d = DevClaimed \<longrightarrow> wd_platform d \<noteq> None \<and> wd_credential d \<noteq> None) \<and> (wd_state d = DevActive \<longrightarrow> vetted d db)"
      using assms(1) d by (simp add: wb_inv_def devices_ok_def)
    show "vetted (if p d then f d else d) db'" if "vetted d db" using that assms(3) d v by simp
    show "wd_platform (if p d then f d else d) \<noteq> None \<and> wd_credential (if p d then f d else d) \<noteq> None"
      if "wd_state (if p d then f d else d) = DevClaimed" using that assms(3) [OF d] ok by (simp split: if_splits)
    show "vetted (if p d then f d else d) db'" if "wd_state (if p d then f d else d) = DevActive" using that assms(3) [OF d] ok v by (simp split: if_splits)
  qed (use assms(2) in simp)
qed

lemma device_rewrite:
  assumes "wb_inv db" "\<And>d. wd_id (f d) = wd_id d \<and> wd_tenant (f d) = wd_tenant d \<and> wd_app (f d) = wd_app d"
    and "\<And>d. d \<in> set (wb_devices db) \<Longrightarrow> p d \<Longrightarrow> (vetted d db \<longrightarrow> vetted (f d) db) \<and>
      (wd_state (f d) = DevClaimed \<longrightarrow> wd_platform (f d) \<noteq> None \<and> wd_credential (f d) \<noteq> None) \<and> (wd_state (f d) = DevActive \<longrightarrow> vetted (f d) db)"
  shows "wb_inv (db\<lparr>wb_devices := update_where p f (wb_devices db)\<rparr>)"
  by (rule device_update [OF assms(1,2), where p = p]) (use assms(3) in \<open>simp_all add: vetted_def confirmed_def\<close>)

subsection \<open>Changes of runs\<close>

text \<open>A change of states that reopens nothing\<close>

definition run_step_ok :: "(device_run \<Rightarrow> device_run) \<Rightarrow> device_run \<Rightarrow> bool" where
  "run_step_ok g r \<longleftrightarrow> run_ref (g r) = run_ref r \<and> device_ref (g r) = device_ref r \<and> wr_key (g r) = wr_key r \<and> wr_revision (g r) = wr_revision r \<and>
     (run_open (wr_state (g r)) \<longrightarrow> run_open (wr_state r)) \<and> (wr_state (g r) = RunQueued \<longrightarrow> wr_state r = RunQueued)"

lemma run_history_change:
  assumes h: "run_history_ok es rs" and g: "\<And>x. x \<in> set rs \<Longrightarrow> run_step_ok g x"
    and more: "\<And>kind k. has_event kind k es \<Longrightarrow> has_event kind k es'"
    and run: "\<And>e. e \<in> set es' \<Longrightarrow> \<exists>r \<in> set rs. run_ref r = event_run e \<and> wr_state r \<noteq> RunQueued"
    and st: "\<And>x. x \<in> set rs \<Longrightarrow> wr_state (g x) = RunPresented \<Longrightarrow> wr_state x = RunPresented \<or> has_event ''presented'' (run_ref x) es'"
      "\<And>x. x \<in> set rs \<Longrightarrow> wr_state (g x) = RunCompleted \<Longrightarrow> wr_state x = RunCompleted \<or> has_event ''dismiss'' (run_ref x) es'"
  shows "run_history_ok es' (map g rs)"
  unfolding run_history_ok_def
proof (intro conjI ballI impI)
  fix e assume "e \<in> set es'"
  then obtain r where r: "r \<in> set rs" "run_ref r = event_run e" "wr_state r \<noteq> RunQueued" using run by blast
  then show "\<exists>r \<in> set (map g rs). run_ref r = event_run e \<and> wr_state r \<noteq> RunQueued" using g [OF r(1)] by (auto simp: run_step_ok_def)
next
  fix y assume "y \<in> set (map g rs)"
  then obtain x where x: "x \<in> set rs" "y = g x" by auto
  have "run_ref y = run_ref x" using g [OF x(1)] x(2) by (simp add: run_step_ok_def)
  moreover have "wr_state x = RunPresented \<Longrightarrow> has_event ''presented'' (run_ref x) es'" "wr_state x = RunCompleted \<Longrightarrow> has_event ''dismiss'' (run_ref x) es'"
    using h more x(1) unfolding run_history_ok_def by blast+
  ultimately show "wr_state y = RunPresented \<Longrightarrow> has_event ''presented'' (run_ref y) es'" "wr_state y = RunCompleted \<Longrightarrow> has_event ''dismiss'' (run_ref y) es'"
    using st [OF x(1)] x(2) by auto
qed

lemma runs_ok_change:
  assumes ok: "runs_ok db" and g: "\<And>r. r \<in> set (wb_runs db) \<Longrightarrow> run_step_ok g r"
    and tables: "wb_runs db' = map g (wb_runs db)" "wb_devices db' = wb_devices db" "wb_auth db' = wb_auth db"
  shows "runs_ok db'"
proof -
  have k: "wr_id (g r) = wr_id r" "wr_tenant (g r) = wr_tenant r" "wr_app (g r) = wr_app r" "wr_key (g r) = wr_key r" "wr_device (g r) = wr_device r"
    "device_ref (g r) = device_ref r" "run_open (wr_state (g r)) \<Longrightarrow> run_open (wr_state r)" if "r \<in> set (wb_runs db)" for r
    using g [OF that] by (auto simp: run_step_ok_def run_ref_def device_ref_def)
  have "map wr_id (map g (wb_runs db)) = map wr_id (wb_runs db)"
    "map (\<lambda>r. (wr_tenant r, wr_app r, wr_key r)) (map g (wb_runs db)) = map (\<lambda>r. (wr_tenant r, wr_app r, wr_key r)) (wb_runs db)"
    by (simp_all add: k cong: map_cong)
  moreover have "length (filter (\<lambda>r. device_ref r = x \<and> run_open (wr_state r)) (map g (wb_runs db)))
      \<le> length (filter (\<lambda>r. device_ref r = x \<and> run_open (wr_state r)) (wb_runs db))" for x
    by (rule length_filter_map_le) (simp add: k)
  then have "length (filter (\<lambda>r. device_ref r = x \<and> run_open (wr_state r)) (map g (wb_runs db))) \<le> 1" for x
    using ok unfolding runs_ok_def by (meson order_trans)
  moreover have "vetted d db' = vetted d db" for d by (simp add: vetted_def confirmed_def tables(3))
  ultimately show ?thesis using ok unfolding runs_ok_def tables(1,2) by (simp add: device_runs_def k del: map_map)
qed

lemma run_change:
  assumes inv: "wb_inv db" and g: "\<And>r. r \<in> set (wb_runs db) \<Longrightarrow> run_step_ok g r"
    and st: "\<And>r. r \<in> set (wb_runs db) \<Longrightarrow> wr_state (g r) \<in> {RunPresented, RunCompleted} \<Longrightarrow> wr_state (g r) = wr_state r"
    and tables: "wb_runs db' = map g (wb_runs db)" "wb_devices db' = wb_devices db" "wb_auth db' = wb_auth db" "wb_events db' = wb_events db"
      "wb_revisions db' = wb_revisions db"
  shows "wb_inv db'"
proof -
  have "runs_ok db'" using inv runs_ok_change [OF _ g tables(1-3)] by (simp add: wb_inv_def)
  moreover have "devices_ok db'" using inv by (simp add: wb_inv_def devices_ok_def vetted_def confirmed_def tables)
  moreover have h: "run_history_ok (wb_events db) (wb_runs db)" using inv by (simp add: wb_inv_def)
  have "run_history_ok (wb_events db') (wb_runs db')" unfolding tables(1,4)
    by (rule run_history_change [OF h g]) (use h st in \<open>auto simp: run_history_ok_def\<close>)
  ultimately show ?thesis using inv unfolding wb_inv_def quota_ok_def tenant_bytes_def tables(4,5) by simp
qed

lemma run_update:
  assumes "wb_inv db" "\<And>r. p r \<Longrightarrow> run_step_ok f r" "\<And>r. p r \<Longrightarrow> wr_state (f r) \<notin> {RunPresented, RunCompleted}"
  shows "wb_inv (db\<lparr>wb_runs := update_where p f (wb_runs db)\<rparr>)"
  unfolding update_where_def
proof (rule run_change [OF assms(1), where g = "\<lambda>r. if p r then f r else r"])
  show "run_step_ok (\<lambda>r. if p r then f r else r) r" for r using assms(2) [of r] by (simp add: run_step_ok_def)
qed (use assms(3) in \<open>auto split: if_splits\<close>)

lemma device_runs_new: "run_ready now t a (ri_device b) d \<Longrightarrow> device_runs d (new_run now n t a b)"
  by (simp add: run_ready_def device_runs_def new_run_def)

lemma run_insert:
  assumes inv: "wb_inv db" and d: "d \<in> set (wb_devices db)" "run_ready now t a (ri_device b) d"
    and fresh: "\<not> list_ex (run_clash (new_run now n t a b)) (wb_runs db)"
  shows "wb_inv (db\<lparr>wb_runs := wb_runs db @ [new_run now n t a b]\<rparr>)"
proof -
  let ?r = "new_run now n t a b" and ?db = "db\<lparr>wb_runs := wb_runs db @ [new_run now n t a b]\<rparr>"
  have c: "\<not> run_clash ?r x" if "x \<in> set (wb_runs db)" for x using fresh that by (auto simp: list_ex_iff)
  then have new: "wr_id ?r \<notin> wr_id ` set (wb_runs db)"
    "(wr_tenant ?r, wr_app ?r, wr_key ?r) \<notin> (\<lambda>r. (wr_tenant r, wr_app r, wr_key r)) ` set (wb_runs db)"
    by (auto simp: run_clash_def dest: sym)
  have v: "vetted x ?db = vetted x db" for x by (simp add: vetted_def confirmed_def)
  have "vetted d db" using inv d by (simp add: wb_inv_def devices_ok_def run_ready_def)
  moreover have "length (filter (\<lambda>r. device_ref r = k \<and> run_open (wr_state r)) (wb_runs db @ [?r])) \<le> 1" for k
  proof (cases "device_ref ?r = k")
    case True
    then have none: "filter (\<lambda>r. device_ref r = k \<and> run_open (wr_state r)) (wb_runs db) = []"
      using c by (auto simp: filter_empty_conv run_clash_def device_ref_def)
    show ?thesis unfolding filter_append none by simp
  next
    case False
    then show ?thesis using inv by (cases k) (simp add: wb_inv_def runs_ok_def)
  qed
  ultimately have "runs_ok ?db" using inv new d device_runs_new [OF d(2)] unfolding wb_inv_def runs_ok_def by (auto simp: v)
  moreover have "run_history_ok (wb_events db) (wb_runs db @ [?r])"
    using inv unfolding wb_inv_def run_history_ok_def by (auto simp: new_run_def)
  ultimately show ?thesis using inv unfolding wb_inv_def by (simp add: devices_ok_def quota_ok_def tenant_bytes_def v)
qed

subsection \<open>Events\<close>

lemma has_event_append: "has_event kind k (es @ [e]) \<longleftrightarrow> has_event kind k es \<or> event_run e = k \<and> we_kind e = kind"
  by (auto simp: has_event_def)

lemma has_event_insert: "has_event kind k (wb_events db) \<Longrightarrow> has_event kind k (wb_events (insert_run_event e db))"
  by (simp add: insert_run_event_def has_event_append)

lemma event_clash_iff:
  "run_event_clash e x \<longleftrightarrow> event_run x = event_run e \<and> (we_id x = we_id e \<or> we_kind x = we_kind e \<and> we_kind e \<in> {''presented'', ''impression''})"
  by (auto simp: run_event_clash_def event_run_def)

lemma insert_event_recorded:
  assumes "\<And>x. x \<in> set (wb_events db) \<Longrightarrow> event_run x = event_run e \<Longrightarrow> we_id x \<noteq> we_id e"
  shows "has_event (we_kind e) (event_run e) (wb_events (insert_run_event e db))"
  using assms by (auto simp: insert_run_event_def has_event_append list_ex_iff event_clash_iff has_event_def)

lemma insert_event_lists:
  assumes ok: "event_lists_ok (wb_events db)" and room: "length (filter (\<lambda>x. event_run x = event_run e) (wb_events db)) < 200"
    and backed: "we_kind e \<in> {''impression'', ''action''} \<longrightarrow> has_event ''presented'' (event_run e) (wb_events db)"
  shows "event_lists_ok (wb_events (insert_run_event e db))"
proof (cases "list_ex (run_event_clash e) (wb_events db)")
  case False
  let ?es = "wb_events db"
  have free: "\<not> run_event_clash e x" if "x \<in> set ?es" for x using False that by (auto simp: list_ex_iff)
  have "(event_run x, we_id x) \<noteq> (event_run e, we_id e)" if "x \<in> set ?es" for x using free [OF that] by (simp add: event_clash_iff)
  then have "(event_run e, we_id e) \<notin> (\<lambda>x. (event_run x, we_id x)) ` set ?es" by (metis (no_types, lifting) imageE)
  then have d: "distinct (map (\<lambda>x. (event_run x, we_id x)) (?es @ [e]))" using ok by (simp add: event_lists_ok_def)
  have old: "length (filter (\<lambda>x. event_run x = k) ?es) \<le> 200" for k using ok unfolding event_lists_ok_def by blast
  have n: "length (filter (\<lambda>x. event_run x = k) (?es @ [e])) \<le> 200" for k
    using old [of k] room by (cases "event_run e = k") simp_all
  have once: "length (filter (\<lambda>x. event_run x = k \<and> we_kind x = kind) (?es @ [e])) \<le> 1" if kind: "kind \<in> {''presented'', ''impression''}" for k kind
  proof (cases "event_run e = k \<and> we_kind e = kind")
    case True
    then have "filter (\<lambda>x. event_run x = k \<and> we_kind x = kind) ?es = []" using free kind by (auto simp: filter_empty_conv event_clash_iff)
    then show ?thesis by simp
  next
    case False
    moreover have "length (filter (\<lambda>x. event_run x = k \<and> we_kind x = kind) ?es) \<le> 1" using ok kind unfolding event_lists_ok_def by blast
    ultimately show ?thesis by auto
  qed
  have "has_event ''presented'' (event_run x) (?es @ [e])" if "x \<in> set (?es @ [e])" "we_kind x \<in> {''impression'', ''action''}" for x
    using that ok backed unfolding event_lists_ok_def by (auto simp: has_event_append)
  then show ?thesis using d n once False unfolding event_lists_ok_def insert_run_event_def by simp
qed (use ok in \<open>simp add: insert_run_event_def\<close>)

text \<open>What a reported event does when it is accepted\<close>

lemma report_run_event_cases:
  obtains (same) "snd (report_run_event now d i b db) = db"
  | (new) eid kind detail r e where "b = (eid, kind, detail)" "r \<in> set (wb_runs db)" "device_runs d r" "wr_id r = pg_uuid i"
      "event_run e = run_ref r" "we_id e = pg_uuid eid" "we_kind e = kind" "\<And>x. x \<in> set (wb_events db) \<Longrightarrow> event_run x = run_ref r \<Longrightarrow> we_id x \<noteq> we_id e"
      "run_event_refused now r kind (length (filter (\<lambda>x. event_run x = run_ref r) (wb_events db))) = None"
      "snd (report_run_event now d i b db) = (insert_run_event e db)\<lparr>wb_runs := update_where (\<lambda>x. run_ref x = run_ref r)
         (\<lambda>x. x\<lparr>wr_state := run_after kind (wr_state r), wr_error := (if kind = ''failed'' then Some detail else None), wr_updated := now\<rparr>) (wb_runs db)\<rparr>"
proof -
  obtain eid kind detail where b: "b = (eid, kind, detail)" by (cases b)
  let ?run = "find (\<lambda>r. device_runs d r \<and> wr_id r = pg_uuid i) (wb_runs db)"
  show ?thesis
  proof (cases ?run)
    case None
    then show ?thesis by (intro same) (simp add: report_run_event_def b)
  next
    case (Some r)
    then have r: "r \<in> set (wb_runs db)" "device_runs d r" "wr_id r = pg_uuid i" by (auto dest: find_SomeD)
    let ?mine = "filter (\<lambda>x. event_run x = run_ref r) (wb_events db)"
    have mine: "filter (\<lambda>e. we_tenant e = wd_tenant d \<and> we_app e = wd_app d \<and> we_run e = pg_uuid i) (wb_events db) = ?mine"
      using r by (auto simp: event_run_def run_ref_def device_runs_def intro!: filter_cong)
    have key: "(\<lambda>x. wr_tenant x = wd_tenant d \<and> wr_app x = wd_app d \<and> wr_id x = pg_uuid i) = (\<lambda>x. run_ref x = run_ref r)"
      using r by (auto simp: run_ref_def device_runs_def)
    show ?thesis
    proof (cases "find (\<lambda>e. we_id e = pg_uuid eid) ?mine = None \<and> run_event_refused now r kind (length ?mine) = None")
      case True
      let ?e = "\<lparr>we_tenant = wd_tenant d, we_app = wd_app d, we_run = pg_uuid i, we_id = pg_uuid eid, we_kind = kind, we_detail = detail, we_created = now\<rparr>"
      have runs: "wb_runs (insert_run_event ?e db) = wb_runs db" by (simp add: insert_run_event_def)
      show ?thesis
      proof (rule new [OF b r, of ?e])
        show "event_run ?e = run_ref r" using r by (simp add: event_run_def run_ref_def device_runs_def)
        show "we_id x \<noteq> we_id ?e" if "x \<in> set (wb_events db)" "event_run x = run_ref r" for x using True that by (auto simp: find_None_iff)
        show "run_event_refused now r kind (length ?mine) = None" using True by simp
        show "snd (report_run_event now d i b db) = (insert_run_event ?e db)\<lparr>wb_runs := update_where (\<lambda>x. run_ref x = run_ref r)
         (\<lambda>x. x\<lparr>wr_state := run_after kind (wr_state r), wr_error := (if kind = ''failed'' then Some detail else None), wr_updated := now\<rparr>) (wb_runs db)\<rparr>"
          using True by (simp add: report_run_event_def b Some Let_def mine key runs)
      qed simp_all
    next
      case False
      then show ?thesis by (intro same) (auto simp: report_run_event_def b Some Let_def mine split: option.splits)
    qed
  qed
qed

lemma run_after_cases:
  "run_after kind st = RunPresented \<Longrightarrow> kind = ''presented'' \<or> st = RunPresented"
  "run_after kind st = RunCompleted \<Longrightarrow> kind = ''dismiss'' \<or> st = RunCompleted"
  "run_after kind st = RunQueued \<Longrightarrow> st = RunQueued"
  by (auto simp: run_after_def split: if_splits)

lemma event_inv:
  assumes inv: "wb_inv db"
  shows "wb_inv (snd (report_run_event now d i b db))"
proof (cases rule: report_run_event_cases [of now d i b db])
  case same
  then show ?thesis using inv by simp
next
  case (new eid kind detail r e)
  let ?g = "\<lambda>x. if run_ref x = run_ref r
    then x\<lparr>wr_state := run_after kind (wr_state r), wr_error := (if kind = ''failed'' then Some detail else None), wr_updated := now\<rparr> else x"
  let ?db1 = "insert_run_event e db" and ?rs = "map ?g (wb_runs db)"
  have st: "wr_state r \<in> {RunPreparing, RunPresented}" "length (filter (\<lambda>x. event_run x = run_ref r) (wb_events db)) < 200"
    "kind \<in> {''impression'', ''action''} \<longrightarrow> wr_state r = RunPresented" using new(9) by (auto simp: run_event_refused_def split: if_splits)
  have h: "run_history_ok (wb_events db) (wb_runs db)" and ids: "distinct (map wr_id (wb_runs db))" using inv by (simp_all add: wb_inv_def runs_ok_def)
  have r_eq: "x = r" if "x \<in> set (wb_runs db)" "run_ref x = run_ref r" for x
    using distinct_key_eq [OF ids that(1) new(2)] that(2) by (simp add: run_ref_def)
  have lists: "event_lists_ok (wb_events ?db1)"
    using inv st h new(2,5,7) by (intro insert_event_lists) (auto simp: wb_inv_def run_history_ok_def)
  have rec: "has_event kind (run_ref r) (wb_events ?db1)" using insert_event_recorded [of db e] new(5,7,8) by simp
  have ok: "run_step_ok ?g x" if "x \<in> set (wb_runs db)" for x
    using r_eq [OF that] st(1) run_after_cases(3) [of kind "wr_state r"] by (auto simp: run_step_ok_def run_ref_def device_ref_def run_open_def)
  have ev: "x \<in> set (wb_events db) \<or> x = e" if "x \<in> set (wb_events ?db1)" for x using that by (auto simp: insert_run_event_def split: if_splits)
  have "\<exists>y \<in> set (wb_runs db). run_ref y = event_run x \<and> wr_state y \<noteq> RunQueued" if "x \<in> set (wb_events ?db1)" for x
    using ev [OF that] h new(2,5) st(1) unfolding run_history_ok_def by fastforce
  moreover have "wr_state x = RunPresented \<or> has_event ''presented'' (run_ref x) (wb_events ?db1)" if "x \<in> set (wb_runs db)" "wr_state (?g x) = RunPresented" for x
    using that rec r_eq [OF that(1)] run_after_cases(1) [of kind "wr_state r"] by (auto split: if_splits)
  moreover have "wr_state x = RunCompleted \<or> has_event ''dismiss'' (run_ref x) (wb_events ?db1)" if "x \<in> set (wb_runs db)" "wr_state (?g x) = RunCompleted" for x
    using that rec r_eq [OF that(1)] run_after_cases(2) [of kind "wr_state r"] by (auto split: if_splits)
  ultimately have "run_history_ok (wb_events ?db1) ?rs" using has_event_insert by (intro run_history_change [OF h ok]) blast+
  moreover have same: "wb_devices ?db1 = wb_devices db" "wb_auth ?db1 = wb_auth db" "wb_revisions ?db1 = wb_revisions db" by (simp_all add: insert_run_event_def)
  moreover have "runs_ok (?db1\<lparr>wb_runs := ?rs\<rparr>)" by (rule runs_ok_change [OF _ ok]) (use inv in \<open>simp_all add: same wb_inv_def\<close>)
  ultimately show ?thesis using inv lists unfolding new(10) update_where_def wb_inv_def
    by (simp add: devices_ok_def vetted_def confirmed_def quota_ok_def tenant_bytes_def)
qed

subsection \<open>Every write keeps the invariant\<close>

lemma revision_inv:
  assumes inv: "wb_inv db" and create: "create_body env now n t a m name art db = Inr db'"
  shows "wb_inv db'"
proof -
  obtain db1 mf where st: "asset_store env t a n art db = Inr db1" "wn_jsonb env (art_manifest art) = Some mf"
    using create by (auto simp: create_body_def split: if_splits sum.splits option.splits)
  then have room: "tenant_bytes t db + art_bytes art \<le> 1024 ^ 3" "n \<notin> wv_id ` set (wb_revisions db)" "0 < art_bytes art"
    and db1: "db' = db1\<lparr>wb_revisions := wb_revisions db1 @ [\<lparr>wv_id = n, wv_tenant = t, wv_app = pg_uuid a, wv_name = name,
      wv_bytes = art_bytes art, wv_sha = art_sha art, wv_manifest = mf, wv_by = m, wv_created = now\<rparr>]\<rparr>"
    using create by (simp_all add: create_body_def split: if_splits)
  have same: "wb_revisions db1 = wb_revisions db" "wb_devices db1 = wb_devices db" "wb_runs db1 = wb_runs db" "wb_events db1 = wb_events db" "wb_auth db1 = wb_auth db"
    using st(1) by (auto simp: asset_store_def split: sum.splits if_splits)
  note db' = db1 same
  have "tenant_bytes x db' = tenant_bytes x db + (if x = t then art_bytes art else 0)" for x by (simp add: tenant_bytes_def db')
  then have "quota_ok db'" using inv room unfolding wb_inv_def quota_ok_def by (auto simp: db')
  then show ?thesis using inv unfolding wb_inv_def by (simp add: db' devices_ok_def runs_ok_def vetted_def confirmed_def)
qed

lemma wb_inv_frame:
  assumes "wb_inv db" "wb_devices db' = wb_devices db" "wb_runs db' = wb_runs db" "wb_events db' = wb_events db" "wb_revisions db' = wb_revisions db"
    "set (audits (wb_auth db)) \<subseteq> set (audits (wb_auth db'))"
  shows "wb_inv db'"
  by (rule device_update [where p = "\<lambda>_. False" and f = "\<lambda>d. d", OF assms(1)]) (simp_all add: assms(2-6) update_where_def)

lemma device_insert_inv:
  assumes inv: "wb_inv db" and d: "wd_id d \<notin> wd_id ` set (wb_devices db)" "wd_state d = DevWaiting"
  shows "wb_inv (db\<lparr>wb_devices := wb_devices db @ [d]\<rparr>)"
proof -
  have v: "vetted x (db\<lparr>wb_devices := wb_devices db @ [d]\<rparr>) = vetted x db" for x by (simp add: vetted_def confirmed_def)
  have "devices_ok (db\<lparr>wb_devices := wb_devices db @ [d]\<rparr>)" using inv d unfolding wb_inv_def devices_ok_def by (auto simp: v)
  moreover have "runs_ok (db\<lparr>wb_devices := wb_devices db @ [d]\<rparr>)" using inv unfolding wb_inv_def runs_ok_def by (auto simp: v)
  ultimately show ?thesis using inv unfolding wb_inv_def by (simp add: quota_ok_def tenant_bytes_def)
qed

lemma close_runs_inv:
  assumes inv: "wb_inv db" and st: "st \<in> {RunCancelled, RunExpired}"
  shows "wb_inv (close_runs now p st err db)"
  unfolding close_runs_def
  by (rule run_update [OF inv]) (use st in \<open>auto simp: run_step_ok_def run_ref_def device_ref_def run_open_def\<close>)

lemma confirm_write_inv:
  assumes inv: "wb_inv db"
  shows "wb_inv (wb_record me q ''device.confirm'' i (db\<lparr>wb_devices :=
    update_where (confirmable now (sm_tenant me) app i) (\<lambda>d. d\<lparr>wd_state := DevActive, wd_expires := e\<rparr>) (wb_devices db)\<rparr>))" (is "wb_inv ?db")
proof (rule device_update [OF inv, where db' = ?db])
  fix d assume d: "d \<in> set (wb_devices db)" "confirmable now (sm_tenant me) app i d"
  have "wd_platform d \<noteq> None \<and> wd_credential d \<noteq> None" using inv d by (simp add: wb_inv_def devices_ok_def confirmable_def)
  moreover have "confirmed d ?db" using d(2) by (auto simp: confirmed_def wb_record_def recordAs_def audit_record_def confirmable_def)
  then have "confirmed (d\<lparr>wd_state := DevActive, wd_expires := e\<rparr>) ?db" by (simp add: confirmed_def)
  ultimately show "(vetted d db \<longrightarrow> vetted (d\<lparr>wd_state := DevActive, wd_expires := e\<rparr>) ?db) \<and>
      (wd_state (d\<lparr>wd_state := DevActive, wd_expires := e\<rparr>) = DevClaimed \<longrightarrow> wd_platform (d\<lparr>wd_state := DevActive, wd_expires := e\<rparr>) \<noteq> None \<and>
        wd_credential (d\<lparr>wd_state := DevActive, wd_expires := e\<rparr>) \<noteq> None) \<and>
      (wd_state (d\<lparr>wd_state := DevActive, wd_expires := e\<rparr>) = DevActive \<longrightarrow> vetted (d\<lparr>wd_state := DevActive, wd_expires := e\<rparr>) ?db)"
    by (simp add: vetted_def)
qed (auto simp: wb_record_def recordAs_def audit_record_def)

lemma confirmed_fields [simp]:
  "confirmed (d\<lparr>wd_seen := s\<rparr>) db = confirmed d db" "confirmed (d\<lparr>wd_state := st\<rparr>) db = confirmed d db"
  by (simp_all add: confirmed_def)

lemma wb_write_inv: "wb_write env db db' \<Longrightarrow> wb_inv db \<Longrightarrow> wb_inv db'"
proof (induction rule: wb_write.induct)
  case (write_seen db p s)
  then show ?case by (intro device_rewrite) (auto simp: vetted_def wb_inv_def devices_ok_def)
next
  case (write_pair db now key i secret c l pf v s)
  then show ?case by (rule device_rewrite) (auto simp: vetted_def pairable_def)
next
  case (write_revoke db p)
  then show ?case by (rule device_rewrite) (auto simp: vetted_def)
next
  case (write_claim db now d i e u)
  then show ?case
    by (rule run_update) (auto simp: run_step_ok_def run_ref_def device_ref_def claimable_def run_open_def)
next
  case (write_run now tenant app b d db n)
  then show ?case using run_insert by blast
next
  case (write_files db fs)
  then show ?case by (rule wb_inv_frame) simp_all
next
  case (write_auth db a)
  then show ?case by (intro wb_inv_frame [OF write_auth(2)]) simp_all
qed (rule device_insert_inv confirm_write_inv close_runs_inv event_inv revision_inv; assumption)+

lemma wb_writes_inv: "wb_writes env db db' \<Longrightarrow> wb_inv db \<Longrightarrow> wb_inv db'"
  by (induction rule: rtranclp_induct) (auto intro: wb_write_inv)

interpretation workbench_runs: invariant_system "workbench_step env" wb_inv for env
proof unfold_locales
  fix s op assume "wb_inv s"
  then show "wb_inv (workbench_step env op s)" using wb_writes_inv workbench_step_writes by (cases op) metis
qed

lemma workbench_run_inv: "wb_inv (workbench_run env auth ops)"
  unfolding workbench_run_def by (rule workbench_runs.run_inv) (rule wb_inv_empty)

end
