(* ===== verification/Workbench_Properties.thy ===== *)
theory Workbench_Properties
  imports Workbench_Safety "HOL-Library.Code_Target_Nat"
begin

text \<open>
  The guarantees of the in-app workbench over whole request sequences, and how a passed review of a campaign revision rests on them: the
  campaign service reads the runs of the workbench through \<open>workbench_view\<close>.
\<close>

section \<open>Runs\<close>

text \<open>
  C37: whatever console and device requests arrive, a test device never has two open runs, a run never has more than 200 events, two
  presentations or two impressions, an impression or an action is only on record for a run with a presentation, every request key of an app
  belongs to one run, and the stored bundles of a tenant stay within 1 GiB.
\<close>

theorem test_runs_sound:
  fixes env auth ops
  defines "db \<equiv> workbench_run env auth ops"
  shows "length (filter (\<lambda>r. wr_tenant r = t \<and> wr_app r = a \<and> wr_device r = dev \<and> run_open (wr_state r)) (wb_runs db)) \<le> 1
    \<and> length (filter (\<lambda>e. we_tenant e = t \<and> we_app e = a \<and> we_run e = run) (wb_events db)) \<le> 200
    \<and> length (filter (\<lambda>e. we_tenant e = t \<and> we_app e = a \<and> we_run e = run \<and> we_kind e = ''presented'') (wb_events db)) \<le> 1
    \<and> length (filter (\<lambda>e. we_tenant e = t \<and> we_app e = a \<and> we_run e = run \<and> we_kind e = ''impression'') (wb_events db)) \<le> 1
    \<and> (\<forall>e \<in> set (wb_events db). we_kind e \<in> {''impression'', ''action''} \<longrightarrow>
         (\<exists>p \<in> set (wb_events db). we_tenant p = we_tenant e \<and> we_app p = we_app e \<and> we_run p = we_run e \<and> we_kind p = ''presented''))
    \<and> distinct (map (\<lambda>r. (wr_tenant r, wr_app r, wr_key r)) (wb_runs db))
    \<and> tenant_bytes t db \<le> 1024 ^ 3"
proof -
  have inv: "wb_inv db" unfolding db_def by (rule workbench_run_inv)
  then have r: "length (filter (\<lambda>r. device_ref r = (t, a, dev) \<and> run_open (wr_state r)) (wb_runs db)) \<le> 1"
    "distinct (map (\<lambda>r. (wr_tenant r, wr_app r, wr_key r)) (wb_runs db))" "tenant_bytes t db \<le> 1024 ^ 3"
    unfolding wb_inv_def runs_ok_def quota_ok_def by blast+
  have e: "event_lists_ok (wb_events db)" using inv by (simp add: wb_inv_def)
  then have n: "length (filter (\<lambda>e. event_run e = (t, a, run)) (wb_events db)) \<le> 200"
    and k: "length (filter (\<lambda>e. event_run e = (t, a, run) \<and> we_kind e = ''presented'') (wb_events db)) \<le> 1"
      "length (filter (\<lambda>e. event_run e = (t, a, run) \<and> we_kind e = ''impression'') (wb_events db)) \<le> 1"
    unfolding event_lists_ok_def by blast+
  have "\<exists>p \<in> set (wb_events db). we_tenant p = we_tenant e \<and> we_app p = we_app e \<and> we_run p = we_run e \<and> we_kind p = ''presented''"
    if "e \<in> set (wb_events db)" "we_kind e \<in> {''impression'', ''action''}" for e
    using that \<open>event_lists_ok _\<close> unfolding event_lists_ok_def has_event_def event_run_def by blast
  then show ?thesis using r n k by (simp add: device_ref_def event_run_def)
qed

section \<open>Delivery of a run\<close>

lemma when_ok_Inr_iff: "when_ok r db k = (Inr y, d) \<longleftrightarrow> (\<exists>a. r = Inr a \<and> k a = (Inr y, d))"
  by (auto simp: when_ok_def split: sum.split)

lemma sdk_guard_Inr:
  "sdk_guard env now q db k = (Inr y, d) \<Longrightarrow>
     \<exists>key. ApiKeyGuard (ia_hash (wn_in_app env)) now [Sdk] None (sq_authorization q) (sq_api_key q) (wb_auth db) = Inr (Some key) \<and> k key = (Inr y, d)"
  by (auto simp: sdk_guard_def split: sum.splits option.splits)

lemma test_auth_Inr:
  "test_auth env now q key db k = (Inr y, d) \<Longrightarrow>
     \<exists>token x. sq_token q = Some token \<and> find (credential_of env now (rk_tenant key) (rk_app key) token) (wb_devices db) = Some x \<and>
       k x (db\<lparr>wb_devices := update_where (credential_of env now (rk_tenant key) (rk_app key) token) (\<lambda>d. d\<lparr>wd_seen := Some now\<rparr>) (wb_devices db)\<rparr>) = (Inr y, d)"
  by (auto simp: test_auth_def when_ok_Inr_iff Let_def token_format_def split: if_splits option.splits)

lemma asset_read_frame: "asset_read env t a v (db\<lparr>wb_runs := rs\<rparr>) = asset_read env t a v db"
  "asset_read env t a v (db\<lparr>wb_devices := ds\<rparr>) = asset_read env t a v db"
  by (simp_all add: asset_read_def split: option.split sum.split)

lemma claim_run_Inr:
  assumes "claim_run env now i d db = (Inr (j, v, e, art), db')"
  obtains r where "wd_state d = DevActive" "r \<in> set (wb_runs db)" "claimable now d i r" "v = wr_revision r"
    "asset_read env (wd_tenant d) (wd_app d) v db = Inr art"
    "wb_runs db' = update_where (claimable now d i) (\<lambda>r. r\<lparr>wr_state := RunPreparing, wr_expires := now + 300000, wr_updated := now\<rparr>) (wb_runs db)"
  using assms by (auto dest!: find_SomeD simp: claim_run_def when_ok_Inr_iff Let_def asset_read_frame split: if_splits option.splits)

lemma sdk_claim_Inr:
  assumes "sdk_claim env now i q db = (Inr (j, v, e, art), db')"
  obtains key token d r where "ApiKeyGuard (ia_hash (wn_in_app env)) now [Sdk] None (sq_authorization q) (sq_api_key q) (wb_auth db) = Inr (Some key)"
    "sq_token q = Some token" "d \<in> set (wb_devices db)" "credential_of env now (rk_tenant key) (rk_app key) token d" "wd_state d = DevActive"
    "r \<in> set (wb_runs db)" "claimable now d i r" "v = wr_revision r" "asset_read env (wd_tenant d) (wd_app d) v db = Inr art"
    "wb_runs db' = update_where (claimable now d i) (\<lambda>r. r\<lparr>wr_state := RunPreparing, wr_expires := now + 300000, wr_updated := now\<rparr>) (wb_runs db)"
proof -
  from sdk_guard_Inr [OF assms [unfolded sdk_claim_def]] obtain key where
    key: "ApiKeyGuard (ia_hash (wn_in_app env)) now [Sdk] None (sq_authorization q) (sq_api_key q) (wb_auth db) = Inr (Some key)"
    and "(if \<not> wn_pipe_uuid env i then (Inl (BadRequest ''uuid''), db) else test_auth env now q key db (claim_run env now i)) = (Inr (j, v, e, art), db')" by blast
  then have "test_auth env now q key db (claim_run env now i) = (Inr (j, v, e, art), db')" by (simp split: if_splits)
  from test_auth_Inr [OF this] obtain token d where t: "sq_token q = Some token"
    "find (credential_of env now (rk_tenant key) (rk_app key) token) (wb_devices db) = Some d" and
    c: "claim_run env now i d (db\<lparr>wb_devices := update_where (credential_of env now (rk_tenant key) (rk_app key) token)
      (\<lambda>d. d\<lparr>wd_seen := Some now\<rparr>) (wb_devices db)\<rparr>) = (Inr (j, v, e, art), db')" by blast
  show ?thesis by (rule claim_run_Inr [OF c]) (use find_SomeD [OF t(2)] in \<open>auto simp: asset_read_frame intro!: that [OF key t(1)]\<close>)
qed

text \<open>A run whose lease was given out\<close>

definition leased :: "string \<Rightarrow> workbench_db \<Rightarrow> bool" where
  "leased i db \<longleftrightarrow> i \<in> wr_id ` set (wb_runs db) \<and> (\<forall>r \<in> set (wb_runs db). wr_id r = i \<longrightarrow> wr_state r \<noteq> RunQueued)"

lemma leased_frame: "wb_runs db' = wb_runs db \<Longrightarrow> leased i db' = leased i db"
  by (simp add: leased_def)

lemma leased_update:
  assumes "leased i db" "\<And>r. r \<in> set (wb_runs db) \<Longrightarrow> p r \<Longrightarrow> wr_id (f r) = wr_id r \<and> (wr_id r = i \<longrightarrow> wr_state (f r) \<noteq> RunQueued)"
    "wb_runs db' = update_where p f (wb_runs db)"
  shows "leased i db'"
proof -
  have "map wr_id (update_where p f (wb_runs db)) = map wr_id (wb_runs db)" using assms(2) by (auto simp: update_where_def)
  then have "wr_id ` set (wb_runs db') = wr_id ` set (wb_runs db)" unfolding assms(3) by (metis list.set_map)
  moreover have "wr_state r \<noteq> RunQueued" if "r \<in> set (wb_runs db')" "wr_id r = i" for r
    using that assms(1,2) unfolding assms(3) leased_def by (auto elim!: in_update_whereE split: if_splits)
  ultimately show ?thesis using assms(1) by (simp add: leased_def)
qed

lemma leased_write: "wb_write env db db' \<Longrightarrow> leased i db \<Longrightarrow> leased i db'"
proof (induction rule: wb_write.induct)
  case (write_close st db now p err)
  then show ?case by (intro leased_update [OF write_close(2)]) (auto simp: close_runs_def)
next
  case (write_claim db now d j e u)
  then show ?case by (intro leased_update [OF write_claim]) auto
next
  case (write_run now tenant app b d db n)
  then show ?case by (auto simp: leased_def list_ex_iff run_clash_def new_run_def)
next
  case (write_event db now d j b)
  show ?case
  proof (cases rule: report_run_event_cases [of now d j b db])
    case same
    then show ?thesis using write_event by simp
  next
    case (new eid kind detail r e)
    have "wr_state r \<noteq> RunQueued" using new(9) by (auto simp: run_event_refused_def split: if_splits)
    then show ?thesis using run_after_cases(3) [of kind "wr_state r"] unfolding new(10) by (intro leased_update [OF write_event]) auto
  qed
next
  case (write_revision now n tenant app member name art db db')
  have "wb_runs db' = wb_runs db" using write_revision(1) by (auto simp: create_body_def asset_store_def split: if_splits sum.splits option.splits)
  then show ?case using write_revision(2) by (simp add: leased_def)
qed (simp_all add: leased_def wb_record_def)

lemma leased_writes: "wb_writes env db db' \<Longrightarrow> leased i db \<Longrightarrow> leased i db'"
  by (induction rule: rtranclp_induct) (auto intro: leased_write)

interpretation leased_runs: invariant_system "workbench_step env" "leased i" for env i
proof unfold_locales
  fix s op assume "leased i s"
  then show "leased i (workbench_step env op s)" using leased_writes workbench_step_writes by (cases op) metis
qed

lemma claim_leases:
  assumes inv: "wb_inv db" and c: "sdk_claim env now i q db = (Inr x, db')"
  shows "leased (pg_uuid i) db'"
proof -
  obtain j v e art where x: "x = (j, v, e, art)" by (cases x)
  from c [unfolded x] obtain d r where r: "r \<in> set (wb_runs db)" "claimable now d i r" and
    u: "wb_runs db' = update_where (claimable now d i) (\<lambda>r. r\<lparr>wr_state := RunPreparing, wr_expires := now + 300000, wr_updated := now\<rparr>) (wb_runs db)"
    by (rule sdk_claim_Inr)
  have ids: "distinct (map wr_id (wb_runs db))" using inv by (simp add: wb_inv_def runs_ok_def)
  let ?f = "\<lambda>r. r\<lparr>wr_state := RunPreparing, wr_expires := now + 300000, wr_updated := now\<rparr>"
  have one: "y = r" if "y \<in> set (wb_runs db)" "wr_id y = pg_uuid i" for y
    using distinct_key_eq [OF ids that(1) r(1)] that(2) r(2) by (simp add: claimable_def)
  have "?f r \<in> set (wb_runs db')" using update_whereI [OF r(1), of "claimable now d i" ?f] r(2) by (simp add: u)
  moreover have "wr_id (?f r) = pg_uuid i" using r(2) by (simp add: claimable_def)
  moreover have "wr_state z \<noteq> RunQueued" if z: "z \<in> set (wb_runs db')" "wr_id z = pg_uuid i" for z
  proof -
    from z(1) obtain y where y: "y \<in> set (wb_runs db)" "z = (if claimable now d i y then ?f y else y)" unfolding u by (rule in_update_whereE)
    then have "wr_id y = pg_uuid i" using z(2) by (simp split: if_splits)
    then show ?thesis using one [OF y(1)] y(2) r(2) by simp
  qed
  ultimately show ?thesis unfolding leased_def by (metis imageI)
qed

lemma leased_not_claimed: "leased (pg_uuid i) db \<Longrightarrow> isl (fst (sdk_claim env now i q db))"
proof (rule ccontr)
  assume l: "leased (pg_uuid i) db" and "\<not> isl (fst (sdk_claim env now i q db))"
  then obtain j v e art db' where "sdk_claim env now i q db = (Inr (j, v, e, art), db')" by (cases "sdk_claim env now i q db"; cases "fst (sdk_claim env now i q db)") auto
  then obtain d r where "r \<in> set (wb_runs db)" "claimable now d i r" by (rule sdk_claim_Inr)
  then show False using l by (auto simp: leased_def claimable_def)
qed

text \<open>
  C38: the content of a test run is handed out at most once. After a claim of a run has succeeded, no claim of that run by any device succeeds
  again, whatever requests come in between.
\<close>

theorem run_delivered_once:
  assumes "\<not> isl (fst (sdk_claim env now i q (workbench_run env auth ops)))" and "pg_uuid j = pg_uuid i"
  shows "isl (fst (sdk_claim env now' j q' (workbench_run env auth (ops @ (now, ClaimRun i q) # ops'))))"
proof -
  let ?db = "workbench_run env auth ops"
  obtain x db' where c: "sdk_claim env now i q ?db = (Inr x, db')" using assms(1) by (cases "sdk_claim env now i q ?db"; cases "fst (sdk_claim env now i q ?db)") auto
  have "leased (pg_uuid i) db'" using workbench_run_inv c by (rule claim_leases)
  then have "leased (pg_uuid j) (fold (workbench_step env) ops' db')" unfolding assms(2) by (rule leased_runs.run_inv)
  then show ?thesis using c leased_not_claimed by (simp add: workbench_run_def)
qed


section \<open>Reviews\<close>

fun run_state_name :: "run_state \<Rightarrow> string" where
  "run_state_name RunQueued = ''queued''"
| "run_state_name RunPreparing = ''preparing''"
| "run_state_name RunPresented = ''presented''"
| "run_state_name RunCompleted = ''completed''"
| "run_state_name RunFailed = ''failed''"
| "run_state_name RunCancelled = ''cancelled''"
| "run_state_name RunExpired = ''expired''"

text \<open>
  The tables of the workbench as the campaign service reads them: a run joined with the platform of its device, with its events in the order
  of the events query
\<close>

definition review_run :: "workbench_db \<Rightarrow> device_run \<Rightarrow> test_run option" where
  "review_run db r =
     (case find (\<lambda>d. device_runs d r) (wb_devices db) of
        None \<Rightarrow> None
      | Some d \<Rightarrow>
          map_option (\<lambda>p. \<lparr>tr_tenant = wr_tenant r, tr_app = wr_app r, tr_id = wr_id r, tr_revision = wr_revision r, tr_platform = p,
            tr_state = run_state_name (wr_state r),
            tr_events = map (\<lambda>e. (we_kind e, we_detail e)) (sort_key we_created (filter (\<lambda>e. event_run e = run_ref r) (wb_events db)))\<rparr>) (wd_platform d))"

definition workbench_view :: "workbench_db \<Rightarrow> inapp_db \<Rightarrow> inapp_db" where
  "workbench_view db idb =
     idb\<lparr>in_apps := map (\<lambda>a. (a_tenant a, a_id a)) (apps (wb_auth db)), test_runs := List.map_filter (review_run db) (wb_runs db),
         revisions := map (\<lambda>v. \<lparr>rv_tenant = wv_tenant v, rv_app = wv_app v, rv_id = wv_id v, rv_sha = wv_sha v,
           rv_actions = (case js_get (wv_manifest v) ''actions'' of None \<Rightarrow> [] | Some a \<Rightarrow> js_keys a)\<rparr>) (wb_revisions db),
         files := map (\<lambda>(k, a). (k, art_html a)) (wb_files db)\<rparr>"

lemma run_state_completed: "run_state_name st = ''completed'' \<longleftrightarrow> st = RunCompleted"
  by (cases st) simp_all

lemma campaign_review_passed:
  assumes "campaign_review env tenant app member input db = Inr ((), db')" "js_get input ''passed'' = Some (JBool True)"
  obtains r where "r \<in> set (test_runs db)" "tr_tenant r = tenant" "tr_app r = app" "tr_state r = ''completed''"
    "(''dismiss'', ''close_button'') \<in> set (tr_events r)" "\<exists>x. (''impression'', x) \<in> set (tr_events r)"
    "db' = upsert_review \<lparr>rw_tenant = tenant, rw_app = app, rw_revision = tr_revision r, rw_platform = tr_platform r, rw_run = tr_id r, rw_passed = True, rw_by = member\<rparr> db"
proof -
  obtain run p l c a where s: "reviewSchema env input = Some (run, p, l, c, a)"
    using assms(1) by (auto simp: campaign_review_def split: sum.splits option.splits)
  then have p: "p" using assms(2)
    by (auto simp: reviewSchema_def split: if_splits option.splits jsval.splits)
  obtain r where f: "find (\<lambda>r. tr_tenant r = tenant \<and> tr_app r = app \<and> tr_id r = run) (test_runs db) = Some r"
    using assms(1) s by (auto simp: campaign_review_def split: sum.splits option.splits)
  note r = find_SomeD [OF f]
  have eff: "tr_state r = ''completed''" "list_ex (\<lambda>(k, _). k = ''impression'') (take 200 (tr_events r))" "(''dismiss'', ''close_button'') \<in> set (take 200 (tr_events r))"
    "db' = upsert_review \<lparr>rw_tenant = tenant, rw_app = app, rw_revision = tr_revision r, rw_platform = tr_platform r, rw_run = tr_id r, rw_passed = True, rw_by = member\<rparr> db"
    using assms(1) s f p by (auto simp: campaign_review_def Let_def split: sum.splits if_splits)
  show ?thesis
  proof (rule that [of r])
    show "(''dismiss'', ''close_button'') \<in> set (tr_events r)" using eff(3) by (rule in_set_takeD)
    show "\<exists>x. (''impression'', x) \<in> set (tr_events r)" using eff(2) by (auto simp: list_ex_iff dest: in_set_takeD)
  qed (use r eff in simp_all)
qed

text \<open>
  A revision was tested on a platform: there is a completed run of it on a device of the platform that was paired and confirmed by a member, and
  the run has on record its presentation, an impression and a dismissal with the close button.
\<close>

definition run_tested :: "workbench_db \<Rightarrow> device_run \<Rightarrow> platform \<Rightarrow> bool" where
  "run_tested db r p \<longleftrightarrow> r \<in> set (wb_runs db) \<and> wr_state r = RunCompleted \<and>
     (\<exists>d \<in> set (wb_devices db). device_runs d r \<and> wd_platform d = Some p \<and> vetted d db) \<and>
     has_event ''presented'' (run_ref r) (wb_events db) \<and> has_event ''impression'' (run_ref r) (wb_events db) \<and>
     (\<exists>e \<in> set (wb_events db). event_run e = run_ref r \<and> we_kind e = ''dismiss'' \<and> we_detail e = ''close_button'')"

definition tested :: "workbench_db \<Rightarrow> string \<Rightarrow> string \<Rightarrow> string \<Rightarrow> platform \<Rightarrow> bool" where
  "tested db tenant app v p \<longleftrightarrow> (\<exists>r. run_tested db r p \<and> wr_tenant r = tenant \<and> wr_app r = app \<and> wr_revision r = v)"

text \<open>A review that is accepted as passed rests on such a test.\<close>

lemma review_tested:
  assumes "campaign_review env tenant app member input (workbench_view db idb) = Inr ((), idb')" "js_get input ''passed'' = Some (JBool True)"
    and inv: "wb_inv db"
  obtains v p run where "tested db tenant app v p"
    "idb' = upsert_review \<lparr>rw_tenant = tenant, rw_app = app, rw_revision = v, rw_platform = p, rw_run = run, rw_passed = True, rw_by = member\<rparr> (workbench_view db idb)"
proof -
  from assms(1,2) obtain t where t: "t \<in> set (test_runs (workbench_view db idb))" "tr_tenant t = tenant" "tr_app t = app" "tr_state t = ''completed''"
    "(''dismiss'', ''close_button'') \<in> set (tr_events t)" "\<exists>x. (''impression'', x) \<in> set (tr_events t)"
    "idb' = upsert_review \<lparr>rw_tenant = tenant, rw_app = app, rw_revision = tr_revision t, rw_platform = tr_platform t, rw_run = tr_id t, rw_passed = True,
      rw_by = member\<rparr> (workbench_view db idb)"
    by (rule campaign_review_passed)
  then obtain r where r: "r \<in> set (wb_runs db)" "review_run db r = Some t" by (auto simp: workbench_view_def List.map_filter_def)
  then obtain d p where d: "find (\<lambda>d. device_runs d r) (wb_devices db) = Some d" "wd_platform d = Some p" and
    ts: "t = \<lparr>tr_tenant = wr_tenant r, tr_app = wr_app r, tr_id = wr_id r, tr_revision = wr_revision r, tr_platform = p, tr_state = run_state_name (wr_state r),
      tr_events = map (\<lambda>e. (we_kind e, we_detail e)) (sort_key we_created (filter (\<lambda>e. event_run e = run_ref r) (wb_events db)))\<rparr>"
    by (auto simp: review_run_def split: option.splits)
  note dd = find_SomeD [OF d(1)]
  obtain x where x: "x \<in> set (wb_devices db)" "device_runs x r" "vetted x db" using inv r(1) unfolding wb_inv_def runs_ok_def by blast
  have "x = d" using distinct_key_eq [of wd_id "wb_devices db" x d] inv x dd by (simp add: wb_inv_def devices_ok_def device_runs_def)
  then have v: "vetted d db" using x(3) by simp
  have imp: "has_event ''impression'' (run_ref r) (wb_events db)" using t(6) unfolding ts has_event_def by auto
  then obtain e where e: "e \<in> set (wb_events db)" "event_run e = run_ref r" "we_kind e = ''impression''" unfolding has_event_def by blast
  have "event_lists_ok (wb_events db)" using inv by (simp add: wb_inv_def)
  then have "has_event ''presented'' (event_run e) (wb_events db)" using e(1,3) unfolding event_lists_ok_def by auto
  moreover have "\<exists>e \<in> set (wb_events db). event_run e = run_ref r \<and> we_kind e = ''dismiss'' \<and> we_detail e = ''close_button''" using t(5) unfolding ts by auto
  moreover have "wr_state r = RunCompleted" using t(4) ts by (simp add: run_state_completed)
  ultimately have "run_tested db r p" using r(1) dd d(2) v imp unfolding run_tested_def e(2) by blast
  then have "tested db tenant app (tr_revision t) p" using t(2,3) unfolding tested_def ts by auto
  then show ?thesis using that t(7) unfolding ts by simp
qed

section \<open>Witnesses\<close>

definition sample_workbench_env :: workbench_env where
  "sample_workbench_env = \<lparr>wn_in_app = sample_inapp_env, wn_pipe_uuid = (\<lambda>_. True), wn_jsonb = Some, wn_cors = ''console''\<rparr>"

definition wide :: "char \<Rightarrow> string" where
  "wide c = replicate 36 c"

abbreviation sample_tenant :: string where "sample_tenant \<equiv> wide (CHR ''0'')"
abbreviation sample_wb_app :: string where "sample_wb_app \<equiv> wide (CHR ''a'')"

definition sample_wb_auth :: auth_db where
  "sample_wb_auth =
     \<lparr>tenants = [\<lparr>t_id = sample_tenant, t_name = ''T'', t_require_2fa = False, t_delete_requested_at = None, t_purge_after = None\<rparr>],
      members = [new_member ''o'' sample_tenant ''o'' ''h'' ''o'' ''owner''], backup_codes = [],
      sessions = [\<lparr>s_tenant = sample_tenant, s_member = ''o'', s_token_hash = ''#tok'', s_ip = None, s_user_agent = None, s_expires_at = 1000, s_revoked_at = None\<rparr>],
      apps = [\<lparr>a_id = sample_wb_app, a_tenant = sample_tenant, a_name = ''App'', a_timezone = None\<rparr>],
      api_keys = [new_key_row ''k1'' sample_tenant sample_wb_app Sdk (take 11 sample_key) (CHR ''#'' # sample_key)], installation = None, audits = []\<rparr>"

definition sample_console :: "jsval \<Rightarrow> console_request" where
  "sample_console b = \<lparr>q_cookie = Some ''tok'', q_url = ''/'', q_ip = None, q_user_agent = None, q_body = b, q_origin = None\<rparr>"

definition sample_credential :: string where
  "sample_credential = replicate 43 (CHR ''x'')"

definition sample_sdk :: "jsval \<Rightarrow> sdk_request" where
  "sample_sdk b = \<lparr>sq_authorization = None, sq_api_key = Some sample_key, sq_token = Some sample_credential, sq_body = b\<rparr>"

definition sample_artifact :: artifact where
  "sample_artifact = \<lparr>art_html = ''html'', art_manifest = JObj [], art_sha = ''#html'', art_bytes = 4, art_files = JArr []\<rparr>"

definition sample_run_body :: jsval where
  "sample_run_body = JObj [(''revision_id'', JStr (wide (CHR ''b''))), (''device_id'', JStr (wide (CHR ''d''))), (''request_key'', JStr (wide (CHR ''1'')))]"

definition sample_queued :: "(int \<times> workbench_op) list" where
  "sample_queued =
     [(1, CreateRevision (\<lambda>_. Inr sample_artifact) (wide (CHR ''b'')) sample_wb_app (sample_console (JObj [(''name'', JStr ''n''), (''files'', JArr [])]))),
      (2, CreatePairing (wide (CHR ''d'')) ''s'' ''123456'' sample_wb_app (sample_console JNull)),
      (3, PairDevice sample_credential (sample_sdk (JObj [(''token'', JStr (wide (CHR ''d'') @ ''.s'')), (''label'', JStr ''phone''),
        (''platform'', JStr ''ios''), (''sdk_version'', JStr ''1'')]))),
      (4, ConfirmDevice sample_wb_app (wide (CHR ''d'')) (sample_console JNull)),
      (5, CreateRun (wide (CHR ''e'')) sample_wb_app (sample_console sample_run_body))]"

definition sample_run_event :: "string \<Rightarrow> string \<Rightarrow> string \<Rightarrow> jsval" where
  "sample_run_event i k d = JObj [(''event_id'', JStr i), (''kind'', JStr k), (''detail'', JStr d)]"

definition sample_tested :: "(int \<times> workbench_op) list" where
  "sample_tested = sample_queued @
     [(6, ClaimRun (wide (CHR ''e'')) (sample_sdk JNull)),
      (7, ReportRunEvent (wide (CHR ''e'')) (sample_sdk (sample_run_event ''e1'' ''presented'' []))),
      (8, ReportRunEvent (wide (CHR ''e'')) (sample_sdk (sample_run_event ''e2'' ''impression'' []))),
      (9, ReportRunEvent (wide (CHR ''e'')) (sample_sdk (sample_run_event ''e3'' ''dismiss'' ''close_button'')))]"

abbreviation sample_queue :: workbench_db where
  "sample_queue \<equiv> workbench_run sample_workbench_env sample_wb_auth sample_queued"

abbreviation sample_done :: workbench_db where
  "sample_done \<equiv> workbench_run sample_workbench_env sample_wb_auth sample_tested"

theorem test_runs_sound_witness:
  "\<exists>e \<in> set (wb_events sample_done). we_kind e = ''impression'' \<and>
     (\<exists>p \<in> set (wb_events sample_done). we_tenant p = we_tenant e \<and> we_app p = we_app e \<and> we_run p = we_run e \<and> we_kind p = ''presented'')"
proof -
  have "list_ex (\<lambda>e. we_kind e = ''impression'') (wb_events sample_done)" by code_simp
  then obtain e where e: "e \<in> set (wb_events sample_done)" "we_kind e = ''impression''" by (auto simp: list_ex_iff)
  then have "\<exists>p \<in> set (wb_events sample_done). we_tenant p = we_tenant e \<and> we_app p = we_app e \<and> we_run p = we_run e \<and> we_kind p = ''presented''"
    using test_runs_sound [of sample_tenant sample_wb_app "[]" sample_workbench_env sample_wb_auth sample_tested "[]"] by blast
  with e show ?thesis by blast
qed

theorem run_delivered_once_witness:
  "isl (fst (sdk_claim sample_workbench_env 7 (wide (CHR ''E'')) (sample_sdk JNull) (workbench_run sample_workbench_env sample_wb_auth
     (sample_queued @ [(6, ClaimRun (wide (CHR ''e'')) (sample_sdk JNull))]))))"
proof (rule run_delivered_once)
  show "\<not> isl (fst (sdk_claim sample_workbench_env 6 (wide (CHR ''e'')) (sample_sdk JNull) sample_queue))" by code_simp
  show "pg_uuid (wide (CHR ''E'')) = pg_uuid (wide (CHR ''e''))" by code_simp
qed


definition sample_review :: jsval where
  "sample_review = JObj [(''run_id'', JStr (wide (CHR ''e''))), (''passed'', JBool True), (''layout_checked'', JBool True), (''close_checked'', JBool True),
     (''actions_checked'', JBool True)]"

section \<open>Ids in upper case\<close>

text \<open>
  The comparison of a repeated request with its run compares the stored, lower-case ids with those of the request as strings. A request that
  names its device in upper case is accepted, and the same request again is refused as a different one.
\<close>

theorem upper_case_repeat_refused:
  assumes "run_keyed t a (ri_key b) db = None" "queue_run now n t a b db = (Inr r, db')" "pg_uuid (ri_device b) \<noteq> ri_device b"
  shows "queue_run now' n' t a b db' = (Inl (Conflict ''Idempotency key reused for different input''), db')"
proof -
  have "r = new_run now n t a b" "db' = db\<lparr>wb_runs := wb_runs db @ [r]\<rparr>"
    using assms(1,2) by (auto simp: queue_run_def Let_def split: if_splits option.splits)
  moreover have "find P (xs @ [x]) = Some x" if "find P xs = None" "P x" for P and xs :: "device_run list" and x using that by (induction xs) auto
  ultimately have "run_keyed t a (ri_key b) db' = Some r" using assms(1) by (simp add: run_keyed_def new_run_def)
  moreover have "\<not> same_input b r" using assms(3) \<open>r = _\<close> by (simp add: same_input_def new_run_def)
  ultimately show ?thesis by (simp add: queue_run_def)
qed

text \<open>
  The asset volume keeps the case of the app id in the path of a request. A revision that is uploaded under an upper-case app id is stored in a
  directory that no later request under the stored id of the app finds.
\<close>

theorem upper_case_upload_unreadable:
  assumes "create_body env now n t a m name art db = Inr db'" "pg_uuid a \<noteq> a" "pg_uuid n = n" "map_of (wb_files db) (t, pg_uuid a, n) = None"
  shows "asset_read env t (pg_uuid a) n db' = Inl (Internal ''ENOENT'')"
proof -
  have idem: "ascii_lower (ascii_lower c) = ascii_lower c" for c by (simp add: ascii_lower_def)
  have low: "pg_uuid (pg_uuid s) = pg_uuid s" for s by (simp add: pg_uuid_def idem)
  have ok: "list_all asset_name_ok [t, a, n]" and f: "wb_files db' = AList.update (t, a, n) art (wb_files db)"
    and rows: "\<exists>v. wb_revisions db' = wb_revisions db @ [v] \<and> wv_tenant v = t \<and> wv_app v = pg_uuid a \<and> wv_id v = n"
    using assms(1) by (auto simp: create_body_def asset_store_def asset_dir_def split: if_splits sum.splits option.splits)
  have "asset_name_ok (pg_uuid a)" using ok unfolding asset_name_ok_def pg_uuid_def by (simp add: list.pred_map o_def idem del: list.set)
  then have d: "asset_dir t (pg_uuid a) n = Inr (t, pg_uuid a, n)" using ok by (simp add: asset_dir_def)
  have "map_of (wb_files db') (t, pg_uuid a, n) = None" unfolding f using assms(2,4) by (simp add: update_conv')
  moreover have "find (revision_at t (pg_uuid a) n) (wb_revisions db') \<noteq> None" using rows assms(3) low by (auto simp: find_None_iff)
  ultimately show ?thesis by (auto simp: asset_read_def d split: option.split)
qed

end
