(* ===== verification/Campaign_Admin.thy ===== *)
theory Campaign_Admin
  imports Workbench_Properties
begin

text \<open>
  The campaign API of the console (\<open>in-app/campaign.controller.ts\<close>) over the campaign service, and the in-app part as a whole: the workbench, the
  campaigns and the delivery to installations share one database (\<open>studio_db\<close>), the campaign service reading the tables of the workbench
  through \<open>workbench_view\<close>. Ids are in their stored form here.
\<close>

section \<open>Handlers\<close>

record studio_db =
  sd_bench :: workbench_db
  sd_in_app :: inapp_db

definition campaign_guard ::
  "workbench_env \<Rightarrow> int \<Rightarrow> string \<Rightarrow> string list \<Rightarrow> bool \<Rightarrow> string \<Rightarrow> console_request \<Rightarrow> studio_db \<Rightarrow>
     (session_member \<Rightarrow> string \<Rightarrow> (studio_db, 'a) reply) \<Rightarrow> (studio_db, 'a) reply" where
  "campaign_guard env now perm params is_get app q db k =
     when_ok (SessionGuard (ia_hash (wn_in_app env)) now (q_cookie q) (q_url q) (wb_auth (sd_bench db))) db (\<lambda>me.
     when_ok (PermissionGuard (Some perm) (Some me)) db (\<lambda>_.
       if list_all (wn_pipe_uuid env) params then when_ok (wb_scope env is_get app q me (sd_bench db)) db (k me) else (Inl (BadRequest ''uuid''), db)))"

definition campaign_record :: "session_member \<Rightarrow> console_request \<Rightarrow> string \<Rightarrow> string \<Rightarrow> studio_db \<Rightarrow> studio_db" where
  "campaign_record me q action i db =
     db\<lparr>sd_bench := (sd_bench db)\<lparr>wb_auth :=
       recordAs me (q_ip q) (''in_app.'' @ action) (Some ''in_app_campaign'') (Some i) (wb_auth (sd_bench db))\<rparr>\<rparr>"

text \<open>A service call on the tables of the in-app part, then the audit entry\<close>

definition campaign_call ::
  "session_member \<Rightarrow> console_request \<Rightarrow> string \<Rightarrow> ('a \<Rightarrow> string) \<Rightarrow> (inapp_db \<Rightarrow> (inapp_db, 'a) outcome) \<Rightarrow> studio_db \<Rightarrow> (studio_db, 'a) reply" where
  "campaign_call me q action target service db =
     (case service (workbench_view (sd_bench db) (sd_in_app db)) of
        Inl e \<Rightarrow> (Inl e, db)
      | Inr (a, idb) \<Rightarrow> (Inr a, campaign_record me q action (target a) (db\<lparr>sd_in_app := idb\<rparr>)))"

definition campaigns_list :: "workbench_env \<Rightarrow> int \<Rightarrow> string \<Rightarrow> console_request \<Rightarrow> studio_db \<Rightarrow> (studio_db, camp_row list) reply" where
  "campaigns_list env now app q db =
     campaign_guard env now ''journeys:read'' [app] True app q db (\<lambda>me tenant.
       when_ok (campaign_list (wn_in_app env) tenant app (workbench_view (sd_bench db) (sd_in_app db))) db (\<lambda>cs. (Inr cs, db)))"

definition campaigns_create :: "workbench_env \<Rightarrow> int \<Rightarrow> string \<Rightarrow> string \<Rightarrow> console_request \<Rightarrow> studio_db \<Rightarrow> (studio_db, camp_row) reply" where
  "campaigns_create env now newId app q db =
     campaign_guard env now ''journeys:write'' [app] False app q db (\<lambda>me tenant.
       campaign_call me q ''campaign.create'' c_id (campaign_save (wn_in_app env) now newId tenant app (q_body q) None) db)"

definition campaigns_save :: "workbench_env \<Rightarrow> int \<Rightarrow> string \<Rightarrow> string \<Rightarrow> console_request \<Rightarrow> studio_db \<Rightarrow> (studio_db, camp_row) reply" where
  "campaigns_save env now app i q db =
     campaign_guard env now ''journeys:write'' [app, i] False app q db (\<lambda>me tenant.
       campaign_call me q ''campaign.update'' (\<lambda>_. i) (campaign_save (wn_in_app env) now i tenant app (q_body q) (Some i)) db)"

definition campaigns_publish :: "workbench_env \<Rightarrow> int \<Rightarrow> string \<Rightarrow> string \<Rightarrow> console_request \<Rightarrow> studio_db \<Rightarrow> (studio_db, camp_row) reply" where
  "campaigns_publish env now app i q db =
     campaign_guard env now ''in_app:publish'' [app, i] False app q db (\<lambda>me tenant.
       campaign_call me q ''campaign.publish'' (\<lambda>_. i) (campaign_transition (wn_in_app env) now tenant app i (sm_member me) (q_body q) True) db)"

definition campaigns_pause :: "workbench_env \<Rightarrow> int \<Rightarrow> string \<Rightarrow> string \<Rightarrow> console_request \<Rightarrow> studio_db \<Rightarrow> (studio_db, camp_row) reply" where
  "campaigns_pause env now app i q db =
     campaign_guard env now ''in_app:publish'' [app, i] False app q db (\<lambda>me tenant.
       campaign_call me q ''campaign.pause'' (\<lambda>_. i) (campaign_transition (wn_in_app env) now tenant app i (sm_member me) (q_body q) False) db)"

definition reviews_create :: "workbench_env \<Rightarrow> int \<Rightarrow> string \<Rightarrow> console_request \<Rightarrow> studio_db \<Rightarrow> (studio_db, unit) reply" where
  "reviews_create env now app q db =
     campaign_guard env now ''in_app:publish'' [app] False app q db (\<lambda>me tenant.
       campaign_call me q ''revision.review'' (\<lambda>_. app) (campaign_review (wn_in_app env) tenant app (sm_member me) (q_body q)) db)"

section \<open>Requests\<close>

text \<open>The requests of installations; the campaign operations of \<open>inapp_op\<close> are reached through the handlers above only.\<close>

fun device_op :: "inapp_op \<Rightarrow> bool" where
  "device_op (Register now newId secret tenant app b) = True"
| "device_op (Decide now newId tenant app header b caps) = True"
| "device_op (Authorize now tenant app header did) = True"
| "device_op (ReportEvent now tenant app header did b) = True"
| "device_op (Revoke tenant app header) = True"
| "device_op _ = False"

datatype studio_op =
    Bench "int \<times> workbench_op"
  | CreateCampaign int string string console_request
  | SaveCampaignAs int string string console_request
  | PublishCampaignAs int string string console_request
  | PauseCampaignAs int string string console_request
  | CreateReview int string console_request
  | Device inapp_op

fun studio_step :: "workbench_env \<Rightarrow> studio_op \<Rightarrow> studio_db \<Rightarrow> studio_db" where
  "studio_step env (Bench op) db = db\<lparr>sd_bench := workbench_step env op (sd_bench db)\<rparr>"
| "studio_step env (CreateCampaign now newId app q) db = snd (campaigns_create env now newId app q db)"
| "studio_step env (SaveCampaignAs now app i q) db = snd (campaigns_save env now app i q db)"
| "studio_step env (PublishCampaignAs now app i q) db = snd (campaigns_publish env now app i q db)"
| "studio_step env (PauseCampaignAs now app i q) db = snd (campaigns_pause env now app i q db)"
| "studio_step env (CreateReview now app q) db = snd (reviews_create env now app q db)"
| "studio_step env (Device op) db =
     (if device_op op then db\<lparr>sd_in_app := inapp_step (wn_in_app env) op (workbench_view (sd_bench db) (sd_in_app db))\<rparr> else db)"

definition empty_inapp :: inapp_db where
  "empty_inapp = \<lparr>in_apps = [], campaigns = [], publications = [], installs = [], deliveries = [], events = [], suppressions = [], revisions = [], reviews = [],
     test_runs = [], files = []\<rparr>"

definition studio_run :: "workbench_env \<Rightarrow> auth_db \<Rightarrow> studio_op list \<Rightarrow> studio_db" where
  "studio_run env auth ops = fold (studio_step env) ops \<lparr>sd_bench = empty_workbench auth, sd_in_app = empty_inapp\<rparr>"

section \<open>A test is kept\<close>

lemma write_events_grow: "wb_write env db db' \<Longrightarrow> set (wb_events db) \<subseteq> set (wb_events db')"
proof (induction rule: wb_write.induct)
  case (write_event db now d i b)
  show ?case by (cases rule: report_run_event_cases [of now d i b db]) (auto simp: insert_run_event_def)
next
  case (write_revision now n tenant app member name art db db')
  then show ?case by (auto simp: create_body_def asset_store_def split: if_splits sum.splits option.splits)
qed (auto simp: close_runs_def wb_record_def)

lemma in_update_other: "r \<in> set rows \<Longrightarrow> \<not> p r \<Longrightarrow> r \<in> set (update_where p f rows)"
  using update_whereI [of r rows p f] by simp

lemma write_completed_run:
  "wb_write env db db' \<Longrightarrow> wb_inv db \<Longrightarrow> r \<in> set (wb_runs db) \<Longrightarrow> wr_state r = RunCompleted \<Longrightarrow> r \<in> set (wb_runs db')"
proof (induction rule: wb_write.induct)
  case (write_event db now d i b)
  show ?case
  proof (cases rule: report_run_event_cases [of now d i b db])
    case same
    then show ?thesis using write_event by simp
  next
    case (new eid kind detail x e)
    have "wr_state x \<noteq> RunCompleted" using new(9) by (auto simp: run_event_refused_def split: if_splits)
    then have "run_ref r \<noteq> run_ref x"
      using distinct_key_eq [of wr_id "wb_runs db" r x] write_event new(2) by (auto simp: wb_inv_def runs_ok_def run_ref_def)
    then show ?thesis unfolding new(10) using write_event(2) by (simp add: in_update_other)
  qed
next
  case (write_revision now n tenant app member name art db db')
  then show ?case by (auto simp: create_body_def asset_store_def split: if_splits sum.splits option.splits)
qed (auto simp: close_runs_def wb_record_def run_open_def claimable_def intro!: in_update_other)

definition same_device_row :: "test_device \<Rightarrow> test_device \<Rightarrow> bool" where
  "same_device_row d x \<longleftrightarrow> wd_id x = wd_id d \<and> wd_tenant x = wd_tenant d \<and> wd_app x = wd_app d \<and> wd_platform x = wd_platform d"

lemma update_device_row:
  assumes "d \<in> set (wb_devices db)" "vetted d db" "\<And>d. vetted d db \<Longrightarrow> p d \<Longrightarrow> same_device_row d (f d) \<and> vetted (f d) db"
  shows "\<exists>x \<in> set (update_where p f (wb_devices db)). same_device_row d x \<and> vetted x db"
  using update_whereI [OF assms(1), of p f] assms(2) assms(3) [of d] by (cases "p d") (auto simp: same_device_row_def)

lemma write_device_row:
  "wb_write env db db' \<Longrightarrow> d \<in> set (wb_devices db) \<Longrightarrow> vetted d db \<Longrightarrow> \<exists>x \<in> set (wb_devices db'). same_device_row d x \<and> vetted x db"
proof (induction rule: wb_write.induct)
  case (write_seen db p s)
  then show ?case by (simp, intro update_device_row) (auto simp: same_device_row_def vetted_def)
next
  case (write_pair db now key i secret c l pf v s)
  then show ?case by (simp, intro update_device_row) (auto simp: pairable_def vetted_def)
next
  case (write_confirm me db q i now app e)
  then show ?case by (simp add: wb_record_def, intro update_device_row) (auto simp: confirmable_def vetted_def)
next
  case (write_revoke db p)
  then show ?case by (simp, intro update_device_row) (auto simp: same_device_row_def vetted_def)
next
  case (write_event db now d' i b)
  show ?case by (cases rule: report_run_event_cases [of now d' i b db]) (use write_event in \<open>auto simp: insert_run_event_def same_device_row_def\<close>)
next
  case (write_revision now n tenant app member name art db db')
  then have "wb_devices db' = wb_devices db" by (auto simp: create_body_def asset_store_def split: if_splits sum.splits option.splits)
  then show ?case using write_revision by (auto simp: same_device_row_def)
qed (auto simp: close_runs_def same_device_row_def)

lemma write_audits: "wb_write env db db' \<Longrightarrow> set (audits (wb_auth db)) \<subseteq> set (audits (wb_auth db'))"
proof (induction rule: wb_write.induct)
  case (write_event db now d i b)
  show ?case by (cases rule: report_run_event_cases [of now d i b db]) (auto simp: insert_run_event_def)
next
  case (write_revision now n tenant app member name art db db')
  then show ?case by (auto simp: create_body_def asset_store_def split: if_splits sum.splits option.splits)
qed (auto simp: close_runs_def wb_record_def recordAs_def audit_record_def)

lemma run_tested_write:
  assumes w: "wb_write env db db'" and inv: "wb_inv db" and t: "run_tested db r p"
  shows "run_tested db' r p"
proof -
  obtain d where d: "d \<in> set (wb_devices db)" "device_runs d r" "wd_platform d = Some p" "vetted d db" using t unfolding run_tested_def by blast
  obtain x where x: "x \<in> set (wb_devices db')" "same_device_row d x" "vetted x db" using write_device_row [OF w d(1,4)] by blast
  have "vetted x db'" using x(3) confirmed_mono [OF write_audits [OF w]] by (auto simp: vetted_def)
  moreover have "device_runs x r" "wd_platform x = Some p" using d(2,3) x(2) by (simp_all add: same_device_row_def device_runs_def)
  moreover have "has_event k i (wb_events db')" if "has_event k i (wb_events db)" for k i using that write_events_grow [OF w] unfolding has_event_def by blast
  moreover have "r \<in> set (wb_runs db')" using write_completed_run [OF w inv] t by (simp add: run_tested_def)
  ultimately show ?thesis using t x(1) write_events_grow [OF w] unfolding run_tested_def by blast
qed

lemma tested_writes: "wb_writes env db db' \<Longrightarrow> wb_inv db \<Longrightarrow> tested db t a v p \<Longrightarrow> tested db' t a v p"
proof (induction rule: rtranclp_induct)
  case (step y z)
  have "wb_inv y" using wb_writes_inv step.hyps(1) step.prems(1) by blast
  then show ?case using step.IH [OF step.prems] run_tested_write [OF step.hyps(2)] unfolding tested_def by blast
qed

section \<open>What is delivered\<close>

text \<open>
  The part of the tables that decides which content reaches an installation: a passed review, a published campaign and a delivery stand for a
  revision that \<open>T\<close> holds of, on the platform of the review, of each platform of the campaign, and of the installation.
\<close>

definition served :: "(string \<Rightarrow> string \<Rightarrow> string \<Rightarrow> platform \<Rightarrow> bool) \<Rightarrow> installation_dev list \<Rightarrow> delivery_row \<Rightarrow> bool" where
  "served T vs d \<longleftrightarrow> (\<exists>v \<in> set vs. iv_id v = d_installation d \<and> iv_tenant v = d_tenant d \<and> iv_app v = d_app d \<and>
     T (d_tenant d) (d_app d) (d_revision d) (iv_platform v))"

definition cleared :: "(string \<Rightarrow> string \<Rightarrow> string \<Rightarrow> platform \<Rightarrow> bool) \<Rightarrow> camp_row \<Rightarrow> bool" where
  "cleared T c \<longleftrightarrow> (c_state c = Published \<longrightarrow> (\<forall>p \<in> set (cc_platforms (c_config c)). T (c_tenant c) (c_app c) (c_revision c) p))"

definition passes :: "(string \<Rightarrow> string \<Rightarrow> string \<Rightarrow> platform \<Rightarrow> bool) \<Rightarrow> review_row \<Rightarrow> bool" where
  "passes T r \<longleftrightarrow> (rw_passed r \<longrightarrow> T (rw_tenant r) (rw_app r) (rw_revision r) (rw_platform r))"

definition tested_only :: "(string \<Rightarrow> string \<Rightarrow> string \<Rightarrow> platform \<Rightarrow> bool) \<Rightarrow> inapp_db \<Rightarrow> bool" where
  "tested_only T db \<longleftrightarrow> (\<forall>r \<in> set (reviews db). passes T r) \<and> (\<forall>c \<in> set (campaigns db). cleared T c) \<and>
     (\<forall>d \<in> set (deliveries db). served T (installs db) d)"

lemma tested_only_mono: "tested_only T db \<Longrightarrow> (\<And>t a v p. T t a v p \<Longrightarrow> T' t a v p) \<Longrightarrow> tested_only T' db"
  unfolding tested_only_def passes_def cleared_def served_def by meson

definition same_install :: "installation_dev \<Rightarrow> installation_dev \<Rightarrow> bool" where
  "same_install v w \<longleftrightarrow> iv_id w = iv_id v \<and> iv_tenant w = iv_tenant v \<and> iv_app w = iv_app v \<and> iv_platform w = iv_platform v"

definition same_content :: "delivery_row \<Rightarrow> delivery_row \<Rightarrow> bool" where
  "same_content d e \<longleftrightarrow> d_tenant e = d_tenant d \<and> d_app e = d_app d \<and> d_installation e = d_installation d \<and> d_revision e = d_revision d"

lemma same_refl [simp]: "same_install v v" "same_content d d"
  by (simp_all add: same_install_def same_content_def)

text \<open>The deliveries of a request are old ones with another state; its installations are all still there.\<close>

definition carried :: "inapp_db \<Rightarrow> inapp_db \<Rightarrow> bool" where
  "carried db db' \<longleftrightarrow> (\<forall>e \<in> set (deliveries db'). \<exists>d \<in> set (deliveries db). same_content d e) \<and> (\<forall>v \<in> set (installs db). \<exists>w \<in> set (installs db'). same_install v w)"

lemma served_carried:
  assumes "served T vs d" "same_content d e" "\<And>v. v \<in> set vs \<Longrightarrow> \<exists>w \<in> set ws. same_install v w"
  shows "served T ws e"
proof -
  obtain v where v: "v \<in> set vs" "iv_id v = d_installation d \<and> iv_tenant v = d_tenant d \<and> iv_app v = d_app d \<and> T (d_tenant d) (d_app d) (d_revision d) (iv_platform v)"
    using assms(1) unfolding served_def by blast
  then obtain w where "w \<in> set ws" "same_install v w" using assms(3) by blast
  then show ?thesis using v(2) assms(2) unfolding served_def same_install_def same_content_def by (metis (no_types))
qed

lemma tested_only_carried:
  assumes "tested_only T db" "carried db db'" "\<And>r. r \<in> set (reviews db') \<Longrightarrow> r \<in> set (reviews db) \<or> passes T r"
    "\<And>c. c \<in> set (campaigns db') \<Longrightarrow> c \<in> set (campaigns db) \<or> cleared T c"
  shows "tested_only T db'"
proof -
  have "served T (installs db') e" if e: "e \<in> set (deliveries db')" for e
  proof -
    obtain d where "d \<in> set (deliveries db)" "same_content d e" using assms(2) e unfolding carried_def by blast
    then show ?thesis using assms(1,2) served_carried [of T "installs db" d e "installs db'"] unfolding tested_only_def carried_def by blast
  qed
  then show ?thesis using assms unfolding tested_only_def by blast
qed

lemma carried_refl: "deliveries db' = deliveries db \<Longrightarrow> installs db' = installs db \<Longrightarrow> carried db db'"
  unfolding carried_def using same_refl by metis

lemma carried_trans: "carried db db1 \<Longrightarrow> carried db1 db2 \<Longrightarrow> carried db db2"
  unfolding carried_def same_content_def same_install_def by metis

lemma carried_deliveries: "(\<And>d. same_content d (f d)) \<Longrightarrow> carried db (db\<lparr>deliveries := update_where p f (deliveries db)\<rparr>)"
  unfolding carried_def by (auto elim!: in_update_whereE) (metis same_refl)+

lemma carried_installs: "(\<And>v. same_install v (f v)) \<Longrightarrow> carried db (db\<lparr>installs := update_where p f (installs db)\<rparr>)"
  using update_where_related [of same_install f] unfolding carried_def by (auto intro: same_refl bexI)

subsection \<open>Campaigns and reviews\<close>

lemma save_tested: "tested_only T db \<Longrightarrow> campaign_save env now newId tenant app b cid db = Inr (c, db') \<Longrightarrow> tested_only T db'"
  unfolding campaign_save_def
  by (auto simp: Let_def cleared_def split: option.splits sum.splits if_splits intro!: carried_refl elim!: tested_only_carried in_update_whereE)

lemma publish_cleared:
  assumes "tested_only T db" "publish_campaign env now member c db = Inr db1"
  shows "cleared T (publish_row now c)" "reviews db1 = reviews db" "installs db1 = installs db"
proof -
  show "reviews db1 = reviews db" "installs db1 = installs db" using assms(2) unfolding publish_campaign_def by (auto split: if_splits sum.splits)
  have "list_all (reviewed (c_tenant c) (c_app c) (c_revision c) db) (cc_platforms (c_config c))"
    using assms(2) unfolding publish_campaign_def by (auto split: if_splits)
  then have "T (c_tenant c) (c_app c) (c_revision c) p" if "p \<in> set (cc_platforms (c_config c))" for p
    using that assms(1) unfolding tested_only_def passes_def by (fastforce simp: list_all_iff list_ex_iff reviewed_def)
  then show "cleared T (publish_row now c)" by (simp add: cleared_def publish_row_def)
qed

lemma transition_tested:
  assumes inv: "inapp_inv db" and t: "tested_only T db" and "campaign_transition env now tenant app cid member b publish db = Inr (r, db')"
  shows "tested_only T db'"
  using assms(3)
proof (cases rule: transition_InrE)
  case unchanged
  then show ?thesis using t by simp
next
  case (published c db1)
  note k = publish_campaign_keeps [OF published(4)] and p = publish_cleared [OF t published(4)]
  have "c' = c" if c': "c' \<in> set (campaigns db)" "campaign_key tenant app cid c'" for c'
    using c' find_SomeD [OF published(2)] inv unfolding inapp_inv_def rows_ok_def by (intro distinct_key_eq [of c_id "campaigns db"]) (simp_all add: campaign_key_def)
  then show ?thesis using t k p unfolding published(5)
    by (intro tested_only_carried [OF t] carried_refl) (auto simp: set_campaign_def elim!: in_update_whereE split: if_splits)
next
  case (paused c)
  have "carried db db'" unfolding paused(3) cancel_deliveries_def
    by (rule carried_trans [OF carried_refl carried_deliveries]) (simp_all add: set_campaign_def same_content_def)
  then show ?thesis unfolding paused(3)
    by (rule tested_only_carried [OF t]) (auto simp: cancel_deliveries_def set_campaign_def pause_row_def cleared_def elim!: in_update_whereE split: if_splits)
qed

lemma review_cases:
  assumes "campaign_review env tenant app member input db = Inr ((), db')"
  obtains "js_get input ''passed'' = Some (JBool True)"
  | r where "db' = upsert_review r db" "\<not> rw_passed r"
proof -
  obtain run p l c a where s: "reviewSchema env input = Some (run, p, l, c, a)"
    using assms by (auto simp: campaign_review_def split: sum.splits option.splits)
  show thesis
  proof (cases p)
    case True
    then show thesis using s that(1) by (auto simp: reviewSchema_def split: if_splits option.splits jsval.splits)
  next
    case False
    then show thesis using s assms by (auto simp: campaign_review_def Let_def intro: that(2) split: sum.splits option.splits)
  qed
qed

lemma upsert_tested: "tested_only T db \<Longrightarrow> passes T r \<Longrightarrow> tested_only T (upsert_review r db)"
  unfolding upsert_review_def by (auto simp: tested_only_def)

lemma view_tested [simp]: "tested_only T (workbench_view b db) = tested_only T db" "inapp_inv (workbench_view b db) = inapp_inv db"
  using inapp_inv_cong [of "workbench_view b db" db] by (simp_all add: tested_only_def workbench_view_def)

lemma review_kept_tested:
  assumes "wb_inv b" "tested_only (tested b) db" "campaign_review env tenant app member input (workbench_view b db) = Inr ((), db')"
  shows "tested_only (tested b) db'"
proof (cases rule: review_cases [OF assms(3), case_names passed failed])
  case passed
  obtain v p run where "tested b tenant app v p"
    "db' = upsert_review \<lparr>rw_tenant = tenant, rw_app = app, rw_revision = v, rw_platform = p, rw_run = run, rw_passed = True, rw_by = member\<rparr> (workbench_view b db)"
    by (rule review_tested [OF assms(3) passed assms(1)])
  then show ?thesis using assms(2) by (simp add: upsert_tested passes_def)
next
  case (failed r)
  then show ?thesis using assms(2) by (simp add: upsert_tested passes_def)
qed

subsection \<open>Requests of installations\<close>

lemma decide_tested:
  assumes t: "tested_only T db" and v: "v \<in> set (installs db)" "is_installation i v" "iv_platform v = i_platform i"
  shows "tested_only T (snd (decide env now newId i b supports db))"
proof -
  let ?db1 = "expire_deliveries now i (touch_installation now i db)"
  have "carried db (touch_installation now i db)" unfolding touch_installation_def by (rule carried_installs) (simp add: same_install_def)
  moreover have "carried (touch_installation now i db) ?db1" unfolding expire_deliveries_def by (rule carried_deliveries) (simp add: same_content_def)
  ultimately have c1: "carried db ?db1" by (rule carried_trans)
  then have t1: "tested_only T ?db1" by (rule tested_only_carried [OF t]) (simp_all add: expire_deliveries_def touch_installation_def)
  show ?thesis
  proof (cases rule: decide_cases [OF refl, of env now newId i b supports db, case_names same expired granted])
    case same
    then show ?thesis using t by simp
  next
    case expired
    then show ?thesis using t1 by simp
  next
    case (granted c d)
    then have g: "of_installation i d" "c \<in> set (campaigns ?db1)" "runs_in c d" "c_state c = Published" by (simp_all add: grants_def)
    obtain w where w: "w \<in> set (installs ?db1)" "same_install v w" using c1 v(1) unfolding carried_def by blast
    have "cleared T c" using t1 g(2) unfolding tested_only_def by blast
    then have "T (d_tenant d) (d_app d) (d_revision d) (i_platform i)" using g(3,4) granted(3,4) by (simp add: cleared_def runs_in_def campaign_key_def)
    then have "served T (installs ?db1) d"
      using w v(2,3) g(1) unfolding served_def by (intro bexI [of _ w]) (simp_all add: same_install_def is_installation_def of_installation_def)
    then show ?thesis using t1 unfolding granted(1) tested_only_def by simp
  qed
qed

lemma live_auth_installation:
  "live_auth env tenant app header db = Inr i \<Longrightarrow> \<exists>v \<in> set (installs db). is_installation i v \<and> iv_platform v = i_platform i"
  unfolding live_auth_def installation_auth_def is_installation_def
  by (auto dest!: find_SomeD split: sum.splits list.splits if_splits option.splits)

lemma authorize_carried: "authorize now i did db = Inr (t, db') \<Longrightarrow> carried db db' \<and> reviews db' = reviews db \<and> campaigns db' = campaigns db"
  unfolding authorize_def set_delivery_def
  by (auto simp: Let_def same_content_def split: if_splits option.splits intro!: carried_deliveries carried_refl)

lemma event_carried:
  assumes "delivery_event_op env now i did b db = Inr (u, db')"
  shows "carried db db' \<and> reviews db' = reviews db \<and> campaigns db' = campaigns db"
proof -
  have h: "reviews (hide_today env n t i d x) = reviews x" "installs (hide_today env n t i d x) = installs x"
    "reviews (insert_event e x) = reviews x" "installs (insert_event e x) = installs x" for n t d e x
    by (simp_all add: hide_today_def insert_event_def Let_def split: option.split)
  have "carried db (set_delivery i did (\<lambda>r. r\<lparr>d_state := st\<rparr>) x)" if "deliveries x = deliveries db" "installs x = installs db" for x st
    unfolding set_delivery_def by (rule carried_trans [OF carried_refl [OF that] carried_deliveries]) (simp add: same_content_def)
  then show ?thesis using assms unfolding delivery_event_op_def
    by (auto simp: Let_def set_delivery_def h carried_refl split: option.splits if_splits)
qed

lemma revoke_carried: "carried db (revoke_installation i db)"
  unfolding revoke_installation_def cancel_deliveries_def
  by (rule carried_trans [OF carried_installs carried_deliveries]) (simp_all add: same_content_def same_install_def)

lemma register_carried:
  "register_installation env now newId secret tenant app b db = Inr (u, db') \<Longrightarrow> carried db db' \<and> reviews db' = reviews db \<and> campaigns db' = campaigns db"
  unfolding register_installation_def carried_def using same_refl by (fastforce split: sum.splits option.splits if_splits)

lemma carried_tested: "tested_only T db \<Longrightarrow> carried db db' \<and> reviews db' = reviews db \<and> campaigns db' = campaigns db \<Longrightarrow> tested_only T db'"
  using tested_only_carried [of T db db'] by simp

lemma device_tested:
  assumes t: "tested_only T db" and "device_op op"
  shows "tested_only T (inapp_step env op db)"
proof (cases op)
  case (Register now newId secret tenant app b)
  have "tested_only T (after db (register_installation env now newId secret tenant app b db))" by (rule after_cases) (erule carried_tested [OF t register_carried], rule t)
  then show ?thesis using Register by simp
next
  case (Decide now newId tenant app header b caps)
  have "tested_only T (with_installation (live_auth env tenant app header db) (\<lambda>i. snd (decide env now newId i b (supports_zone caps) db)) db)"
    by (rule with_installation_cases) (use live_auth_installation decide_tested [OF t] t in blast)+
  then show ?thesis using Decide by simp
next
  case (Authorize now tenant app header did)
  have "tested_only T (after db (authorize now i did db))" for i by (rule after_cases) (erule carried_tested [OF t authorize_carried], rule t)
  then show ?thesis using Authorize t by (simp add: with_installation_cases [where P = "tested_only T"])
next
  case (ReportEvent now tenant app header did b)
  have "tested_only T (after db (delivery_event_op env now i did b db))" for i by (rule after_cases) (erule carried_tested [OF t event_carried], rule t)
  then show ?thesis using ReportEvent t by (simp add: with_installation_cases [where P = "tested_only T"])
next
  case (Revoke tenant app header)
  have "tested_only T (revoke_installation i db)" for i
    by (rule carried_tested [OF t]) (simp add: revoke_carried, simp add: revoke_installation_def cancel_deliveries_def)
  then show ?thesis using Revoke t by (simp add: with_installation_cases [where P = "tested_only T"])
qed (use assms(2) in simp_all)

section \<open>The database of the in-app part\<close>

definition studio_inv :: "studio_db \<Rightarrow> bool" where
  "studio_inv db \<longleftrightarrow> wb_inv (sd_bench db) \<and> inapp_inv (sd_in_app db) \<and> tested_only (tested (sd_bench db)) (sd_in_app db)"

lemma bench_inv:
  assumes "studio_inv db" "wb_writes env (sd_bench db) b"
  shows "studio_inv (db\<lparr>sd_bench := b\<rparr>)"
proof -
  have "tested_only (tested b) (sd_in_app db)"
    using assms tested_writes [OF assms(2)] unfolding studio_inv_def by (blast intro: tested_only_mono [of "tested (sd_bench db)"])
  then show ?thesis using assms(1) wb_writes_inv [OF assms(2)] by (simp add: studio_inv_def)
qed

lemma campaign_guard_inv:
  assumes "studio_inv db" "\<And>me tenant. studio_inv (snd (k me tenant))"
  shows "studio_inv (snd (campaign_guard env now perm params g app q db k))"
  using assms by (auto simp: campaign_guard_def when_ok_def split: sum.split)

lemma call_inv:
  assumes inv: "studio_inv db" and s: "\<And>a idb. service (workbench_view (sd_bench db) (sd_in_app db)) = Inr (a, idb) \<Longrightarrow>
    inapp_inv idb \<and> tested_only (tested (sd_bench db)) idb"
  shows "studio_inv (snd (campaign_call me q action target service db))"
proof (cases "service (workbench_view (sd_bench db) (sd_in_app db))")
  case (Inr x)
  obtain a idb where x: "x = (a, idb)" by (cases x)
  have "studio_inv (db\<lparr>sd_in_app := idb\<rparr>)" using inv s [OF Inr [unfolded x]] by (simp add: studio_inv_def)
  moreover have "wb_writes env (sd_bench db) ((sd_bench db)\<lparr>wb_auth := recordAs me ip act ty tg (wb_auth (sd_bench db))\<rparr>)" for env ip act ty tg
    by (rule r_into_rtranclp, rule write_auth) (auto simp: recordAs_def audit_record_def)
  ultimately show ?thesis using Inr x bench_inv [of "db\<lparr>sd_in_app := idb\<rparr>"] by (simp add: campaign_call_def campaign_record_def)
qed (use inv in \<open>simp add: campaign_call_def\<close>)

lemma studio_step_inv:
  assumes inv: "studio_inv db"
  shows "studio_inv (studio_step env op db)"
proof -
  let ?T = "tested (sd_bench db)" and ?v = "workbench_view (sd_bench db) (sd_in_app db)"
  have i: "wb_inv (sd_bench db)" "tested_only ?T ?v" "inapp_inv ?v" "tested_only ?T (sd_in_app db)" using inv by (simp_all add: studio_inv_def)
  have review: "inapp_inv idb \<and> tested_only ?T idb" if "campaign_review e t a m b ?v = Inr (u, idb)" for e t a m b u idb
    using keeps_inv [OF i(3) review_keeps [OF that]] review_kept_tested [OF i(1,4)] that by simp
  show ?thesis
  proof (cases op)
    case (Bench x)
    have "wb_writes env (sd_bench db) (workbench_step env x (sd_bench db))" using workbench_step_writes by (cases x) simp
    then show ?thesis using Bench bench_inv [OF inv] by simp
  next
    case (Device x)
    then show ?thesis using i inapp_step_inv [OF i(3)] device_tested [OF i(2)] inv by (simp add: studio_inv_def)
  next
    case (CreateReview now app q)
    then show ?thesis using review by (auto simp: reviews_create_def intro!: campaign_guard_inv [OF inv] call_inv [OF inv])
  qed (auto simp: campaigns_create_def campaigns_save_def campaigns_publish_def campaigns_pause_def
      intro!: campaign_guard_inv [OF inv] call_inv [OF inv] dest: save_inv [OF i(3)] save_tested [OF i(2)] transition_inv [OF i(3)] transition_tested [OF i(3,2)])
qed

interpretation studio_runs: invariant_system "studio_step env" studio_inv for env
  by unfold_locales (rule studio_step_inv)

lemma studio_run_inv: "studio_inv (studio_run env auth ops)"
  unfolding studio_run_def by (rule studio_runs.run_inv) (simp add: studio_inv_def wb_inv_empty start_inv tested_only_def empty_inapp_def)

text \<open>
  C40: an installation is only ever given content that was tried out on a device. For every delivery that any sequence of console, test-device and
  installation requests produces, the installation is registered with the app, and the delivered revision has a completed test run of the same
  tenant and app on a test device of the installation's platform; that device was paired and its confirmation by a member is on the audit log, and
  the run has on record its presentation, an impression and a dismissal with the close button.
\<close>

theorem delivered_content_was_tested:
  fixes env auth ops
  defines "db \<equiv> studio_run env auth ops"
  shows "\<forall>d \<in> set (deliveries (sd_in_app db)). \<exists>v \<in> set (installs (sd_in_app db)). \<exists>r \<in> set (wb_runs (sd_bench db)). \<exists>x \<in> set (wb_devices (sd_bench db)).
    iv_id v = d_installation d \<and> iv_tenant v = d_tenant d \<and> iv_app v = d_app d
    \<and> wr_tenant r = d_tenant d \<and> wr_app r = d_app d \<and> wr_revision r = d_revision d \<and> wr_state r = RunCompleted
    \<and> device_runs x r \<and> wd_platform x = Some (iv_platform v) \<and> wd_credential x \<noteq> None
    \<and> (\<exists>a \<in> set (audits (wb_auth (sd_bench db))). au_tenant a = wd_tenant x \<and> au_actor a \<noteq> None
         \<and> au_action a = ''in_app.device.confirm'' \<and> map_option pg_uuid (au_target a) = Some (wd_id x))
    \<and> (\<exists>e \<in> set (wb_events (sd_bench db)). event_run e = run_ref r \<and> we_kind e = ''presented'')
    \<and> (\<exists>e \<in> set (wb_events (sd_bench db)). event_run e = run_ref r \<and> we_kind e = ''impression'')
    \<and> (\<exists>e \<in> set (wb_events (sd_bench db)). event_run e = run_ref r \<and> we_kind e = ''dismiss'' \<and> we_detail e = ''close_button'')"
proof
  fix d assume "d \<in> set (deliveries (sd_in_app db))"
  then have "served (tested (sd_bench db)) (installs (sd_in_app db)) d"
    using studio_run_inv unfolding db_def studio_inv_def tested_only_def by blast
  then obtain v r where v: "v \<in> set (installs (sd_in_app db))" "iv_id v = d_installation d" "iv_tenant v = d_tenant d" "iv_app v = d_app d"
    and r: "run_tested (sd_bench db) r (iv_platform v)" "wr_tenant r = d_tenant d" "wr_app r = d_app d" "wr_revision r = d_revision d"
    unfolding served_def tested_def by blast
  from r(1) obtain x where x: "x \<in> set (wb_devices (sd_bench db))" "device_runs x r" "wd_platform x = Some (iv_platform v)" "vetted x (sd_bench db)"
    unfolding run_tested_def by blast
  show "\<exists>v \<in> set (installs (sd_in_app db)). \<exists>r \<in> set (wb_runs (sd_bench db)). \<exists>x \<in> set (wb_devices (sd_bench db)).
    iv_id v = d_installation d \<and> iv_tenant v = d_tenant d \<and> iv_app v = d_app d
    \<and> wr_tenant r = d_tenant d \<and> wr_app r = d_app d \<and> wr_revision r = d_revision d \<and> wr_state r = RunCompleted
    \<and> device_runs x r \<and> wd_platform x = Some (iv_platform v) \<and> wd_credential x \<noteq> None
    \<and> (\<exists>a \<in> set (audits (wb_auth (sd_bench db))). au_tenant a = wd_tenant x \<and> au_actor a \<noteq> None
         \<and> au_action a = ''in_app.device.confirm'' \<and> map_option pg_uuid (au_target a) = Some (wd_id x))
    \<and> (\<exists>e \<in> set (wb_events (sd_bench db)). event_run e = run_ref r \<and> we_kind e = ''presented'')
    \<and> (\<exists>e \<in> set (wb_events (sd_bench db)). event_run e = run_ref r \<and> we_kind e = ''impression'')
    \<and> (\<exists>e \<in> set (wb_events (sd_bench db)). event_run e = run_ref r \<and> we_kind e = ''dismiss'' \<and> we_detail e = ''close_button'')"
    by (intro bexI [OF _ v(1)] bexI [of _ r] bexI [OF _ x(1)])
       (use v(2-4) r x(2-4) in \<open>auto simp: run_tested_def has_event_def vetted_def confirmed_def\<close>)
qed

section \<open>Witness\<close>

definition sample_studio :: "studio_op list" where
  "sample_studio = map Bench sample_tested @
     [CreateCampaign 10 ''c'' sample_wb_app (sample_console (JObj [(''name'', JStr ''n''), (''revision_id'', JStr (wide (CHR ''b''))),
        (''config'', JObj [(''platforms'', JArr [JStr ''ios'']), (''trigger'', JObj [(''type'', JStr ''launch'')]), (''starts_at'', JStr ''start''),
          (''ends_at'', JStr ''end''), (''cooldown_seconds'', JNum (Num 60)), (''max_per_day'', JNum (Num 2)), (''max_total'', JNum (Num 3))])])),
      CreateReview 11 sample_wb_app (sample_console sample_review),
      PublishCampaignAs 12 sample_wb_app ''c'' (sample_console (JObj [(''expected_version'', JNum (Num 1))])),
      Device (Register 13 ''i'' ''secret'' sample_tenant sample_wb_app (JObj [(''platform'', JStr ''ios'')])),
      Device (Decide 14 ''d'' sample_tenant sample_wb_app (Some ''i.secret'') sample_decision None)]"

theorem delivered_content_was_tested_witness:
  "\<exists>d \<in> set (deliveries (sd_in_app (studio_run sample_workbench_env sample_wb_auth sample_studio))).
     \<exists>r \<in> set (wb_runs (sd_bench (studio_run sample_workbench_env sample_wb_auth sample_studio))).
       d_id d = ''d'' \<and> wr_revision r = d_revision d \<and> wr_state r = RunCompleted"
proof -
  have "list_ex (\<lambda>d. d_id d = ''d'') (deliveries (sd_in_app (studio_run sample_workbench_env sample_wb_auth sample_studio)))" by code_simp
  then obtain d where d: "d \<in> set (deliveries (sd_in_app (studio_run sample_workbench_env sample_wb_auth sample_studio)))" "d_id d = ''d''"
    by (auto simp: list_ex_iff)
  show ?thesis using delivered_content_was_tested [of sample_workbench_env sample_wb_auth sample_studio] d by blast
qed

end
