(* ===== verification/InApp_Bundle.thy ===== *)
theory InApp_Bundle
  imports Journey_Contract InApp_Campaigns Api_Keys
begin

text \<open>
  The bundle compiler of the in-app workbench (\<open>in-app/bundle.ts\<close>): unpacking an archive, the limits on the files of a bundle, the manifest,
  and the rewriting of the HTML document into one self-contained page with a content security policy. Bytes and UTF-8 text are both
  \<^typ>\<open>string\<close>. The third-party parsers are parameters: parse5 (\<open>be_parse\<close>, \<open>be_serialize\<close>) over the node type below, postcss and its value parser
  over syntax trees, the events of the fflate stream, and the URL check of zod; so are SHA-256, \<open>JSON.parse\<close> and the text of the bridge script,
  which has no dollar sign. An error is the tag of the message.
\<close>

section \<open>Errors\<close>

type_synonym 'a checked = "string + 'a"

definition and_then :: "'a checked \<Rightarrow> ('a \<Rightarrow> 'b checked) \<Rightarrow> 'b checked" where
  "and_then r k = (case r of Inl e \<Rightarrow> Inl e | Inr a \<Rightarrow> k a)"

definition ensure :: "bool \<Rightarrow> string \<Rightarrow> 'a checked \<Rightarrow> 'a checked" where
  "ensure b e k = (if b then k else Inl e)"

lemma and_then_Inr [simp]: "and_then r k = Inr y \<longleftrightarrow> (\<exists>a. r = Inr a \<and> k a = Inr y)"
  by (simp add: and_then_def split: sum.split)

lemma ensure_Inr [simp]: "ensure b e k = Inr y \<longleftrightarrow> b \<and> k = Inr y"
  by (simp add: ensure_def)

lemma and_then_cong [fundef_cong]: "r = r' \<Longrightarrow> (\<And>a. r' = Inr a \<Longrightarrow> k a = k' a) \<Longrightarrow> and_then r k = and_then r' k'"
  by (simp add: and_then_def split: sum.split)

lemma ensure_cong [fundef_cong]: "b = b' \<Longrightarrow> e = e' \<Longrightarrow> (b' \<Longrightarrow> k = k') \<Longrightarrow> ensure b e k = ensure b' e' k'"
  by (simp add: ensure_def)

fun map_checked :: "('a \<Rightarrow> 'b checked) \<Rightarrow> 'a list \<Rightarrow> 'b list checked" where
  "map_checked f [] = Inr []"
| "map_checked f (x # xs) = and_then (f x) (\<lambda>y. and_then (map_checked f xs) (\<lambda>ys. Inr (y # ys)))"

lemma map_checked_Inr: "map_checked f xs = Inr ys \<longleftrightarrow> list_all2 (\<lambda>x y. f x = Inr y) xs ys"
  by (induction xs arbitrary: ys) (auto simp: list_all2_Cons1)

lemma map_checked_all:
  assumes "map_checked f xs = Inr ys" "\<And>x y. x \<in> set xs \<Longrightarrow> f x = Inr y \<Longrightarrow> P y"
  shows "list_all P ys"
proof -
  have "list_all2 (\<lambda>x y. f x = Inr y) xs ys" using assms(1) by (simp add: map_checked_Inr)
  then show ?thesis using assms(2) by (induction rule: list_all2_induct) auto
qed

lemma map_checked_cong [fundef_cong]: "xs = xs' \<Longrightarrow> (\<And>x. x \<in> set xs' \<Longrightarrow> f x = g x) \<Longrightarrow> map_checked f xs = map_checked g xs'"
proof (induction xs arbitrary: xs')
  case (Cons x xs)
  then show ?case by (auto intro!: and_then_cong)
qed simp

section \<open>Text\<close>

definition to_lower :: "string \<Rightarrow> string" where
  "to_lower s = map ascii_lower s"

text \<open>The byte sequences a fatal \<open>TextDecoder\<close> accepts, and the byte order mark it drops\<close>

definition byte_in :: "nat \<Rightarrow> nat \<Rightarrow> char \<Rightarrow> bool" where
  "byte_in lo hi c \<longleftrightarrow> lo \<le> of_char c \<and> of_char c \<le> hi"

abbreviation continuation :: "char \<Rightarrow> bool" where
  "continuation \<equiv> byte_in 0x80 0xBF"

fun utf8_ok :: "string \<Rightarrow> bool" where
  "utf8_ok [] = True"
| "utf8_ok (a # s) =
     (if byte_in 0 0x7F a then utf8_ok s
      else case s of
        [] \<Rightarrow> False
      | b # s1 \<Rightarrow>
          if byte_in 0xC2 0xDF a then continuation b \<and> utf8_ok s1
          else case s1 of
            [] \<Rightarrow> False
          | c # s2 \<Rightarrow>
              if byte_in 0xE0 0xEF a
              then (if a = CHR 0xE0 then byte_in 0xA0 0xBF b else if a = CHR 0xED then byte_in 0x80 0x9F b else continuation b) \<and> continuation c \<and> utf8_ok s2
              else case s2 of
                [] \<Rightarrow> False
              | d # s3 \<Rightarrow>
                  byte_in 0xF0 0xF4 a \<and> (if a = CHR 0xF0 then byte_in 0x90 0xBF b else if a = CHR 0xF4 then byte_in 0x80 0x8F b else continuation b) \<and>
                  continuation c \<and> continuation d \<and> utf8_ok s3)"

definition decode_text :: "string \<Rightarrow> string option" where
  "decode_text s = (if utf8_ok s then Some (if prefix [CHR 0xEF, CHR 0xBB, CHR 0xBF] s then drop 3 s else s) else None)"

subsection \<open>Base64\<close>

definition b64_alphabet :: string where
  "b64_alphabet = ''ABCDEFGHIJKLMNOPQRSTUVWXYZabcdefghijklmnopqrstuvwxyz0123456789+/''"

definition b64_value :: "char \<Rightarrow> nat" where
  "b64_value c = length (takeWhile (\<lambda>x. x \<noteq> c) b64_alphabet)"

definition b64_char :: "char \<Rightarrow> bool" where
  "b64_char c \<longleftrightarrow> c \<in> set b64_alphabet"

text \<open>\<open>/^(?:[A-Za-z0-9+/]{4})*(?:[A-Za-z0-9+/]{2}==|[A-Za-z0-9+/]{3}=)?$/\<close>\<close>

fun b64_format :: "string \<Rightarrow> bool" where
  "b64_format [] = True"
| "b64_format (a # b # c # d # s) =
     (b64_char a \<and> b64_char b \<and>
      (b64_char c \<and> b64_char d \<and> b64_format s \<or> s = [] \<and> d = CHR ''='' \<and> (c = CHR ''='' \<or> b64_char c)))"
| "b64_format _ = False"

fun b64_decode :: "string \<Rightarrow> string" where
  "b64_decode (a # b # c # d # s) =
     (let n = ((b64_value a * 64 + b64_value b) * 64 + (if c = CHR ''='' then 0 else b64_value c)) * 64 + (if d = CHR ''='' then 0 else b64_value d);
          bytes = [char_of (n div 65536), char_of (n div 256 mod 256), char_of (n mod 256)]
      in if c = CHR ''='' then take 1 bytes else if d = CHR ''='' then take 2 bytes else bytes @ b64_decode s)"
| "b64_decode _ = []"

fun b64_encode :: "string \<Rightarrow> string" where
  "b64_encode [] = []"
| "b64_encode [a] = (let n = of_char a * 16 in [b64_alphabet ! (n div 64), b64_alphabet ! (n mod 64), CHR ''='', CHR ''=''])"
| "b64_encode [a, b] = (let n = (of_char a * 256 + of_char b) * 4
     in [b64_alphabet ! (n div 4096), b64_alphabet ! (n div 64 mod 64), b64_alphabet ! (n mod 64), CHR ''=''])"
| "b64_encode (a # b # c # s) = (let n = (of_char a * 256 + of_char b) * 256 + of_char c
     in [b64_alphabet ! (n div 262144), b64_alphabet ! (n div 4096 mod 64), b64_alphabet ! (n div 64 mod 64), b64_alphabet ! (n mod 64)] @ b64_encode s)"

section \<open>Files\<close>

definition MAX_FILE :: nat where "MAX_FILE = 8 * 1024 * 1024"
definition MAX_TOTAL :: nat where "MAX_TOTAL = 30 * 1024 * 1024"
definition MAX_ARCHIVE :: nat where "MAX_ARCHIVE = 10 * 1024 * 1024"

definition mime_types :: "(string \<times> string) list" where
  "mime_types = [(''html'', ''text/html''), (''css'', ''text/css''), (''js'', ''text/javascript''), (''json'', ''application/json''), (''png'', ''image/png''),
     (''jpg'', ''image/jpeg''), (''jpeg'', ''image/jpeg''), (''webp'', ''image/webp''), (''gif'', ''image/gif''), (''woff2'', ''font/woff2'')]"

text \<open>
  \<open>types[ext]\<close> is truthy for the entries of the table, and for the names that every object literal inherits; two of those are in lower
  case.
\<close>

definition known_type :: "string \<Rightarrow> bool" where
  "known_type ext \<longleftrightarrow> map_has mime_types ext \<or> ext \<in> {''constructor'', ''__proto__''}"

definition extension :: "string \<Rightarrow> string" where
  "extension path = to_lower (last (split_on (CHR ''.'') path))"

definition path_char :: "char \<Rightarrow> bool" where
  "path_char c \<longleftrightarrow> is_key_char c \<or> c = CHR ''.'' \<or> c = CHR ''/''"

definition safePath :: "string \<Rightarrow> string checked" where
  "safePath path =
     ensure (path \<noteq> [] \<and> list_all path_char path \<and> \<not> prefix ''/'' path \<and>
             \<not> list_ex (\<lambda>p. p = [] \<or> p = ''.'' \<or> p = ''..'') (split_on (CHR ''/'') path) \<and> length path \<le> 200) ''Invalid path''
       (ensure (known_type (extension path)) ''Unsupported file'' (Inr path))"

record source_file =
  sf_path :: string
  sf_base64 :: string

type_synonym file_map = "(string \<times> string) list"

definition text_ext :: "string \<Rightarrow> bool" where
  "text_ext path \<longleftrightarrow> list_ex (\<lambda>e. suffix (CHR ''.'' # e) (to_lower path)) [''html'', ''css'', ''js'', ''json'']"

text \<open>\<open>buffer.toString("ascii")\<close> clears the eighth bit\<close>

definition as_ascii :: "string \<Rightarrow> string" where
  "as_ascii s = map (\<lambda>c. char_of ((of_char c :: nat) mod 128)) s"

definition magic_ok :: "string \<Rightarrow> string \<Rightarrow> bool" where
  "magic_ok ext bytes =
     (let magic = take 12 bytes
      in if ext = ''png'' then take 8 magic = [CHR 137, CHR 80, CHR 78, CHR 71, CHR 13, CHR 10, CHR 26, CHR 10]
         else if ext = ''jpg'' \<or> ext = ''jpeg'' then take 3 magic = [CHR 255, CHR 216, CHR 255]
         else if ext = ''gif'' then prefix ''GIF87a'' (as_ascii magic) \<or> prefix ''GIF89a'' (as_ascii magic)
         else if ext = ''webp'' then as_ascii (take 4 magic) = ''RIFF'' \<and> as_ascii (take 4 (drop 8 magic)) = ''WEBP''
         else if ext = ''woff2'' then as_ascii (take 4 magic) = ''wOF2''
         else True)"

text \<open>The loop over the source files: the files kept, the names seen and the total of bytes\<close>

definition add_file :: "source_file \<Rightarrow> file_map \<times> string list \<times> nat \<Rightarrow> (file_map \<times> string list \<times> nat) checked" where
  "add_file f st =
     (case st of (fs, names, n) \<Rightarrow>
        and_then (safePath (sf_path f)) (\<lambda>path.
        ensure (to_lower path \<notin> set names) ''Duplicate path''
        (ensure (b64_format (sf_base64 f)) ''Invalid base64''
        (let bytes = b64_decode (sf_base64 f); total1 = n + length bytes
         in ensure (length bytes \<le> MAX_FILE \<and> total1 \<le> MAX_TOTAL) ''Files exceed size limit''
            (ensure (\<not> (text_ext path \<and> 1024 * 1024 < length bytes)) ''Text exceeds 1 MiB''
            (ensure (magic_ok (extension path) bytes) ''File content does not match extension''
              (Inr (AList.update path bytes fs, names @ [to_lower path], total1))))))))"

fun add_files :: "source_file list \<Rightarrow> file_map \<times> string list \<times> nat \<Rightarrow> (file_map \<times> string list \<times> nat) checked" where
  "add_files [] st = Inr st"
| "add_files (f # fs) st = and_then (add_file f st) (add_files fs)"

definition load_files :: "source_file list \<Rightarrow> (file_map \<times> nat) checked" where
  "load_files src =
     ensure (src \<noteq> [] \<and> length src \<le> 200) ''Use 1-200 files'' (and_then (add_files src ([], [], 0)) (\<lambda>(fs, _, n). Inr (fs, n)))"

definition file_text :: "file_map \<Rightarrow> string \<Rightarrow> string checked" where
  "file_text fs path =
     (case map_of fs path of
        None \<Rightarrow> Inl ''Missing asset''
      | Some b \<Rightarrow> (case decode_text b of None \<Rightarrow> Inl ''Invalid UTF-8'' | Some t \<Rightarrow> Inr t))"

section \<open>Libraries\<close>

datatype css = CssDecl string string | CssAt string string "css list" | CssRule string "css list" | CssComment string
datatype vnode = VText string | VString string | VFun string "vnode list"
datatype dom = Doctype string | TextNode string | CommentNode string | Element string "(string \<times> string) list" "dom list"
datatype zip_event = ZipFile string | ZipData string bool | ZipError

record bundle_env =
  be_sha :: "string \<Rightarrow> string"
  be_sha_base64 :: "string \<Rightarrow> string"
  be_json :: "string \<Rightarrow> jsval option"
  be_url :: "string \<Rightarrow> bool"
  be_parse :: "string \<Rightarrow> dom list"
  be_serialize :: "dom list \<Rightarrow> string"
  be_css_parse :: "string \<Rightarrow> css list option"
  be_css_show :: "css list \<Rightarrow> string"
  be_value_parse :: "string \<Rightarrow> vnode list"
  be_value_show :: "vnode list \<Rightarrow> string"
  be_unzip :: "string \<Rightarrow> zip_event list"
  be_bridge :: string

section \<open>Archives\<close>

definition read_u16 :: "string \<Rightarrow> nat \<Rightarrow> nat checked" where
  "read_u16 b i = (if i + 2 \<le> length b then Inr (of_char (b ! i) + 256 * of_char (b ! (i + 1))) else Inl ''RangeError'')"

definition read_u32 :: "string \<Rightarrow> nat \<Rightarrow> nat checked" where
  "read_u32 b i = and_then (read_u16 b i) (\<lambda>lo. and_then (read_u16 b (i + 2)) (\<lambda>hi. Inr (lo + 65536 * hi)))"

text \<open>The last position of the end record, searched from the end of the file\<close>

definition find_end :: "string \<Rightarrow> nat option" where
  "find_end b =
     (if length b < 22 then None
      else find (\<lambda>i. read_u32 b i = Inr 0x06054b50) (rev [length b - 65557 ..< length b - 21]))"

text \<open>The central records: no encryption and no symbolic link (\<open>0xa000\<close> in the mode of the external attributes)\<close>

fun scan_directory :: "string \<Rightarrow> nat \<Rightarrow> nat \<Rightarrow> nat \<Rightarrow> unit checked" where
  "scan_directory b end_at 0 cursor = Inr ()"
| "scan_directory b end_at (Suc n) cursor =
     ensure (cursor + 46 \<le> end_at \<and> read_u32 b cursor = Inr 0x02014b50) ''Invalid ZIP directory''
       (and_then (read_u16 b (cursor + 8)) (\<lambda>flags.
        ensure (even flags) ''Encrypted ZIP is unsupported''
       (and_then (read_u32 b (cursor + 38)) (\<lambda>attrs.
        ensure (attrs div 65536 div 4096 \<noteq> 10) ''ZIP symlinks are unsupported''
       (and_then (read_u16 b (cursor + 28)) (\<lambda>l1. and_then (read_u16 b (cursor + 30)) (\<lambda>l2. and_then (read_u16 b (cursor + 32)) (\<lambda>l3.
        scan_directory b end_at n (cursor + 46 + l1 + l2 + l3)))))))))"

record unzip_state =
  uz_files :: "source_file list"
  uz_total :: nat
  uz_count :: nat
  uz_open :: "(string \<times> string \<times> nat) option"

fun zip_step :: "zip_event \<Rightarrow> unzip_state \<Rightarrow> unzip_state checked" where
  "zip_step (ZipFile name) st =
     ensure (uz_count st < 200) ''Too many ZIP entries''
       (if suffix ''/'' name
        then ensure (\<not> list_ex (\<lambda>p. p = ''..'') (split_on (CHR ''/'') name) \<and> \<not> prefix ''/'' name) ''Invalid directory''
               (Inr (st\<lparr>uz_count := uz_count st + 1, uz_open := None\<rparr>))
        else and_then (safePath name) (\<lambda>path. Inr (st\<lparr>uz_count := uz_count st + 1, uz_open := Some (path, [], 0)\<rparr>)))"
| "zip_step (ZipData data fin) st =
     (case uz_open st of
        None \<Rightarrow> Inr st
      | Some (path, chunks, sz) \<Rightarrow>
          (let n = uz_total st + length data; m = sz + length data
           in ensure (m \<le> MAX_FILE \<and> n \<le> MAX_TOTAL) ''Expanded ZIP exceeds size limit''
                (Inr (st\<lparr>uz_total := n, uz_open := Some (path, chunks @ data, m),
                  uz_files := uz_files st @ (if fin then [\<lparr>sf_path = path, sf_base64 = b64_encode (chunks @ data)\<rparr>] else [])\<rparr>))))"
| "zip_step ZipError st = (if uz_open st = None then Inr st else Inl ''Invalid or encrypted ZIP'')"

fun zip_run :: "zip_event list \<Rightarrow> unzip_state \<Rightarrow> unzip_state checked" where
  "zip_run [] st = Inr st"
| "zip_run (e # es) st = and_then (zip_step e st) (zip_run es)"

definition unpackArchive :: "bundle_env \<Rightarrow> string \<Rightarrow> source_file list checked" where
  "unpackArchive env b =
     ensure (length b \<le> MAX_ARCHIVE) ''ZIP exceeds 10 MiB''
       (case find_end b of
          None \<Rightarrow> Inl ''Invalid ZIP directory''
        | Some e \<Rightarrow>
            and_then (read_u16 b (e + 10)) (\<lambda>entries.
            and_then (read_u32 b (e + 16)) (\<lambda>cursor.
            ensure (entries \<le> 200 \<and> read_u16 b (e + 4) = Inr 0 \<and> read_u16 b (e + 6) = Inr 0) ''Too many entries or multi-part ZIP''
            (and_then (scan_directory b e entries cursor) (\<lambda>_.
             and_then (zip_run (be_unzip env b) \<lparr>uz_files = [], uz_total = 0, uz_count = 0, uz_open = None\<rparr>) (\<lambda>st.
             ensure (uz_files st \<noteq> []) ''Empty or invalid ZIP'' (Inr (uz_files st))))))))"

section \<open>Manifest\<close>

definition scheme_char :: "char \<Rightarrow> bool" where
  "scheme_char c \<longleftrightarrow> ascii_lower c \<in> set ''abcdefghijklmnopqrstuvwxyz0123456789+.-''"

definition deep_link_ok :: "string \<Rightarrow> bool" where
  "deep_link_ok v \<longleftrightarrow>
     (case takeWhile scheme_char v of [] \<Rightarrow> False | c # _ \<Rightarrow> ascii_lower c \<in> set ''abcdefghijklmnopqrstuvwxyz'') \<and> prefix ''://'' (dropWhile scheme_char v) \<and>
     \<not> list_ex (\<lambda>s. prefix (s @ '':'') (to_lower v)) [''javascript'', ''data'', ''file'', ''content'', ''intent'', ''http'']"

definition z_check :: "(string \<Rightarrow> bool) \<Rightarrow> schema \<Rightarrow> schema" where
  "z_check p s v = (case s v of Some (JStr t) \<Rightarrow> if p t then Some (JStr t) else None | _ \<Rightarrow> None)"

definition actionSchema :: "bundle_env \<Rightarrow> schema" where
  "actionSchema env v =
     (let typed = (\<lambda>t more. z_object True ((''type'', Required (z_enum [t])) # more) v)
      in case js_get v ''type'' of
           Some (JStr t) \<Rightarrow>
             if t = ''dismiss'' then typed t []
             else if t = ''deep_link'' then typed t [(''url'', Required (z_check deep_link_ok (z_text 0 2048)))]
             else if t = ''open_url'' then typed t [(''url'', Required (z_check (\<lambda>u. be_url env u \<and> prefix ''https://'' u) (z_text 0 2048)))]
             else if t = ''copy'' then typed t [(''text'', Required (z_text 0 1000))]
             else None
         | _ \<Rightarrow> None)"

definition action_name :: "string \<Rightarrow> bool" where
  "action_name k \<longleftrightarrow> (case k of [] \<Rightarrow> False | c # s \<Rightarrow> is_letter_us c \<and> c \<noteq> CHR ''_'' \<and> length s \<le> 63 \<and> list_all is_key_char s)"

definition z_actions :: "bundle_env \<Rightarrow> schema" where
  "z_actions env v =
     (case v of
        JObj fs \<Rightarrow>
          if length fs \<le> 20 \<and> list_all (\<lambda>(k, w). action_name k \<and> actionSchema env w \<noteq> None) fs
          then Some (JObj (map (\<lambda>(k, w). (k, the (actionSchema env w))) fs)) else None
      | _ \<Rightarrow> None)"

definition z_number_in :: "rat \<Rightarrow> rat \<Rightarrow> schema" where
  "z_number_in lo hi v = (case v of JNum n \<Rightarrow> if num_le (Num lo) n \<and> num_le n (Num hi) then Some v else None | _ \<Rightarrow> None)"

definition literal :: "jsval \<Rightarrow> schema" where
  "literal x v = (if v = x then Some v else None)"

definition displaySchema :: schema where
  "displaySchema = z_object False
     [(''type'', Default (JStr ''modal'') (z_enum [''modal'', ''fullscreen'', ''bottom'', ''transparent''])),
      (''backdrop_opacity'', Default (JNum (Num (2 / 5))) (z_number_in 0 (7 / 10)))]"

text \<open>A default of an object schema is parsed by it, so \<open>.default({})\<close> yields its own defaults.\<close>

definition manifestSchema :: "bundle_env \<Rightarrow> schema" where
  "manifestSchema env = z_object True
     [(''format_version'', Default (JNum (Num 1)) (literal (JNum (Num 1)))), (''entrypoint'', Default (JStr ''index.html'') (literal (JStr ''index.html''))),
      (''bridge_version'', Default (JNum (Num 1)) (literal (JNum (Num 1)))), (''display'', Default (the (displaySchema (JObj []))) displaySchema),
      (''actions'', Default (JObj []) (z_actions env))]"

definition bundle_manifest :: "bundle_env \<Rightarrow> file_map \<Rightarrow> jsval option \<Rightarrow> jsval checked" where
  "bundle_manifest env fs input =
     (let source = (case input of
            Some v \<Rightarrow> if v \<noteq> JNull then Some v else None | None \<Rightarrow> None);
          raw = (case source of
            Some v \<Rightarrow> Some v
          | None \<Rightarrow> if map_has fs ''nudgeon.json''
                    then (case file_text fs ''nudgeon.json'' of Inl _ \<Rightarrow> None | Inr t \<Rightarrow> be_json env t) else Some (JObj []))
      in case Option.bind raw (manifestSchema env) of None \<Rightarrow> Inl ''Invalid nudgeon.json or action settings'' | Some m \<Rightarrow> Inr m)"

section \<open>References\<close>

text \<open>\<open>posix.dirname\<close>, and \<open>posix.normalize\<close> on a relative path\<close>

definition path_dirname :: "string \<Rightarrow> string" where
  "path_dirname p = (case butlast (split_on (CHR ''/'') p) of [] \<Rightarrow> ''.'' | ps \<Rightarrow> join ''/'' ps)"

definition push_segment :: "string list \<Rightarrow> string \<Rightarrow> string list" where
  "push_segment ps p =
     (if p = [] \<or> p = ''.'' then ps
      else if p = ''..'' then (if ps \<noteq> [] \<and> last ps \<noteq> ''..'' then butlast ps else ps @ [p])
      else ps @ [p])"

definition path_normalize :: "string \<Rightarrow> string" where
  "path_normalize p =
     (let r = join ''/'' (foldl push_segment [] (split_on (CHR ''/'') p)); q = (if r = [] then ''.'' else r)
      in if suffix ''/'' p then q @ ''/'' else q)"

definition resolve_ref :: "file_map \<Rightarrow> string \<Rightarrow> string \<Rightarrow> string checked" where
  "resolve_ref fs ref from_path =
     ensure (ref \<noteq> [] \<and> \<not> list_ex (\<lambda>c. c \<in> set '':?#%'' \<or> c = CHR 0x5C) ref \<and> \<not> prefix ''/'' ref) ''Use relative bundled assets''
       (and_then (safePath (path_normalize (path_dirname from_path @ ''/'' @ ref))) (\<lambda>path.
        ensure (map_has fs path) ''Missing asset'' (Inr path)))"

definition data_uri :: "file_map \<Rightarrow> string \<Rightarrow> string \<Rightarrow> string checked" where
  "data_uri fs ref from_path =
     and_then (resolve_ref fs ref from_path) (\<lambda>path.
       ensure (extension path \<in> set [''png'', ''jpg'', ''jpeg'', ''webp'', ''gif'', ''woff2'']) ''Invalid image/font''
         (Inr (''data:'' @ map_get_or mime_types [] (extension path) @ '';base64,'' @ b64_encode (map_get_or fs [] path))))"

section \<open>Styles\<close>

fun css_imports :: "css \<Rightarrow> bool" where
  "css_imports (CssAt name _ cs) = (to_lower name = ''import'' \<or> list_ex css_imports cs)"
| "css_imports (CssRule _ cs) = list_ex css_imports cs"
| "css_imports _ = False"

definition is_quote :: "char \<Rightarrow> bool" where
  "is_quote c \<longleftrightarrow> c = CHR 0x22 \<or> c = CHR 0x27"

definition strip_quotes :: "string \<Rightarrow> string" where
  "strip_quotes s =
     (let t = (case s of c # r \<Rightarrow> if is_quote c then r else s | [] \<Rightarrow> [])
      in if t \<noteq> [] \<and> is_quote (last t) then butlast t else t)"

fun rewrite_value :: "bundle_env \<Rightarrow> (string \<Rightarrow> string checked) \<Rightarrow> vnode \<Rightarrow> vnode checked" where
  "rewrite_value env data (VFun name ns) =
     (if to_lower name = ''url'' then and_then (data (strip_quotes (be_value_show env ns))) (\<lambda>uri. Inr (VFun name [VString uri]))
      else and_then (map_checked (rewrite_value env data) ns) (\<lambda>ms. Inr (VFun name ms)))"
| "rewrite_value env data v = Inr v"

fun rewrite_css :: "bundle_env \<Rightarrow> (string \<Rightarrow> string checked) \<Rightarrow> css \<Rightarrow> css checked" where
  "rewrite_css env data (CssDecl p v) =
     and_then (map_checked (rewrite_value env data) (be_value_parse env v)) (\<lambda>ns. Inr (CssDecl p (be_value_show env ns)))"
| "rewrite_css env data (CssAt n ps cs) = and_then (map_checked (rewrite_css env data) cs) (\<lambda>ds. Inr (CssAt n ps ds))"
| "rewrite_css env data (CssRule s cs) = and_then (map_checked (rewrite_css env data) cs) (\<lambda>ds. Inr (CssRule s ds))"
| "rewrite_css env data (CssComment c) = Inr (CssComment c)"

definition compile_css :: "bundle_env \<Rightarrow> file_map \<Rightarrow> string \<Rightarrow> string \<Rightarrow> string checked" where
  "compile_css env fs content from_path =
     (case be_css_parse env content of
        None \<Rightarrow> Inl ''Invalid CSS''
      | Some cs \<Rightarrow>
          ensure (\<not> list_ex css_imports cs) ''Bundle CSS locally''
            (and_then (map_checked (rewrite_css env (\<lambda>ref. data_uri fs ref from_path)) cs) (\<lambda>ds. Inr (be_css_show env ds))))"

section \<open>The document\<close>

definition refused_tags :: "string list" where
  "refused_tags = [''iframe'', ''frame'', ''frameset'', ''object'', ''embed'', ''base'', ''form'', ''svg'', ''math'', ''template'', ''video'', ''audio'']"

definition refused_attrs :: "string list" where
  "refused_attrs = [''srcdoc'', ''srcset'', ''ping'', ''action'', ''formaction'', ''target'', ''download'', ''nonce'']"

definition is_handler :: "string \<Rightarrow> bool" where
  "is_handler name \<longleftrightarrow> prefix ''on'' (to_lower name)"

definition visit_attr :: "bundle_env \<Rightarrow> file_map \<Rightarrow> string \<Rightarrow> string \<times> string \<Rightarrow> (string \<times> string) checked" where
  "visit_attr env fs tag a =
     (case a of (name, v) \<Rightarrow>
        ensure (\<not> is_handler name \<and> name \<notin> set refused_attrs) ''Unsupported attribute''
        (if name = ''style'' then and_then (compile_css env fs v ''index.html'') (\<lambda>c. Inr (name, c))
         else if name = ''href'' \<and> tag \<noteq> ''link'' then ensure (prefix ''#'' v) ''Use a registered action for navigation'' (Inr a)
         else if name = ''src'' \<and> tag \<noteq> ''script'' then
           ensure (tag = ''img'') ''Unsupported src'' (and_then (data_uri fs v ''index.html'') (\<lambda>uri. Inr (name, uri)))
         else Inr a))"

definition attr :: "string \<Rightarrow> (string \<times> string) list \<Rightarrow> string" where
  "attr name attrs = map_get_or attrs [] name"

definition word_char :: "char \<Rightarrow> bool" where
  "word_char c \<longleftrightarrow> is_key_char c \<and> c \<noteq> CHR ''-''"

text \<open>\<open>/\bimport\s*(?:\(|["'{*])/\<close>, read from a position whose previous character is \<open>p\<close>\<close>

definition import_at :: "char option \<Rightarrow> string \<Rightarrow> bool" where
  "import_at p s \<longleftrightarrow> (case p of None \<Rightarrow> True | Some c \<Rightarrow> \<not> word_char c) \<and> prefix ''import'' s \<and>
     (case strip_left js_ws (drop 6 s) of [] \<Rightarrow> False | c # _ \<Rightarrow> c \<in> set ''({*'' \<or> is_quote c)"

fun has_import_from :: "char option \<Rightarrow> string \<Rightarrow> bool" where
  "has_import_from p [] = False"
| "has_import_from p (c # s) = (import_at p (c # s) \<or> has_import_from (Some c) s)"

definition js_ok :: "string \<Rightarrow> bool" where
  "js_ok js \<longleftrightarrow> \<not> sublist ''</script'' (to_lower js) \<and> \<not> has_import_from None js"

definition script_hash :: "bundle_env \<Rightarrow> string \<Rightarrow> string" where
  "script_hash env js = CHR 0x27 # ''sha256-'' @ be_sha_base64 env js @ [CHR 0x27]"

definition checkJs :: "bundle_env \<Rightarrow> string \<Rightarrow> string list \<Rightarrow> (string \<times> string list) checked" where
  "checkJs env js hs = ensure (js_ok js) ''ES modules/dynamic import are not supported'' (Inr (js, hs @ [script_hash env js]))"

definition inner_text :: "dom list \<Rightarrow> string" where
  "inner_text ns = concat (map (\<lambda>n. case n of TextNode t \<Rightarrow> t | _ \<Rightarrow> []) ns)"

text \<open>The elements whose children become one text node, which the walk then leaves alone\<close>

definition visit_leaf ::
  "bundle_env \<Rightarrow> file_map \<Rightarrow> string \<Rightarrow> (string \<times> string) list \<Rightarrow> dom list \<Rightarrow> string list \<Rightarrow> (dom \<times> string list) checked" where
  "visit_leaf env fs tag attrs ch hs =
     (if tag = ''link'' then
        ensure (map_of attrs ''rel'' = Some ''stylesheet'' \<and> attr ''href'' attrs \<noteq> []) ''Only bundled stylesheets are supported''
          (and_then (resolve_ref fs (attr ''href'' attrs) ''index.html'') (\<lambda>path.
           and_then (file_text fs path) (\<lambda>t. and_then (compile_css env fs t path) (\<lambda>c. Inr (Element ''style'' [] [TextNode c], hs)))))
      else if tag = ''style'' then and_then (compile_css env fs (inner_text ch) ''index.html'') (\<lambda>c. Inr (Element tag attrs [TextNode c], hs))
      else
        ensure (list_all (\<lambda>(n, v). n = ''type'' \<longrightarrow> v \<in> {''text/javascript'', ''application/javascript''}) attrs) ''Use classic JavaScript''
          (and_then (if attr ''src'' attrs \<noteq> [] then and_then (resolve_ref fs (attr ''src'' attrs) ''index.html'') (file_text fs) else Inr (inner_text ch)) (\<lambda>js.
           and_then (checkJs env js hs) (\<lambda>(js1, hs1). Inr (Element tag [] [TextNode js1], hs1)))))"

fun visit :: "bundle_env \<Rightarrow> file_map \<Rightarrow> dom \<Rightarrow> string list \<Rightarrow> (dom \<times> string list) checked"
  and visit_all :: "bundle_env \<Rightarrow> file_map \<Rightarrow> dom list \<Rightarrow> string list \<Rightarrow> (dom list \<times> string list) checked" where
  "visit env fs (Element tag attrs ch) hs =
     ensure (tag \<notin> set refused_tags) ''Unsupported element''
     (ensure (\<not> (tag = ''meta'' \<and> map_has attrs ''http-equiv'')) ''http-equiv is managed by NudgeOn''
     (ensure (\<not> (tag = ''input'' \<and> list_ex (\<lambda>(n, v). n = ''type'' \<and> to_lower v = ''file'') attrs)) ''File inputs are not supported''
     (and_then (map_checked (visit_attr env fs tag) attrs) (\<lambda>attrs1.
        if tag \<in> {''link'', ''style'', ''script''} then visit_leaf env fs tag attrs1 ch hs
        else and_then (visit_all env fs ch hs) (\<lambda>r. Inr (Element tag attrs1 (fst r), snd r))))))"
| "visit env fs n hs = Inr (n, hs)"
| "visit_all env fs [] hs = Inr ([], hs)"
| "visit_all env fs (n # ns) hs =
     and_then (visit env fs n hs) (\<lambda>r. and_then (visit_all env fs ns (snd r)) (\<lambda>q. Inr (fst r # fst q, snd q)))"

definition quoted :: "char \<Rightarrow> string \<Rightarrow> string" where
  "quoted c s = c # s @ [c]"

definition none_src :: string where
  "none_src = quoted (CHR 0x27) ''none''"

definition csp :: "string list \<Rightarrow> string" where
  "csp hs = ''default-src '' @ none_src @ ''; script-src '' @ join '' '' hs @ ''; style-src '' @ quoted (CHR 0x27) ''unsafe-inline'' @
     ''; img-src data:; font-src data:; connect-src '' @ none_src @ ''; frame-src '' @ none_src @ ''; worker-src '' @ none_src @
     ''; object-src '' @ none_src @ ''; base-uri '' @ none_src @ ''; form-action '' @ none_src"

definition head_insert :: "bundle_env \<Rightarrow> string list \<Rightarrow> string" where
  "head_insert env hs = ''<head><meta http-equiv='' @ quoted (CHR 0x22) ''Content-Security-Policy'' @ '' content='' @ quoted (CHR 0x22) (csp hs) @
     ''><meta name='' @ quoted (CHR 0x22) ''referrer'' @ '' content='' @ quoted (CHR 0x22) ''no-referrer'' @ ''><script>'' @ be_bridge env @ ''</script>''"

text \<open>\<open>s.replace(pat, rep)\<close> for a replacement without a dollar sign\<close>

fun replace_first :: "string \<Rightarrow> string \<Rightarrow> string \<Rightarrow> string" where
  "replace_first pat rep [] = (if pat = [] then rep else [])"
| "replace_first pat rep (c # s) = (if prefix pat (c # s) then rep @ drop (length pat) (c # s) else c # replace_first pat rep s)"

record compiled_bundle =
  cb_html :: string
  cb_manifest :: jsval
  cb_sha :: string
  cb_bytes :: nat
  cb_files :: "source_file list"

definition compileBundle :: "bundle_env \<Rightarrow> source_file list \<Rightarrow> jsval option \<Rightarrow> compiled_bundle checked" where
  "compileBundle env src input =
     and_then (load_files src) (\<lambda>(fs, n).
     and_then (bundle_manifest env fs input) (\<lambda>manifest.
     and_then (file_text fs ''index.html'') (\<lambda>index.
     and_then (visit_all env fs (be_parse env index) []) (\<lambda>(doc, hs0).
     and_then (checkJs env (be_bridge env) hs0) (\<lambda>(_, hs).
     let html = replace_first ''<head>'' (head_insert env hs) (be_serialize env doc)
     in ensure (length html \<le> MAX_TOTAL) ''Compiled document exceeds 30 MiB''
          (Inr \<lparr>cb_html = html, cb_manifest = manifest, cb_sha = be_sha env html, cb_bytes = n, cb_files = src\<rparr>))))))"

text \<open>The worker: the files of the request, or those of its archive\<close>

definition validate_worker :: "bundle_env \<Rightarrow> source_file list option \<Rightarrow> string \<Rightarrow> jsval option \<Rightarrow> compiled_bundle checked" where
  "validate_worker env given archive manifest =
     and_then (case given of Some fs \<Rightarrow> Inr fs | None \<Rightarrow> unpackArchive env archive) (\<lambda>fs. compileBundle env fs manifest)"

end
