(* ===== verification/Spec2Isabelle.thy ===== *)
theory Spec2Isabelle
  imports Segment_Safety Journey_Durations Content_Properties Rate_Limit Bootstrap Ingestion InApp_Safety Campaign_Admin Bundle_Properties
begin

text \<open>
  \<^bold>\<open>Verification of the NudgeOn platform.\<close>

  NudgeOn is a multi-tenant customer-engagement platform. Its TypeScript part is an API server (\<open>src/apps/api/src\<close>) with the packages
  it shares with the console (\<open>src/packages\<close>). Devices and servers send events through the ingestion API under an API key; members of a
  tenant define segments and journeys in the console; in-app messages are decided per installation. The development models these parts as
  executable functions and proves what they promise.

  \<^bold>\<open>Conventions.\<close> A handler is a function of the request, the clock and the database; it returns an error value or a result with the new state
  (\<open>outcome\<close>), or both when the source commits work before it fails (\<open>reply\<close>). A table is a record field holding the list of its rows, a
  transaction is one step, and the unique indexes of the schema are branches of the insertions. Times are milliseconds in \<^typ>\<open>int\<close>. Strings are UTF-8 byte
  lists. Random values and generated ids are arguments, as are the functions that are not part of the repository: SHA-256, AES and Argon2 (the
  record \<open>crypto\<close>), \<open>lower\<close> and the calendar of the database, UUID, e-mail, date and time zone checks of zod and Intl, and the JSON schemas of the queue.

  \<^bold>\<open>Theories.\<close>

  \<^item> \<open>Prelude\<close>: JavaScript values, strings, insertion-ordered maps, errors and transactions, tables, and the interfaces \<open>invariant_system\<close>,
    \<open>one_shot_system\<close> and \<open>budget_system\<close> through which the stateful components state that requests keep an invariant, that a resource is
    granted once, and that a budget bounds what is spent.

  \<^item> \<open>Segment_DSL\<close>, \<open>Segment_Safety\<close> (\<open>packages/segment-dsl/src/index.ts\<close>): the compiler from segment definitions to SQL. A second definition in
    fragments is the specification; the interface \<open>fragment_emitter\<close> relates both. Shown: the text uses a fixed vocabulary and every value is a bound argument, the
    query is confined to tenant and app, \<open>toClickHouse\<close> binds each placeholder to its argument, and which definitions compile.

  \<^item> \<open>Graph_Core\<close>, \<open>Journey_Model\<close>, \<open>Journey_Validation\<close>, \<open>Journey_Properties\<close> (\<open>packages/journey-model/src\<close>): the journey data model, the graph algorithms
    (topological sort and depth-first search, total by a measure) and the validator. Shown: the validator accepts exactly the well-formed definitions, runs of
    an accepted graph end, its branch conditions compile, published allocations never move, and a linear definition becomes a valid graph.

  \<^item> \<open>Journey_Editor\<close>, \<open>Journey_Editing\<close>, \<open>Journey_Drafts\<close>, \<open>Journey_Durations\<close> (\<open>apps/console/src/app/journeys\<close>): the logic of the journey editor: templates, the reader, the graph
    operations, undo and the waiting time. The interface \<open>id_policy\<close> states what the operations need of ids and is interpreted for the server and the console. Shown: every draft of an editing session passes the
    graph validation and stays readable, what the server accepts opens in the editor, undo restores the opened draft, and the shown waiting time is exact.

  \<^item> \<open>Auth_Store\<close>: the tables of authentication, sessions (\<open>auth/session.service.ts\<close>, \<open>auth/session.guard.ts\<close>) and the audit log.

  \<^item> \<open>Members\<close> (\<open>authz\<close>, \<open>members\<close>): roles, permissions and team administration. Shown: a tenant keeps an active owner, only owners touch owners, requests stay
    in their tenant, and a changed member loses all sessions.

  \<^item> \<open>Totp_Codes\<close>, \<open>Totp_Service\<close> (\<open>auth/totp.ts\<close>, \<open>crypto/envelope.ts\<close>, \<open>auth/totp.service.ts\<close>): one-time codes on 32-bit words, base32, sealed secrets, enrolment and
    verification with lockout. Shown: base32 is the encoding of RFC 4648 and round trips, the shown code is accepted, a code and a backup code work once, and wrong guesses
    are bounded.

  \<^item> \<open>Api_Keys\<close>, \<open>Login\<close>, \<open>Bootstrap\<close> (\<open>auth\<close>, \<open>apps\<close>, \<open>tenant\<close>): keys with rotation and usage recording, sign-up and login, and the installation of a self-hosted
    instance. Shown: a revoked key never resolves again under sequential requests (and how a rotation that overlaps the revocation revives it), at most two usage writes are under way, a login passes every factor, an
    enrolment session is confined, only the holder of the setup code becomes owner, and a secured installation stays as it is.

  \<^item> \<open>Journey_Contract\<close>, \<open>Stored_Json\<close>, \<open>Segment_Admin\<close>, \<open>Journey_Admin\<close>, \<open>Content_Safety\<close>, \<open>Content_Properties\<close> (\<open>segments\<close>, \<open>journeys\<close>): the request schemas and the handlers of the segment and
    journey APIs over their tables, with the revision of a draft, activation, archiving and the audience queries. \<open>jsonb_law\<close> is what is relied on of a \<open>jsonb\<close> column. Shown: published versions are consecutive, valid and keep their
    allocations, every campaign version has one entry job, a reviewed draft is what is published, archiving is final, stored segments compile (and how a number that overflows breaks one), and requests stay in their tenant.

  \<^item> \<open>Rate_Limit\<close> (\<open>rate-limit\<close>): the token buckets. Shown: a bound on the requests admitted in any interval, and that waiting for the announced delay suffices.

  \<^item> \<open>Event_Receipts\<close>, \<open>Ingestion\<close> (\<open>ingestion\<close>, \<open>packages/libqueue-ts\<close>): the schemas and handlers of the ingestion API and the transaction behind event tracking. Shown: receipts are
    unique and numbered without gaps, an accepted batch is durable, a retry changes nothing, and every queued message is authorised by the key that was presented.

  \<^item> \<open>InApp_Campaigns\<close>, \<open>InApp_Delivery\<close>, \<open>InApp_Safety\<close> (\<open>in-app\<close>): campaigns from draft to publication and pause, and their delivery to installations. Shown: limits on how often a
    campaign is displayed, that an authorisation is for the published version in its window, that a pause is final for what was handed out, and that reported events are backed by an
    authorisation.

  \<^item> \<open>InApp_Workbench\<close>, \<open>Workbench_Safety\<close>, \<open>Workbench_Properties\<close> (\<open>in-app/workbench.service.ts\<close> and its two controllers, \<open>in-app/assets.service.ts\<close>): uploaded revisions, test devices that are paired
    and confirmed, and test runs with their events. Every request is decomposed into the table writes it commits (\<open>wb_write\<close>). Shown: one open run per device, bounded and backed events, the
    quota of a tenant, one delivery per run and only to a confirmed device. Ids in upper case break two of the handlers.

  \<^item> \<open>Campaign_Admin\<close> (\<open>in-app/campaign.controller.ts\<close>): the campaign handlers of the console over one database (\<open>studio_db\<close>) with the workbench and the delivery. Shown: every delivery, for any
    interleaving of console, test-device and installation requests, has a revision that passed a test on a confirmed device of the installation's platform.

  \<^item> \<open>InApp_Bundle\<close>, \<open>Bundle_Properties\<close> (\<open>in-app/bundle.ts\<close>): unpacking, file limits, manifest and the rewriting of a bundle into one page, over the syntax trees of the HTML, CSS and ZIP
    libraries, which are parameters. Shown: the page is clean, its scripts are pinned by the policy, archives stay within their limits, base64 round trips; and that a page can lose its policy.

  \<^bold>\<open>Components together.\<close> \<open>Ingestion\<close> runs its handlers behind the API-key guard of \<open>Api_Keys\<close> and the buckets of \<open>Rate_Limit\<close>; \<open>Login\<close> uses \<open>Totp_Service\<close> and the sessions of
  \<open>Auth_Store\<close>; \<open>Bootstrap\<close> creates the first workspace with the same insertions as the sign-up; the branch conditions that \<open>Journey_Validation\<close> accepts are compiled by \<open>Segment_DSL\<close>; \<open>Journey_Admin\<close>
  publishes what \<open>Journey_Validation\<close> accepts and snapshots audiences with the queries of \<open>Segment_DSL\<close> over the segments that \<open>Segment_Admin\<close> stored; the campaign service
  of \<open>InApp_Campaigns\<close> reads the tables of \<open>InApp_Workbench\<close> through \<open>workbench_view\<close>, and \<open>Campaign_Admin\<close> runs both with \<open>InApp_Delivery\<close>.

  \<^bold>\<open>Bounds.\<close> No definition needs fuel: loops are structural or have a measure. The chase of merged users ends because its visited set grows, as in the source, and the retry loop of event
  receipts has the source's own limit. Database faults and concurrent changes between two attempts are inputs of the attempt.

  \<^bold>\<open>Not modelled.\<close> The rest of the console and the documentation and marketing sites are React pages and static content; every rule they show is enforced by the API. Provider webhooks, test sends, template and
  credential administration and the analytics, user and data views are SQL statements and calls to services outside the repository. The ZIP, HTML and CSS
  libraries of the bundle compiler, its worker thread, the bridge script inside a page and the preview server of the workbench are not modelled either. The Go worker, the SDKs and the deployment scripts are written in other languages. Process start-up, connection pools and metrics have no
  behaviour that the properties depend on.
\<close>

end
